(* ===== verification/FatPrelude.thy ===== *)
theory FatPrelude
  imports Main "HOL-Library.Word"
begin

unbundle bit_operations_syntax

text \<open>
  What the components of the development share: the Windows integer types, the byte memory
  that stands for cached file data with its little-endian reads and writes, the raised
  statuses, the operations that thread a state and may raise (with the try/finally of
  structured exception handling), counted loops over machine words, and the lemmas on words
  that the component proofs use.
\<close>

named_theorems fat_mem \<open>reads of the byte memory over writes to it\<close>
named_theorems fat_op \<open>unfolding of the operations that may raise\<close>

section \<open>Integer types\<close>

type_synonym UCHAR = "8 word"
type_synonym USHORT = "16 word"
type_synonym ULONG = "32 word"
type_synonym VBO = "32 word"
type_synonym LBO = "64 word"

abbreviation MAXULONG :: ULONG where
  "MAXULONG \<equiv> 0xffffffff"

section \<open>Byte memory\<close>

text \<open>
  Cached file data is a map from byte offsets to bytes. The driver runs on little-endian
  machines only and reads multi-byte fields through pointers or through the CopyUchar macros.
\<close>

type_synonym mem = "nat \<Rightarrow> UCHAR"

definition get16 :: "mem \<Rightarrow> nat \<Rightarrow> USHORT" where
  "get16 m a = ucast (m a) OR push_bit 8 (ucast (m (a + 1)))"

definition get32 :: "mem \<Rightarrow> nat \<Rightarrow> ULONG" where
  "get32 m a = ucast (get16 m a) OR push_bit 16 (ucast (get16 m (a + 2)))"

definition put16 :: "mem \<Rightarrow> nat \<Rightarrow> USHORT \<Rightarrow> mem" where
  "put16 m a v = m(a := ucast v, a + 1 := ucast (drop_bit 8 v))"

definition put32 :: "mem \<Rightarrow> nat \<Rightarrow> ULONG \<Rightarrow> mem" where
  "put32 m a v = put16 (put16 m a (ucast v)) (a + 2) (ucast (drop_bit 16 v))"

lemma ucast_OR_push8_low: "ucast ((ucast (x::8 word) :: 16 word) OR push_bit 8 (ucast (y::8 word))) = x"
  by (rule bit_word_eqI) (auto simp: bit_simps)

lemma get16_put16_same [fat_mem, simp]: "get16 (put16 m a v) a = v"
  unfolding get16_def put16_def
  by (rule bit_word_eqI) (auto simp: bit_simps)

lemma put16_other [fat_mem]: "b < a \<or> a + 2 \<le> b \<Longrightarrow> put16 m a v b = m b"
  unfolding put16_def by auto

lemma get16_put16_other [fat_mem]: "b + 2 \<le> a \<or> a + 2 \<le> b \<Longrightarrow> get16 (put16 m a v) b = get16 m b"
  unfolding get16_def by (auto simp: put16_other)

lemma get32_put32_same [fat_mem, simp]: "get32 (put32 m a v) a = v"
proof -
  have "get16 (put32 m a v) a = ucast v"
    by (simp add: put32_def get16_put16_other)
  moreover have "get16 (put32 m a v) (a + 2) = ucast (drop_bit 16 v)"
    by (simp add: put32_def)
  ultimately show ?thesis
    unfolding get32_def by (auto intro!: bit_word_eqI simp: bit_simps)
qed

lemma put32_other [fat_mem]: "b < a \<or> a + 4 \<le> b \<Longrightarrow> put32 m a v b = m b"
  unfolding put32_def by (auto simp: put16_other)

lemma get16_put32_other [fat_mem]: "b + 2 \<le> a \<or> a + 4 \<le> b \<Longrightarrow> get16 (put32 m a v) b = get16 m b"
  unfolding get16_def by (auto simp: put32_other)

lemma get32_put32_other [fat_mem]: "b + 4 \<le> a \<or> a + 4 \<le> b \<Longrightarrow> get32 (put32 m a v) b = get32 m b"
  unfolding get32_def by (auto simp: get16_put32_other)

lemma get16_cong: "m a = m' a \<Longrightarrow> m (a + 1) = m' (a + 1) \<Longrightarrow> get16 m a = get16 m' a"
  by (simp add: get16_def)

lemma get32_cong: "(\<And>k. k < 4 \<Longrightarrow> m (a + k) = m' (a + k)) \<Longrightarrow> get32 m a = get32 m' a"
proof -
  assume *: "\<And>k. k < 4 \<Longrightarrow> m (a + k) = m' (a + k)"
  have "get16 m a = get16 m' a"
    using *[of 0] *[of 1] by (auto intro: get16_cong)
  moreover have "get16 m (a + 2) = get16 m' (a + 2)"
    using *[of 2] *[of 3] by (intro get16_cong) (simp_all add: numeral_2_eq_2 numeral_3_eq_3)
  ultimately show ?thesis by (simp add: get32_def)
qed

section \<open>Raised statuses and operations that may raise\<close>

text \<open>
  A status the driver raises, a status the cache manager raises into the driver
  (\<open>STATUS_RAISED\<close> with its code), or a bug check with its three parameters, after which
  the machine stops.
\<close>

datatype ntstatus =
    STATUS_FILE_CORRUPT_ERROR
  | STATUS_DISK_FULL
  | STATUS_FILE_INVALID
  | STATUS_CANT_WAIT
  | STATUS_INSUFFICIENT_RESOURCES
  | STATUS_CANNOT_MAKE
  | STATUS_RAISED ULONG
  | FAT_BUG_CHECK ULONG ULONG ULONG

type_synonym ('s, 'a) fat_op = "'s \<Rightarrow> (ntstatus + 'a) \<times> 's"

definition ret :: "'a \<Rightarrow> ('s, 'a) fat_op" where
  "ret x s = (Inr x, s)"

definition raise_status :: "ntstatus \<Rightarrow> ('s, 'a) fat_op" where
  "raise_status e s = (Inl e, s)"

definition modify :: "('s \<Rightarrow> 's) \<Rightarrow> ('s, unit) fat_op" where
  "modify f s = (Inr (), f s)"

definition seq :: "('s, 'a) fat_op \<Rightarrow> ('a \<Rightarrow> ('s, 'b) fat_op) \<Rightarrow> ('s, 'b) fat_op" where
  "seq m k s = (case m s of (Inl e, s') \<Rightarrow> (Inl e, s') | (Inr x, s') \<Rightarrow> k x s')"

text \<open>
  \<open>try_finally m f\<close> runs \<open>m\<close> and then the finally block \<open>f\<close>, whose argument is what
  AbnormalTermination() answers there. A status raised inside the finally block replaces
  the one being unwound.
\<close>

definition try_finally :: "('s, 'a) fat_op \<Rightarrow> (bool \<Rightarrow> ('s, unit) fat_op) \<Rightarrow> ('s, 'a) fat_op" where
  "try_finally m f s =
     (case m s of
        (Inl e, s') \<Rightarrow> (case f True s' of (Inl e', s'') \<Rightarrow> (Inl e', s'') | (Inr _, s'') \<Rightarrow> (Inl e, s''))
      | (Inr x, s') \<Rightarrow> (case f False s' of (Inl e', s'') \<Rightarrow> (Inl e', s'') | (Inr _, s'') \<Rightarrow> (Inr x, s'')))"

lemma ret_eq [fat_op, simp]: "ret x s = (Inr x, s)"
  by (simp add: ret_def)

lemma raise_eq [fat_op, simp]: "raise_status e s = (Inl e, s)"
  by (simp add: raise_status_def)

lemma modify_eq [fat_op, simp]: "modify f s = (Inr (), f s)"
  by (simp add: modify_def)

lemma seq_eq_Inr: "seq m k s = (Inr y, t) \<longleftrightarrow> (\<exists>x s1. m s = (Inr x, s1) \<and> k x s1 = (Inr y, t))"
  by (auto simp: seq_def split: prod.splits sum.splits)

lemma seq_eq_Inl:
  "seq m k s = (Inl e, t) \<longleftrightarrow>
     m s = (Inl e, t) \<or> (\<exists>x s1. m s = (Inr x, s1) \<and> k x s1 = (Inl e, t))"
  by (auto simp: seq_def split: prod.splits sum.splits)

lemma seq_Inr [fat_op]: "m s = (Inr x, s1) \<Longrightarrow> seq m k s = k x s1"
  by (simp add: seq_def)

lemma seq_Inl [fat_op]: "m s = (Inl e, s1) \<Longrightarrow> seq m k s = (Inl e, s1)"
  by (simp add: seq_def)

lemma seq_ret: "seq (ret x) k = k x"
  by (rule ext) (simp add: seq_def)

lemma seq_assoc: "seq (seq m k) k' = seq m (\<lambda>x. seq (k x) k')"
  by (rule ext) (auto simp: seq_def split: prod.splits sum.splits)

lemma try_finally_eq_Inr:
  "try_finally m f s = (Inr x, t) \<longleftrightarrow> (\<exists>s1. m s = (Inr x, s1) \<and> f False s1 = (Inr (), t))"
  by (auto simp: try_finally_def split: prod.splits sum.splits)

text \<open>
  An operation keeps a predicate when it holds of the state afterwards, raised or not.
\<close>

definition keeps :: "('s \<Rightarrow> bool) \<Rightarrow> ('s, 'a) fat_op \<Rightarrow> bool" where
  "keeps P m \<longleftrightarrow> (\<forall>s. P s \<longrightarrow> P (snd (m s)))"

lemma keepsI: "(\<And>s. P s \<Longrightarrow> P (snd (m s))) \<Longrightarrow> keeps P m"
  by (simp add: keeps_def)

lemma keepsD: "keeps P m \<Longrightarrow> P s \<Longrightarrow> m s = (r, t) \<Longrightarrow> P t"
  by (metis keeps_def snd_conv)

lemma keeps_ret: "keeps P (ret x)"
  by (simp add: keeps_def)

lemma keeps_seq: "keeps P m \<Longrightarrow> (\<And>x. keeps P (k x)) \<Longrightarrow> keeps P (seq m k)"
  unfolding keeps_def seq_def by (fastforce split: prod.splits sum.splits)

lemma keeps_try_finally: "keeps P m \<Longrightarrow> (\<And>b. keeps P (f b)) \<Longrightarrow> keeps P (try_finally m f)"
proof (rule keepsI)
  fix s assume m: "keeps P m" and f: "\<And>b. keeps P (f b)" and "P s"
  obtain r s1 where r: "m s = (r, s1)" by force
  have "P s1" using keepsD[OF m \<open>P s\<close> r] .
  then have "P (snd (f b s1))" for b using f by (simp add: keeps_def)
  then show "P (snd (try_finally m f s))"
    by (simp add: try_finally_def r prod.case_eq_if sum.case_eq_if)
qed

section \<open>Counted loops\<close>

text \<open>
  \<open>for (i = lo; i <= hi; i++)\<close> over ULONG runs \<open>for_count lo hi\<close> times when \<open>hi\<close> is not
  the largest ULONG; \<open>for_loop n f i s\<close> runs the body \<open>f\<close> for \<open>i, i+1, \<dots>\<close>, \<open>n\<close> times.
\<close>

definition for_count :: "ULONG \<Rightarrow> ULONG \<Rightarrow> nat" where
  "for_count lo hi = (if lo \<le> hi then Suc (unat (hi - lo)) else 0)"

primrec for_loop :: "nat \<Rightarrow> (ULONG \<Rightarrow> 's \<Rightarrow> 's) \<Rightarrow> ULONG \<Rightarrow> 's \<Rightarrow> 's" where
  "for_loop 0 f i s = s"
| "for_loop (Suc n) f i s = for_loop n f (i + 1) (f i s)"

lemma for_loop_Suc_end:
  "for_loop (Suc n) f i s = f (i + of_nat n) (for_loop n f i s)"
proof (induction n arbitrary: i s)
  case (Suc n)
  have "for_loop (Suc (Suc n)) f i s = f (i + 1 + of_nat n) (for_loop n f (i + 1) (f i s))"
    using Suc.IH by (simp only: for_loop.simps(2))
  then show ?case by (simp add: algebra_simps)
qed simp

lemma for_loop_invariant:
  assumes "I 0 s" and "\<And>k s. k < n \<Longrightarrow> I k s \<Longrightarrow> I (Suc k) (f (i + of_nat k) s)"
  shows "I n (for_loop n f i s)"
  using assms
proof (induction n)
  case (Suc n)
  then have "I n (for_loop n f i s)" by simp
  with Suc.prems(2)[of n] show ?case by (simp only: for_loop_Suc_end lessI)
qed simp

text \<open>The same loop over a body that may raise; \<open>x\<close> holds the locals the body updates.\<close>

primrec for_op :: "nat \<Rightarrow> (ULONG \<Rightarrow> 'x \<Rightarrow> ('s, 'x) fat_op) \<Rightarrow> ULONG \<Rightarrow> 'x \<Rightarrow> ('s, 'x) fat_op" where
  "for_op 0 f i x = ret x"
| "for_op (Suc n) f i x = seq (f i x) (for_op n f (i + 1))"

lemma for_op_invariant:
  assumes "I 0 x s" and "for_op n f i x s = (Inr y, t)"
    and "\<And>k x s x' s'. k < n \<Longrightarrow> I k x s \<Longrightarrow> f (i + of_nat k) x s = (Inr x', s') \<Longrightarrow> I (Suc k) x' s'"
  shows "I n y t"
  using assms
proof (induction n arbitrary: I i x s)
  case (Suc n)
  from Suc.prems(2) obtain x1 s1 where 1: "f i x s = (Inr x1, s1)" "for_op n f (i + 1) x1 s1 = (Inr y, t)"
    by (auto simp: seq_eq_Inr)
  have "I (Suc 0) x1 s1" using Suc.prems(3)[of 0 x s] Suc.prems(1) 1(1) by simp
  from Suc.IH[of "\<lambda>k. I (Suc k)", OF this 1(2)] show ?case
    using Suc.prems(3)[of "Suc _"] by (simp add: algebra_simps)
qed simp

lemma for_op_keeps: "(\<And>i x. keeps P (f i x)) \<Longrightarrow> keeps P (for_op n f i x)"
  by (induction n arbitrary: i x) (auto intro: keeps_ret keeps_seq)

section \<open>Words\<close>

lemma word_eq_bits: "a = b \<longleftrightarrow> (\<forall>n<LENGTH('a). bit a n \<longleftrightarrow> bit b n)" for a b :: "'a::len word"
  by (auto intro: bit_word_eqI)

lemma unat_add_small:
  "unat (a :: 'a::len word) + unat b < 2 ^ LENGTH('a) \<Longrightarrow> unat (a + b) = unat a + unat b"
  by (simp add: unat_word_ariths)

lemma unat_mult_small:
  "unat (a :: 'a::len word) * unat b < 2 ^ LENGTH('a) \<Longrightarrow> unat (a * b) = unat a * unat b"
  by (simp add: unat_word_ariths)

lemma unat_sub_le: "b \<le> a \<Longrightarrow> unat (a - b) = unat a - unat (b :: 'a::len word)"
  by (rule unat_sub)

lemma unat_of_nat_small: "n < 2 ^ LENGTH('a) \<Longrightarrow> unat (of_nat n :: 'a::len word) = n"
  by (simp add: unat_of_nat take_bit_eq_mod)

lemma unat_ucast_up [simp]:
  "LENGTH('a) \<le> LENGTH('b) \<Longrightarrow> unat (ucast (x :: 'a::len word) :: 'b::len word) = unat x"
proof -
  assume "LENGTH('a) \<le> LENGTH('b)"
  then have "(2::nat) ^ LENGTH('a) \<le> 2 ^ LENGTH('b)" by (rule power_increasing) simp
  moreover have "unat x < 2 ^ LENGTH('a)" by (rule unsigned_less)
  ultimately have "unat x < 2 ^ LENGTH('b)" by (rule order_less_le_trans[rotated])
  then show ?thesis by (simp only: unsigned_ucast_eq take_bit_eq_mod mod_less)
qed

lemma unat_drop_bit_div: "unat (drop_bit n w) = unat (w :: 'a::len word) div 2 ^ n"
  by (subst unat_drop_bit_eq) (rule drop_bit_eq_div)

lemma unat_push_bit_mult:
  "unat (push_bit n w) = unat (w :: 'a::len word) * 2 ^ n mod 2 ^ LENGTH('a)"
  by (subst unsigned_push_bit_eq) (simp add: push_bit_eq_mult take_bit_eq_mod)

lemma unat_lt8: "unat (v :: UCHAR) < 2 ^ 8"
proof -
  have "unat v < 2 ^ LENGTH(8)" by (rule unsigned_less)
  then show ?thesis by simp
qed

lemma unat_lt16: "unat (v :: USHORT) < 2 ^ 16"
proof -
  have "unat v < 2 ^ LENGTH(16)" by (rule unsigned_less)
  then show ?thesis by simp
qed

lemma unat_lt32: "unat (v :: ULONG) < 2 ^ 32"
proof -
  have "unat v < 2 ^ LENGTH(32)" by (rule unsigned_less)
  then show ?thesis by simp
qed

lemma unat_pow2_32: "n < 32 \<Longrightarrow> unat (2 ^ n :: ULONG) = 2 ^ n"
proof -
  assume "n < 32"
  then have "(2::nat) ^ n < 2 ^ 32" by (rule power_strict_increasing) simp
  then show ?thesis using unat_of_nat_small[of "2 ^ n", where 'a = 32] by simp
qed

lemma bit32_lt: "bit (v :: ULONG) n \<Longrightarrow> n < 32"
  using bit_imp_le_length[of v n] by simp

lemma unat_add_of_nat32:
  "unat (a :: ULONG) + n < 2 ^ 32 \<Longrightarrow> unat (a + of_nat n) = unat a + n"
  by (subst unat_add_small) (simp_all add: unat_of_nat_small)

lemma word_less_nat: "a < b \<longleftrightarrow> unat (a :: 'a::len word) < unat b"
  by (rule word_less_nat_alt)

lemma word_le_nat: "a \<le> b \<longleftrightarrow> unat (a :: 'a::len word) \<le> unat b"
  by (rule word_le_nat_alt)

end
