(* ===== verification/FatVcb.thy ===== *)
theory FatVcb
  imports FatPrelude
begin

text \<open>
  The volume control block as the allocation code sees it, and the geometry of a FAT volume:
  the BIOS parameter block and its derived sizes (the macros of fat.h), the boot sector check
  of fsctrl.c, FatLogOf and the part of FatSetupAllocationSupport that fills
  Vcb->AllocationSupport. Sizes are computed as the 32-bit build computes them.
\<close>

section \<open>The BIOS parameter block\<close>

record BIOS_PARAMETER_BLOCK =
  BytesPerSector :: USHORT
  SectorsPerCluster :: UCHAR
  ReservedSectors :: USHORT
  Fats :: UCHAR
  RootEntries :: USHORT
  Sectors :: USHORT
  Media :: UCHAR
  SectorsPerFat :: USHORT
  SectorsPerTrack :: USHORT
  Heads :: USHORT
  HiddenSectors :: ULONG
  LargeSectors :: ULONG
  LargeSectorsPerFat :: ULONG
  ExtendedFlags :: USHORT
  FsVersion :: USHORT
  RootDirFirstCluster :: ULONG
  FsInfoSector :: USHORT
  BackupBootSector :: USHORT

definition MirrorDisabled :: "BIOS_PARAMETER_BLOCK \<Rightarrow> bool" where
  "MirrorDisabled B = bit (ExtendedFlags B) 7"

text \<open>The packed block starts at offset \<open>p\<close> of the byte memory; offsets are those of PACKED\_BIOS\_PARAMETER\_BLOCK\_EX.\<close>

definition FatUnpackBios :: "mem \<Rightarrow> nat \<Rightarrow> BIOS_PARAMETER_BLOCK" where
  "FatUnpackBios m p =
     \<lparr> BytesPerSector = get16 m p,
       SectorsPerCluster = m (p + 2),
       ReservedSectors = get16 m (p + 3),
       Fats = m (p + 5),
       RootEntries = get16 m (p + 6),
       Sectors = get16 m (p + 8),
       Media = m (p + 10),
       SectorsPerFat = get16 m (p + 11),
       SectorsPerTrack = get16 m (p + 13),
       Heads = get16 m (p + 15),
       HiddenSectors = get32 m (p + 17),
       LargeSectors = get32 m (p + 21),
       LargeSectorsPerFat = get32 m (p + 25),
       ExtendedFlags = get16 m (p + 29),
       FsVersion = get16 m (p + 31),
       RootDirFirstCluster = get32 m (p + 33),
       FsInfoSector = get16 m (p + 37),
       BackupBootSector = get16 m (p + 39) \<rparr>"

definition IsBpbFat32 :: "BIOS_PARAMETER_BLOCK \<Rightarrow> bool" where
  "IsBpbFat32 B = (SectorsPerFat B = 0)"

definition FatBytesPerCluster :: "BIOS_PARAMETER_BLOCK \<Rightarrow> ULONG" where
  "FatBytesPerCluster B = ucast (BytesPerSector B) * ucast (SectorsPerCluster B)"

definition FatBytesPerFat :: "BIOS_PARAMETER_BLOCK \<Rightarrow> ULONG" where
  "FatBytesPerFat B =
     (if IsBpbFat32 B then ucast (BytesPerSector B) * LargeSectorsPerFat B
      else ucast (BytesPerSector B) * ucast (SectorsPerFat B))"

definition FatReservedBytes :: "BIOS_PARAMETER_BLOCK \<Rightarrow> ULONG" where
  "FatReservedBytes B = ucast (BytesPerSector B) * ucast (ReservedSectors B)"

definition FatRootDirectorySize :: "BIOS_PARAMETER_BLOCK \<Rightarrow> ULONG" where
  "FatRootDirectorySize B = ucast (RootEntries B) * 32"

definition FatRootDirectoryLbo :: "BIOS_PARAMETER_BLOCK \<Rightarrow> ULONG" where
  "FatRootDirectoryLbo B = FatReservedBytes B + ucast (Fats B) * FatBytesPerFat B"

definition FatFileAreaLbo :: "BIOS_PARAMETER_BLOCK \<Rightarrow> ULONG" where
  "FatFileAreaLbo B = FatRootDirectoryLbo B + FatRootDirectorySize B"

definition FatNumberOfClusters :: "BIOS_PARAMETER_BLOCK \<Rightarrow> ULONG" where
  "FatNumberOfClusters B =
     (if IsBpbFat32 B then
        ((if Sectors B \<noteq> 0 then ucast (Sectors B) else LargeSectors B)
           - (ucast (ReservedSectors B) + ucast (Fats B) * LargeSectorsPerFat B))
        div ucast (SectorsPerCluster B)
      else
        ((if Sectors B \<noteq> 0 then ucast (Sectors B) else LargeSectors B)
           - (ucast (ReservedSectors B) + ucast (Fats B) * ucast (SectorsPerFat B)
              + ucast (RootEntries B) * 32 div ucast (BytesPerSector B)))
        div ucast (SectorsPerCluster B))"

definition FatIndexBitSize_of :: "BIOS_PARAMETER_BLOCK \<Rightarrow> UCHAR" where
  "FatIndexBitSize_of B = (if IsBpbFat32 B then 32 else if FatNumberOfClusters B < 4087 then 12 else 16)"

section \<open>Is the boot sector that of a FAT volume?\<close>

text \<open>
  \<open>m\<close> holds the boot sector from offset 0: the jump instruction, then the packed block at
  offset 11. \<open>FujitsuFMR\<close> is the flag of the same name in FatData.
\<close>

definition FatIsBootSectorFat :: "bool \<Rightarrow> mem \<Rightarrow> bool" where
  "FatIsBootSectorFat FujitsuFMR m =
     (let Bpb0 = FatUnpackBios m 11;
          Bpb = (if Sectors Bpb0 \<noteq> 0 then Bpb0\<lparr>LargeSectors := 0\<rparr> else Bpb0)
      in if m 0 \<noteq> 0xe9 \<and> m 0 \<noteq> 0xeb \<and> m 0 \<noteq> 0x49 then False
         else if BytesPerSector Bpb \<noteq> 128 \<and> BytesPerSector Bpb \<noteq> 256 \<and> BytesPerSector Bpb \<noteq> 512
               \<and> BytesPerSector Bpb \<noteq> 1024 \<and> BytesPerSector Bpb \<noteq> 2048 \<and> BytesPerSector Bpb \<noteq> 4096 then False
         else if SectorsPerCluster Bpb \<noteq> 1 \<and> SectorsPerCluster Bpb \<noteq> 2 \<and> SectorsPerCluster Bpb \<noteq> 4
               \<and> SectorsPerCluster Bpb \<noteq> 8 \<and> SectorsPerCluster Bpb \<noteq> 16 \<and> SectorsPerCluster Bpb \<noteq> 32
               \<and> SectorsPerCluster Bpb \<noteq> 64 \<and> SectorsPerCluster Bpb \<noteq> 128 then False
         else if ReservedSectors Bpb = 0 then False
         else if Fats Bpb = 0 then False
         else if Sectors Bpb = 0 \<and> LargeSectors Bpb = 0 then False
         else if SectorsPerFat Bpb = 0 \<and> (LargeSectorsPerFat Bpb = 0 \<or> FsVersion Bpb \<noteq> 0) then False
         else if Media Bpb \<noteq> 0xf0 \<and> Media Bpb \<noteq> 0xf8 \<and> Media Bpb \<noteq> 0xf9 \<and> Media Bpb \<noteq> 0xfb
               \<and> Media Bpb \<noteq> 0xfc \<and> Media Bpb \<noteq> 0xfd \<and> Media Bpb \<noteq> 0xfe \<and> Media Bpb \<noteq> 0xff
               \<and> (\<not> FujitsuFMR \<or> (Media Bpb \<noteq> 0x00 \<and> Media Bpb \<noteq> 0x01 \<and> Media Bpb \<noteq> 0xfa)) then False
         else if SectorsPerFat Bpb \<noteq> 0 \<and> RootEntries Bpb = 0 then False
         else if SectorsPerFat Bpb = 0 \<and> MirrorDisabled Bpb then False
         else True)"

section \<open>Base-2 logarithm\<close>

function FatLogOf_loop :: "ULONG \<Rightarrow> UCHAR \<Rightarrow> ULONG \<times> UCHAR" where
  "FatLogOf_loop Value Log =
     (if Value AND 0xfffffffe \<noteq> 0 then FatLogOf_loop (drop_bit 1 Value) (Log + 1) else (Value, Log))"
  by pat_completeness auto
termination
proof (relation "measure (\<lambda>(v, l). unat v)")
  fix v :: ULONG and l :: UCHAR
  assume "v AND 0xfffffffe \<noteq> 0"
  then have "v \<noteq> 0" by auto
  then have "unat (drop_bit 1 v) < unat v"
    by (simp add: drop_bit_eq_div unat_div unat_gt_0)
  then show "((drop_bit 1 v, l + 1), v, l) \<in> measure (\<lambda>(v, l). unat v)" by simp
qed simp

declare FatLogOf_loop.simps [simp del]

definition FatLogOf :: "ULONG \<Rightarrow> ntstatus + UCHAR" where
  "FatLogOf Value =
     (let (Value', Log) = FatLogOf_loop Value 0
      in if Value' \<noteq> 1 then Inl (FAT_BUG_CHECK Value' (ucast Log) 0) else Inr Log)"

subsection \<open>What FatLogOf computes\<close>

lemma fffe_NOT_1: "(0xfffffffe :: ULONG) = NOT 1" by simp
lemma and_fffe_0: "((v::ULONG) AND 0xfffffffe = 0) \<longleftrightarrow> unat v < 2"
proof -
  have "(v AND 0xfffffffe = 0) \<longleftrightarrow> (\<forall>n<32. bit v n \<longrightarrow> n = 0)"
    unfolding fffe_NOT_1 by (auto simp: word_eq_bits bit_simps)
  also have "\<dots> \<longleftrightarrow> (\<forall>n<32. \<not> bit v (Suc n))"
    by (metis bit32_lt nat.distinct(1) not0_implies_Suc Suc_lessD)
  also have "\<dots> \<longleftrightarrow> drop_bit 1 v = 0"
    by (simp add: word_eq_bits bit_simps)
  also have "\<dots> \<longleftrightarrow> unat v div 2 = 0"
    by (simp add: drop_bit_eq_div unat_div flip: unat_eq_zero)
  also have "\<dots> \<longleftrightarrow> unat v < 2"
    by (simp add: div_eq_0_iff)
  finally show ?thesis .
qed

lemma FatLogOf_loop_log2:
  "v \<noteq> 0 \<Longrightarrow> \<exists>n. FatLogOf_loop v L = (1, L + of_nat n) \<and> 2 ^ n \<le> unat v \<and> unat v < 2 ^ Suc n"
proof (induction v L rule: FatLogOf_loop.induct)
  case (1 v L)
  show ?case
  proof (cases "unat v < 2")
    case True
    with "1.prems" have "v = 1" by (auto simp: word_unat_eq_iff less_2_cases_iff)
    moreover have "FatLogOf_loop v L = (v, L)"
      using True by (subst FatLogOf_loop.simps) (simp add: and_fffe_0)
    ultimately show ?thesis by (intro exI[of _ 0]) simp
  next
    case False
    then have nz: "v AND 0xfffffffe \<noteq> 0" by (simp add: and_fffe_0)
    have half: "unat (drop_bit 1 v) = unat v div 2" by (simp add: drop_bit_eq_div unat_div)
    with False have "drop_bit 1 v \<noteq> 0" by (simp flip: unat_eq_zero)
    with "1.IH"[OF nz] obtain n where n: "FatLogOf_loop (drop_bit 1 v) (L + 1) = (1, L + 1 + of_nat n)"
      "2 ^ n \<le> unat v div 2" "unat v div 2 < 2 ^ Suc n"
      unfolding half by blast
    have "FatLogOf_loop v L = (1, L + of_nat (Suc n))"
      using nz n(1) by (subst FatLogOf_loop.simps) (simp add: algebra_simps)
    moreover have "2 ^ Suc n \<le> unat v" "unat v < 2 ^ Suc (Suc n)" using n(2,3) by auto
    ultimately show ?thesis by blast
  qed
qed

lemma FatLogOf_Inr:
  assumes "v \<noteq> 0"
  obtains n where "FatLogOf v = Inr (of_nat n)" "n < 32" "2 ^ n \<le> unat v" "unat v < 2 ^ Suc n"
proof -
  obtain n where n: "FatLogOf_loop v 0 = (1, of_nat n)" "2 ^ n \<le> unat v" "unat v < 2 ^ Suc n"
    using FatLogOf_loop_log2[OF assms, of 0] by auto
  have "2 ^ n < (2::nat) ^ 32" using n(2) unat_lt32[of v] by (rule le_less_trans)
  then have "n < 32" by (rule power_less_imp_less_exp[rotated]) simp
  with n show ?thesis by (intro that) (simp_all add: FatLogOf_def)
qed

lemma FatLogOf_0: "FatLogOf 0 = Inl (FAT_BUG_CHECK 0 0 0)"
  by (simp add: FatLogOf_def FatLogOf_loop.simps)

lemma FatLogOf_power: "n < 32 \<Longrightarrow> FatLogOf (2 ^ n) = Inr (of_nat n)"
proof -
  assume n: "n < 32"
  then have u: "unat (2 ^ n :: ULONG) = 2 ^ n" by (rule unat_pow2_32)
  then have "(2 ^ n :: ULONG) \<noteq> 0" by (auto simp: word_unat_eq_iff)
  then obtain k where k: "FatLogOf (2 ^ n) = Inr (of_nat k)" "(2::nat) ^ k \<le> 2 ^ n" "(2::nat) ^ n < 2 ^ Suc k"
    using FatLogOf_Inr u by metis
  then have "k \<le> n" "n < Suc k" by (simp_all only: power_increasing_iff power_strict_increasing_iff)
  with k(1) show ?thesis by (simp add: le_antisym less_Suc_eq_le)
qed
section \<open>The allocation support record and the volume control block\<close>

record ALLOCATION_SUPPORT =
  RootDirectoryLbo :: LBO
  FileAreaLbo :: LBO
  RootDirectorySize :: ULONG
  NumberOfClusters :: ULONG
  NumberOfFreeClusters :: ULONG
  FatIndexBitSize :: UCHAR
  LogOfBytesPerSector :: UCHAR
  LogOfBytesPerCluster :: UCHAR

record FAT_WINDOW =
  FirstCluster :: ULONG
  LastCluster :: ULONG
  ClustersFree :: ULONG

definition ClustersDescribableByFat :: "BIOS_PARAMETER_BLOCK \<Rightarrow> ULONG" where
  "ClustersDescribableByFat B =
     ((if FatIndexBitSize_of B = 32 then LargeSectorsPerFat B else ucast (SectorsPerFat B))
        * ucast (BytesPerSector B) * 8) div ucast (FatIndexBitSize_of B) - 2"

text \<open>The first half of FatSetupAllocationSupport: Vcb->AllocationSupport from Vcb->Bpb.\<close>

definition FatSetupAllocationSupport_geometry ::
  "BIOS_PARAMETER_BLOCK \<Rightarrow> ntstatus + ALLOCATION_SUPPORT" where
  "FatSetupAllocationSupport_geometry B =
     (case FatLogOf (ucast (BytesPerSector B)) of
        Inl e \<Rightarrow> Inl e
      | Inr logSector \<Rightarrow>
          (case FatLogOf (FatBytesPerCluster B) of
             Inl e \<Rightarrow> Inl e
           | Inr logCluster \<Rightarrow>
               Inr \<lparr> RootDirectoryLbo = ucast (FatRootDirectoryLbo B),
                     FileAreaLbo = ucast (FatFileAreaLbo B),
                     RootDirectorySize = FatRootDirectorySize B,
                     NumberOfClusters =
                       (if FatNumberOfClusters B > ClustersDescribableByFat B
                        then ClustersDescribableByFat B else FatNumberOfClusters B),
                     NumberOfFreeClusters = 0,
                     FatIndexBitSize = FatIndexBitSize_of B,
                     LogOfBytesPerSector = logSector,
                     LogOfBytesPerCluster = logCluster \<rparr>))"

section \<open>Map control blocks\<close>

text \<open>
  A map control block (LARGE\_MCB) belongs to the file system run-time library. It is
  represented by the sequence of calls the driver has made on it, latest last, with
  their arguments in sectors; what a lookup in it answers is a parameter of the operations
  that look up.
\<close>

datatype mcb_call =
    FsRtlAddLargeMcbEntry LBO LBO LBO
  | FsRtlRemoveLargeMcbEntry LBO LBO

type_synonym LARGE_MCB = "mcb_call list"

section \<open>The volume control block\<close>

text \<open>
  \<^item> \<open>CurrentWindow\<close> is the pointer of the same name as an index into \<open>Windows\<close>;
  \<^item> \<open>FreeClusterBitMap\<close> has one entry per bit, True for a set bit (an occupied cluster),
    and is empty while the bitmap has no buffer;
  \<^item> \<open>VolumeFile\<close> is the cached data of the virtual volume file (boot sector, reserved
    sectors and FAT);
  \<^item> \<open>WrittenThrough\<close> lists the offsets whose buffers were written through synchronously;
  \<^item> the flags of the IrpContext and of VcbState that the code reads are booleans;
  \<^item> \<open>KernelResults\<close> holds the outcomes of the coming calls into the cache manager and the
    file system run-time library that may raise: None for success, Some status for a raise.
    When the list is exhausted every further call succeeds.
\<close>

record VCB =
  Bpb :: BIOS_PARAMETER_BLOCK
  AllocationSupport :: ALLOCATION_SUPPORT
  NumberOfWindows :: ULONG
  Windows :: "FAT_WINDOW list"
  CurrentWindow :: nat
  FreeClusterBitMap :: "bool list"
  ClusterHint :: ULONG
  MountInProgress :: bool
  BadBlocksPopulated :: bool
  VolumeFile :: mem
  DirtyFatMcb :: LARGE_MCB
  BadBlockMcb :: LARGE_MCB
  IrpContextWait :: bool
  IrpContextDisableDirty :: bool
  WrittenThrough :: "VBO list"
  KernelResults :: "ntstatus option list"

definition KernelCall :: "(VCB, unit) fat_op" where
  "KernelCall s =
     (case KernelResults s of
        [] \<Rightarrow> (Inr (), s)
      | None # rs \<Rightarrow> (Inr (), s\<lparr>KernelResults := rs\<rparr>)
      | Some st # rs \<Rightarrow> (Inl st, s\<lparr>KernelResults := rs\<rparr>))"

definition FatIsFat32 :: "VCB \<Rightarrow> bool" where
  "FatIsFat32 s = (FatIndexBitSize (AllocationSupport s) = 32)"

definition FatVerifyIndexIsValid :: "ULONG \<Rightarrow> (VCB, unit) fat_op" where
  "FatVerifyIndexIsValid I s =
     (if I < 2 \<or> I > NumberOfClusters (AllocationSupport s) + 1
      then (Inl STATUS_FILE_CORRUPT_ERROR, s) else (Inr (), s))"

definition FatGetLboFromIndex :: "VCB \<Rightarrow> ULONG \<Rightarrow> LBO" where
  "FatGetLboFromIndex s FAT_INDEX =
     FileAreaLbo (AllocationSupport s)
       + push_bit (unat (LogOfBytesPerCluster (AllocationSupport s))) (ucast (FAT_INDEX - 2))"

definition FatGetIndexFromLbo :: "VCB \<Rightarrow> LBO \<Rightarrow> ULONG" where
  "FatGetIndexFromLbo s Lbo =
     ucast (signed_drop_bit (unat (LogOfBytesPerCluster (AllocationSupport s)))
              (Lbo - FileAreaLbo (AllocationSupport s)) + 2)"

end
