(* ===== verification/FatGeometry.thy ===== *)
theory FatGeometry
  imports FatVcb
begin

text \<open>
  The geometry of a mounted volume: a boot sector that passes FatIsBootSectorFat gives an
  allocation support record whose logarithms are exact and whose clusters all have their
  entry inside the FAT (\<open>fat_fits\<close>, the well-formedness the FAT theories assume), the
  arithmetic on which this fails, and the translation between cluster numbers and byte
  offsets on the device.
\<close>

section \<open>The parameter block of a volume that passes the boot sector check\<close>

text \<open>The block a volume is mounted with: FatMountVolume clears LargeSectors when Sectors is set.\<close>
definition MountedBpb :: "mem \<Rightarrow> BIOS_PARAMETER_BLOCK" where
  "MountedBpb m = (let B = FatUnpackBios m 11 in if Sectors B \<noteq> 0 then B\<lparr>LargeSectors := 0\<rparr> else B)"

lemma FatIsBootSectorFatD:
  assumes "FatIsBootSectorFat F m"
  shows "BytesPerSector (MountedBpb m) \<in> {128, 256, 512, 1024, 2048, 4096}"
    and "SectorsPerCluster (MountedBpb m) \<in> {1, 2, 4, 8, 16, 32, 64, 128}"
    and "ReservedSectors (MountedBpb m) \<noteq> 0" and "Fats (MountedBpb m) \<noteq> 0"
    and "IsBpbFat32 (MountedBpb m) \<Longrightarrow> LargeSectorsPerFat (MountedBpb m) \<noteq> 0"
  using assms
  by (simp_all add: FatIsBootSectorFat_def MountedBpb_def Let_def IsBpbFat32_def split: if_splits cong: conj_cong; blast)+

lemma sector_size_cases:
  "b \<in> {128, 256, 512, 1024, 2048, 4096} \<Longrightarrow> \<exists>n. 7 \<le> n \<and> n \<le> 12 \<and> unat (b::USHORT) = 2 ^ n"
  by (elim insertE)
    (rule exI[of _ 7], simp, rule exI[of _ 8], simp, rule exI[of _ 9], simp, rule exI[of _ 10], simp,
     rule exI[of _ 11], simp, rule exI[of _ 12], simp, simp)

lemma cluster_size_cases:
  "c \<in> {1, 2, 4, 8, 16, 32, 64, 128} \<Longrightarrow> \<exists>n\<le>7. unat (c::UCHAR) = 2 ^ n"
  by (elim insertE)
    (rule exI[of _ 0], simp, rule exI[of _ 1], simp, rule exI[of _ 2], simp, rule exI[of _ 3], simp,
     rule exI[of _ 4], simp, rule exI[of _ 5], simp, rule exI[of _ 6], simp, rule exI[of _ 7], simp, simp)


lemma ulong_power_of_unat: "unat (v :: ULONG) = 2 ^ n \<Longrightarrow> v = 2 ^ n \<and> n < 32"
proof -
  assume v: "unat v = 2 ^ n"
  then have "(2::nat) ^ n < 2 ^ 32" using unat_lt32[of v] by simp
  then have n: "n < 32" by (rule power_less_imp_less_exp[rotated]) simp
  then show ?thesis using v by (simp add: word_unat_eq_iff unat_pow2_32)
qed

lemma FatLogOf_of_unat: "unat v = 2 ^ n \<Longrightarrow> \<exists>L. FatLogOf v = Inr L \<and> unat L = n"
  using ulong_power_of_unat[of v n] by (auto simp: FatLogOf_power unat_of_nat_small)

lemma unat_FatBytesPerCluster:
  "unat (FatBytesPerCluster B) = unat (BytesPerSector B) * unat (SectorsPerCluster B)"
proof -
  have "unat (BytesPerSector B) * unat (SectorsPerCluster B) < 2 ^ 16 * 2 ^ 8"
    using unat_lt16 unat_lt8 by (rule mult_strict_mono) simp_all
  then show ?thesis by (simp add: FatBytesPerCluster_def unat_mult_small)
qed

lemma unat_FatReservedBytes:
  "unat (FatReservedBytes B) = unat (BytesPerSector B) * unat (ReservedSectors B)"
proof -
  have "unat (BytesPerSector B) * unat (ReservedSectors B) < 2 ^ 16 * 2 ^ 16"
    using unat_lt16 unat_lt16 by (rule mult_strict_mono) simp_all
  then show ?thesis by (simp add: FatReservedBytes_def unat_mult_small)
qed

lemma geometry_logs:
  assumes "FatIsBootSectorFat F m"
  shows "\<exists>A. FatSetupAllocationSupport_geometry (MountedBpb m) = Inr A
     \<and> unat (BytesPerSector (MountedBpb m)) = 2 ^ unat (LogOfBytesPerSector A)
     \<and> unat (FatBytesPerCluster (MountedBpb m)) = 2 ^ unat (LogOfBytesPerCluster A)
     \<and> 7 \<le> unat (LogOfBytesPerSector A) \<and> unat (LogOfBytesPerSector A) \<le> 12
     \<and> unat (LogOfBytesPerCluster A) \<le> 19"
proof -
  obtain i where i: "7 \<le> i" "i \<le> 12" "unat (BytesPerSector (MountedBpb m)) = 2 ^ i"
    using sector_size_cases[OF FatIsBootSectorFatD(1)[OF assms]] by blast
  obtain j where j: "j \<le> 7" "unat (SectorsPerCluster (MountedBpb m)) = 2 ^ j"
    using cluster_size_cases[OF FatIsBootSectorFatD(2)[OF assms]] by blast
  have c: "unat (FatBytesPerCluster (MountedBpb m)) = 2 ^ (i + j)"
    using i j by (simp add: unat_FatBytesPerCluster power_add)
  obtain L1 where "FatLogOf (ucast (BytesPerSector (MountedBpb m))) = Inr L1" "unat L1 = i"
    using FatLogOf_of_unat[of "ucast (BytesPerSector (MountedBpb m))" i] i(3) by auto
  moreover obtain L2 where "FatLogOf (FatBytesPerCluster (MountedBpb m)) = Inr L2" "unat L2 = i + j"
    using FatLogOf_of_unat[OF c] by auto
  ultimately show ?thesis
    using i j c by (auto simp: FatSetupAllocationSupport_geometry_def)
qed

definition fat_fits :: "BIOS_PARAMETER_BLOCK \<Rightarrow> ALLOCATION_SUPPORT \<Rightarrow> bool" where
  "fat_fits B A \<longleftrightarrow>
     FatIndexBitSize A \<in> {12, 16, 32}
   \<and> unat (FatReservedBytes B) + unat (FatBytesPerFat B) < 2 ^ 30
   \<and> unat (FatIndexBitSize A) * (unat (NumberOfClusters A) + 2) \<le> 8 * unat (FatBytesPerFat B)
   \<and> unat (FatBytesPerFat B) < 2 ^ 29
   \<and> (FatIndexBitSize A = 12 \<longrightarrow> NumberOfClusters A < 4087)
   \<and> 7 \<le> unat (LogOfBytesPerSector A) \<and> unat (LogOfBytesPerSector A) \<le> 12
   \<and> 2 ^ unat (LogOfBytesPerSector A) dvd unat (FatReservedBytes B)"

definition FatSectorsPerFat :: "BIOS_PARAMETER_BLOCK \<Rightarrow> nat" where
  "FatSectorsPerFat B = (if IsBpbFat32 B then unat (LargeSectorsPerFat B) else unat (SectorsPerFat B))"

lemma unat_ClustersDescribableByFat:
  assumes ov: "FatSectorsPerFat B * unat (BytesPerSector B) * 8 < 2 ^ 32"
    and big: "64 \<le> FatSectorsPerFat B * unat (BytesPerSector B) * 8"
  shows "unat (ClustersDescribableByFat B) =
     FatSectorsPerFat B * unat (BytesPerSector B) * 8 div unat (FatIndexBitSize_of B) - 2"
    and "unat (FatBytesPerFat B) = FatSectorsPerFat B * unat (BytesPerSector B)"
proof -
  let ?s = "if FatIndexBitSize_of B = 32 then LargeSectorsPerFat B else ucast (SectorsPerFat B) :: ULONG"
  have bs: "FatIndexBitSize_of B = 32 \<longleftrightarrow> IsBpbFat32 B"
    by (simp add: FatIndexBitSize_of_def)
  have s: "unat ?s = FatSectorsPerFat B"
    by (simp add: bs FatSectorsPerFat_def)
  have sb: "unat (?s * ucast (BytesPerSector B)) = FatSectorsPerFat B * unat (BytesPerSector B)"
    using ov by (subst unat_mult_small) (simp_all only: s unat_ucast_up, simp_all)
  have sb8: "unat (?s * ucast (BytesPerSector B) * 8) = FatSectorsPerFat B * unat (BytesPerSector B) * 8"
    using ov by (subst unat_mult_small) (simp_all only: sb, simp_all)
  let ?q = "?s * ucast (BytesPerSector B) * 8 div ucast (FatIndexBitSize_of B)"
  have q: "unat ?q = FatSectorsPerFat B * unat (BytesPerSector B) * 8 div unat (FatIndexBitSize_of B)"
    by (simp only: unat_div sb8) simp
  have "2 \<le> unat ?q"
    unfolding q using big by (auto simp: FatIndexBitSize_of_def)
  then have "2 \<le> ?q" by (simp add: word_le_nat)
  then show "unat (ClustersDescribableByFat B) =
     FatSectorsPerFat B * unat (BytesPerSector B) * 8 div unat (FatIndexBitSize_of B) - 2"
    unfolding ClustersDescribableByFat_def by (simp only: unat_sub q) simp
  show "unat (FatBytesPerFat B) = FatSectorsPerFat B * unat (BytesPerSector B)"
    using sb ov by (auto simp: FatBytesPerFat_def bs mult.commute FatSectorsPerFat_def split: if_splits)
qed


lemma FatSectorsPerFat_pos:
  "FatIsBootSectorFat F m \<Longrightarrow> 0 < FatSectorsPerFat (MountedBpb m)"
  using FatIsBootSectorFatD(5)[of F m]
  by (auto simp: FatSectorsPerFat_def IsBpbFat32_def unat_gt_0)

lemma sectors_no_overflow:
  assumes "unat (BytesPerSector B) \<le> 2 ^ 12" "\<not> IsBpbFat32 B"
  shows "FatSectorsPerFat B * unat (BytesPerSector B) * 8 < 2 ^ 32"
proof -
  have "unat (SectorsPerFat B) * unat (BytesPerSector B) \<le> (2 ^ 16 - 1) * 2 ^ 12"
    using unat_lt16[of "SectorsPerFat B"] assms(1) by (intro mult_le_mono) simp_all
  with assms(2) show ?thesis by (simp add: FatSectorsPerFat_def mult.commute)
qed

lemma geometry_fat_fits:
  assumes boot: "FatIsBootSectorFat F m" and B: "B = MountedBpb m"
    and ov: "IsBpbFat32 B \<Longrightarrow> unat (LargeSectorsPerFat B) * unat (BytesPerSector B) * 8 < 2 ^ 32"
    and A: "FatSetupAllocationSupport_geometry B = Inr A"
  shows "fat_fits B A"
proof -
  obtain A' where A': "FatSetupAllocationSupport_geometry B = Inr A'"
    "unat (BytesPerSector B) = 2 ^ unat (LogOfBytesPerSector A')" "unat (LogOfBytesPerSector A') \<le> 12"
    "7 \<le> unat (LogOfBytesPerSector A')"
    using geometry_logs[OF boot] B by blast
  with A have bps: "unat (BytesPerSector B) = 2 ^ unat (LogOfBytesPerSector A)" and l12: "unat (LogOfBytesPerSector A) \<le> 12"
    and l7: "7 \<le> unat (LogOfBytesPerSector A)"
    by simp_all
  from l12 have b12: "unat (BytesPerSector B) \<le> 2 ^ 12" unfolding bps by (rule power_increasing) simp
  have ov': "FatSectorsPerFat B * unat (BytesPerSector B) * 8 < 2 ^ 32"
    using ov sectors_no_overflow[OF b12] by (cases "IsBpbFat32 B") (simp_all add: FatSectorsPerFat_def)
  have "8 \<le> unat (BytesPerSector B)"
    using FatIsBootSectorFatD(1)[OF boot] B by auto
  moreover have "1 \<le> FatSectorsPerFat B"
    using FatSectorsPerFat_pos[OF boot] B by simp
  ultimately have "1 * 8 \<le> FatSectorsPerFat B * unat (BytesPerSector B)" by (intro mult_le_mono) simp_all
  then have big: "64 \<le> FatSectorsPerFat B * unat (BytesPerSector B) * 8" by simp
  note d = unat_ClustersDescribableByFat[OF ov' big]
  have fields: "FatIndexBitSize A = FatIndexBitSize_of B"
    "NumberOfClusters A = (if FatNumberOfClusters B > ClustersDescribableByFat B
                           then ClustersDescribableByFat B else FatNumberOfClusters B)"
    using A by (auto simp: FatSetupAllocationSupport_geometry_def split: sum.splits)
  have "unat (NumberOfClusters A) \<le> unat (ClustersDescribableByFat B)"
    by (simp add: fields word_le_nat word_less_nat)
  then have "unat (NumberOfClusters A) + 2 \<le> FatSectorsPerFat B * unat (BytesPerSector B) * 8 div unat (FatIndexBitSize_of B)"
    unfolding d(1) using big by (auto simp: FatIndexBitSize_of_def)
  then have "unat (FatIndexBitSize_of B) * (unat (NumberOfClusters A) + 2)
      \<le> unat (FatIndexBitSize_of B) * (FatSectorsPerFat B * unat (BytesPerSector B) * 8 div unat (FatIndexBitSize_of B))"
    by (rule mult_le_mono2)
  also have "\<dots> \<le> 8 * unat (FatBytesPerFat B)" unfolding d(2) by (simp add: mult.commute)
  finally have fit: "unat (FatIndexBitSize A) * (unat (NumberOfClusters A) + 2) \<le> 8 * unat (FatBytesPerFat B)"
    by (simp add: fields)
  have "unat (FatReservedBytes B) \<le> 2 ^ 12 * (2 ^ 16 - 1)"
    unfolding unat_FatReservedBytes using b12 unat_lt16[of "ReservedSectors B"] by (intro mult_le_mono) simp_all
  moreover have f29: "unat (FatBytesPerFat B) < 2 ^ 29" unfolding d(2) using ov' by simp
  ultimately have "unat (FatReservedBytes B) + unat (FatBytesPerFat B) < 2 ^ 30" by simp
  moreover have "FatIndexBitSize A \<in> {12, 16, 32}" by (simp add: fields FatIndexBitSize_of_def)
  moreover have "2 ^ unat (LogOfBytesPerSector A) dvd unat (FatReservedBytes B)"
    by (simp add: unat_FatReservedBytes bps)
  moreover have "FatIndexBitSize A = 12 \<longrightarrow> NumberOfClusters A < 4087"
    by (auto simp: fields FatIndexBitSize_of_def split: if_splits)
  ultimately show ?thesis using fit l12 l7 f29 by (simp add: fat_fits_def)
qed

lemma describable_overflow:
  assumes boot: "FatIsBootSectorFat Fm m" and B: "B = MountedBpb m" and f32: "IsBpbFat32 B"
    and F: "F = unat (LargeSectorsPerFat B) * unat (BytesPerSector B)"
  shows "unat (ClustersDescribableByFat B) = (if F mod 2 ^ 29 = 0 then 2 ^ 32 - 2 else F mod 2 ^ 29 div 4 - 2)"
proof -
  obtain n where n: "7 \<le> n" "unat (BytesPerSector B) = 2 ^ n"
    using sector_size_cases[OF FatIsBootSectorFatD(1)[OF boot]] B by blast
  have "(2::nat) ^ 7 dvd 2 ^ n" using n(1) by (rule le_imp_power_dvd)
  then have "2 ^ 7 dvd F" unfolding F n(2) by (rule dvd_mult)
  then have d: "128 dvd F mod 2 ^ 29" by (intro dvd_mod) auto
  define p where "p = LargeSectorsPerFat B * ucast (BytesPerSector B) * 8"
  have i: "FatIndexBitSize_of B = 32" using f32 by (simp add: FatIndexBitSize_of_def)
  have "unat p = F * 8 mod 2 ^ 32" by (simp add: p_def F unat_word_ariths mod_mult_left_eq)
  also have "\<dots> = 8 * (F mod 2 ^ 29)" using mult_mod_right[of 8 F "2 ^ 29"] by (simp add: mult.commute)
  finally have p: "unat p = 8 * (F mod 2 ^ 29)" .
  have q: "unat (p div 32) = F mod 2 ^ 29 div 4" by (simp add: unat_div p)
  have e: "ClustersDescribableByFat B = p div 32 - 2" by (simp add: ClustersDescribableByFat_def i p_def)
  show ?thesis
  proof (cases "F mod 2 ^ 29 = 0")
    case True
    then have "p div 32 = 0" using q by (simp add: word_unat_eq_iff)
    then show ?thesis using True by (simp add: e)
  next
    case False
    then have "128 \<le> F mod 2 ^ 29" using d by (auto dest: dvd_imp_le)
    then have "2 \<le> F mod 2 ^ 29 div 4" by linarith
    then have "2 \<le> p div 32" using q by (simp add: word_le_nat)
    then have "unat (p div 32 - 2) = F mod 2 ^ 29 div 4 - 2" by (simp add: unat_sub q)
    then show ?thesis using False by (simp add: e)
  qed
qed

lemma signed_drop_bit_small: "unat (x :: LBO) < 2 ^ 63 \<Longrightarrow> signed_drop_bit n x = drop_bit n x"
proof -
  assume x: "unat x < 2 ^ 63"
  have "drop_bit 63 x = 0"
    using x by (simp only: word_unat_eq_iff unat_drop_bit_div) simp
  moreover have "bit (drop_bit 63 x) 0 = bit x 63"
    by (simp only: bit_drop_bit_eq comp_apply add_0_right)
  ultimately have "\<not> bit x 63" by simp
  then show ?thesis
    by (intro bit_word_eqI) (auto simp: bit_simps dest: bit_imp_le_length)
qed

lemma signed_drop_push_bit:
  assumes "unat x * 2 ^ n < 2 ^ 63"
  shows "signed_drop_bit n (push_bit n (x :: LBO)) = x"
proof -
  have p: "unat (push_bit n x) = unat x * 2 ^ n"
    using assms by (subst unat_push_bit_mult) simp
  then have "signed_drop_bit n (push_bit n x) = drop_bit n (push_bit n x)"
    using assms by (intro signed_drop_bit_small) simp
  also have "\<dots> = x"
    using p by (simp only: word_unat_eq_iff unat_drop_bit_div) simp
  finally show ?thesis .
qed

lemma FatGetIndexFromLbo_inverse:
  assumes "unat (i - 2) * 2 ^ unat (LogOfBytesPerCluster (AllocationSupport s)) < 2 ^ 63"
  shows "FatGetIndexFromLbo s (FatGetLboFromIndex s i) = i"
proof -
  have "signed_drop_bit (unat (LogOfBytesPerCluster (AllocationSupport s)))
     (push_bit (unat (LogOfBytesPerCluster (AllocationSupport s))) (ucast (i - 2) :: LBO)) = ucast (i - 2)"
    using assms by (intro signed_drop_push_bit) simp
  moreover have "(ucast ((ucast a :: LBO) + 2) :: ULONG) = a + 2" for a :: ULONG
    using unat_lt32[of a] by (simp add: word_unat_eq_iff unsigned_ucast_eq take_bit_eq_mod unat_word_ariths)
  from this[of "i - 2"] have "(ucast ((ucast (i - 2) :: LBO) + 2) :: ULONG) = i"
    by simp
  ultimately show ?thesis by (simp add: FatGetIndexFromLbo_def FatGetLboFromIndex_def)
qed

section \<open>Properties\<close>


text \<open>
  C34: FatLogOf returns the position of the highest set bit of every non-zero value and bug
  checks for zero only. (Its comment claims a bug check for every value with more than one
  bit set; for 3 the code answers 1.)
\<close>

theorem FatLogOf_correct:
  "(FatLogOf v = Inr L \<longleftrightarrow> v \<noteq> 0 \<and> unat L < 32 \<and> 2 ^ unat L \<le> unat v \<and> unat v < 2 ^ Suc (unat L))
   \<and> (FatLogOf v = Inl e \<longleftrightarrow> v = 0 \<and> e = FAT_BUG_CHECK 0 0 0)"
proof (cases "v = 0")
  case True
  then show ?thesis by (auto simp: FatLogOf_0)
next
  case False
  then obtain n where n: "FatLogOf v = Inr (of_nat n)" "n < 32" "2 ^ n \<le> unat v" "unat v < 2 ^ Suc n"
    by (rule FatLogOf_Inr)
  have un: "unat (of_nat n :: UCHAR) = n"
    using n(2) by (simp add: unat_of_nat_small)
  have "unat L = n" if "2 ^ unat L \<le> unat v" "unat v < 2 ^ Suc (unat L)"
  proof -
    have "(2::nat) ^ unat L < 2 ^ Suc n" "(2::nat) ^ n < 2 ^ Suc (unat L)"
      using that n by linarith+
    then have "unat L < Suc n" "n < Suc (unat L)"
      by - (rule power_less_imp_less_exp[of "2::nat"], simp, assumption)+
    then show ?thesis by simp
  qed
  moreover have "L = of_nat n \<longleftrightarrow> unat L = n"
    using un by (auto simp: word_unat_eq_iff)
  ultimately show ?thesis using False n un by auto
qed

text \<open>
  For a boot sector that FatIsBootSectorFat accepts, filling in Vcb->AllocationSupport
  does not bug check, and the two logarithms in it are the exact logarithms of the sector
  and the cluster size.
\<close>

theorem FatSetupAllocationSupport_logs:
  assumes "FatIsBootSectorFat F m"
  shows "\<exists>A. FatSetupAllocationSupport_geometry (MountedBpb m) = Inr A
     \<and> unat (BytesPerSector (MountedBpb m)) = 2 ^ unat (LogOfBytesPerSector A)
     \<and> unat (FatBytesPerCluster (MountedBpb m)) = 2 ^ unat (LogOfBytesPerCluster A)"
  using geometry_logs[OF assms] by blast

text \<open>A 1.44 MB diskette.\<close>

definition floppy_boot :: mem where
  "floppy_boot = (\<lambda>_. 0)(0 := 0xeb, 12 := 2, 13 := 1, 14 := 1, 16 := 2, 17 := 224,
     19 := 0x40, 20 := 0x0b, 21 := 0xf0, 22 := 9)"

lemma floppy_boot_fat: "FatIsBootSectorFat False floppy_boot"
  by (simp add: FatIsBootSectorFat_def FatUnpackBios_def floppy_boot_def get16_def get32_def)

lemma MountedBpb_floppy:
  "BytesPerSector (MountedBpb floppy_boot) = 512 \<and> SectorsPerFat (MountedBpb floppy_boot) = 9
   \<and> SectorsPerCluster (MountedBpb floppy_boot) = 1 \<and> ReservedSectors (MountedBpb floppy_boot) = 1
   \<and> FatNumberOfClusters (MountedBpb floppy_boot) = 2847"
  by (simp add: MountedBpb_def FatUnpackBios_def floppy_boot_def get16_def get32_def
      FatNumberOfClusters_def IsBpbFat32_def)

theorem FatSetupAllocationSupport_logs_witness:
  "\<exists>A. FatSetupAllocationSupport_geometry (MountedBpb floppy_boot) = Inr A
     \<and> unat (BytesPerSector (MountedBpb floppy_boot)) = 2 ^ unat (LogOfBytesPerSector A)
     \<and> unat (FatBytesPerCluster (MountedBpb floppy_boot)) = 2 ^ unat (LogOfBytesPerCluster A)"
  by (rule FatSetupAllocationSupport_logs[OF floppy_boot_fat])

text \<open>
  C32: The number of clusters FatSetupAllocationSupport settles on is one the FAT can
  describe: every index up to NumberOfClusters + 1 has its entry inside the FAT, and the
  whole region stays far from the end of 32-bit offsets. FAT12 and FAT16 need nothing for
  this; on FAT32 the product of sectors per FAT, sector size and 8 must not overflow.
\<close>

theorem FatSetupAllocationSupport_fits:
  assumes "FatIsBootSectorFat F m" and "B = MountedBpb m"
    and "IsBpbFat32 B \<Longrightarrow> unat (LargeSectorsPerFat B) * unat (BytesPerSector B) * 8 < 2 ^ 32"
    and "FatSetupAllocationSupport_geometry B = Inr A"
  shows "fat_fits B A"
  using assms by (rule geometry_fat_fits)

theorem FatSetupAllocationSupport_fits_witness:
  "\<exists>A. FatSetupAllocationSupport_geometry (MountedBpb floppy_boot) = Inr A
     \<and> fat_fits (MountedBpb floppy_boot) A"
proof -
  obtain A where A: "FatSetupAllocationSupport_geometry (MountedBpb floppy_boot) = Inr A"
    using geometry_logs[OF floppy_boot_fat] by blast
  have "\<not> IsBpbFat32 (MountedBpb floppy_boot)"
    using MountedBpb_floppy by (simp add: IsBpbFat32_def)
  then have "fat_fits (MountedBpb floppy_boot) A"
    by (intro FatSetupAllocationSupport_fits[OF floppy_boot_fat refl _ A]) simp
  with A show ?thesis by blast
qed

text \<open>
  C33: A FAT32 volume that passes the boot sector check and has a FAT of 512 MB or more is set
  up with a wrong limit on its clusters, because the 32-bit product in the computation of
  ClustersDescribableByFat overflows: the limit is taken from the size of the FAT modulo
  512 MB. Where the volume has more clusters than this limit, it gets fewer than it has and the
  FAT describes. When the size is a multiple of 512 MB the limit is 2 to the 32 less 2, and a
  volume with more clusters than its FAT describes gets more of them than the FAT describes.
\<close>

theorem FatSetupAllocationSupport_overflow:
  assumes "FatIsBootSectorFat FujitsuFMR m" and "B = MountedBpb m" and "IsBpbFat32 B"
    and "F = unat (LargeSectorsPerFat B) * unat (BytesPerSector B)" and "2 ^ 29 \<le> F"
    and "FatSetupAllocationSupport_geometry B = Inr A"
  shows "unat (NumberOfClusters A) = min (unat (FatNumberOfClusters B)) (if F mod 2 ^ 29 = 0 then 2 ^ 32 - 2 else F mod 2 ^ 29 div 4 - 2)
    \<and> (F mod 2 ^ 29 \<noteq> 0 \<and> F mod 2 ^ 29 div 4 - 2 < unat (FatNumberOfClusters B)
         \<longrightarrow> unat (NumberOfClusters A) < min (unat (FatNumberOfClusters B)) (F div 4 - 2))
    \<and> (F mod 2 ^ 29 = 0 \<and> F div 4 - 2 < min (unat (FatNumberOfClusters B)) (2 ^ 32 - 2)
         \<longrightarrow> F div 4 - 2 < unat (NumberOfClusters A))"
proof -
  have "NumberOfClusters A = (if FatNumberOfClusters B > ClustersDescribableByFat B then ClustersDescribableByFat B else FatNumberOfClusters B)"
    using assms(6) by (auto simp: FatSetupAllocationSupport_geometry_def split: sum.splits)
  then have n: "unat (NumberOfClusters A) = min (unat (FatNumberOfClusters B)) (unat (ClustersDescribableByFat B))"
    by (simp add: word_less_nat min_def)
  have "F mod 2 ^ 29 = (F - 2 ^ 29) mod 2 ^ 29" by (rule le_mod_geq[OF assms(5)])
  then have "F mod 2 ^ 29 \<le> F - 2 ^ 29" by (simp only: mod_less_eq_dividend)
  then have "F mod 2 ^ 29 + 2 ^ 29 \<le> F" using assms(5) by simp
  moreover have "x div 4 - 2 < F div 4 - 2" if "x + 2 ^ 29 \<le> F" for x using that by simp
  ultimately have "F mod 2 ^ 29 div 4 - 2 < F div 4 - 2" by blast
  then show ?thesis unfolding n describable_overflow[OF assms(1-4)] by auto
qed

text \<open>
  A FAT32 volume of 2 TB that passes the check, whose 134184958 clusters are set up as 126
  although its FAT has room for 134217854.
\<close>

definition big_boot :: mem where
  "big_boot = (\<lambda>_. 0)(0 := 0xeb, 12 := 2, 13 := 32, 14 := 32, 16 := 1, 21 := 0xf8,
     32 := 0xf0, 33 := 0xff, 34 := 0xff, 35 := 0xff, 36 := 1, 38 := 0x10, 44 := 2)"

theorem FatSetupAllocationSupport_overflow_witness:
  "FatIsBootSectorFat False big_boot \<and> FatNumberOfClusters (MountedBpb big_boot) = 134184958
   \<and> (\<exists>A. FatSetupAllocationSupport_geometry (MountedBpb big_boot) = Inr A \<and> unat (NumberOfClusters A) = 126)"
proof -
  have b: "FatIsBootSectorFat False big_boot"
    by (simp add: FatIsBootSectorFat_def FatUnpackBios_def big_boot_def get16_def get32_def MirrorDisabled_def)
  have f: "BytesPerSector (MountedBpb big_boot) = 512" "LargeSectorsPerFat (MountedBpb big_boot) = 0x100001"
    "IsBpbFat32 (MountedBpb big_boot)" "FatNumberOfClusters (MountedBpb big_boot) = 134184958"
    by (simp_all add: MountedBpb_def FatUnpackBios_def big_boot_def get16_def get32_def FatNumberOfClusters_def IsBpbFat32_def)
  obtain A where A: "FatSetupAllocationSupport_geometry (MountedBpb big_boot) = Inr A" using geometry_logs[OF b] by blast
  have "unat (NumberOfClusters A) = 126"
    using FatSetupAllocationSupport_overflow[OF b refl f(3) refl _ A, THEN conjunct1] by (simp add: f)
  then show ?thesis using b f(4) A by blast
qed

text \<open>
  Translating a cluster number to its byte offset on the device and back gives the
  cluster number, as long as the offset stays below 2 to the 63.
\<close>

theorem FatGetIndexFromLbo_FatGetLboFromIndex:
  assumes "unat (i - 2) * 2 ^ unat (LogOfBytesPerCluster (AllocationSupport s)) < 2 ^ 63"
  shows "FatGetIndexFromLbo s (FatGetLboFromIndex s i) = i"
  using assms by (rule FatGetIndexFromLbo_inverse)

text \<open>The volume control block of the diskette with an empty FAT.\<close>

definition floppy_bpb :: BIOS_PARAMETER_BLOCK where
  "floppy_bpb = MountedBpb floppy_boot"

definition floppy_vcb :: VCB where
  "floppy_vcb =
     \<lparr> Bpb = floppy_bpb,
       AllocationSupport =
         \<lparr> RootDirectoryLbo = 0x2600, FileAreaLbo = 0x4200, RootDirectorySize = 0x1c00,
           NumberOfClusters = 2847, NumberOfFreeClusters = 2847, FatIndexBitSize = 12,
           LogOfBytesPerSector = 9, LogOfBytesPerCluster = 9 \<rparr>,
       NumberOfWindows = 1,
       Windows = [\<lparr> FirstCluster = 2, LastCluster = 2848, ClustersFree = 2847 \<rparr>],
       CurrentWindow = 0, FreeClusterBitMap = replicate 2847 False, ClusterHint = 2,
       MountInProgress = False, BadBlocksPopulated = False, VolumeFile = floppy_boot,
       DirtyFatMcb = [], BadBlockMcb = [], IrpContextWait = True, IrpContextDisableDirty = False,
       WrittenThrough = [], KernelResults = [] \<rparr>"

theorem FatGetIndexFromLbo_FatGetLboFromIndex_witness:
  "FatGetIndexFromLbo floppy_vcb (FatGetLboFromIndex floppy_vcb 2848) = 2848"
  by (rule FatGetIndexFromLbo_FatGetLboFromIndex) (simp add: floppy_vcb_def)

lemma floppy_fits: "fat_fits (Bpb floppy_vcb) (AllocationSupport floppy_vcb)"
  using MountedBpb_floppy
  by (simp add: fat_fits_def floppy_vcb_def floppy_bpb_def FatReservedBytes_def FatBytesPerFat_def IsBpbFat32_def)

end
