(* ===== verification/FatMcb.thy ===== *)
theory FatMcb
  imports FatGeometry
begin

text \<open>
  The shims of fsctrl.c over the large Mcb package of the file system run-time library: the
  driver counts in bytes and the package in sectors, and the shims translate offsets,
  counts, the unused block number -1 and the byte count of a run that covers 4 GB. The
  run-time library's own lookups are parameters.
\<close>

section \<open>The shims\<close>

definition MCB_SCALE_LOG2 :: "VCB \<Rightarrow> nat" where
  "MCB_SCALE_LOG2 s = unat (LogOfBytesPerSector (AllocationSupport s))"

definition MCB_SCALE :: "VCB \<Rightarrow> ULONG" where
  "MCB_SCALE s = push_bit (MCB_SCALE_LOG2 s) 1"

text \<open>Bytes to sectors, rounded up without overflowing near 4 GB.\<close>

definition McbSectors :: "VCB \<Rightarrow> ULONG \<Rightarrow> ULONG" where
  "McbSectors s SectorCount =
     (if SectorCount \<noteq> 0 then drop_bit (MCB_SCALE_LOG2 s) (SectorCount - 1) + 1 else SectorCount)"

definition FatAddMcbEntry :: "VCB \<Rightarrow> LARGE_MCB \<Rightarrow> VBO \<Rightarrow> LBO \<Rightarrow> ULONG \<Rightarrow> LARGE_MCB" where
  "FatAddMcbEntry s Mcb Vbo Lbo SectorCount =
     Mcb @ [FsRtlAddLargeMcbEntry (ucast (drop_bit (MCB_SCALE_LOG2 s) Vbo))
              (signed_drop_bit (MCB_SCALE_LOG2 s) Lbo) (ucast (McbSectors s SectorCount))]"

definition FatRemoveMcbEntry :: "VCB \<Rightarrow> LARGE_MCB \<Rightarrow> VBO \<Rightarrow> ULONG \<Rightarrow> LARGE_MCB" where
  "FatRemoveMcbEntry s Mcb Vbo SectorCount =
     Mcb @ [FsRtlRemoveLargeMcbEntry (ucast (drop_bit (MCB_SCALE_LOG2 s) Vbo))
              (ucast (if SectorCount \<noteq> 0 \<and> SectorCount \<noteq> 0xFFFFFFFF
                      then McbSectors s SectorCount else SectorCount))]"

text \<open>
  \<open>LookupLarge Mcb vbn\<close> stands for FsRtlLookupLargeMcbEntry: its result, the block
  number, the sectors left in the run and the run's index (the three 0 when it writes
  nothing, as the locals are initialised). \<open>WantCount\<close> says whether ByteCount was
  supplied. The answer is the result, Lbo, ByteCount (when supplied) and the index.
\<close>

definition FatLookupMcbEntry ::
  "(LARGE_MCB \<Rightarrow> LBO \<Rightarrow> bool \<times> LBO \<times> LBO \<times> ULONG) \<Rightarrow> VCB \<Rightarrow> LARGE_MCB \<Rightarrow> VBO \<Rightarrow> bool
   \<Rightarrow> bool \<times> LBO \<times> ULONG option \<times> ULONG" where
  "FatLookupMcbEntry LookupLarge s Mcb Vbo WantCount =
     (let Remainder = Vbo AND (MCB_SCALE s - 1);
          (Results, LiLbo, LiCount, Index) = LookupLarge Mcb (ucast (drop_bit (MCB_SCALE_LOG2 s) Vbo));
          LiSectorCount = (if WantCount then LiCount else 0);
          Lbo = (if (ucast LiLbo :: ULONG) \<noteq> -1
                 then push_bit (MCB_SCALE_LOG2 s) LiLbo + (if Results then ucast Remainder else 0)
                 else 0);
          Count0 = (ucast LiSectorCount :: ULONG);
          Count1 = (if Count0 \<noteq> 0
                    then (let c = push_bit (MCB_SCALE_LOG2 s) Count0;
                              c' = (if c = 0 then 0xFFFFFFFF else c)
                          in if Results then c' - Remainder else c')
                    else Count0)
      in (Results, Lbo, if WantCount then Some Count1 else None, Index))"

text \<open>\<open>LookupLast Mcb\<close> stands for FsRtlLookupLastLargeMcbEntryAndIndex. The answer is the result, Vbo, Lbo and the index.\<close>

definition FatLookupLastMcbEntry ::
  "(LARGE_MCB \<Rightarrow> bool \<times> LBO \<times> LBO \<times> ULONG) \<Rightarrow> VCB \<Rightarrow> LARGE_MCB \<Rightarrow> bool \<times> VBO \<times> LBO \<times> ULONG" where
  "FatLookupLastMcbEntry LookupLast s Mcb =
     (let (Results, LiVbo, LiLbo, LocalIndex) = LookupLast Mcb;
          Vbo = push_bit (MCB_SCALE_LOG2 s) (ucast LiVbo :: VBO)
      in if (ucast LiLbo :: ULONG) \<noteq> -1
         then (Results, Vbo + (MCB_SCALE s - 1),
               push_bit (MCB_SCALE_LOG2 s) LiLbo + ucast (MCB_SCALE s - 1), LocalIndex)
         else (Results, Vbo, 0, LocalIndex))"

text \<open>\<open>GetNext Mcb i\<close> stands for FsRtlGetNextLargeMcbEntry: Some (Vbn, Lbn, sectors) of run \<open>i\<close>, None past the last run.\<close>

definition FatGetNextMcbEntry ::
  "(LARGE_MCB \<Rightarrow> ULONG \<Rightarrow> (LBO \<times> LBO \<times> LBO) option) \<Rightarrow> VCB \<Rightarrow> LARGE_MCB \<Rightarrow> ULONG
   \<Rightarrow> (VBO \<times> LBO \<times> ULONG) option" where
  "FatGetNextMcbEntry GetNext s Mcb RunIndex =
     (case GetNext Mcb RunIndex of
        None \<Rightarrow> None
      | Some (LiVbo, LiLbo, LiSectorCount) \<Rightarrow>
          (let Vbo = push_bit (MCB_SCALE_LOG2 s) (ucast LiVbo :: VBO);
               Lbo = (if (ucast LiLbo :: ULONG) \<noteq> -1 then push_bit (MCB_SCALE_LOG2 s) LiLbo else 0);
               ByteCount = push_bit (MCB_SCALE_LOG2 s) (ucast LiSectorCount :: ULONG)
           in Some (Vbo, Lbo, if ByteCount = 0 \<and> LiSectorCount \<noteq> 0 then 0xFFFFFFFF else ByteCount)))"

text \<open>
  FatNonSparseMcb walks the runs and stops at the first hole. \<open>n\<close> bounds the walk; the
  answer is None when it is too small, and otherwise the result with the last Vbo and
  sector count seen.
\<close>

fun FatNonSparseMcb_loop ::
  "(LARGE_MCB \<Rightarrow> ULONG \<Rightarrow> (LBO \<times> LBO \<times> LBO) option) \<Rightarrow> LARGE_MCB \<Rightarrow> nat \<Rightarrow> ULONG \<Rightarrow> VBO \<Rightarrow> LBO
   \<Rightarrow> (bool \<times> VBO \<times> LBO) option" where
  "FatNonSparseMcb_loop GetNext Mcb 0 Index Vbo ByteCount = None"
| "FatNonSparseMcb_loop GetNext Mcb (Suc n) Index Vbo ByteCount =
     (case GetNext Mcb Index of
        None \<Rightarrow> Some (True, Vbo, ByteCount)
      | Some (llVbo, Lbo, Count) \<Rightarrow>
          if (ucast Lbo :: ULONG) = -1 then Some (False, ucast llVbo, Count)
          else FatNonSparseMcb_loop GetNext Mcb n (Index + 1) (ucast llVbo) Count)"

definition FatNonSparseMcb ::
  "(LARGE_MCB \<Rightarrow> ULONG \<Rightarrow> (LBO \<times> LBO \<times> LBO) option) \<Rightarrow> nat \<Rightarrow> LARGE_MCB \<Rightarrow> (bool \<times> VBO \<times> LBO) option" where
  "FatNonSparseMcb GetNext n Mcb = FatNonSparseMcb_loop GetNext Mcb n 0 0 0"

text \<open>Additions to the two Mcbs of the Vcb; the package may fail to allocate and raise.\<close>

definition FatAddDirtyFatMcb :: "VBO \<Rightarrow> LBO \<Rightarrow> ULONG \<Rightarrow> (VCB, unit) fat_op" where
  "FatAddDirtyFatMcb Vbo Lbo Count =
     seq KernelCall (\<lambda>_. modify (\<lambda>s. s\<lparr>DirtyFatMcb := FatAddMcbEntry s (DirtyFatMcb s) Vbo Lbo Count\<rparr>))"

definition FatAddBadBlockMcb :: "VBO \<Rightarrow> LBO \<Rightarrow> ULONG \<Rightarrow> (VCB, unit) fat_op" where
  "FatAddBadBlockMcb Vbo Lbo Count =
     seq KernelCall (\<lambda>_. modify (\<lambda>s. s\<lparr>BadBlockMcb := FatAddMcbEntry s (BadBlockMcb s) Vbo Lbo Count\<rparr>))"

section \<open>Dirty sectors of the FAT\<close>

text \<open>Byte \<open>a\<close> of the volume file lies in a sector the calls have marked dirty, with block number equal to sector number.\<close>

definition dirty_covers :: "nat \<Rightarrow> LARGE_MCB \<Rightarrow> nat \<Rightarrow> bool" where
  "dirty_covers scale Mcb a \<longleftrightarrow>
     (\<exists>c \<in> set Mcb. case c of
        FsRtlAddLargeMcbEntry v l n \<Rightarrow> v = l \<and> unat v \<le> a div 2 ^ scale \<and> a div 2 ^ scale < unat v + unat n
      | FsRtlRemoveLargeMcbEntry v n \<Rightarrow> False)"

lemma dirty_covers_append [simp]: "dirty_covers k (xs @ ys) a \<longleftrightarrow> dirty_covers k xs a \<or> dirty_covers k ys a"
  by (auto simp: dirty_covers_def)

end
