(* ===== verification/FatTable.thy ===== *)
theory FatTable
  imports FatMcb
begin

text \<open>
  One entry of the file allocation table: interpretation of a value, the packed 12-bit
  entries, FatLookupFatEntry with its pinned page and FatSetFatEntry with its dirty-bit
  protocol, over the cached volume file.
\<close>

section \<open>Constants\<close>

abbreviation PAGE_SIZE :: ULONG where
  "PAGE_SIZE \<equiv> 4096"

abbreviation FAT32_ENTRY_MASK :: ULONG where
  "FAT32_ENTRY_MASK \<equiv> 0x0FFFFFFF"

abbreviation FAT_CLEAN_VOLUME :: ULONG where
  "FAT_CLEAN_VOLUME \<equiv> 0xF0000000"

abbreviation FAT_DIRTY_VOLUME :: ULONG where
  "FAT_DIRTY_VOLUME \<equiv> 0xF0000001"

abbreviation FAT_DIRTY_BIT_INDEX :: ULONG where
  "FAT_DIRTY_BIT_INDEX \<equiv> 1"

abbreviation FAT_CLEAN_ENTRY :: ULONG where
  "FAT_CLEAN_ENTRY \<equiv> 0xFFFFFFFF"

abbreviation FAT12_DIRTY_ENTRY :: ULONG where
  "FAT12_DIRTY_ENTRY \<equiv> 0x7ff"

abbreviation FAT16_DIRTY_ENTRY :: ULONG where
  "FAT16_DIRTY_ENTRY \<equiv> 0x7fff"

abbreviation FAT32_DIRTY_ENTRY :: ULONG where
  "FAT32_DIRTY_ENTRY \<equiv> 0x7fffffff"

abbreviation FAT_CLUSTER_AVAILABLE :: ULONG where
  "FAT_CLUSTER_AVAILABLE \<equiv> 0"

abbreviation FAT_CLUSTER_RESERVED :: ULONG where
  "FAT_CLUSTER_RESERVED \<equiv> 0x0ffffff0"

abbreviation FAT_CLUSTER_BAD :: ULONG where
  "FAT_CLUSTER_BAD \<equiv> 0x0ffffff7"

abbreviation FAT_CLUSTER_LAST :: ULONG where
  "FAT_CLUSTER_LAST \<equiv> 0x0fffffff"

section \<open>What an entry means\<close>

datatype CLUSTER_TYPE =
    FatClusterAvailable
  | FatClusterReserved
  | FatClusterBad
  | FatClusterLast
  | FatClusterNext

definition FatInterpretClusterType :: "VCB \<Rightarrow> ULONG \<Rightarrow> CLUSTER_TYPE" where
  "FatInterpretClusterType Vcb Entry0 =
     (let bits = FatIndexBitSize (AllocationSupport Vcb);
          Entry = (if bits = 32 then Entry0 AND FAT32_ENTRY_MASK
                   else if bits = 12 then (if Entry0 \<ge> 0x0ff0 then Entry0 OR 0x0FFFF000 else Entry0)
                   else (if Entry0 \<ge> 0x0fff0 then Entry0 OR 0x0FFF0000 else Entry0))
      in if Entry = FAT_CLUSTER_AVAILABLE then FatClusterAvailable
         else if Entry < FAT_CLUSTER_RESERVED then FatClusterNext
         else if Entry < FAT_CLUSTER_BAD then FatClusterReserved
         else if Entry = FAT_CLUSTER_BAD then FatClusterBad
         else FatClusterLast)"

section \<open>Packed 12-bit entries\<close>

text \<open>
  \<open>FAT\<close> is the offset of the table in the byte memory. CopyUchar2 replaces the two low
  bytes of the destination only, so the old value of the destination is an argument.
\<close>

definition FatLookup12BitEntry :: "mem \<Rightarrow> nat \<Rightarrow> ULONG \<Rightarrow> ULONG \<Rightarrow> ULONG" where
  "FatLookup12BitEntry m FAT INDEX ENTRY =
     (let e = (ENTRY AND 0xffff0000) OR ucast (get16 m (FAT + unat (INDEX * 3 div 2)))
      in 0xfff AND (if INDEX AND 1 \<noteq> 0 then drop_bit 4 e else e))"

definition FatSet12BitEntry :: "mem \<Rightarrow> nat \<Rightarrow> ULONG \<Rightarrow> ULONG \<Rightarrow> mem" where
  "FatSet12BitEntry m FAT INDEX ENTRY =
     (let TmpFatEntry = (ucast (get16 m (FAT + unat (INDEX * 3 div 2))) :: ULONG);
          TmpFatEntry' = (if INDEX AND 1 \<noteq> 0 then push_bit 4 ENTRY OR (TmpFatEntry AND 0xf)
                          else ENTRY OR (TmpFatEntry AND 0xf000))
      in put16 m (FAT + unat (INDEX * 3 div 2)) (ucast TmpFatEntry'))"

section \<open>Access to the volume file\<close>

text \<open>
  A pointer into mapped or pinned data is the offset in the volume file of the byte it
  addresses. FatPrepareWriteVolumeFile's call of FatSetDirtyBcb is outside the model: its
  effect on the FAT happens at most once per dirty period (see the header of
  Spec2Isabelle).
\<close>

definition FatReadVolumeFile :: "VBO \<Rightarrow> ULONG \<Rightarrow> (VCB, nat) fat_op" where
  "FatReadVolumeFile StartingVbo ByteCount = seq KernelCall (\<lambda>_. ret (unat StartingVbo))"

definition FatPrepareWriteVolumeFile :: "VBO \<Rightarrow> ULONG \<Rightarrow> bool \<Rightarrow> bool \<Rightarrow> (VCB, nat) fat_op" where
  "FatPrepareWriteVolumeFile StartingVbo ByteCount Reversible Zero =
     seq KernelCall (\<lambda>_.
     seq (modify (\<lambda>s. if Zero
            then s\<lparr>VolumeFile := (\<lambda>a. if unat StartingVbo \<le> a \<and> a < unat StartingVbo + unat ByteCount
                                     then 0 else VolumeFile s a)\<rparr>
            else s)) (\<lambda>_.
     ret (unat StartingVbo)))"

section \<open>FatLookupFatEntry\<close>

record FAT_ENUMERATION_CONTEXT =
  VboOfPinnedPage :: VBO
  BcbPinned :: bool
  PinnedPage :: nat

text \<open>12-bit tables are mapped as a whole, the others one page at a time. The answer is the entry and the new context.\<close>

definition FatLookupFatEntry_12 ::
  "ULONG \<Rightarrow> ULONG \<Rightarrow> FAT_ENUMERATION_CONTEXT \<Rightarrow> (VCB, ULONG \<times> FAT_ENUMERATION_CONTEXT) fat_op" where
  "FatLookupFatEntry_12 FatIndex FatEntry Context =
     seq (if \<not> BcbPinned Context
          then (\<lambda>s. seq (FatReadVolumeFile (FatReservedBytes (Bpb s)) (FatBytesPerFat (Bpb s)))
                     (\<lambda>p. ret (Context\<lparr>BcbPinned := True, PinnedPage := p\<rparr>)) s)
          else ret Context)
     (\<lambda>C s. (Inr (FatLookup12BitEntry (VolumeFile s) (PinnedPage C) FatIndex FatEntry, C), s))"

definition FatPinPage :: "ULONG \<Rightarrow> FAT_ENUMERATION_CONTEXT \<Rightarrow> (VCB, FAT_ENUMERATION_CONTEXT) fat_op" where
  "FatPinPage OffsetIntoVolumeFile Context =
     (if \<not> BcbPinned Context \<or> OffsetIntoVolumeFile div PAGE_SIZE \<noteq> VboOfPinnedPage Context div PAGE_SIZE
      then seq (FatReadVolumeFile (OffsetIntoVolumeFile AND NOT (PAGE_SIZE - 1)) PAGE_SIZE)
             (\<lambda>p. ret (Context\<lparr>BcbPinned := True, PinnedPage := p,
                               VboOfPinnedPage := OffsetIntoVolumeFile AND NOT (PAGE_SIZE - 1)\<rparr>))
      else ret Context)"

definition FatLookupFatEntry_32 ::
  "ULONG \<Rightarrow> FAT_ENUMERATION_CONTEXT \<Rightarrow> (VCB, ULONG \<times> FAT_ENUMERATION_CONTEXT) fat_op" where
  "FatLookupFatEntry_32 FatIndex Context s =
     (let OffsetIntoVolumeFile = FatReservedBytes (Bpb s) + FatIndex * 4;
          PageEntryOffset = (OffsetIntoVolumeFile mod PAGE_SIZE) div 4
      in seq (FatPinPage OffsetIntoVolumeFile Context)
           (\<lambda>C s. (Inr (get32 (VolumeFile s) (PinnedPage C + 4 * unat PageEntryOffset) AND FAT32_ENTRY_MASK, C), s)) s)"

definition FatLookupFatEntry_16 ::
  "ULONG \<Rightarrow> FAT_ENUMERATION_CONTEXT \<Rightarrow> (VCB, ULONG \<times> FAT_ENUMERATION_CONTEXT) fat_op" where
  "FatLookupFatEntry_16 FatIndex Context s =
     (let OffsetIntoVolumeFile = FatReservedBytes (Bpb s) + FatIndex * 2;
          PageEntryOffset = (OffsetIntoVolumeFile mod PAGE_SIZE) div 2
      in seq (FatPinPage OffsetIntoVolumeFile Context)
           (\<lambda>C s. (Inr (ucast (get16 (VolumeFile s) (PinnedPage C + 2 * unat PageEntryOffset)), C), s)) s)"

definition FatLookupFatEntry ::
  "ULONG \<Rightarrow> ULONG \<Rightarrow> FAT_ENUMERATION_CONTEXT \<Rightarrow> (VCB, ULONG \<times> FAT_ENUMERATION_CONTEXT) fat_op" where
  "FatLookupFatEntry FatIndex FatEntry Context =
     seq (FatVerifyIndexIsValid FatIndex) (\<lambda>_ s.
       (if FatIndexBitSize (AllocationSupport s) = 12 then FatLookupFatEntry_12 FatIndex FatEntry Context
        else if FatIndexBitSize (AllocationSupport s) = 32 then FatLookupFatEntry_32 FatIndex Context
        else FatLookupFatEntry_16 FatIndex Context) s)"

section \<open>FatSetFatEntry\<close>

text \<open>The finally block: flags back, and the buffer unpinned or written through. \<open>Bcb\<close> is the offset of the pinned buffer, if any.\<close>

definition FatSetFatEntry_finally :: "bool \<Rightarrow> bool \<Rightarrow> VBO option \<Rightarrow> (VCB, unit) fat_op" where
  "FatSetFatEntry_finally CleaningOperation WasWait Bcb =
     modify (\<lambda>s.
       let s1 = s\<lparr>IrpContextDisableDirty := False\<rparr>;
           s2 = (if \<not> WasWait then s1\<lparr>IrpContextWait := False\<rparr> else s1)
       in case Bcb of
            None \<Rightarrow> s2
          | Some vbo \<Rightarrow> (if CleaningOperation \<or> MountInProgress s2
                         then s2\<lparr>WrittenThrough := WrittenThrough s2 @ [vbo]\<rparr> else s2))"

text \<open>Pin for writing, run the rest of the try block on the pinned data, and leave through the finally block either way.\<close>

definition FatSetFatEntry_try ::
  "VBO \<Rightarrow> ULONG \<Rightarrow> bool \<Rightarrow> (VBO option \<Rightarrow> (VCB, unit) fat_op) \<Rightarrow> (nat \<Rightarrow> (VCB, unit) fat_op) \<Rightarrow> (VCB, unit) fat_op" where
  "FatSetFatEntry_try Vbo Count RegularOperation fin body s =
     (case FatPrepareWriteVolumeFile Vbo Count RegularOperation False s of
        (Inl e, s1) \<Rightarrow> seq (fin None) (\<lambda>_. raise_status e) s1
      | (Inr p, s1) \<Rightarrow> try_finally (body p) (\<lambda>_. fin (Some Vbo)) s1)"

definition FatSetFatEntry_12 ::
  "ULONG \<Rightarrow> ULONG \<Rightarrow> ULONG \<Rightarrow> bool \<Rightarrow> (VBO option \<Rightarrow> (VCB, unit) fat_op) \<Rightarrow> (VCB, unit) fat_op" where
  "FatSetFatEntry_12 SectorSize FatIndex FatEntry0 RegularOperation fin s =
     (let FatEntry = FatEntry0 AND 0xfff;
          OffsetIntoVolumeFile = FatReservedBytes (Bpb s) + FatIndex * 3 div 2;
          Lbo = OffsetIntoVolumeFile AND NOT (SectorSize - 1)
      in FatSetFatEntry_try (FatReservedBytes (Bpb s)) (FatBytesPerFat (Bpb s)) RegularOperation fin (\<lambda>PinnedFat.
           seq (FatAddDirtyFatMcb Lbo (ucast Lbo) SectorSize) (\<lambda>_.
           seq (if OffsetIntoVolumeFile AND (SectorSize - 1) = SectorSize - 1
                then FatAddDirtyFatMcb (Lbo + SectorSize) (ucast Lbo + ucast SectorSize) SectorSize
                else ret ()) (\<lambda>_.
           modify (\<lambda>s. s\<lparr>VolumeFile := FatSet12BitEntry (VolumeFile s) PinnedFat FatIndex FatEntry\<rparr>)))) s)"

definition FatSetFatEntry_32 ::
  "ULONG \<Rightarrow> ULONG \<Rightarrow> ULONG \<Rightarrow> bool \<Rightarrow> (VBO option \<Rightarrow> (VCB, unit) fat_op) \<Rightarrow> (VCB, unit) fat_op" where
  "FatSetFatEntry_32 SectorSize FatIndex FatEntry RegularOperation fin s =
     (let OffsetIntoVolumeFile = FatReservedBytes (Bpb s) + FatIndex * 4;
          Lbo = OffsetIntoVolumeFile AND NOT (SectorSize - 1)
      in FatSetFatEntry_try OffsetIntoVolumeFile 4 RegularOperation fin (\<lambda>PinnedFatEntry32.
           seq (FatAddDirtyFatMcb Lbo (ucast Lbo) SectorSize) (\<lambda>_.
           modify (\<lambda>s. s\<lparr>VolumeFile := put32 (VolumeFile s) PinnedFatEntry32
             (if FatIndex \<noteq> FAT_DIRTY_BIT_INDEX
              then (get32 (VolumeFile s) PinnedFatEntry32 AND NOT FAT32_ENTRY_MASK) OR FatEntry
              else FatEntry)\<rparr>))) s)"

definition FatSetFatEntry_16 ::
  "ULONG \<Rightarrow> ULONG \<Rightarrow> ULONG \<Rightarrow> bool \<Rightarrow> (VBO option \<Rightarrow> (VCB, unit) fat_op) \<Rightarrow> (VCB, unit) fat_op" where
  "FatSetFatEntry_16 SectorSize FatIndex FatEntry RegularOperation fin s =
     (let OffsetIntoVolumeFile = FatReservedBytes (Bpb s) + FatIndex * 2;
          Lbo = OffsetIntoVolumeFile AND NOT (SectorSize - 1)
      in FatSetFatEntry_try OffsetIntoVolumeFile 2 RegularOperation fin (\<lambda>PinnedFatEntry.
           seq (FatAddDirtyFatMcb Lbo (ucast Lbo) SectorSize) (\<lambda>_.
           modify (\<lambda>s. s\<lparr>VolumeFile := put16 (VolumeFile s) PinnedFatEntry (ucast FatEntry)\<rparr>))) s)"

definition FatSetFatEntry_by_size ::
  "ULONG \<Rightarrow> ULONG \<Rightarrow> bool \<Rightarrow> bool \<Rightarrow> bool \<Rightarrow> (VCB, unit) fat_op" where
  "FatSetFatEntry_by_size FatIndex FatEntry RegularOperation CleaningOperation WasWait s =
     (let SectorSize = push_bit (unat (LogOfBytesPerSector (AllocationSupport s))) 1;
          fin = FatSetFatEntry_finally CleaningOperation WasWait
      in (if FatIndexBitSize (AllocationSupport s) = 12
          then FatSetFatEntry_12 SectorSize FatIndex FatEntry RegularOperation fin
          else if FatIndexBitSize (AllocationSupport s) = 32
          then FatSetFatEntry_32 SectorSize FatIndex FatEntry RegularOperation fin
          else FatSetFatEntry_16 SectorSize FatIndex FatEntry RegularOperation fin) s)"

definition FatSetFatEntry :: "ULONG \<Rightarrow> ULONG \<Rightarrow> (VCB, unit) fat_op" where
  "FatSetFatEntry FatIndex FatEntry s =
     (if FatIndex = FAT_DIRTY_BIT_INDEX then
        if FatEntry \<noteq> FAT_CLEAN_VOLUME \<and> FatEntry \<noteq> FAT_DIRTY_VOLUME
        then (Inl STATUS_FILE_CORRUPT_ERROR, s)
        else
          (let CleaningOperation = (FatEntry = FAT_CLEAN_VOLUME);
               Entry = (if CleaningOperation then FAT_CLEAN_ENTRY
                        else if FatIndexBitSize (AllocationSupport s) = 12 then FAT12_DIRTY_ENTRY
                        else if FatIndexBitSize (AllocationSupport s) = 32 then FAT32_DIRTY_ENTRY
                        else FAT16_DIRTY_ENTRY);
               WasWait = IrpContextWait s
           in FatSetFatEntry_by_size FatIndex Entry False CleaningOperation WasWait
                (s\<lparr>IrpContextWait := True, IrpContextDisableDirty := True\<rparr>))
      else seq (FatVerifyIndexIsValid FatIndex)
             (\<lambda>_. FatSetFatEntry_by_size FatIndex FatEntry True False True) s)"

end
