(* ===== verification/FatCodec.thy ===== *)
theory FatCodec
  imports FatTable
begin

text \<open>
  The FAT as an array of entries packed least significant bit first: entry \<open>i\<close> of a
  \<open>w\<close>-bit FAT is bits \<open>w * i, \<dots>\<close> of the table. The locale \<open>fat_codec\<close> states this of a
  pair of a read and a write; the laws of reading after writing, the bytes a write leaves
  alone and the effect of writing a run of entries are proved from it, for the packed 12-bit
  macros of fat.h and for the 16- and 32-bit pointer accesses alike.
\<close>

section \<open>Bits of the table\<close>

text \<open>Bit \<open>p\<close> of the table that starts at byte \<open>R\<close>.\<close>

definition fat_bit :: "nat \<Rightarrow> mem \<Rightarrow> nat \<Rightarrow> bool" where
  "fat_bit R m p = bit (m (R + p div 8)) (p mod 8)"

lemma mem_eq_by_fat_bit:
  assumes "\<And>a. a < R \<Longrightarrow> m a = m' a" and "\<And>p. fat_bit R m p = fat_bit R m' p"
  shows "m = m'"
proof (rule ext)
  fix a
  show "m a = m' a"
  proof (cases "a < R")
    case False
    show ?thesis
    proof (rule bit_word_eqI)
      fix n assume "n < LENGTH(8)"
      then have "n < 8" by simp
      then show "bit (m a) n = bit (m' a) n"
        using assms(2)[of "8 * (a - R) + n"] False by (simp add: fat_bit_def)
    qed
  qed (rule assms(1))
qed

lemma bit_get16: "bit (get16 m (R + q)) n \<longleftrightarrow> n < 16 \<and> fat_bit R m (8 * q + n)"
proof -
  have "n < 8 \<Longrightarrow> (8 * q + n) div 8 = q \<and> (8 * q + n) mod 8 = n" by simp
  moreover have "8 \<le> n \<Longrightarrow> n < 16 \<Longrightarrow> (8 * q + n) div 8 = q + 1 \<and> (8 * q + n) mod 8 = n - 8"
    by presburger
  moreover have "bit (m b) k \<Longrightarrow> k < 8" for b k
    using bit_imp_le_length[of "m b" k] by simp
  ultimately show ?thesis
    by (cases "n < 8"; cases "n < 16") (auto simp: get16_def fat_bit_def bit_simps add.assoc)
qed

lemma bit_get32: "bit (get32 m (R + q)) n \<longleftrightarrow> n < 32 \<and> fat_bit R m (8 * q + n)"
proof -
  have s: "8 * (q + 2) + (n - 16) = 8 * q + n" if "16 \<le> n" using that by simp
  show ?thesis
    using bit_get16[of m R q n] bit_get16[of m R "q + 2" "n - 16"] s
    by (cases "n < 16"; cases "n < 32") (auto simp: get32_def bit_simps add.assoc)
qed

lemma fat_bit_put16:
  "fat_bit R (put16 m (R + q) v) p =
     (if 8 * q \<le> p \<and> p < 8 * q + 16 then bit v (p - 8 * q) else fat_bit R m p)"
proof (cases "8 * q \<le> p \<and> p < 8 * q + 16")
  case True
  then have "bit (get16 (put16 m (R + q) v) (R + q)) (p - 8 * q) = fat_bit R (put16 m (R + q) v) p"
    by (auto simp: bit_get16 simp del: get16_put16_same)
  with True show ?thesis by simp
next
  case False
  then have "R + p div 8 < R + q \<or> R + q + 2 \<le> R + p div 8" by auto
  then show ?thesis using False by (auto simp: fat_bit_def put16_other)
qed

lemma fat_bit_put32:
  "fat_bit R (put32 m (R + q) v) p =
     (if 8 * q \<le> p \<and> p < 8 * q + 32 then bit v (p - 8 * q) else fat_bit R m p)"
proof (cases "8 * q \<le> p \<and> p < 8 * q + 32")
  case True
  then have "bit (get32 (put32 m (R + q) v) (R + q)) (p - 8 * q) = fat_bit R (put32 m (R + q) v) p"
    by (auto simp: bit_get32 simp del: get32_put32_same)
  with True show ?thesis by simp
next
  case False
  then have "R + p div 8 < R + q \<or> R + q + 4 \<le> R + p div 8" by auto
  then show ?thesis using False by (auto simp: fat_bit_def put32_other)
qed

lemma index_odd: "(i :: ULONG) AND 1 \<noteq> 0 \<longleftrightarrow> odd (unat i)"
proof -
  have "i AND 1 = i mod 2" by (simp add: and_one_eq)
  then have "unat (i AND 1) = unat i mod 2" by (simp add: unat_mod)
  moreover have "i AND 1 \<noteq> 0 \<longleftrightarrow> unat (i AND 1) \<noteq> 0" by (simp only: unat_eq_zero)
  ultimately show ?thesis by (simp add: odd_iff_mod_2_eq_one)
qed

lemma unat_12bit_offset: "3 * unat i < 2 ^ 32 \<Longrightarrow> unat ((i :: ULONG) * 3 div 2) = 3 * unat i div 2"
  by (simp add: unat_div unat_mult_small mult.commute)

lemma fff_mask: "(0xfff :: ULONG) = mask 12" "(0xf :: ULONG) = mask 4"
  "(0xffff0000 :: ULONG) = push_bit 16 (mask 16)" "(0xf000 :: ULONG) = push_bit 12 (mask 4)"
  by (simp_all add: mask_eq_exp_minus_1)

lemma bit_FatLookup12BitEntry:
  assumes "3 * unat i < 2 ^ 32"
  shows "bit (FatLookup12BitEntry m R i E) n \<longleftrightarrow> n < 12 \<and> fat_bit R m (12 * unat i + n)"
proof -
  let ?q = "3 * unat i div 2"
  let ?e = "(E AND push_bit 16 (mask 16)) OR ucast (get16 m (R + ?q))"
  have e: "bit ?e k \<longleftrightarrow> fat_bit R m (8 * ?q + k)" if "k < 16" for k
    using that by (auto simp: bit_simps bit_get16)
  have "FatLookup12BitEntry m R i E = mask 12 AND (if odd (unat i) then drop_bit 4 ?e else ?e)"
    unfolding FatLookup12BitEntry_def fff_mask Let_def index_odd unat_12bit_offset[OF assms] ..
  then have "bit (FatLookup12BitEntry m R i E) n \<longleftrightarrow> n < 12 \<and> bit ?e (if odd (unat i) then 4 + n else n)"
    by (auto simp: bit_simps simp del: bit_get16)
  moreover have "8 * ?q + (if odd (unat i) then 4 + n else n) = 12 * unat i + n"
    by (cases "odd (unat i)") presburger+
  ultimately show ?thesis using e[of "if odd (unat i) then 4 + n else n"] by auto
qed

lemma fat_bit_FatSet12BitEntry:
  assumes "3 * unat i < 2 ^ 32" and "v AND NOT 0xfff = 0"
  shows "fat_bit R (FatSet12BitEntry m R i v) p =
    (if 12 * unat i \<le> p \<and> p < 12 * unat i + 12 then bit v (p - 12 * unat i) else fat_bit R m p)"
proof -
  let ?q = "3 * unat i div 2"
  let ?t = "ucast (get16 m (R + ?q)) :: ULONG"
  let ?w = "if odd (unat i) then push_bit 4 v OR (?t AND mask 4) else v OR (?t AND push_bit 12 (mask 4))"
  have v: "bit v k \<Longrightarrow> k < 12" for k
    using assms(2) bit32_lt[of v k] unfolding fff_mask word_eq_bits by (auto simp: bit_simps)
  have "FatSet12BitEntry m R i v = put16 m (R + ?q) (ucast ?w)"
    unfolding FatSet12BitEntry_def fff_mask Let_def index_odd unat_12bit_offset[OF assms(1)] ..
  then have f: "fat_bit R (FatSet12BitEntry m R i v) p =
     (if 8 * ?q \<le> p \<and> p < 8 * ?q + 16 then bit (ucast ?w :: USHORT) (p - 8 * ?q) else fat_bit R m p)"
    by (simp only: fat_bit_put16)
  show ?thesis
  proof (cases "8 * ?q \<le> p \<and> p < 8 * ?q + 16")
    case False
    have "8 * ?q \<le> 12 * unat i \<and> 12 * unat i + 12 \<le> 8 * ?q + 16" by presburger
    with False f show ?thesis by auto
  next
    case True
    define k where "k = p - 8 * ?q"
    have k: "p = 8 * ?q + k" "k < 16" using True by (auto simp: k_def)
    have g: "bit ?t k = fat_bit R m p" using k by (simp add: bit_simps bit_get16)
    show ?thesis
    proof (cases "odd (unat i)")
      case odd: True
      then have q: "8 * ?q + 4 = 12 * unat i" by presburger
      have "bit (ucast ?w :: USHORT) k = (if 4 \<le> k then bit v (k - 4) else fat_bit R m p)"
        using odd k(2) g v by (auto simp: bit_simps)
      moreover have "p - 12 * unat i = k - 4" "12 * unat i \<le> p \<and> p < 12 * unat i + 12 \<longleftrightarrow> 4 \<le> k"
        using q k by auto
      ultimately show ?thesis using f True by (simp only: k_def simp_thms if_True)
    next
      case even: False
      then have q: "8 * ?q = 12 * unat i" by presburger
      have "bit (ucast ?w :: USHORT) k = (if k < 12 then bit v k else fat_bit R m p)"
        using even k(2) g v by (auto simp: bit_simps)
      moreover have "p - 12 * unat i = k" "12 * unat i \<le> p \<and> p < 12 * unat i + 12 \<longleftrightarrow> k < 12"
        using q k by auto
      ultimately show ?thesis using f True by (simp only: k_def simp_thms if_True)
    qed
  qed
qed

section \<open>The interface: an array of packed entries\<close>

text \<open>
  \<open>w\<close> is the width of an entry and \<open>vw\<close> the number of its bits that hold the value (28 of
  32 on FAT32). \<open>vmask\<close> has the bits a value to be written may have, and \<open>lim\<close> bounds
  the indices whose offset the code computes without wrapping.
\<close>

locale fat_codec =
  fixes R :: nat and w :: nat and vw :: nat and lim :: nat and vmask :: ULONG
    and get :: "mem \<Rightarrow> ULONG \<Rightarrow> ULONG"
    and set :: "mem \<Rightarrow> ULONG \<Rightarrow> ULONG \<Rightarrow> mem"
  assumes vw_le_w: "vw \<le> w" and w_pos: "0 < w" and vw_le_32: "vw \<le> 32"
    and bit_get: "unat i < lim \<Longrightarrow> bit (get m i) n \<longleftrightarrow> n < vw \<and> fat_bit R m (w * unat i + n)"
    and fat_bit_set: "unat i < lim \<Longrightarrow> v AND NOT vmask = 0 \<Longrightarrow>
        fat_bit R (set m i v) p =
          (if w * unat i \<le> p \<and> p < w * unat i + vw then bit v (p - w * unat i) else fat_bit R m p)"
    and set_below: "unat i < lim \<Longrightarrow> a < R \<Longrightarrow> set m i v a = m a"
begin

lemma slots_disjoint:
  assumes "n < w" "k < w"
  shows "w * i + n = w * j + k \<longleftrightarrow> i = j \<and> n = (k::nat)"
proof
  assume e: "w * i + n = w * j + k"
  have "i = (w * i + n) div w" "j = (w * j + k) div w" using assms by simp_all
  then have "i = j" by (simp only: e)
  with e show "i = j \<and> n = k" by simp
qed simp

lemma get_cong:
  assumes "unat i < lim" and "\<And>n. n < vw \<Longrightarrow> fat_bit R m (w * unat i + n) = fat_bit R m' (w * unat i + n)"
  shows "get m i = get m' i"
  by (rule bit_word_eqI) (auto simp: bit_get[OF assms(1)] assms(2))

lemma get_set_same:
  assumes "unat i < lim" "v AND NOT vmask = 0"
  shows "get (set m i v) i = take_bit vw v"
  by (rule bit_word_eqI) (auto simp: bit_get[OF assms(1)] fat_bit_set[OF assms] bit_simps)

lemma get_set_other:
  assumes "unat i < lim" "v AND NOT vmask = 0" "unat j < lim" "i \<noteq> j"
  shows "get (set m i v) j = get m j"
proof (rule get_cong[OF assms(3)])
  fix n assume n: "n < vw"
  have "\<not> (w * unat i \<le> w * unat j + n \<and> w * unat j + n < w * unat i + vw)"
  proof
    assume *: "w * unat i \<le> w * unat j + n \<and> w * unat j + n < w * unat i + vw"
    then have "w * unat j + n = w * unat i + (w * unat j + n - w * unat i)"
      "w * unat j + n - w * unat i < w" using vw_le_w by auto
    then have "unat j = unat i" using slots_disjoint n vw_le_w by (metis order_less_le_trans)
    with assms(4) show False by (metis word_unat_eq_iff)
  qed
  then show "fat_bit R (set m i v) (w * unat j + n) = fat_bit R m (w * unat j + n)"
    unfolding fat_bit_set[OF assms(1,2)] by (simp only: if_False)
qed

lemma get_set:
  "unat i < lim \<Longrightarrow> v AND NOT vmask = 0 \<Longrightarrow> unat j < lim \<Longrightarrow>
     get (set m i v) j = (if i = j then take_bit vw v else get m j)"
  by (auto simp: get_set_same get_set_other)

lemma set_frame:
  assumes "unat i < lim" "v AND NOT vmask = 0"
    and "a < R \<or> 8 * (a - R) + 8 \<le> w * unat i \<or> w * unat i + w \<le> 8 * (a - R)"
  shows "set m i v a = m a"
proof (cases "a < R")
  case False
  show ?thesis
  proof (rule bit_word_eqI)
    fix n assume "n < LENGTH(8)"
    then have n: "n < 8" by simp
    have "fat_bit R (set m i v) (8 * (a - R) + n) = fat_bit R m (8 * (a - R) + n)"
      using assms(3) n False vw_le_w unfolding fat_bit_set[OF assms(1,2)] by auto
    with n False show "bit (set m i v a) n = bit (m a) n" by (simp add: fat_bit_def)
  qed
qed (rule set_below[OF assms(1)])

text \<open>A run of entries written by a counted loop.\<close>

lemma run_step:
  assumes "unat s + n < lim" "lim \<le> 2 ^ 32"
  shows "unat ((s::ULONG) + of_nat n) = unat s + n"
proof (rule unat_add_of_nat32)
  show "unat s + n < 2 ^ 32" using assms by linarith
qed

lemma get_run:
  assumes "unat s + n \<le> lim" "lim \<le> 2 ^ 32" "unat j < lim"
    and ok: "\<And>k. k < n \<Longrightarrow> f (s + of_nat k) AND NOT vmask = 0"
  shows "get (for_loop n (\<lambda>i m. set m i (f i)) s m) j =
     (if unat s \<le> unat j \<and> unat j < unat s + n then take_bit vw (f j) else get m j)"
  using assms(1) ok
proof (induction n)
  case (Suc n)
  let ?i = "s + of_nat n"
  have u: "unat ?i = unat s + n" using Suc.prems(1) assms(2) by (intro run_step) simp_all
  have "get (for_loop (Suc n) (\<lambda>i m. set m i (f i)) s m) j =
      (if ?i = j then take_bit vw (f ?i) else get (for_loop n (\<lambda>i m. set m i (f i)) s m) j)"
    unfolding for_loop_Suc_end using u Suc.prems assms(3) by (intro get_set) simp_all
  moreover have "?i = j \<longleftrightarrow> unat j = unat s + n"
    using u by (auto simp: word_unat_eq_iff)
  moreover have "get (for_loop n (\<lambda>i m. set m i (f i)) s m) j =
     (if unat s \<le> unat j \<and> unat j < unat s + n then take_bit vw (f j) else get m j)"
    using Suc.prems by (intro Suc.IH) simp_all
  ultimately show ?case by auto
qed auto

lemma run_frame:
  assumes "unat s + n \<le> lim" "lim \<le> 2 ^ 32"
    and ok: "\<And>k. k < n \<Longrightarrow> f (s + of_nat k) AND NOT vmask = 0"
    and "a < R \<or> 8 * (a - R) + 8 \<le> w * unat s \<or> w * (unat s + n) \<le> 8 * (a - R)"
  shows "for_loop n (\<lambda>i m. set m i (f i)) s m a = m a"
  using assms(1) ok assms(4)
proof (induction n)
  case (Suc n)
  let ?i = "s + of_nat n"
  have u: "unat ?i = unat s + n" using Suc.prems(1) assms(2) by (intro run_step) simp_all
  have d: "a < R \<or> 8 * (a - R) + 8 \<le> w * unat ?i \<or> w * unat ?i + w \<le> 8 * (a - R)"
    using Suc.prems(3) by (auto simp: u distrib_left)
  have "for_loop (Suc n) (\<lambda>i m. set m i (f i)) s m a = for_loop n (\<lambda>i m. set m i (f i)) s m a"
    unfolding for_loop_Suc_end using u Suc.prems d by (intro set_frame) simp_all
  moreover have "a < R \<or> 8 * (a - R) + 8 \<le> w * unat s \<or> w * (unat s + n) \<le> 8 * (a - R)"
    using Suc.prems(3) by (auto simp: distrib_left)
  ultimately show ?case using Suc.IH Suc.prems by simp
qed simp

end

section \<open>The three layouts\<close>

definition fat_get16 :: "nat \<Rightarrow> mem \<Rightarrow> ULONG \<Rightarrow> ULONG" where
  "fat_get16 R m i = ucast (get16 m (R + 2 * unat i))"

definition fat_set16 :: "nat \<Rightarrow> mem \<Rightarrow> ULONG \<Rightarrow> ULONG \<Rightarrow> mem" where
  "fat_set16 R m i v = put16 m (R + 2 * unat i) (ucast v)"

definition fat_get32 :: "nat \<Rightarrow> mem \<Rightarrow> ULONG \<Rightarrow> ULONG" where
  "fat_get32 R m i = get32 m (R + 4 * unat i) AND FAT32_ENTRY_MASK"

text \<open>FatSetFatEntry keeps the reserved high bits of a 32-bit entry, FatSetFatRun replaces them.\<close>

definition fat_set32 :: "nat \<Rightarrow> mem \<Rightarrow> ULONG \<Rightarrow> ULONG \<Rightarrow> mem" where
  "fat_set32 R m i v =
     put32 m (R + 4 * unat i) ((get32 m (R + 4 * unat i) AND NOT FAT32_ENTRY_MASK) OR v)"

definition fat_set32_raw :: "nat \<Rightarrow> mem \<Rightarrow> ULONG \<Rightarrow> ULONG \<Rightarrow> mem" where
  "fat_set32_raw R m i v = put32 m (R + 4 * unat i) v"

lemma fat32_mask: "FAT32_ENTRY_MASK = mask 28"
  by (simp add: mask_eq_exp_minus_1)

lemma bit_fat_get16: "bit (fat_get16 R m i) n \<longleftrightarrow> n < 16 \<and> fat_bit R m (16 * unat i + n)"
  using bit_get16[of m R "2 * unat i" n] by (auto simp: fat_get16_def bit_simps)

lemma fat_bit_set16:
  "fat_bit R (fat_set16 R m i v) p =
     (if 16 * unat i \<le> p \<and> p < 16 * unat i + 16 then bit v (p - 16 * unat i) else fat_bit R m p)"
  using fat_bit_put16[of R m "2 * unat i" "ucast v" p] by (auto simp: fat_set16_def bit_simps)

lemma bit_fat_get32: "bit (fat_get32 R m i) n \<longleftrightarrow> n < 28 \<and> fat_bit R m (32 * unat i + n)"
  unfolding fat_get32_def fat32_mask using bit_get32[of m R "4 * unat i" n] by (auto simp: bit_simps)

lemma fat_bit_set32:
  assumes "v AND NOT FAT32_ENTRY_MASK = 0"
  shows "fat_bit R (fat_set32 R m i v) p =
     (if 32 * unat i \<le> p \<and> p < 32 * unat i + 28 then bit v (p - 32 * unat i) else fat_bit R m p)"
proof -
  let ?e = "get32 m (R + 4 * unat i)"
  have v: "bit v k \<Longrightarrow> k < 28" for k
    using assms bit32_lt[of v k] unfolding fat32_mask word_eq_bits by (auto simp: bit_simps)
  have "fat_bit R (fat_set32 R m i v) p =
    (if 32 * unat i \<le> p \<and> p < 32 * unat i + 32 then bit ((?e AND NOT (mask 28)) OR v) (p - 32 * unat i)
     else fat_bit R m p)"
    unfolding fat_set32_def fat32_mask using fat_bit_put32[of R m "4 * unat i" _ p] by simp
  moreover have "bit ?e (p - 32 * unat i) = fat_bit R m p"
    if "32 * unat i \<le> p" "p < 32 * unat i + 32"
    using that bit_get32[of m R "4 * unat i" "p - 32 * unat i"] by auto
  ultimately show ?thesis using v[of "p - 32 * unat i"] by (auto simp: bit_simps)
qed

lemma fat_bit_set32_raw:
  "fat_bit R (fat_set32_raw R m i v) p =
     (if 32 * unat i \<le> p \<and> p < 32 * unat i + 32 then bit v (p - 32 * unat i) else fat_bit R m p)"
  using fat_bit_put32[of R m "4 * unat i" v p] by (auto simp: fat_set32_raw_def)

lemma bit_fat_get32_raw: "bit (get32 m (R + 4 * unat i)) n \<longleftrightarrow> n < 32 \<and> fat_bit R m (32 * unat (i::ULONG) + n)"
  using bit_get32[of m R "4 * unat i" n] by auto

lemma bit_Lookup12:
  "unat i < 1431655765 \<Longrightarrow>
     bit (FatLookup12BitEntry m R i 0) n \<longleftrightarrow> n < 12 \<and> fat_bit R m (12 * unat i + n)"
  by (rule bit_FatLookup12BitEntry) simp

lemma fat_bit_Set12:
  "unat i < 1431655765 \<Longrightarrow> v AND NOT 0xfff = 0 \<Longrightarrow>
     fat_bit R (FatSet12BitEntry m R i v) p =
       (if 12 * unat i \<le> p \<and> p < 12 * unat i + 12 then bit v (p - 12 * unat i) else fat_bit R m p)"
  by (rule fat_bit_FatSet12BitEntry) simp

lemma FatSet12BitEntry_below: "a < R \<Longrightarrow> FatSet12BitEntry m R i v a = m a"
  by (simp add: FatSet12BitEntry_def Let_def put16_other)

interpretation c12: fat_codec R 12 12 1431655765 "0xfff"
  "\<lambda>m i. FatLookup12BitEntry m R i 0" "\<lambda>m i v. FatSet12BitEntry m R i v" for R
  by unfold_locales
    (simp, simp, simp, erule bit_Lookup12, erule (1) fat_bit_Set12, rule FatSet12BitEntry_below, assumption)

interpretation c16: fat_codec R 16 16 "2 ^ 32" "-1" "fat_get16 R" "fat_set16 R" for R
  by unfold_locales (simp_all only: bit_fat_get16 fat_bit_set16, simp_all add: fat_set16_def put16_other)

interpretation c32: fat_codec R 32 28 "2 ^ 32" FAT32_ENTRY_MASK "fat_get32 R" "fat_set32 R" for R
  by unfold_locales (simp_all only: bit_fat_get32 fat_bit_set32, simp_all add: fat_set32_def put32_other)

interpretation c32raw: fat_codec R 32 32 "2 ^ 32" "-1"
  "\<lambda>m i. get32 m (R + 4 * unat i)" "fat_set32_raw R" for R
  by unfold_locales
    (simp_all only: bit_fat_get32_raw fat_bit_set32_raw, simp_all add: fat_set32_raw_def put32_other)

end
