(* ===== verification/FatEntry.thy ===== *)
theory FatEntry
  imports FatCodec
begin

text \<open>
  FatLookupFatEntry and FatSetFatEntry against the FAT as an array of entries: what a lookup
  answers with and without a page in its context, what a store changes in the volume file
  and which sectors it marks dirty, what is left of the state when the cache manager raises,
  and the dirty-bit entry.
\<close>

section \<open>The entries of the FAT of a volume\<close>

definition fat_width :: "UCHAR \<Rightarrow> nat" where
  "fat_width b = (if b = 12 then 12 else if b = 32 then 32 else 16)"

definition fat_vwidth :: "UCHAR \<Rightarrow> nat" where
  "fat_vwidth b = (if b = 12 then 12 else if b = 32 then 28 else 16)"

definition fat_get :: "UCHAR \<Rightarrow> nat \<Rightarrow> mem \<Rightarrow> ULONG \<Rightarrow> ULONG" where
  "fat_get b R m i =
     (if b = 12 then FatLookup12BitEntry m R i 0
      else if b = 32 then fat_get32 R m i else fat_get16 R m i)"

definition fat_set :: "UCHAR \<Rightarrow> nat \<Rightarrow> mem \<Rightarrow> ULONG \<Rightarrow> ULONG \<Rightarrow> mem" where
  "fat_set b R m i v =
     (if b = 12 then FatSet12BitEntry m R i (v AND 0xfff)
      else if b = 32 then fat_set32 R m i v else fat_set16 R m i v)"

lemma and_fff_NOT: "(v AND 0xfff) AND NOT (0xfff :: ULONG) = 0"
  unfolding fff_mask by (auto simp: word_eq_bits bit_simps)

lemma bit_fat_get:
  "unat i < 1431655765 \<Longrightarrow>
     bit (fat_get b R m i) n \<longleftrightarrow> n < fat_vwidth b \<and> fat_bit R m (fat_width b * unat i + n)"
proof -
  assume i: "unat i < 1431655765"
  consider "b = 12" | "b = 32" | "b \<noteq> 12" "b \<noteq> 32" by blast
  then show ?thesis
  proof cases
    case 1
    then show ?thesis using bit_Lookup12[OF i] by (simp add: fat_get_def fat_width_def fat_vwidth_def)
  next
    case 2
    then show ?thesis using bit_fat_get32 by (simp add: fat_get_def fat_width_def fat_vwidth_def)
  next
    case 3
    then show ?thesis using bit_fat_get16 by (simp add: fat_get_def fat_width_def fat_vwidth_def)
  qed
qed

lemma fat_bit_fat_set:
  assumes "unat i < 1431655765" "v AND NOT FAT32_ENTRY_MASK = 0"
  shows "fat_bit R (fat_set b R m i v) p =
     (if fat_width b * unat i \<le> p \<and> p < fat_width b * unat i + fat_vwidth b
      then bit v (p - fat_width b * unat i) else fat_bit R m p)"
proof -
  have v: "bit (v AND 0xfff) n \<longleftrightarrow> n < 12 \<and> bit v n" for n
    unfolding fff_mask by (auto simp: bit_simps)
  consider "b = 12" | "b = 32" | "b \<noteq> 12" "b \<noteq> 32" by blast
  then show ?thesis
  proof cases
    case 1
    then show ?thesis
      using fat_bit_Set12[OF assms(1) and_fff_NOT, of R m v p]
      by (auto simp: fat_set_def fat_width_def fat_vwidth_def v)
  next
    case 2
    then show ?thesis using fat_bit_set32[OF assms(2)] by (simp add: fat_set_def fat_width_def fat_vwidth_def)
  next
    case 3
    then show ?thesis using fat_bit_set16 by (simp add: fat_set_def fat_width_def fat_vwidth_def)
  qed
qed

lemma fat_set_below: "a < R \<Longrightarrow> fat_set b R m i v a = m a"
  by (simp add: fat_set_def FatSet12BitEntry_below fat_set16_def fat_set32_def put16_other put32_other)

interpretation fat: fat_codec R "fat_width b" "fat_vwidth b" 1431655765 FAT32_ENTRY_MASK "fat_get b R" "fat_set b R"
  for R b
  by unfold_locales
    (simp add: fat_width_def fat_vwidth_def, simp add: fat_width_def, simp add: fat_vwidth_def,
     erule bit_fat_get, erule (1) fat_bit_fat_set, erule fat_set_below)

text \<open>Entry \<open>i\<close> of the FAT of the volume; a volume whose FAT has room for its clusters.\<close>

abbreviation vcb_bits :: "VCB \<Rightarrow> UCHAR" where
  "vcb_bits s \<equiv> FatIndexBitSize (AllocationSupport s)"

abbreviation vcb_R :: "VCB \<Rightarrow> nat" where
  "vcb_R s \<equiv> unat (FatReservedBytes (Bpb s))"

abbreviation vcb_N :: "VCB \<Rightarrow> nat" where
  "vcb_N s \<equiv> unat (NumberOfClusters (AllocationSupport s))"

definition FatEntryOf :: "VCB \<Rightarrow> ULONG \<Rightarrow> ULONG" where
  "FatEntryOf s i = fat_get (vcb_bits s) (vcb_R s) (VolumeFile s) i"

definition vcb_ok :: "VCB \<Rightarrow> bool" where
  "vcb_ok s \<longleftrightarrow> fat_fits (Bpb s) (AllocationSupport s)"

definition index_ok :: "VCB \<Rightarrow> ULONG \<Rightarrow> bool" where
  "index_ok s i \<longleftrightarrow> 2 \<le> unat i \<and> unat i \<le> vcb_N s + 1"

lemma FatVerifyIndexIsValid_eq:
  "vcb_ok s \<Longrightarrow> FatVerifyIndexIsValid i s = (if index_ok s i then (Inr (), s) else (Inl STATUS_FILE_CORRUPT_ERROR, s))"
proof -
  assume "vcb_ok s"
  then have "vcb_N s + 1 < 2 ^ 32"
    by (auto simp: vcb_ok_def fat_fits_def)
  then have "unat (NumberOfClusters (AllocationSupport s) + 1) = vcb_N s + 1"
    by (subst unat_add_small) simp_all
  then show ?thesis
    by (auto simp: FatVerifyIndexIsValid_def index_ok_def word_less_nat)
qed

lemma vcb_bits_cases:
  assumes "vcb_ok s"
  obtains "vcb_bits s = 12" | "vcb_bits s = 16" | "vcb_bits s = 32"
  using assms by (auto simp: vcb_ok_def fat_fits_def)

lemma vcb_N_bounds:
  assumes "vcb_ok s"
  shows "vcb_N s + 2 < 1431655765" "vcb_bits s = 12 \<Longrightarrow> vcb_N s < 4087"
    "vcb_bits s = 32 \<Longrightarrow> vcb_N s + 2 \<le> 2 ^ 27"
  using assms by (auto simp: vcb_ok_def fat_fits_def word_less_nat)

text \<open>The byte after the last byte of the entries lies inside the FAT, and no offset wraps.\<close>

lemma index_inside:
  assumes "vcb_ok s" "unat i \<le> vcb_N s + 1"
  shows "fat_width (vcb_bits s) * (unat i + 1) \<le> 8 * unat (FatBytesPerFat (Bpb s))"
    "vcb_R s + unat (FatBytesPerFat (Bpb s)) < 2 ^ 31"
proof -
  have w: "fat_width (vcb_bits s) = unat (vcb_bits s)"
    using assms(1) by (rule vcb_bits_cases) (simp_all add: fat_width_def)
  have "unat (vcb_bits s) * (unat i + 1) \<le> unat (vcb_bits s) * (vcb_N s + 2)"
    using assms(2) by (intro mult_le_mono2) simp
  also have "\<dots> \<le> 8 * unat (FatBytesPerFat (Bpb s))" using assms(1) by (simp add: vcb_ok_def fat_fits_def)
  finally show "fat_width (vcb_bits s) * (unat i + 1) \<le> 8 * unat (FatBytesPerFat (Bpb s))"
    by (simp only: w)
  show "vcb_R s + unat (FatBytesPerFat (Bpb s)) < 2 ^ 31"
    using assms(1) by (simp add: vcb_ok_def fat_fits_def)
qed

lemma unat_entry_offset:
  assumes "vcb_ok s" "unat i \<le> vcb_N s + 1"
  shows "vcb_bits s = 12 \<Longrightarrow> unat (FatReservedBytes (Bpb s) + i * 3 div 2) = vcb_R s + 3 * unat i div 2"
    and "vcb_bits s = 16 \<Longrightarrow> unat (FatReservedBytes (Bpb s) + i * 2) = vcb_R s + 2 * unat i"
    and "vcb_bits s = 32 \<Longrightarrow> unat (FatReservedBytes (Bpb s) + i * 4) = vcb_R s + 4 * unat i"
proof -
  note b = index_inside[OF assms]
  show "unat (FatReservedBytes (Bpb s) + i * 3 div 2) = vcb_R s + 3 * unat i div 2" if "vcb_bits s = 12"
  proof -
    have "3 * unat i < 2 ^ 32" using b that by (simp add: fat_width_def)
    note u = unat_12bit_offset[OF this]
    show ?thesis using b that by (subst unat_add_small) (simp_all add: u fat_width_def)
  qed
  show "unat (FatReservedBytes (Bpb s) + i * 2) = vcb_R s + 2 * unat i" if "vcb_bits s = 16"
  proof -
    have u: "unat (i * 2) = 2 * unat i" using b that by (subst unat_mult_small) (simp_all add: fat_width_def)
    show ?thesis using b that by (subst unat_add_small) (simp_all add: u fat_width_def)
  qed
  show "unat (FatReservedBytes (Bpb s) + i * 4) = vcb_R s + 4 * unat i" if "vcb_bits s = 32"
  proof -
    have u: "unat (i * 4) = 4 * unat i" using b that by (subst unat_mult_small) (simp_all add: fat_width_def)
    show ?thesis using b that by (subst unat_add_small) (simp_all add: u fat_width_def)
  qed
qed

section \<open>Calls that may raise\<close>

lemma KernelCall_Inr:
  "KernelCall s = (Inr u, t) \<longleftrightarrow>
     (KernelResults s = [] \<or> hd (KernelResults s) = None) \<and> t = s\<lparr>KernelResults := tl (KernelResults s)\<rparr>"
  by (cases s) (auto simp: KernelCall_def split: list.splits option.splits)

lemma KernelCall_Inl:
  "KernelCall s = (Inl e, t) \<longleftrightarrow>
     KernelResults s \<noteq> [] \<and> hd (KernelResults s) = Some e \<and> t = s\<lparr>KernelResults := tl (KernelResults s)\<rparr>"
  by (auto simp: KernelCall_def split: list.splits option.splits)

section \<open>Lookups\<close>

text \<open>The page a context holds is the page its VBO names (12-bit: the whole FAT).\<close>

definition context_ok :: "VCB \<Rightarrow> FAT_ENUMERATION_CONTEXT \<Rightarrow> bool" where
  "context_ok s C \<longleftrightarrow> (BcbPinned C \<longrightarrow>
     (if vcb_bits s = 12 then PinnedPage C = vcb_R s
      else PinnedPage C = unat (VboOfPinnedPage C) \<and> 4096 dvd unat (VboOfPinnedPage C)))"

lemma unat_and_NOT_mask: "unat (x AND NOT (mask n)) = unat (x :: ULONG) div 2 ^ n * 2 ^ n"
proof -
  have "x AND NOT (mask n) = push_bit n (drop_bit n x)"
    by (rule bit_word_eqI) (auto simp: bit_simps)
  moreover have "unat x div 2 ^ n * 2 ^ n \<le> unat x" by (rule div_times_less_eq_dividend)
  then have "unat x div 2 ^ n * 2 ^ n < 2 ^ 32" using unat_lt32[of x] by (rule le_less_trans)
  ultimately show ?thesis by (simp only: unat_push_bit_mult unat_drop_bit_div) simp
qed

lemma unat_page_of: "unat (x AND NOT (PAGE_SIZE - 1)) = unat x div 4096 * 4096"
proof -
  have "PAGE_SIZE - 1 = mask 12" by (simp add: mask_eq_exp_minus_1)
  then show ?thesis using unat_and_NOT_mask[of x 12] by simp
qed

text \<open>A pinned page and the offset within the page address the byte at the offset in the volume file.\<close>

lemma page_entry_address:
  assumes "unat (x :: ULONG) mod k = 0" "k dvd 4096" "0 < k" "unat (n :: ULONG) = k"
  shows "unat x div 4096 * 4096 + k * unat ((x mod PAGE_SIZE) div n) = unat x"
proof -
  have "unat ((x mod PAGE_SIZE) div n) = unat x mod 4096 div k"
    using assms(4) by (simp add: unat_div unat_mod)
  moreover have "k dvd unat x mod 4096" using assms(1,2) by (simp add: dvd_mod mod_eq_0_iff_dvd)
  ultimately show ?thesis by simp
qed

lemma FatPinPage_Inr:
  assumes "FatPinPage x C s = (Inr C', t)" "context_ok s C" "vcb_bits s \<noteq> 12"
  shows "PinnedPage C' = unat x div 4096 * 4096" "context_ok t C'" "BcbPinned C'"
    "t = s \<or> t = s\<lparr>KernelResults := tl (KernelResults s)\<rparr>"
proof -
  consider (read) "t = s\<lparr>KernelResults := tl (KernelResults s)\<rparr>" "BcbPinned C'"
      "PinnedPage C' = unat x div 4096 * 4096" "VboOfPinnedPage C' = x AND NOT (PAGE_SIZE - 1)"
    | (cached) "BcbPinned C" "x div PAGE_SIZE = VboOfPinnedPage C div PAGE_SIZE" "C' = C" "t = s"
  proof (cases "\<not> BcbPinned C \<or> x div PAGE_SIZE \<noteq> VboOfPinnedPage C div PAGE_SIZE")
    case True
    then have "seq KernelCall (\<lambda>_. ret (C\<lparr>BcbPinned := True, PinnedPage := unat (x AND NOT (PAGE_SIZE - 1)),
        VboOfPinnedPage := x AND NOT (PAGE_SIZE - 1)\<rparr>)) s = (Inr C', t)"
      using assms(1) unfolding FatPinPage_def FatReadVolumeFile_def seq_assoc by (simp only: if_True seq_ret)
    then show ?thesis using read unfolding seq_eq_Inr KernelCall_Inr ret_eq unat_page_of by auto
  next
    case False
    then show ?thesis using cached assms(1) unfolding FatPinPage_def by auto
  qed
  then have "PinnedPage C' = unat x div 4096 * 4096 \<and> context_ok t C' \<and> BcbPinned C' \<and>
    (t = s \<or> t = s\<lparr>KernelResults := tl (KernelResults s)\<rparr>)"
  proof cases
    case read
    then show ?thesis using assms(3) by (auto simp: context_ok_def unat_page_of unat_page_of[simplified])
  next
    case cached
    have "unat x div 4096 = unat (VboOfPinnedPage C) div 4096"
      using arg_cong[OF cached(2), of unat] by (simp add: unat_div)
    then show ?thesis using cached assms(2,3) by (auto simp: context_ok_def)
  qed
  then show "PinnedPage C' = unat x div 4096 * 4096" "context_ok t C'" "BcbPinned C'"
    "t = s \<or> t = s\<lparr>KernelResults := tl (KernelResults s)\<rparr>" by blast+
qed

lemma FatPinPage_Inl:
  "FatPinPage x C s = (Inl e, t) \<Longrightarrow> KernelCall s = (Inl e, t)"
  by (auto simp: FatPinPage_def FatReadVolumeFile_def seq_eq_Inl split: if_splits)

lemma FatLookup12BitEntry_any: "3 * unat i < 2 ^ 32 \<Longrightarrow> FatLookup12BitEntry m R i E = FatLookup12BitEntry m R i 0"
  by (rule bit_word_eqI) (simp add: bit_FatLookup12BitEntry)

lemma reserved_even:
  assumes "vcb_ok s"
  shows "128 dvd vcb_R s"
proof -
  have "(2::nat) ^ 7 dvd 2 ^ unat (LogOfBytesPerSector (AllocationSupport s))"
    using assms by (intro le_imp_power_dvd) (simp add: vcb_ok_def fat_fits_def)
  also have "\<dots> dvd vcb_R s" using assms by (simp add: vcb_ok_def fat_fits_def)
  finally show ?thesis by simp
qed

lemma FatLookupFatEntry_Inr:
  assumes "vcb_ok s" "context_ok s C" "FatLookupFatEntry i E C s = (Inr (v, C'), t)"
  shows "index_ok s i \<and> v = FatEntryOf s i \<and> context_ok t C' \<and> BcbPinned C' \<and>
    (t = s \<or> t = s\<lparr>KernelResults := tl (KernelResults s)\<rparr>)"
proof -
  have i: "index_ok s i" using assms(1,3)
    by (auto simp: FatLookupFatEntry_def seq_eq_Inr FatVerifyIndexIsValid_eq split: if_splits)
  then have ib: "unat i \<le> vcb_N s + 1" by (simp add: index_ok_def)
  note off = unat_entry_offset[OF assms(1) ib]
  have r: "128 dvd vcb_R s" by (rule reserved_even[OF assms(1)])
  have small: "3 * unat i < 2 ^ 32" using vcb_N_bounds(1)[OF assms(1)] ib by simp
  from vcb_bits_cases[OF assms(1)] show ?thesis
  proof cases
    case 1
    then have "FatLookupFatEntry_12 i E C s = (Inr (v, C'), t)"
      using assms(1,3) i by (auto simp: FatLookupFatEntry_def seq_eq_Inr FatVerifyIndexIsValid_eq)
    then have "PinnedPage C' = vcb_R s \<and> BcbPinned C' \<and> v = FatLookup12BitEntry (VolumeFile s) (PinnedPage C') i E
        \<and> (t = s \<or> t = s\<lparr>KernelResults := tl (KernelResults s)\<rparr>)"
    proof (cases "BcbPinned C")
      case True
      then show ?thesis using \<open>FatLookupFatEntry_12 i E C s = (Inr (v, C'), t)\<close> 1 assms(2)
        by (auto simp: FatLookupFatEntry_12_def seq_ret context_ok_def)
    next
      case False
      obtain r s1 where k: "KernelCall s = (r, s1)" by force
      have "(case r of Inl e \<Rightarrow> (Inl e, s1)
          | Inr u \<Rightarrow> (Inr (FatLookup12BitEntry (VolumeFile s1) (vcb_R s) i E,
                         C\<lparr>BcbPinned := True, PinnedPage := vcb_R s\<rparr>), s1)) = (Inr (v, C'), t)"
        using \<open>FatLookupFatEntry_12 i E C s = (Inr (v, C'), t)\<close> False
        by (auto simp: FatLookupFatEntry_12_def FatReadVolumeFile_def seq_def k split: sum.splits)
      then have "r = Inr () \<and> C' = C\<lparr>BcbPinned := True, PinnedPage := vcb_R s\<rparr> \<and> t = s1 \<and>
          v = FatLookup12BitEntry (VolumeFile s1) (vcb_R s) i E"
        by (cases r) auto
      then show ?thesis using k by (simp add: KernelCall_Inr)
    qed
    then show ?thesis using 1 i assms(2) FatLookup12BitEntry_any[OF small]
      by (auto simp: FatEntryOf_def fat_get_def context_ok_def)
  next
    case 2
    then have "FatLookupFatEntry_16 i C s = (Inr (v, C'), t)"
      using assms(1,3) i by (auto simp: FatLookupFatEntry_def seq_eq_Inr FatVerifyIndexIsValid_eq)
    then have p: "FatPinPage (FatReservedBytes (Bpb s) + i * 2) C s = (Inr C', t)"
      and v: "v = ucast (get16 (VolumeFile t) (PinnedPage C' + 2 * unat ((FatReservedBytes (Bpb s) + i * 2) mod PAGE_SIZE div 2)))"
      by (auto simp: FatLookupFatEntry_16_def Let_def seq_eq_Inr)
    note q = FatPinPage_Inr[OF p assms(2)]
    have "PinnedPage C' + 2 * unat ((FatReservedBytes (Bpb s) + i * 2) mod PAGE_SIZE div 2) = vcb_R s + 2 * unat i"
      using q(1) 2 r page_entry_address[of "FatReservedBytes (Bpb s) + i * 2" 2 2] off(2) by fastforce
    then show ?thesis using q 2 i v by (auto simp: FatEntryOf_def fat_get_def fat_get16_def)
  next
    case 3
    then have "FatLookupFatEntry_32 i C s = (Inr (v, C'), t)"
      using assms(1,3) i by (auto simp: FatLookupFatEntry_def seq_eq_Inr FatVerifyIndexIsValid_eq)
    then have p: "FatPinPage (FatReservedBytes (Bpb s) + i * 4) C s = (Inr C', t)"
      and v: "v = get32 (VolumeFile t) (PinnedPage C' + 4 * unat ((FatReservedBytes (Bpb s) + i * 4) mod PAGE_SIZE div 4)) AND FAT32_ENTRY_MASK"
      by (auto simp: FatLookupFatEntry_32_def Let_def seq_eq_Inr)
    note q = FatPinPage_Inr[OF p assms(2)]
    have "PinnedPage C' + 4 * unat ((FatReservedBytes (Bpb s) + i * 4) mod PAGE_SIZE div 4) = vcb_R s + 4 * unat i"
      using q(1) 3 r page_entry_address[of "FatReservedBytes (Bpb s) + i * 4" 4 4] off(3) by fastforce
    then show ?thesis using q 3 i v by (auto simp: FatEntryOf_def fat_get_def fat_get32_def)
  qed
qed

lemma FatLookupFatEntry_Inl:
  assumes "vcb_ok s" "FatLookupFatEntry i E C s = (Inl e, t)"
  shows "\<not> index_ok s i \<and> e = STATUS_FILE_CORRUPT_ERROR \<and> t = s
    \<or> index_ok s i \<and> KernelCall s = (Inl e, t)"
  using assms
  by (auto simp: FatLookupFatEntry_def seq_eq_Inl seq_eq_Inr FatVerifyIndexIsValid_eq FatLookupFatEntry_12_def
      FatLookupFatEntry_16_def FatLookupFatEntry_32_def Let_def FatReadVolumeFile_def
      dest!: FatPinPage_Inl split: if_splits)

section \<open>Stores\<close>

text \<open>The outcome of the next call into the kernel, and the state after it.\<close>

definition kres :: "ntstatus option list \<Rightarrow> ntstatus + unit" where
  "kres l = (case l of Some e # _ \<Rightarrow> Inl e | _ \<Rightarrow> Inr ())"

lemma KernelCall_eq: "KernelCall s = (kres (KernelResults s), s\<lparr>KernelResults := tl (KernelResults s)\<rparr>)"
  by (auto simp: KernelCall_def kres_def split: list.split option.split)

lemma kres_Inl: "kres l = Inl e \<Longrightarrow> Some e \<in> set l"
  by (cases l) (auto simp: kres_def split: option.splits)

lemma set_tl: "x \<in> set (tl l) \<Longrightarrow> x \<in> set l"
  by (cases l) auto

lemma unit_sum_cases: "(r :: ntstatus + unit) = Inr () \<or> (\<exists>e. r = Inl e)"
  by (cases r) auto

text \<open>The call that marks the sector of byte \<open>a\<close> dirty.\<close>

definition sector_call :: "nat \<Rightarrow> nat \<Rightarrow> mcb_call" where
  "sector_call k a = FsRtlAddLargeMcbEntry (of_nat (a div 2 ^ k)) (of_nat (a div 2 ^ k)) 1"

lemma dirty_covers_sector_call:
  assumes "a < 2 ^ 32" "sector_call k a \<in> set D" "b div 2 ^ k = a div 2 ^ k"
  shows "dirty_covers k D b"
proof -
  have "a div 2 ^ k < 2 ^ 64" using assms(1) by (meson div_le_dividend le_less_trans less_trans numeral_less_iff
      power_strict_increasing_iff semiring_norm(76) semiring_norm(78) semiring_norm(80) one_less_numeral_iff)
  then have u: "unat (of_nat (a div 2 ^ k) :: LBO) = a div 2 ^ k"
    by (intro unat_of_nat_small) simp
  show ?thesis
    unfolding dirty_covers_def by (rule bexI[OF _ assms(2)]) (simp add: sector_call_def u assms(3))
qed

lemma sector_mask: "(2::ULONG) ^ k - 1 = mask k"
  by (simp add: mask_eq_exp_minus_1)

lemma drop_bit_sector:
  assumes "unat (L :: ULONG) = a div 2 ^ k * 2 ^ k"
  shows "ucast (drop_bit k L) = (of_nat (a div 2 ^ k) :: LBO)"
    and "signed_drop_bit k (ucast L) = (of_nat (a div 2 ^ k) :: LBO)"
proof -
  have d: "unat (drop_bit k L) = a div 2 ^ k"
    using assms by (simp only: unat_drop_bit_div) simp
  have lt: "unat (drop_bit k L) < 2 ^ 32" by (rule unat_lt32)
  have u: "unat (of_nat (a div 2 ^ k) :: LBO) = a div 2 ^ k"
    using lt unfolding d by (intro unat_of_nat_small) simp
  show "ucast (drop_bit k L) = (of_nat (a div 2 ^ k) :: LBO)"
    using u d by (simp add: word_unat_eq_iff)
  have "signed_drop_bit k (ucast L :: LBO) = drop_bit k (ucast L)"
    using unat_lt32[of L] by (intro signed_drop_bit_small) simp
  also have "\<dots> = of_nat (a div 2 ^ k)"
    using u assms by (simp only: word_unat_eq_iff unat_drop_bit_div) simp
  finally show "signed_drop_bit k (ucast L) = (of_nat (a div 2 ^ k) :: LBO)" .
qed

lemma McbSectors_sector:
  assumes "MCB_SCALE_LOG2 s = k" "k < 32"
  shows "McbSectors s (2 ^ k) = 1"
proof -
  have nz: "(2::ULONG) ^ k \<noteq> 0" using unat_pow2_32[OF assms(2)] by (auto simp: word_unat_eq_iff)
  have "drop_bit k (mask k :: ULONG) = 0"
    by (rule bit_word_eqI) (simp add: bit_simps)
  then show ?thesis using nz unfolding McbSectors_def assms(1) sector_mask by simp
qed

text \<open>
  \<open>marks k m calls\<close>: with \<open>2 ^ k\<close> byte sectors, \<open>m\<close> changes nothing but the dirty Mcb, to
  which it appends \<open>calls\<close> unless the kernel raises.
\<close>

definition marks :: "nat \<Rightarrow> (VCB, unit) fat_op \<Rightarrow> mcb_call list \<Rightarrow> bool" where
  "marks k m calls \<longleftrightarrow>
     (\<forall>s r t. MCB_SCALE_LOG2 s = k \<longrightarrow> m s = (r, t) \<longrightarrow>
        (\<exists>D K. t = s\<lparr>KernelResults := K, DirtyFatMcb := DirtyFatMcb s @ D\<rparr>
           \<and> (r = Inr () \<longrightarrow> D = calls) \<and> set K \<subseteq> set (KernelResults s)
           \<and> (\<forall>e. r = Inl e \<longrightarrow> Some e \<in> set (KernelResults s))))"

lemma marksD:
  assumes "marks k m calls" "MCB_SCALE_LOG2 s = k" "m s = (r, t)"
  obtains D K where "t = s\<lparr>KernelResults := K, DirtyFatMcb := DirtyFatMcb s @ D\<rparr>"
    "r = Inr () \<Longrightarrow> D = calls" "set K \<subseteq> set (KernelResults s)"
    "\<And>e. r = Inl e \<Longrightarrow> Some e \<in> set (KernelResults s)"
  using assms unfolding marks_def by blast

lemma MCB_SCALE_LOG2_cong: "AllocationSupport t = AllocationSupport s \<Longrightarrow> MCB_SCALE_LOG2 t = MCB_SCALE_LOG2 s"
  by (simp add: MCB_SCALE_LOG2_def)

lemma marks_ret: "marks k (ret ()) []"
  unfolding marks_def
proof (intro allI impI)
  fix s :: VCB and r t assume "ret () s = (r, t)"
  then show "\<exists>D K. t = s\<lparr>KernelResults := K, DirtyFatMcb := DirtyFatMcb s @ D\<rparr>
     \<and> (r = Inr () \<longrightarrow> D = []) \<and> set K \<subseteq> set (KernelResults s)
     \<and> (\<forall>e. r = Inl e \<longrightarrow> Some e \<in> set (KernelResults s))"
    by (intro exI[of _ "[]"] exI[of _ "KernelResults s"]) auto
qed

lemma marks_seq:
  assumes m: "marks k m c1" and m': "marks k m' c2"
  shows "marks k (seq m (\<lambda>_. m')) (c1 @ c2)"
  unfolding marks_def
proof (intro allI impI)
  fix s r t assume s: "MCB_SCALE_LOG2 s = k" and run: "seq m (\<lambda>_. m') s = (r, t)"
  obtain r1 s1 where r1: "m s = (r1, s1)" by force
  obtain D K where s1: "s1 = s\<lparr>KernelResults := K, DirtyFatMcb := DirtyFatMcb s @ D\<rparr>"
    and D: "r1 = Inr () \<Longrightarrow> D = c1" and K: "set K \<subseteq> set (KernelResults s)"
    and e: "\<And>e. r1 = Inl e \<Longrightarrow> Some e \<in> set (KernelResults s)"
    by (rule marksD[OF m s r1]) blast
  show "\<exists>D K. t = s\<lparr>KernelResults := K, DirtyFatMcb := DirtyFatMcb s @ D\<rparr>
     \<and> (r = Inr () \<longrightarrow> D = c1 @ c2) \<and> set K \<subseteq> set (KernelResults s)
     \<and> (\<forall>e. r = Inl e \<longrightarrow> Some e \<in> set (KernelResults s))"
  proof (cases r1)
    case (Inl x)
    then show ?thesis using run r1 s1 K e by (auto simp: seq_def)
  next
    case (Inr u)
    then have r2: "m' s1 = (r, t)" using run r1 by (simp add: seq_def)
    have "MCB_SCALE_LOG2 s1 = k" using s s1 by (simp add: MCB_SCALE_LOG2_def)
    from marksD[OF m' this r2] obtain D2 K2 where t: "t = s1\<lparr>KernelResults := K2, DirtyFatMcb := DirtyFatMcb s1 @ D2\<rparr>"
      and D2: "r = Inr () \<Longrightarrow> D2 = c2" and K2: "set K2 \<subseteq> set (KernelResults s1)"
      and e2: "\<And>e. r = Inl e \<Longrightarrow> Some e \<in> set (KernelResults s1)" by blast
    show ?thesis
      using t D2 K2 e2 D K s1 Inr by (intro exI[of _ "D @ D2"] exI[of _ K2]) auto
  qed
qed

lemma marks_sector:
  assumes "k < 32" "unat L = a div 2 ^ k * 2 ^ k" "Lb = ucast L"
  shows "marks k (FatAddDirtyFatMcb L Lb (2 ^ k)) [sector_call k a]"
  unfolding marks_def
proof (intro allI impI)
  fix s r t assume s: "MCB_SCALE_LOG2 s = k" and run: "FatAddDirtyFatMcb L Lb (2 ^ k) s = (r, t)"
  let ?s = "s\<lparr>KernelResults := tl (KernelResults s)\<rparr>"
  have "MCB_SCALE_LOG2 ?s = k" using s by (simp add: MCB_SCALE_LOG2_def)
  then have "FatAddDirtyFatMcb L Lb (2 ^ k) s =
    (case kres (KernelResults s) of
       Inl e \<Rightarrow> (Inl e, ?s)
     | Inr _ \<Rightarrow> (Inr (), ?s\<lparr>DirtyFatMcb := DirtyFatMcb s @ [sector_call k a]\<rparr>))"
    using McbSectors_sector[of ?s k, OF _ assms(1)]
    by (auto simp: FatAddDirtyFatMcb_def seq_def KernelCall_eq FatAddMcbEntry_def sector_call_def assms(3)
        drop_bit_sector[OF assms(2)] split: sum.split)
  with run show "\<exists>D K. t = s\<lparr>KernelResults := K, DirtyFatMcb := DirtyFatMcb s @ D\<rparr>
     \<and> (r = Inr () \<longrightarrow> D = [sector_call k a]) \<and> set K \<subseteq> set (KernelResults s)
     \<and> (\<forall>e. r = Inl e \<longrightarrow> Some e \<in> set (KernelResults s))"
    by (intro exI[of _ "if r = Inr () then [sector_call k a] else []"] exI[of _ "tl (KernelResults s)"])
      (auto dest: set_tl kres_Inl split: sum.splits)
qed

text \<open>
  What a store does to the state: the volume file becomes \<open>M\<close> when it succeeds and stays as
  it is when it raises, the dirty calls made are \<open>calls\<close> when it succeeds, an error is one
  the kernel raised, and the flags are as the finally block leaves them.
\<close>

definition set_outcome ::
  "VCB \<Rightarrow> mem \<Rightarrow> mcb_call list \<Rightarrow> bool \<Rightarrow> bool \<Rightarrow> ntstatus + unit \<Rightarrow> VCB \<Rightarrow> bool" where
  "set_outcome s M calls Cleaning WasWait r t \<longleftrightarrow>
     (\<exists>D K T. t = s\<lparr>VolumeFile := (if r = Inr () then M else VolumeFile s),
                  DirtyFatMcb := DirtyFatMcb s @ D, KernelResults := K,
                  IrpContextDisableDirty := False, IrpContextWait := (WasWait \<and> IrpContextWait s),
                  WrittenThrough := WrittenThrough s @ T\<rparr>
      \<and> (r = Inr () \<longrightarrow> D = calls \<and> (Cleaning \<longrightarrow> T \<noteq> []))
      \<and> set K \<subseteq> set (KernelResults s) \<and> (\<forall>e. r = Inl e \<longrightarrow> Some e \<in> set (KernelResults s)))"

lemma set_outcomeI:
  assumes "\<And>e. r = Inl e \<Longrightarrow> V = VolumeFile s \<and> Some e \<in> set (KernelResults s)"
    and "r = Inr () \<Longrightarrow> V = M \<and> D = calls \<and> (Cleaning \<longrightarrow> T \<noteq> [])"
    and "set K \<subseteq> set (KernelResults s)"
    and "t = s\<lparr>VolumeFile := V, DirtyFatMcb := DirtyFatMcb s @ D, KernelResults := K,
               IrpContextDisableDirty := False, IrpContextWait := (WasWait \<and> IrpContextWait s),
               WrittenThrough := WrittenThrough s @ T\<rparr>"
  shows "set_outcome s M calls Cleaning WasWait r t"
  unfolding set_outcome_def using assms unit_sum_cases[of r]
  by (intro exI[of _ D] exI[of _ K] exI[of _ T]) auto

lemma FatSetFatEntry_finally_eq:
  "FatSetFatEntry_finally Cleaning WasWait Bcb s =
     (Inr (), s\<lparr>IrpContextDisableDirty := False, IrpContextWait := (WasWait \<and> IrpContextWait s),
                WrittenThrough := WrittenThrough s @
                  (case Bcb of None \<Rightarrow> [] | Some v \<Rightarrow> if Cleaning \<or> MountInProgress s then [v] else [])\<rparr>)"
  by (auto simp: FatSetFatEntry_finally_def Let_def split: option.split)

lemma FatSetFatEntry_try_eq:
  "FatSetFatEntry_try V n reg (FatSetFatEntry_finally Cleaning WasWait) body s =
     (let s1 = s\<lparr>KernelResults := tl (KernelResults s)\<rparr> in
      case kres (KernelResults s) of
        Inl e \<Rightarrow> (Inl e, snd (FatSetFatEntry_finally Cleaning WasWait None s1))
      | Inr _ \<Rightarrow> (case body (unat V) s1 of (r, s2) \<Rightarrow>
                   (r, snd (FatSetFatEntry_finally Cleaning WasWait (Some V) s2))))"
  by (auto simp: FatSetFatEntry_try_def FatPrepareWriteVolumeFile_def seq_def KernelCall_eq try_finally_def
      FatSetFatEntry_finally_eq Let_def split: sum.split prod.split)

lemma set_outcome_marks:
  assumes "MCB_SCALE_LOG2 s = k" "marks k m calls"
    and run: "FatSetFatEntry_try V n reg (FatSetFatEntry_finally Cleaning WasWait)
           (\<lambda>p. seq m (\<lambda>_. modify (\<lambda>s. s\<lparr>VolumeFile := g p (VolumeFile s)\<rparr>))) s = (r, t)"
  shows "set_outcome s (g (unat V) (VolumeFile s)) calls Cleaning WasWait r t"
proof (cases "kres (KernelResults s)")
  case (Inl e)
  have "set (tl (KernelResults s)) \<subseteq> set (KernelResults s)" by (auto dest!: set_tl)
  then show ?thesis using run Inl kres_Inl[OF Inl]
    by (intro set_outcomeI[of _ "VolumeFile s" _ _ "[]" _ _ "[]" "tl (KernelResults s)"])
      (auto simp: FatSetFatEntry_try_eq FatSetFatEntry_finally_eq Let_def intro!: VCB.equality)
next
  case (Inr u)
  let ?s1 = "s\<lparr>KernelResults := tl (KernelResults s)\<rparr>"
  obtain r1 s2 where m: "m ?s1 = (r1, s2)" by force
  have k: "MCB_SCALE_LOG2 ?s1 = k" using assms(1) by (simp add: MCB_SCALE_LOG2_def)
  obtain D K where D: "s2 = ?s1\<lparr>KernelResults := K, DirtyFatMcb := DirtyFatMcb ?s1 @ D\<rparr>"
      "r1 = Inr () \<Longrightarrow> D = calls" "set K \<subseteq> set (KernelResults ?s1)"
      "\<And>e. r1 = Inl e \<Longrightarrow> Some e \<in> set (KernelResults ?s1)"
    by (rule marksD[OF assms(2) k m]) blast
  let ?T = "if Cleaning \<or> MountInProgress s then [V] else []"
  let ?V = "if r1 = Inr () then g (unat V) (VolumeFile s) else VolumeFile s"
  have r: "r = r1" "t = snd (FatSetFatEntry_finally Cleaning WasWait (Some V) (s2\<lparr>VolumeFile := ?V\<rparr>))"
    using run Inr m D(1) by (auto simp: FatSetFatEntry_try_eq Let_def seq_def split: sum.splits)
  show ?thesis
    using r D set_tl[of _ "KernelResults s"]
    by (intro set_outcomeI[of _ ?V _ _ D _ _ ?T K])
      (auto simp: FatSetFatEntry_finally_eq intro!: VCB.equality)
qed

lemma same_sector:
  assumes "2 ^ j dvd (x::nat)" "b < 2 ^ j" "j \<le> k"
  shows "(x + b) div 2 ^ k = x div 2 ^ k"
proof -
  obtain y where y: "x = 2 ^ j * y" using assms(1) by (elim dvdE)
  have "(2::nat) ^ k = 2 ^ j * 2 ^ (k - j)" using assms(3) by (simp flip: power_add)
  then have "(x + b) div 2 ^ k = (x + b) div 2 ^ j div 2 ^ (k - j)" "x div 2 ^ k = x div 2 ^ j div 2 ^ (k - j)"
    by (simp_all only: div_mult2_eq)
  moreover have "(x + b) div 2 ^ j = y" "x div 2 ^ j = y"
    using assms(2) by (simp_all add: y)
  ultimately show ?thesis by simp
qed

text \<open>What FatSetFatEntry stores: the reserved bits of a 32-bit entry go for the dirty-bit entry only.\<close>

definition fat_store :: "UCHAR \<Rightarrow> nat \<Rightarrow> mem \<Rightarrow> ULONG \<Rightarrow> ULONG \<Rightarrow> mem" where
  "fat_store b R m i v =
     (if b = 32 \<and> i = FAT_DIRTY_BIT_INDEX then fat_set32_raw R m i v else fat_set b R m i v)"

lemma vcb_scale:
  assumes "vcb_ok s"
  shows "7 \<le> MCB_SCALE_LOG2 s" "MCB_SCALE_LOG2 s < 32" "2 ^ MCB_SCALE_LOG2 s dvd vcb_R s"
  using assms by (simp_all add: vcb_ok_def fat_fits_def MCB_SCALE_LOG2_def)

lemma sector_start: "unat (x AND NOT (2 ^ k - 1)) = unat (x :: ULONG) div 2 ^ k * 2 ^ k"
  unfolding sector_mask by (rule unat_and_NOT_mask)

lemma FatSetFatEntry_32_outcome:
  assumes ok: "vcb_ok s" and i: "unat i \<le> vcb_N s + 1" and b: "vcb_bits s = 32" and k: "k = MCB_SCALE_LOG2 s"
    and run: "FatSetFatEntry_32 (2 ^ k) i v reg (FatSetFatEntry_finally Cleaning WasWait) s = (r, t)"
  shows "set_outcome s (fat_store 32 (vcb_R s) (VolumeFile s) i v)
           [sector_call k (vcb_R s + 4 * unat i)] Cleaning WasWait r t"
proof -
  let ?x = "FatReservedBytes (Bpb s) + i * 4"
  let ?L = "?x AND NOT (2 ^ k - 1)"
  let ?g = "\<lambda>p m. put32 m p (if i \<noteq> FAT_DIRTY_BIT_INDEX then (get32 m p AND NOT FAT32_ENTRY_MASK) OR v else v)"
  have x: "unat ?x = vcb_R s + 4 * unat i" by (rule unat_entry_offset(3)[OF ok i b])
  have L: "unat ?L = (vcb_R s + 4 * unat i) div 2 ^ k * 2 ^ k"
    using sector_start[of ?x k] x by simp
  have m: "marks k (FatAddDirtyFatMcb ?L (ucast ?L) (2 ^ k)) [sector_call k (vcb_R s + 4 * unat i)]"
    using vcb_scale(2)[OF ok] k L by (intro marks_sector) simp_all
  have "set_outcome s (?g (unat ?x) (VolumeFile s)) [sector_call k (vcb_R s + 4 * unat i)] Cleaning WasWait r t"
    using run unfolding FatSetFatEntry_32_def Let_def by (intro set_outcome_marks[OF k[symmetric] m])
  moreover have "?g (unat ?x) (VolumeFile s) = fat_store 32 (vcb_R s) (VolumeFile s) i v"
    by (simp add: x fat_store_def fat_set_def fat_set32_def fat_set32_raw_def)
  ultimately show ?thesis by simp
qed

lemma FatSetFatEntry_16_outcome:
  assumes ok: "vcb_ok s" and i: "unat i \<le> vcb_N s + 1" and b: "vcb_bits s = 16" and k: "k = MCB_SCALE_LOG2 s"
    and run: "FatSetFatEntry_16 (2 ^ k) i v reg (FatSetFatEntry_finally Cleaning WasWait) s = (r, t)"
  shows "set_outcome s (fat_store 16 (vcb_R s) (VolumeFile s) i v)
           [sector_call k (vcb_R s + 2 * unat i)] Cleaning WasWait r t"
proof -
  let ?x = "FatReservedBytes (Bpb s) + i * 2"
  let ?L = "?x AND NOT (2 ^ k - 1)"
  let ?g = "\<lambda>p m. put16 m p (ucast v)"
  have x: "unat ?x = vcb_R s + 2 * unat i" by (rule unat_entry_offset(2)[OF ok i b])
  have L: "unat ?L = (vcb_R s + 2 * unat i) div 2 ^ k * 2 ^ k"
    using sector_start[of ?x k] x by simp
  have m: "marks k (FatAddDirtyFatMcb ?L (ucast ?L) (2 ^ k)) [sector_call k (vcb_R s + 2 * unat i)]"
    using vcb_scale(2)[OF ok] k L by (intro marks_sector) simp_all
  have "set_outcome s (?g (unat ?x) (VolumeFile s)) [sector_call k (vcb_R s + 2 * unat i)] Cleaning WasWait r t"
    using run unfolding FatSetFatEntry_16_def Let_def by (intro set_outcome_marks[OF k[symmetric] m])
  moreover have "?g (unat ?x) (VolumeFile s) = fat_store 16 (vcb_R s) (VolumeFile s) i v"
    by (simp add: x fat_store_def fat_set_def fat_set16_def)
  ultimately show ?thesis by simp
qed

lemma next_sector_start:
  assumes "unat (x :: ULONG) < 2 ^ 31" "k < 31" "x AND (2 ^ k - 1) = 2 ^ k - 1" "L = x AND NOT (2 ^ k - 1)"
  shows "unat (L + 2 ^ k) = (unat x + 1) div 2 ^ k * 2 ^ k"
    and "(ucast L :: LBO) + ucast (2 ^ k :: ULONG) = ucast (L + 2 ^ k)"
proof -
  have p: "unat (2 ^ k :: ULONG) = 2 ^ k" using assms(2) by (simp add: unat_pow2_32)
  have p31: "(2::nat) ^ k \<le> 2 ^ 30" using assms(2) by (intro power_increasing) simp_all
  have Lu: "unat L = unat x div 2 ^ k * 2 ^ k" unfolding assms(4) by (rule sector_start)
  then have "unat L \<le> unat x" by simp
  with p31 assms(1) have sum: "unat (L + 2 ^ k) = unat L + 2 ^ k"
    by (subst unat_add_small) (simp_all add: p)
  have "unat (x AND mask k) = unat x mod 2 ^ k"
    by (subst take_bit_eq_mask[symmetric], subst unsigned_take_bit_eq, rule take_bit_eq_mod)
  moreover have "unat (mask k :: ULONG) = 2 ^ k - 1"
    using p by (simp add: mask_eq_exp_minus_1 unat_sub_le word_le_nat)
  ultimately have md: "unat x mod 2 ^ k = 2 ^ k - 1" using assms(3) unfolding sector_mask by metis
  then have "unat x + 1 = unat x div 2 ^ k * 2 ^ k + 2 ^ k"
    using div_mult_mod_eq[of "unat x" "2 ^ k"] one_le_power[of "2::nat" k] by linarith
  then have "(unat x + 1) div 2 ^ k = unat x div 2 ^ k + 1" by simp
  then show "unat (L + 2 ^ k) = (unat x + 1) div 2 ^ k * 2 ^ k"
    unfolding sum Lu by simp
  have "unat ((ucast L :: LBO) + ucast (2 ^ k :: ULONG)) = unat L + 2 ^ k"
    using \<open>unat L \<le> unat x\<close> p31 assms(1) by (subst unat_add_small) (simp_all add: p)
  then show "(ucast L :: LBO) + ucast (2 ^ k :: ULONG) = ucast (L + 2 ^ k)"
    using sum by (simp add: word_unat_eq_iff)
qed

definition sector_calls_12 :: "nat \<Rightarrow> nat \<Rightarrow> mcb_call list" where
  "sector_calls_12 k x = sector_call k x # (if x mod 2 ^ k = 2 ^ k - 1 then [sector_call k (x + 1)] else [])"

lemma and_sector_mask: "k < 32 \<Longrightarrow> x AND (2 ^ k - 1) = 2 ^ k - 1 \<longleftrightarrow> unat (x :: ULONG) mod 2 ^ k = 2 ^ k - 1"
proof -
  assume k: "k < 32"
  have "unat (x AND mask k) = unat x mod 2 ^ k"
    by (subst take_bit_eq_mask[symmetric], subst unsigned_take_bit_eq, rule take_bit_eq_mod)
  moreover have "unat (mask k :: ULONG) = 2 ^ k - 1"
    using unat_pow2_32[OF k] by (simp add: mask_eq_exp_minus_1 unat_sub_le word_le_nat)
  ultimately show ?thesis unfolding sector_mask by (metis word_unat_eq_iff)
qed

lemma FatSetFatEntry_12_outcome:
  assumes ok: "vcb_ok s" and i: "unat i \<le> vcb_N s + 1" and b: "vcb_bits s = 12" and k: "k = MCB_SCALE_LOG2 s"
    and run: "FatSetFatEntry_12 (2 ^ k) i v reg (FatSetFatEntry_finally Cleaning WasWait) s = (r, t)"
  shows "set_outcome s (fat_store 12 (vcb_R s) (VolumeFile s) i v)
           (sector_calls_12 k (vcb_R s + 3 * unat i div 2)) Cleaning WasWait r t"
proof -
  let ?x = "FatReservedBytes (Bpb s) + i * 3 div 2"
  let ?L = "?x AND NOT (2 ^ k - 1)"
  let ?a = "vcb_R s + 3 * unat i div 2"
  let ?g = "\<lambda>p m. FatSet12BitEntry m p i (v AND 0xfff)"
  have x: "unat ?x = ?a" by (rule unat_entry_offset(1)[OF ok i b])
  have x31: "unat ?x < 2 ^ 31"
    using index_inside[OF ok i] b unfolding x by (simp add: fat_width_def)
  have k31: "k < 31" "k < 32" using ok k by (simp_all add: vcb_ok_def fat_fits_def MCB_SCALE_LOG2_def)
  have L: "unat ?L = ?a div 2 ^ k * 2 ^ k"
    using sector_start[of ?x k] x by simp
  have m1: "marks k (FatAddDirtyFatMcb ?L (ucast ?L) (2 ^ k)) [sector_call k ?a]"
    using k31 L by (intro marks_sector) simp_all
  have m2: "marks k (if ?x AND (2 ^ k - 1) = 2 ^ k - 1
       then FatAddDirtyFatMcb (?L + 2 ^ k) (ucast ?L + ucast (2 ^ k :: ULONG)) (2 ^ k) else ret ())
     (if ?a mod 2 ^ k = 2 ^ k - 1 then [sector_call k (?a + 1)] else [])"
  proof (cases "?x AND (2 ^ k - 1) = 2 ^ k - 1")
    case True
    note n = next_sector_start[OF x31 k31(1) True refl]
    have "?a mod 2 ^ k = 2 ^ k - 1" using True and_sector_mask[OF k31(2), of ?x] x by simp
    moreover have "marks k (FatAddDirtyFatMcb (?L + 2 ^ k) (ucast ?L + ucast (2 ^ k :: ULONG)) (2 ^ k))
        [sector_call k (?a + 1)]"
      by (rule marks_sector[OF k31(2) _ n(2)]) (simp only: n(1) x)
    ultimately show ?thesis using True by (simp only: refl if_True)
  next
    case False
    then have "\<not> ?a mod 2 ^ k = 2 ^ k - 1" using and_sector_mask[OF k31(2), of ?x] x by simp
    then show ?thesis using False marks_ret by (simp only: if_False)
  qed
  note m = marks_seq[OF m1 m2]
  have "set_outcome s (?g (vcb_R s) (VolumeFile s)) ([sector_call k ?a] @
       (if ?a mod 2 ^ k = 2 ^ k - 1 then [sector_call k (?a + 1)] else [])) Cleaning WasWait r t"
    using run unfolding FatSetFatEntry_12_def Let_def seq_assoc[symmetric]
    by (intro set_outcome_marks[OF k[symmetric] m])
  moreover have "?g (vcb_R s) (VolumeFile s) = fat_store 12 (vcb_R s) (VolumeFile s) i v"
    by (simp add: fat_store_def fat_set_def)
  ultimately show ?thesis by (simp add: sector_calls_12_def)
qed

text \<open>The bytes a store changes lie in the sectors it marks.\<close>

definition store_calls :: "UCHAR \<Rightarrow> nat \<Rightarrow> nat \<Rightarrow> ULONG \<Rightarrow> mcb_call list" where
  "store_calls b k R i =
     (if b = 12 then sector_calls_12 k (R + 3 * unat i div 2)
      else if b = 32 then [sector_call k (R + 4 * unat i)] else [sector_call k (R + 2 * unat i)])"

lemma FatSetFatEntry_by_size_outcome:
  assumes ok: "vcb_ok s" and i: "unat i \<le> vcb_N s + 1"
    and run: "FatSetFatEntry_by_size i v reg Cleaning WasWait s = (r, t)"
  shows "set_outcome s (fat_store (vcb_bits s) (vcb_R s) (VolumeFile s) i v)
           (store_calls (vcb_bits s) (MCB_SCALE_LOG2 s) (vcb_R s) i) Cleaning WasWait r t"
proof -
  have "push_bit (unat (LogOfBytesPerSector (AllocationSupport s))) (1::ULONG) = 2 ^ MCB_SCALE_LOG2 s"
    by (simp add: MCB_SCALE_LOG2_def push_bit_eq_mult)
  note run' = run[unfolded FatSetFatEntry_by_size_def this Let_def]
  from vcb_bits_cases[OF ok] show ?thesis
  proof cases
    case 1
    then show ?thesis using FatSetFatEntry_12_outcome[OF ok i 1 refl] run' by (simp add: store_calls_def)
  next
    case 2
    then show ?thesis using FatSetFatEntry_16_outcome[OF ok i 2 refl] run' by (simp add: store_calls_def)
  next
    case 3
    then show ?thesis using FatSetFatEntry_32_outcome[OF ok i 3 refl] run' by (simp add: store_calls_def)
  qed
qed

lemma store_covered:
  assumes ok: "vcb_ok s" and i: "unat i \<le> vcb_N s + 1"
    and a: "fat_store (vcb_bits s) (vcb_R s) m i v a \<noteq> m a"
  shows "dirty_covers (MCB_SCALE_LOG2 s) (D @ store_calls (vcb_bits s) (MCB_SCALE_LOG2 s) (vcb_R s) i) a"
proof -
  let ?k = "MCB_SCALE_LOG2 s" and ?R = "vcb_R s"
  note b = index_inside[OF ok i]
  have r: "128 dvd ?R" by (rule reserved_even[OF ok])
  have k7: "7 \<le> ?k" by (rule vcb_scale(1)[OF ok])
  from vcb_bits_cases[OF ok] show ?thesis
  proof cases
    case 1
    let ?x = "?R + 3 * unat i div 2"
    have x: "?x < 2 ^ 31" using b 1 by (simp add: fat_width_def)
    have "\<not> (a < ?x \<or> ?x + 2 \<le> a)"
      using a 1 vcb_N_bounds(1)[OF ok] i
      by (auto simp: fat_store_def fat_set_def FatSet12BitEntry_def Let_def unat_12bit_offset put16_other)
    then consider "a = ?x" | "a = ?x + 1" by linarith
    then show ?thesis
    proof cases
      case 1
      then show ?thesis using x \<open>vcb_bits s = 12\<close>
        by (intro dirty_covers_sector_call[of ?x]) (simp_all add: store_calls_def sector_calls_12_def)
    next
      case 2
      show ?thesis
      proof (cases "?x mod 2 ^ ?k = 2 ^ ?k - 1")
        case True
        then show ?thesis using x \<open>vcb_bits s = 12\<close> 2
          by (intro dirty_covers_sector_call[of "?x + 1"]) (simp_all add: store_calls_def sector_calls_12_def)
      next
        case False
        then have "(?x + 1) div 2 ^ ?k = ?x div 2 ^ ?k"
          by (metis Suc_eq_plus1 div_Suc diff_Suc_1 mod_Suc nat.simps(3) mod_eq_0_iff_dvd dvd_imp_mod_0)
        then show ?thesis using x \<open>vcb_bits s = 12\<close> 2
          by (intro dirty_covers_sector_call[of ?x]) (simp_all add: store_calls_def sector_calls_12_def)
      qed
    qed
  next
    case 2
    let ?x = "?R + 2 * unat i"
    have x: "?x < 2 ^ 31" using b 2 by (simp add: fat_width_def)
    have "\<not> (a < ?x \<or> ?x + 2 \<le> a)"
      using a put16_other[of a ?x m "ucast v"] 2 by (simp add: fat_store_def fat_set_def fat_set16_def) blast
    then obtain j where j: "a = ?x + j" "j < 2 ^ 1" by (metis le_Suc_ex nat_add_left_cancel_less not_less power_one_right)
    have "2 ^ 1 dvd ?x" using r by (auto intro: dvd_trans[of _ 128])
    then have "a div 2 ^ ?k = ?x div 2 ^ ?k" using j k7 by (simp only: j same_sector)
    then show ?thesis using x 2
      by (intro dirty_covers_sector_call[of ?x]) (simp_all add: store_calls_def)
  next
    case 3
    let ?x = "?R + 4 * unat i"
    have x: "?x < 2 ^ 31" using b 3 by (simp add: fat_width_def)
    have "\<not> (a < ?x \<or> ?x + 4 \<le> a)"
      using a put32_other[of a ?x m] 3
      by (simp add: fat_store_def fat_set_def fat_set32_def fat_set32_raw_def split: if_splits) blast+
    then obtain j where j: "a = ?x + j" "j < 2 ^ 2" by (intro that[of "a - ?x"]) auto
    have "2 ^ 2 dvd ?x" using r by (auto intro: dvd_trans[of _ 128])
    then have "a div 2 ^ ?k = ?x div 2 ^ ?k" using j k7 by (simp only: j same_sector)
    then show ?thesis using x 3
      by (intro dirty_covers_sector_call[of ?x]) (simp_all add: store_calls_def)
  qed
qed

text \<open>The whole routine, for the entries of clusters and for the dirty-bit entry.\<close>

lemma FatSetFatEntry_cluster:
  assumes ok: "vcb_ok s" and i: "i \<noteq> FAT_DIRTY_BIT_INDEX" and run: "FatSetFatEntry i v s = (r, t)"
  shows "\<not> index_ok s i \<and> r = Inl STATUS_FILE_CORRUPT_ERROR \<and> t = s
    \<or> index_ok s i \<and> set_outcome s (fat_set (vcb_bits s) (vcb_R s) (VolumeFile s) i v)
        (store_calls (vcb_bits s) (MCB_SCALE_LOG2 s) (vcb_R s) i) False True r t"
proof (cases "index_ok s i")
  case True
  then have "FatSetFatEntry_by_size i v True False True s = (r, t)"
    using run i by (simp add: FatSetFatEntry_def seq_def FatVerifyIndexIsValid_eq[OF ok])
  from FatSetFatEntry_by_size_outcome[OF ok _ this] True show ?thesis
    using i by (simp add: index_ok_def fat_store_def)
next
  case False
  then show ?thesis
    using run i by (simp add: FatSetFatEntry_def seq_def FatVerifyIndexIsValid_eq[OF ok])
qed

lemma set_outcome_frame:
  assumes "set_outcome s M calls Cleaning WasWait r t"
  shows "Bpb t = Bpb s" "AllocationSupport t = AllocationSupport s" "Windows t = Windows s"
    "FreeClusterBitMap t = FreeClusterBitMap s" "ClusterHint t = ClusterHint s"
    "CurrentWindow t = CurrentWindow s" "NumberOfWindows t = NumberOfWindows s"
    "MountInProgress t = MountInProgress s" "BadBlocksPopulated t = BadBlocksPopulated s"
    "BadBlockMcb t = BadBlockMcb s" "IrpContextWait t = (WasWait \<and> IrpContextWait s)"
    "\<not> IrpContextDisableDirty t" "vcb_ok t = vcb_ok s" "index_ok t = index_ok s"
    "VolumeFile t = (if r = Inr () then M else VolumeFile s)"
    "\<exists>D. DirtyFatMcb t = DirtyFatMcb s @ D \<and> (r = Inr () \<longrightarrow> D = calls)"
    "set (KernelResults t) \<subseteq> set (KernelResults s)"
    "r = Inl e \<Longrightarrow> Some e \<in> set (KernelResults s)"
  using assms by (auto simp: set_outcome_def vcb_ok_def index_ok_def fun_eq_iff)

lemma index_lim: "vcb_ok s \<Longrightarrow> index_ok s i \<Longrightarrow> unat i < 1431655765"
  using vcb_N_bounds(1)[of s] by (simp add: index_ok_def)

lemma FatEntryOf_after_set:
  assumes ok: "vcb_ok s" and ij: "index_ok s i" "index_ok s j" and v: "v AND NOT FAT32_ENTRY_MASK = 0"
    and t: "set_outcome s (fat_set (vcb_bits s) (vcb_R s) (VolumeFile s) i v) calls C W (Inr ()) t"
  shows "FatEntryOf t j = (if i = j then take_bit (fat_vwidth (vcb_bits s)) v else FatEntryOf s j)"
  using fat.get_set[of i v j "vcb_bits s" "vcb_R s" "VolumeFile s"] index_lim[OF ok] ij v
    set_outcome_frame(1,2,15)[OF t]
  by (simp add: FatEntryOf_def)

lemma kres_total: "KernelResults s = [] \<Longrightarrow> set_outcome s M calls C W r t \<Longrightarrow> r = Inr ()"
  using unit_sum_cases[of r] by (auto simp: set_outcome_def)

lemma FatSetFatEntry_dirty_outcome:
  assumes ok: "vcb_ok s" and v: "v = FAT_CLEAN_VOLUME \<or> v = FAT_DIRTY_VOLUME"
    and run: "FatSetFatEntry FAT_DIRTY_BIT_INDEX v s = (r, t)"
  shows "set_outcome (s\<lparr>IrpContextWait := True, IrpContextDisableDirty := True\<rparr>)
      (fat_store (vcb_bits s) (vcb_R s) (VolumeFile s) FAT_DIRTY_BIT_INDEX
        (if v = FAT_CLEAN_VOLUME then FAT_CLEAN_ENTRY
         else if vcb_bits s = 12 then FAT12_DIRTY_ENTRY
         else if vcb_bits s = 32 then FAT32_DIRTY_ENTRY else FAT16_DIRTY_ENTRY))
      (store_calls (vcb_bits s) (MCB_SCALE_LOG2 s) (vcb_R s) FAT_DIRTY_BIT_INDEX)
      (v = FAT_CLEAN_VOLUME) (IrpContextWait s) r t"
proof -
  let ?s = "s\<lparr>IrpContextWait := True, IrpContextDisableDirty := True\<rparr>"
  have ok': "vcb_ok ?s" using ok by (simp add: vcb_ok_def)
  have i: "unat FAT_DIRTY_BIT_INDEX \<le> vcb_N ?s + 1" by simp
  have "FatSetFatEntry_by_size FAT_DIRTY_BIT_INDEX
     (if v = FAT_CLEAN_VOLUME then FAT_CLEAN_ENTRY
         else if vcb_bits s = 12 then FAT12_DIRTY_ENTRY
         else if vcb_bits s = 32 then FAT32_DIRTY_ENTRY else FAT16_DIRTY_ENTRY)
     False (v = FAT_CLEAN_VOLUME) (IrpContextWait s) ?s = (r, t)"
    using v run by (auto simp: FatSetFatEntry_def Let_def)
  from FatSetFatEntry_by_size_outcome[OF ok' i this] show ?thesis by (simp add: MCB_SCALE_LOG2_def)
qed

lemma fat_bit_dirty_store:
  assumes "vcb_ok s"
  shows "fat_bit R (fat_store (vcb_bits s) R m FAT_DIRTY_BIT_INDEX x) (fat_width (vcb_bits s) + n) =
    (if n < fat_width (vcb_bits s) then bit x n
     else fat_bit R m (fat_width (vcb_bits s) + n))"
proof -
  have v: "bit (x AND 0xfff) n \<longleftrightarrow> n < 12 \<and> bit x n"
    unfolding fff_mask by (auto simp: bit_simps)
  from vcb_bits_cases[OF assms] show ?thesis
    by cases (auto simp: fat_store_def fat_set_def fat_width_def v fat_bit_set16 fat_bit_set32_raw
        fat_bit_Set12[OF _ and_fff_NOT])
qed

text \<open>Whether a value read is a link, a free entry or an end mark.\<close>

lemma or_high_bits:
  assumes "unat (e::ULONG) < 2 ^ n"
  shows "e OR push_bit n c = e + push_bit n c"
proof -
  have "bit e k \<Longrightarrow> k < n" for k
  proof (rule ccontr)
    assume "bit e k" "\<not> k < n"
    moreover have "drop_bit n e = 0" using assms by (simp only: word_unat_eq_iff unat_drop_bit_div) simp
    then have "\<not> bit (drop_bit n e) (k - n)" by simp
    ultimately show False by (simp add: bit_simps)
  qed
  then have "e AND push_bit n c = 0" by (intro bit_word_eqI) (auto simp: bit_simps simp flip: not_le)
  then show ?thesis by (simp add: disjunctive_add_eq_or)
qed

lemma interpret_12: "unat e < 4096 \<Longrightarrow> vcb_bits s = 12 \<Longrightarrow> FatInterpretClusterType s e =
     (if unat e = 0 then FatClusterAvailable
      else if unat e < 4096 - 16 then FatClusterNext
      else if unat e < 4096 - 9 then FatClusterReserved
      else if unat e = 4096 - 9 then FatClusterBad
      else FatClusterLast)"
proof -
  assume e: "unat e < 4096" "vcb_bits s = 12"
  have "e OR 0x0FFFF000 = e + 0x0FFFF000"
    using or_high_bits[of e 12 "0xFFFF"] e(1) by (simp add: push_bit_eq_mult)
  then have "unat (e OR 0x0FFFF000) = unat e + 0x0FFFF000"
    using e(1) by (simp add: unat_add_small)
  then show ?thesis using e
    by (simp add: FatInterpretClusterType_def Let_def word_less_nat word_le_nat word_unat_eq_iff)
qed

lemma interpret_16: "unat e < 65536 \<Longrightarrow> vcb_bits s = 16 \<Longrightarrow> FatInterpretClusterType s e =
     (if unat e = 0 then FatClusterAvailable
      else if unat e < 65536 - 16 then FatClusterNext
      else if unat e < 65536 - 9 then FatClusterReserved
      else if unat e = 65536 - 9 then FatClusterBad
      else FatClusterLast)"
proof -
  assume e: "unat e < 65536" "vcb_bits s = 16"
  have "e OR 0x0FFF0000 = e + 0x0FFF0000"
    using or_high_bits[of e 16 "0xFFF"] e(1) by (simp add: push_bit_eq_mult)
  then have "unat (e OR 0x0FFF0000) = unat e + 0x0FFF0000"
    using e(1) by (simp add: unat_add_small)
  then show ?thesis using e
    by (simp add: FatInterpretClusterType_def Let_def word_less_nat word_le_nat word_unat_eq_iff)
qed

lemma interpret_32: "vcb_bits s = 32 \<Longrightarrow> v = unat e mod 2 ^ 28 \<Longrightarrow> FatInterpretClusterType s e =
     (if v = 0 then FatClusterAvailable
      else if v < 2 ^ 28 - 16 then FatClusterNext
      else if v < 2 ^ 28 - 9 then FatClusterReserved
      else if v = 2 ^ 28 - 9 then FatClusterBad
      else FatClusterLast)"
proof -
  assume e: "vcb_bits s = 32" "v = unat e mod 2 ^ 28"
  have "unat (e AND FAT32_ENTRY_MASK) = v"
    unfolding fat32_mask e(2) by (subst take_bit_eq_mask[symmetric], subst unsigned_take_bit_eq, rule take_bit_eq_mod)
  then show ?thesis using e(1)
    by (simp add: FatInterpretClusterType_def Let_def word_less_nat word_unat_eq_iff)
qed

section \<open>Properties\<close>

text \<open>
  C26: FatInterpretClusterType classifies the entries of a FAT of each width by the position
  of the value in its range: 0 is free, the 16 largest values are reserved (the first 7),
  bad (the 8th) or end marks (the last 8), all others are links. On FAT32 the four reserved
  bits of the entry do not matter.
\<close>

theorem FatInterpretClusterType_correct:
  assumes "vcb_bits s \<in> {12, 16, 32}"
    and "vcb_bits s \<noteq> 32 \<Longrightarrow> unat e < 2 ^ fat_vwidth (vcb_bits s)"
    and "v = unat e mod 2 ^ fat_vwidth (vcb_bits s)" and "values = 2 ^ fat_vwidth (vcb_bits s)"
  shows "FatInterpretClusterType s e =
     (if v = 0 then FatClusterAvailable
      else if v < values - 16 then FatClusterNext
      else if v < values - 9 then FatClusterReserved
      else if v = values - 9 then FatClusterBad
      else FatClusterLast)"
proof -
  consider "vcb_bits s = 12" | "vcb_bits s = 16" | "vcb_bits s = 32" using assms(1) by blast
  then show ?thesis
  proof cases
    case 1
    then show ?thesis using assms(2-4) interpret_12[of e s] by (simp add: fat_vwidth_def)
  next
    case 2
    then show ?thesis using assms(2-4) interpret_16[of e s] by (simp add: fat_vwidth_def)
  next
    case 3
    then show ?thesis using assms(3,4) interpret_32[of s v e] by (simp add: fat_vwidth_def)
  qed
qed

theorem FatInterpretClusterType_correct_witness:
  "FatInterpretClusterType floppy_vcb 0xff7 = FatClusterBad"
  by (subst FatInterpretClusterType_correct[OF _ _ refl refl]) (simp_all add: floppy_vcb_def fat_vwidth_def)

text \<open>
  C23: FatLookupFatEntry, given a context that is empty or pins the page it names, answers
  the entry of the FAT as an array of packed entries, and leaves such a context and the
  state it found (but for the kernel calls made). It raises only for an index that is no
  cluster's, or when the cache manager does.
\<close>

theorem FatLookupFatEntry_correct:
  assumes "vcb_ok s" and "context_ok s C"
  shows "case FatLookupFatEntry i E C s of
     (Inr (v, C'), t) \<Rightarrow> index_ok s i \<and> v = FatEntryOf s i \<and> BcbPinned C' \<and> context_ok t C' \<and>
        t = s\<lparr>KernelResults := KernelResults t\<rparr>
   | (Inl e, t) \<Rightarrow> (if index_ok s i then Some e \<in> set (KernelResults s)
                   else e = STATUS_FILE_CORRUPT_ERROR) \<and> t = s\<lparr>KernelResults := KernelResults t\<rparr>"
proof (cases "FatLookupFatEntry i E C s")
  case (Pair r t)
  show ?thesis
  proof (cases r)
    case (Inl e)
    then show ?thesis using FatLookupFatEntry_Inl[OF assms(1), of i E C e t] Pair
      by (auto simp: KernelCall_Inl) (metis list.set_sel(1))+
  next
    case (Inr vC)
    then show ?thesis using FatLookupFatEntry_Inr[OF assms, of i E "fst vC" "snd vC" t] Pair
      by (cases vC) auto
  qed
qed

definition empty_context :: FAT_ENUMERATION_CONTEXT where
  "empty_context = \<lparr>VboOfPinnedPage = 0, BcbPinned = False, PinnedPage = 0\<rparr>"

lemma floppy_ok: "vcb_ok floppy_vcb"
  using floppy_fits by (simp add: vcb_ok_def)

lemma floppy_index: "index_ok floppy_vcb i \<longleftrightarrow> 2 \<le> unat i \<and> unat i \<le> 2848"
  by (simp add: index_ok_def floppy_vcb_def)

theorem FatLookupFatEntry_correct_witness:
  "\<exists>C t. FatLookupFatEntry 5 0 empty_context floppy_vcb = (Inr (FatEntryOf floppy_vcb 5, C), t)"
proof -
  have "context_ok floppy_vcb empty_context" by (simp add: context_ok_def empty_context_def)
  moreover have "KernelResults floppy_vcb = []" by (simp add: floppy_vcb_def)
  ultimately show ?thesis
    using FatLookupFatEntry_correct[OF floppy_ok, of empty_context 5 0]
    by (auto simp: floppy_index split: prod.splits sum.splits)
qed

text \<open>
  C21: FatSetFatEntry on a cluster's entry stores the value, cut to the width of the FAT's
  entries, and changes no other entry and no byte outside the entry. When it raises, the
  index is no cluster's or the kernel has raised, and the volume file is as it was.
\<close>

theorem FatSetFatEntry_correct:
  assumes "vcb_ok s" and "i \<noteq> FAT_DIRTY_BIT_INDEX" and "v AND NOT FAT32_ENTRY_MASK = 0"
    and "w = fat_width (vcb_bits s)"
  shows "case FatSetFatEntry i v s of
     (Inr _, t) \<Rightarrow> index_ok s i
       \<and> (\<forall>j. index_ok s j \<longrightarrow>
            FatEntryOf t j = (if i = j then take_bit (fat_vwidth (vcb_bits s)) v else FatEntryOf s j))
       \<and> (\<forall>a. a < vcb_R s \<or> 8 * (a - vcb_R s) + 8 \<le> w * unat i \<or> w * (unat i + 1) \<le> 8 * (a - vcb_R s)
            \<longrightarrow> VolumeFile t a = VolumeFile s a)
   | (Inl e, t) \<Rightarrow> (if index_ok s i then Some e \<in> set (KernelResults s)
                   else e = STATUS_FILE_CORRUPT_ERROR) \<and> VolumeFile t = VolumeFile s"
proof (cases "FatSetFatEntry i v s")
  case (Pair r t)
  note c = FatSetFatEntry_cluster[OF assms(1,2) Pair]
  show ?thesis
  proof (cases r)
    case (Inl e)
    then show ?thesis using c Pair by (auto dest: set_outcome_frame(15,18))
  next
    case (Inr u)
    then have i: "index_ok s i" and o: "set_outcome s (fat_set (vcb_bits s) (vcb_R s) (VolumeFile s) i v)
        (store_calls (vcb_bits s) (MCB_SCALE_LOG2 s) (vcb_R s) i) False True (Inr ()) t"
      using c by simp_all
    have "FatEntryOf t j = (if i = j then take_bit (fat_vwidth (vcb_bits s)) v else FatEntryOf s j)"
      if "index_ok s j" for j
      by (rule FatEntryOf_after_set[OF assms(1) i that assms(3) o])
    moreover have "VolumeFile t a = VolumeFile s a"
      if "a < vcb_R s \<or> 8 * (a - vcb_R s) + 8 \<le> w * unat i \<or> w * (unat i + 1) \<le> 8 * (a - vcb_R s)" for a
      using set_outcome_frame(15)[OF o] that assms(4)
        fat.set_frame[OF index_lim[OF assms(1) i] assms(3), of a "vcb_R s" "vcb_bits s" "VolumeFile s"]
      by (simp add: add.commute)
    ultimately show ?thesis using Inr Pair i by simp
  qed
qed

theorem FatSetFatEntry_correct_witness:
  "\<exists>t. FatSetFatEntry 5 0xfff floppy_vcb = (Inr (), t) \<and> FatEntryOf t 5 = 0xfff"
proof -
  have "KernelResults floppy_vcb = []" "vcb_bits floppy_vcb = 12" by (simp_all add: floppy_vcb_def)
  moreover have "take_bit 12 (0xfff :: ULONG) = 0xfff" by (simp add: take_bit_eq_mask fff_mask(1))
  ultimately show ?thesis
    using FatSetFatEntry_correct[OF floppy_ok, of 5 "0xfff", OF _ _ refl]
    by (auto simp: floppy_index fat_vwidth_def split: prod.splits sum.splits)
qed

text \<open>
  C20: What FatSetFatEntry stores is what FatLookupFatEntry then finds: after a store, the
  lookup of a cluster's entry that does not raise answers the value stored, cut to the width
  of an entry, for the same index and the value it answered before for another.
\<close>

theorem FatLookupFatEntry_after_FatSetFatEntry:
  assumes "vcb_ok s" and "i \<noteq> FAT_DIRTY_BIT_INDEX" and "v AND NOT FAT32_ENTRY_MASK = 0"
    and "FatSetFatEntry i v s = (Inr (), t)"
    and "context_ok s C0" and "FatLookupFatEntry j E0 C0 s = (Inr (old, C1), s1)"
    and "context_ok t C" and "FatLookupFatEntry j E C t = (Inr (x, C'), u)"
  shows "x = (if j = i then take_bit (fat_vwidth (vcb_bits s)) v else old)"
proof -
  have o: "index_ok s i" "set_outcome s (fat_set (vcb_bits s) (vcb_R s) (VolumeFile s) i v)
        (store_calls (vcb_bits s) (MCB_SCALE_LOG2 s) (vcb_R s) i) False True (Inr ()) t"
    using FatSetFatEntry_cluster[OF assms(1,2,4)] by auto
  have "vcb_ok t" using assms(1) set_outcome_frame(13)[OF o(2)] by simp
  then have x: "x = FatEntryOf t j" using FatLookupFatEntry_Inr[OF _ assms(7,8)] by blast
  have j: "index_ok s j" "old = FatEntryOf s j" using FatLookupFatEntry_Inr[OF assms(1,5,6)] by blast+
  show ?thesis using FatEntryOf_after_set[OF assms(1) o(1) j(1) assms(3) o(2)] j x by auto
qed

lemma floppy_set_5:
  obtains t where "FatSetFatEntry 5 0xfff floppy_vcb = (Inr (), t)" "vcb_ok t" "index_ok t = index_ok floppy_vcb"
    "KernelResults t = []"
proof -
  obtain r t where run: "FatSetFatEntry 5 0xfff floppy_vcb = (r, t)" by force
  have k: "KernelResults floppy_vcb = []" by (simp add: floppy_vcb_def)
  obtain M calls where o: "set_outcome floppy_vcb M calls False True r t"
    using FatSetFatEntry_cluster[OF floppy_ok _ run] by (auto simp: floppy_index)
  then have "r = Inr ()" by (rule kres_total[OF k])
  moreover have "vcb_ok t" "index_ok t = index_ok floppy_vcb"
    using set_outcome_frame(13,14)[OF o] floppy_ok by simp_all
  moreover have "KernelResults t = []" using set_outcome_frame(17)[OF o] k by simp
  ultimately show ?thesis using run that by blast
qed

lemma lookup_total:
  assumes "vcb_ok s" "context_ok s C" "KernelResults s = []" "index_ok s i"
  obtains v C' t where "FatLookupFatEntry i E C s = (Inr (v, C'), t)"
proof (cases "FatLookupFatEntry i E C s")
  case (Pair r t)
  with FatLookupFatEntry_Inl[OF assms(1), of i E C _ t] assms(3,4) have "\<nexists>e. r = Inl e"
    by (auto simp: KernelCall_Inl)
  with Pair that show ?thesis by (cases r) auto
qed

theorem FatLookupFatEntry_after_FatSetFatEntry_witness:
  "\<exists>t C u. FatSetFatEntry 5 0xfff floppy_vcb = (Inr (), t) \<and>
     FatLookupFatEntry 5 0 empty_context t = (Inr (0xfff, C), u)"
proof -
  obtain t where t: "FatSetFatEntry 5 0xfff floppy_vcb = (Inr (), t)" "vcb_ok t"
    "index_ok t = index_ok floppy_vcb" "KernelResults t = []" by (rule floppy_set_5)
  have c: "context_ok s empty_context" for s by (simp add: context_ok_def empty_context_def)
  have "index_ok floppy_vcb 5" "KernelResults floppy_vcb = []"
    by (simp add: floppy_index) (simp add: floppy_vcb_def)
  from lookup_total[OF floppy_ok c this(2,1)] obtain v C1 s1
    where l0: "FatLookupFatEntry 5 0 empty_context floppy_vcb = (Inr (v, C1), s1)" .
  have "index_ok t 5" using t(3) by (simp add: floppy_index)
  from lookup_total[OF t(2) c t(4) this] obtain x C u
    where l1: "FatLookupFatEntry 5 0 empty_context t = (Inr (x, C), u)" .
  have "x = take_bit (fat_vwidth (vcb_bits floppy_vcb)) 0xfff"
    using FatLookupFatEntry_after_FatSetFatEntry[OF floppy_ok _ _ t(1) c l0 c l1] by simp
  then have "x = 0xfff" by (simp add: floppy_vcb_def fat_vwidth_def take_bit_eq_mask fff_mask(1))
  with t(1) l1 show ?thesis by blast
qed

text \<open>
  C22: Every byte of the volume file that FatSetFatEntry changes lies in a sector it has
  marked in the dirty FAT Mcb, with its device offset equal to its file offset, also where
  a 12-bit entry crosses into the next sector and for the dirty-bit entry; and no mark made
  before is lost.
\<close>

theorem FatSetFatEntry_marks_dirty:
  assumes "vcb_ok s" and "FatSetFatEntry i v s = (r, t)"
  shows "(VolumeFile t a \<noteq> VolumeFile s a \<longrightarrow> dirty_covers (MCB_SCALE_LOG2 s) (DirtyFatMcb t) a)
    \<and> (\<exists>D. DirtyFatMcb t = DirtyFatMcb s @ D)"
proof (cases "i = FAT_DIRTY_BIT_INDEX")
  case False
  have cov: "dirty_covers (MCB_SCALE_LOG2 s) (DirtyFatMcb t) a"
    if "index_ok s i" "set_outcome s (fat_set (vcb_bits s) (vcb_R s) (VolumeFile s) i v)
        (store_calls (vcb_bits s) (MCB_SCALE_LOG2 s) (vcb_R s) i) False True r t"
      "VolumeFile t a \<noteq> VolumeFile s a"
    using set_outcome_frame(15,16)[OF that(2)] that(1,3) False
      store_covered[OF assms(1), of i "VolumeFile s" v a "DirtyFatMcb s"]
    by (auto simp: index_ok_def fat_store_def split: if_splits)
  show ?thesis
    using FatSetFatEntry_cluster[OF assms(1) False assms(2)] cov set_outcome_frame(16) by blast
next
  case True
  show ?thesis
  proof (cases "v = FAT_CLEAN_VOLUME \<or> v = FAT_DIRTY_VOLUME")
    case False
    then have "t = s" using assms(2) True by (auto simp: FatSetFatEntry_def)
    then show ?thesis by (auto intro: exI[of _ "[]"])
  next
    case v: True
    note o = FatSetFatEntry_dirty_outcome[OF assms(1) v assms(2)[unfolded True]]
    show ?thesis
      using set_outcome_frame(15,16)[OF o]
        store_covered[OF assms(1), of FAT_DIRTY_BIT_INDEX "VolumeFile s" _ a "DirtyFatMcb s"]
      by (auto split: if_splits)
  qed
qed

theorem FatSetFatEntry_marks_dirty_witness:
  "\<exists>t. FatSetFatEntry 5 0xfff floppy_vcb = (Inr (), t) \<and>
     (VolumeFile t 519 \<noteq> VolumeFile floppy_vcb 519 \<longrightarrow> dirty_covers 9 (DirtyFatMcb t) 519)"
proof -
  obtain t where t: "FatSetFatEntry 5 0xfff floppy_vcb = (Inr (), t)" by (rule floppy_set_5)
  have "MCB_SCALE_LOG2 floppy_vcb = 9" by (simp add: MCB_SCALE_LOG2_def floppy_vcb_def)
  then show ?thesis using t FatSetFatEntry_marks_dirty[OF floppy_ok t, of 519] by auto
qed

text \<open>
  C25: The special call that sets the dirty-bit entry makes all bits of entry 1 ones, with
  the highest bit of its field, reserved bits of FAT32 included, set exactly when the volume
  is being marked clean; the buffer is then written through. The wait flag of the request
  comes back as it was and dirtying is enabled again, and any other value raises and changes
  nothing. No call into the kernel fails here.
\<close>

theorem FatSetFatEntry_dirty_bit:
  assumes "vcb_ok s" and "KernelResults s = []" and "w = fat_width (vcb_bits s)"
  shows "case FatSetFatEntry FAT_DIRTY_BIT_INDEX v s of
     (Inr _, t) \<Rightarrow> (v = FAT_CLEAN_VOLUME \<or> v = FAT_DIRTY_VOLUME)
       \<and> (\<forall>n < w. fat_bit (vcb_R s) (VolumeFile t) (w + n) = (n < w - 1 \<or> v = FAT_CLEAN_VOLUME))
       \<and> (v = FAT_CLEAN_VOLUME \<longrightarrow> WrittenThrough t \<noteq> WrittenThrough s)
       \<and> IrpContextWait t = IrpContextWait s \<and> \<not> IrpContextDisableDirty t
   | (Inl e, t) \<Rightarrow> v \<noteq> FAT_CLEAN_VOLUME \<and> v \<noteq> FAT_DIRTY_VOLUME \<and> e = STATUS_FILE_CORRUPT_ERROR \<and> t = s"
proof (cases "v = FAT_CLEAN_VOLUME \<or> v = FAT_DIRTY_VOLUME")
  case False
  then show ?thesis by (simp add: FatSetFatEntry_def)
next
  case v: True
  obtain r t where run: "FatSetFatEntry FAT_DIRTY_BIT_INDEX v s = (r, t)" by force
  note o = FatSetFatEntry_dirty_outcome[OF assms(1) v run]
  have r: "r = Inr ()" using kres_total[OF _ o] assms(2) by simp
  note f = set_outcome_frame(11,12,15)[OF o]
  let ?x = "if v = FAT_CLEAN_VOLUME then FAT_CLEAN_ENTRY else if vcb_bits s = 12 then FAT12_DIRTY_ENTRY
         else if vcb_bits s = 32 then FAT32_DIRTY_ENTRY else FAT16_DIRTY_ENTRY"
  have wt: "v = FAT_CLEAN_VOLUME \<longrightarrow> WrittenThrough t \<noteq> WrittenThrough s"
    using o r by (auto simp: set_outcome_def)
  have bits: "bit ?x n = (n < w - 1 \<or> v = FAT_CLEAN_VOLUME)" if "n < w" for n
  proof -
    have "FAT_CLEAN_ENTRY = mask 32" "FAT12_DIRTY_ENTRY = mask 11" "FAT16_DIRTY_ENTRY = mask 15"
      "FAT32_DIRTY_ENTRY = mask 31" by (simp_all add: mask_eq_exp_minus_1)
    note m = this
    have "bit (mask 32 :: ULONG) n" using that assms(3) by (simp add: bit_mask_iff fat_width_def split: if_splits)
    then show ?thesis using that assms(3) vcb_bits_cases[OF assms(1)] unfolding m
      by (auto simp: bit_mask_iff fat_width_def split: if_splits)
  qed
  have "fat_bit (vcb_R s) (fat_store (vcb_bits s) (vcb_R s) (VolumeFile s) FAT_DIRTY_BIT_INDEX ?x) (w + n) = bit ?x n"
    if n: "n < w" for n
    using n by (subst fat_bit_dirty_store[OF assms(1), folded assms(3)]) simp_all
  then show ?thesis using run r v f wt bits by simp
qed

theorem FatSetFatEntry_dirty_bit_witness:
  "\<exists>t. FatSetFatEntry FAT_DIRTY_BIT_INDEX FAT_CLEAN_VOLUME floppy_vcb = (Inr (), t) \<and>
     WrittenThrough t \<noteq> [] \<and> fat_bit 512 (VolumeFile t) 23"
proof -
  have "KernelResults floppy_vcb = []" "vcb_bits floppy_vcb = 12" "WrittenThrough floppy_vcb = []"
    by (simp_all add: floppy_vcb_def)
  moreover have "vcb_R floppy_vcb = 512"
    using MountedBpb_floppy by (simp add: FatReservedBytes_def floppy_vcb_def floppy_bpb_def)
  ultimately show ?thesis
    using FatSetFatEntry_dirty_bit[OF floppy_ok _ refl, of FAT_CLEAN_VOLUME]
    by (auto simp: fat_width_def dest: spec[of _ 11] split: prod.splits sum.splits)
qed

text \<open>
  C30: On FAT32 FatSetFatEntry keeps the four reserved high bits of a cluster's entry,
  whatever value is stored.
\<close>

theorem FatSetFatEntry_keeps_reserved:
  assumes "vcb_ok s" and "vcb_bits s = 32" and "i \<noteq> FAT_DIRTY_BIT_INDEX"
    and "v AND NOT FAT32_ENTRY_MASK = 0" and "FatSetFatEntry i v s = (r, t)"
  shows "get32 (VolumeFile t) (vcb_R s + 4 * unat i) AND NOT FAT32_ENTRY_MASK
       = get32 (VolumeFile s) (vcb_R s + 4 * unat i) AND NOT FAT32_ENTRY_MASK"
proof -
  have o: "VolumeFile t = (if r = Inr () then fat_set 32 (vcb_R s) (VolumeFile s) i v else VolumeFile s)"
    using FatSetFatEntry_cluster[OF assms(1,3,5)] assms(2) by (auto dest: set_outcome_frame(15))
  have "v AND NOT (mask 28) = 0" using assms(4) unfolding fat32_mask .
  then have "((e AND NOT (mask 28)) OR v) AND NOT (mask 28) = e AND NOT (mask 28)" for e
    by (simp add: bit.conj_disj_distrib2)
  then show ?thesis using o unfolding fat_set_def fat_set32_def fat32_mask by simp
qed

text \<open>A FAT32 volume with 130000 clusters, every byte of its volume file 0xff.\<close>

definition disk32_vcb :: VCB where
  "disk32_vcb =
     \<lparr> Bpb = \<lparr> BytesPerSector = 512, SectorsPerCluster = 8, ReservedSectors = 32, Fats = 2,
         RootEntries = 0, Sectors = 0, Media = 0xf8, SectorsPerFat = 0, SectorsPerTrack = 63,
         Heads = 255, HiddenSectors = 0, LargeSectors = 1042080, LargeSectorsPerFat = 1024,
         ExtendedFlags = 0, FsVersion = 0, RootDirFirstCluster = 2, FsInfoSector = 1,
         BackupBootSector = 6 \<rparr>,
       AllocationSupport =
         \<lparr> RootDirectoryLbo = 0x104000, FileAreaLbo = 0x104000, RootDirectorySize = 0,
           NumberOfClusters = 130000, NumberOfFreeClusters = 130000, FatIndexBitSize = 32,
           LogOfBytesPerSector = 9, LogOfBytesPerCluster = 12 \<rparr>,
       NumberOfWindows = 2,
       Windows = [\<lparr> FirstCluster = 2, LastCluster = 65537, ClustersFree = 65536 \<rparr>,
                  \<lparr> FirstCluster = 65538, LastCluster = 130001, ClustersFree = 64464 \<rparr>],
       CurrentWindow = 0, FreeClusterBitMap = replicate 65536 False, ClusterHint = 2,
       MountInProgress = False, BadBlocksPopulated = False, VolumeFile = (\<lambda>_. 0xff),
       DirtyFatMcb = [], BadBlockMcb = [], IrpContextWait = True, IrpContextDisableDirty = False,
       WrittenThrough = [], KernelResults = [] \<rparr>"

lemma disk32_ok: "vcb_ok disk32_vcb"
  by (simp add: vcb_ok_def fat_fits_def disk32_vcb_def FatReservedBytes_def FatBytesPerFat_def IsBpbFat32_def)

theorem FatSetFatEntry_keeps_reserved_witness:
  "\<exists>t. FatSetFatEntry 5 6 disk32_vcb = (Inr (), t) \<and>
     get32 (VolumeFile t) (vcb_R disk32_vcb + 20) AND NOT FAT32_ENTRY_MASK
       = get32 (VolumeFile disk32_vcb) (vcb_R disk32_vcb + 20) AND NOT FAT32_ENTRY_MASK"
proof -
  obtain r t where run: "FatSetFatEntry 5 6 disk32_vcb = (r, t)" by force
  have i: "index_ok disk32_vcb 5" and k: "KernelResults disk32_vcb = []" and b: "vcb_bits disk32_vcb = 32"
    by (simp_all add: index_ok_def disk32_vcb_def)
  obtain M calls where "set_outcome disk32_vcb M calls False True r t"
    using FatSetFatEntry_cluster[OF disk32_ok _ run] i by auto
  then have "r = Inr ()" by (rule kres_total[OF k])
  then show ?thesis using run FatSetFatEntry_keeps_reserved[OF disk32_ok b _ _ run] by auto
qed

end
