(* ===== verification/FatRun.thy ===== *)
theory FatRun
  imports FatEntry
begin

text \<open>
  FatSetFatRun, which links or frees a run of clusters: the whole FAT pinned on FAT12, all
  pages of the run pinned on FAT16, and chunks of 65536 clusters with an unwind on FAT32;
  and the macros FatFreeClusters and FatAllocateClusters over it. The stores through the
  walking page pointer are shown equal to storing the entries one by one.
\<close>

section \<open>FatSetFatRun\<close>

abbreviation MAXCOUNTCLUS :: ULONG where
  "MAXCOUNTCLUS \<equiv> 0x10000"

text \<open>The number of elements of SavedBcbs.\<close>

definition COUNTSAVEDBCBS :: nat where
  "COUNTSAVEDBCBS = 0x10000 * 4 div 4096 + 2"

text \<open>
  The loop over Lbo runs from the first to the last sector in steps of a sector; the bounds
  were computed in 32 bits, so the 64-bit Lbo does not wrap.
\<close>

primrec FatMarkSectors_loop :: "nat \<Rightarrow> LBO \<Rightarrow> ULONG \<Rightarrow> (VCB, unit) fat_op" where
  "FatMarkSectors_loop 0 Lbo SectorSize = ret ()"
| "FatMarkSectors_loop (Suc n) Lbo SectorSize =
     seq (FatAddDirtyFatMcb (ucast Lbo) Lbo SectorSize) (\<lambda>_.
     FatMarkSectors_loop n (Lbo + ucast SectorSize) SectorSize)"

definition FatMarkSectors :: "ULONG \<Rightarrow> ULONG \<Rightarrow> ULONG \<Rightarrow> (VCB, unit) fat_op" where
  "FatMarkSectors StartSectorLbo FinalSectorLbo SectorSize =
     FatMarkSectors_loop
       (if StartSectorLbo \<le> FinalSectorLbo
        then Suc (unat ((FinalSectorLbo - StartSectorLbo) div SectorSize)) else 0)
       (ucast StartSectorLbo) SectorSize"

text \<open>Pinning \<open>n\<close> pages from \<open>Offset\<close> on gives the pointers SavedBcbs[..][1].\<close>

primrec FatPinPages :: "nat \<Rightarrow> ULONG \<Rightarrow> (VCB, nat list) fat_op" where
  "FatPinPages 0 Offset = ret []"
| "FatPinPages (Suc n) Offset =
     seq (FatPrepareWriteVolumeFile Offset PAGE_SIZE True False) (\<lambda>p.
     seq (FatPinPages n (Offset + PAGE_SIZE)) (\<lambda>ps. ret (p # ps)))"

text \<open>
  One round of the store loop: \<open>put\<close> stores an entry of \<open>sz\<close> bytes at a pointer. A pointer
  is the offset in the volume file of the byte it addresses, and pinned pages are page
  aligned in memory, so the pointer is at a page boundary when the offset is.
\<close>

definition FatStore_step ::
  "(mem \<Rightarrow> nat \<Rightarrow> ULONG \<Rightarrow> mem) \<Rightarrow> nat \<Rightarrow> bool \<Rightarrow> ULONG \<Rightarrow> nat list \<Rightarrow> ULONG \<Rightarrow> mem \<times> nat \<times> nat \<Rightarrow> mem \<times> nat \<times> nat" where
  "FatStore_step put sz ChainTogether StartingFatIndex SavedPages Cluster st =
     (let (m, Page, FatEntry) = st;
          (Page', FatEntry') =
            (if FatEntry mod 4096 = 0 \<and> Cluster \<noteq> StartingFatIndex
             then (Page + 1, SavedPages ! (Page + 1)) else (Page, FatEntry))
      in (put m FatEntry' (if ChainTogether then Cluster + 1 else FAT_CLUSTER_AVAILABLE), Page', FatEntry' + sz))"

definition FatStore_run ::
  "(mem \<Rightarrow> nat \<Rightarrow> ULONG \<Rightarrow> mem) \<Rightarrow> nat \<Rightarrow> bool \<Rightarrow> bool \<Rightarrow> ULONG \<Rightarrow> ULONG \<Rightarrow> nat list \<Rightarrow> nat \<Rightarrow> mem \<Rightarrow> mem" where
  "FatStore_run put sz ChainTogether LastChunk StartingFatIndex FinalCluster SavedPages FatEntry m =
     (let (m', Page', FatEntry') =
        for_loop (for_count StartingFatIndex FinalCluster)
          (FatStore_step put sz ChainTogether StartingFatIndex SavedPages) StartingFatIndex (m, 0, FatEntry)
      in if LastChunk \<and> ChainTogether then put m' (FatEntry' - sz) FAT_CLUSTER_LAST else m')"

definition FatSetFatRun_12 :: "ULONG \<Rightarrow> ULONG \<Rightarrow> ULONG \<Rightarrow> bool \<Rightarrow> (VCB, unit) fat_op" where
  "FatSetFatRun_12 SectorSize StartingFatIndex ClusterCount ChainTogether s =
     (let StartSectorLbo = (FatReservedBytes (Bpb s) + StartingFatIndex * 3 div 2) AND NOT (SectorSize - 1);
          FinalSectorLbo = (FatReservedBytes (Bpb s) + ((StartingFatIndex + ClusterCount) * 3 + 2) div 2)
                             AND NOT (SectorSize - 1);
          n = unat (StartingFatIndex + ClusterCount - 1) - unat StartingFatIndex
      in seq (FatPrepareWriteVolumeFile (FatReservedBytes (Bpb s)) (FatBytesPerFat (Bpb s)) True False) (\<lambda>PinnedFat.
         seq (FatMarkSectors StartSectorLbo FinalSectorLbo SectorSize) (\<lambda>_.
         modify (\<lambda>s. s\<lparr>VolumeFile :=
           FatSet12BitEntry
             (for_loop n (\<lambda>Cluster m. FatSet12BitEntry m PinnedFat Cluster
                (if ChainTogether then Cluster + 1 else FAT_CLUSTER_AVAILABLE)) StartingFatIndex (VolumeFile s))
             PinnedFat (StartingFatIndex + of_nat n)
             (if ChainTogether then FAT_CLUSTER_LAST AND 0xfff else FAT_CLUSTER_AVAILABLE)\<rparr>))) s)"

text \<open>One chunk of the FAT32 loop, of ClusterCountThisRun clusters.\<close>

definition FatSetFatRun_32_chunk :: "ULONG \<Rightarrow> ULONG \<Rightarrow> ULONG \<Rightarrow> bool \<Rightarrow> (VCB, unit) fat_op" where
  "FatSetFatRun_32_chunk SectorSize StartingFatIndex ClusterCount ChainTogether s =
     (let StartOffsetInVolume = FatReservedBytes (Bpb s) + StartingFatIndex * 4;
          ClusterCountThisRun = (if ClusterCount > MAXCOUNTCLUS then MAXCOUNTCLUS else ClusterCount);
          FinalOffsetInVolume = StartOffsetInVolume + (ClusterCountThisRun - 1) * 4;
          NumberOfPages = FinalOffsetInVolume div PAGE_SIZE - StartOffsetInVolume div PAGE_SIZE + 1;
          FinalCluster = StartingFatIndex + ClusterCountThisRun - 1
      in seq (FatPinPages (unat NumberOfPages) (StartOffsetInVolume AND NOT (PAGE_SIZE - 1))) (\<lambda>SavedPages.
         seq (FatMarkSectors (StartOffsetInVolume AND NOT (SectorSize - 1))
                (FinalOffsetInVolume AND NOT (SectorSize - 1)) SectorSize) (\<lambda>_.
         modify (\<lambda>s. s\<lparr>VolumeFile :=
           FatStore_run put32 4 ChainTogether (ClusterCount \<le> MAXCOUNTCLUS) StartingFatIndex FinalCluster SavedPages
             (SavedPages ! 0 + unat (StartOffsetInVolume mod PAGE_SIZE)) (VolumeFile s)\<rparr>))) s)"

text \<open>The loop over the chunks; the answer has StartingFatIndex as it is when the loop is left, raised or not.\<close>

function FatSetFatRun_32_loop ::
  "ULONG \<Rightarrow> ULONG \<Rightarrow> ULONG \<Rightarrow> bool \<Rightarrow> VCB \<Rightarrow> (ntstatus + unit) \<times> ULONG \<times> VCB" where
  "FatSetFatRun_32_loop SectorSize StartingFatIndex ClusterCount ChainTogether s =
     (case FatSetFatRun_32_chunk SectorSize StartingFatIndex ClusterCount ChainTogether s of
        (Inl e, s1) \<Rightarrow> (Inl e, StartingFatIndex, s1)
      | (Inr _, s1) \<Rightarrow>
          if ClusterCount \<le> MAXCOUNTCLUS then (Inr (), StartingFatIndex, s1)
          else FatSetFatRun_32_loop SectorSize (StartingFatIndex + MAXCOUNTCLUS) (ClusterCount - MAXCOUNTCLUS)
                 ChainTogether s1)"
  by pat_completeness auto
termination
proof (relation "measure (\<lambda>(ss, i, c, ch, s). unat c)")
  fix c :: ULONG and ss i ch s r s1 and x :: "(ntstatus + unit) \<times> VCB" and y :: unit
  assume "\<not> c \<le> MAXCOUNTCLUS"
  then have "0x10000 < unat c" by (simp add: word_le_nat)
  then show "((ss, i + MAXCOUNTCLUS, c - MAXCOUNTCLUS, ch, s1), ss, i, c, ch, s)
      \<in> measure (\<lambda>(ss, i, c, ch, s). unat c)"
    by (simp add: unat_sub_le word_le_nat)
qed simp

declare FatSetFatRun_32_loop.simps [simp del]

text \<open>The FAT32 unwind of the finally block, \<open>n\<close> entries back from StartingFatIndex.\<close>

primrec FatSetFatRun_unwind :: "nat \<Rightarrow> ULONG \<Rightarrow> bool \<Rightarrow> (VCB, unit) fat_op" where
  "FatSetFatRun_unwind 0 StartingFatIndex ChainTogether = ret ()"
| "FatSetFatRun_unwind (Suc n) StartingFatIndex ChainTogether =
     seq (FatSetFatEntry (StartingFatIndex - 1)
            (if ChainTogether then (StartingFatIndex - 1) + 1 else FAT_CLUSTER_AVAILABLE)) (\<lambda>_.
     FatSetFatRun_unwind n (StartingFatIndex - 1) ChainTogether)"

definition FatSetFatRun_32 :: "ULONG \<Rightarrow> ULONG \<Rightarrow> ULONG \<Rightarrow> bool \<Rightarrow> (VCB, unit) fat_op" where
  "FatSetFatRun_32 SectorSize SavedStartingFatIndex ClusterCount ChainTogether s =
     (case FatSetFatRun_32_loop SectorSize SavedStartingFatIndex ClusterCount ChainTogether s of
        (Inr _, _, s1) \<Rightarrow> (Inr (), s1)
      | (Inl e, StartingFatIndex, s1) \<Rightarrow>
          seq (FatSetFatRun_unwind (unat StartingFatIndex - unat SavedStartingFatIndex) StartingFatIndex ChainTogether)
            (\<lambda>_. raise_status e) s1)"

definition FatSetFatRun_16 :: "ULONG \<Rightarrow> ULONG \<Rightarrow> ULONG \<Rightarrow> bool \<Rightarrow> (VCB, unit) fat_op" where
  "FatSetFatRun_16 SectorSize StartingFatIndex ClusterCount ChainTogether s =
     (let StartOffsetInVolume = FatReservedBytes (Bpb s) + StartingFatIndex * 2;
          FinalOffsetInVolume = StartOffsetInVolume + (ClusterCount - 1) * 2;
          NumberOfPages = FinalOffsetInVolume div PAGE_SIZE - StartOffsetInVolume div PAGE_SIZE + 1;
          FinalCluster = StartingFatIndex + ClusterCount - 1
      in seq (FatPinPages (unat NumberOfPages) (StartOffsetInVolume AND NOT (PAGE_SIZE - 1))) (\<lambda>SavedPages.
         seq (FatMarkSectors (StartOffsetInVolume AND NOT (SectorSize - 1))
                (FinalOffsetInVolume AND NOT (SectorSize - 1)) SectorSize) (\<lambda>_.
         modify (\<lambda>s. s\<lparr>VolumeFile :=
           FatStore_run (\<lambda>m p v. put16 m p (ucast v)) 2 ChainTogether True StartingFatIndex FinalCluster SavedPages
             (SavedPages ! 0 + unat (StartOffsetInVolume mod PAGE_SIZE)) (VolumeFile s)\<rparr>))) s)"

definition FatSetFatRun :: "ULONG \<Rightarrow> ULONG \<Rightarrow> bool \<Rightarrow> (VCB, unit) fat_op" where
  "FatSetFatRun StartingFatIndex ClusterCount ChainTogether =
     seq (FatVerifyIndexIsValid StartingFatIndex) (\<lambda>_.
     seq (FatVerifyIndexIsValid (StartingFatIndex + ClusterCount - 1)) (\<lambda>_ s.
       if ClusterCount = 0 then (Inr (), s)
       else
         (let SectorSize = push_bit (unat (LogOfBytesPerSector (AllocationSupport s))) 1
          in (if FatIndexBitSize (AllocationSupport s) = 12
              then FatSetFatRun_12 SectorSize StartingFatIndex ClusterCount ChainTogether
              else if FatIndexBitSize (AllocationSupport s) = 32
              then FatSetFatRun_32 SectorSize StartingFatIndex ClusterCount ChainTogether
              else FatSetFatRun_16 SectorSize StartingFatIndex ClusterCount ChainTogether) s)))"

section \<open>FatFreeClusters and FatAllocateClusters\<close>

definition FatFreeClusters :: "ULONG \<Rightarrow> ULONG \<Rightarrow> (VCB, unit) fat_op" where
  "FatFreeClusters FAT_INDEX CLUSTER_COUNT =
     (if CLUSTER_COUNT = 1 then FatSetFatEntry FAT_INDEX FAT_CLUSTER_AVAILABLE
      else FatSetFatRun FAT_INDEX CLUSTER_COUNT False)"

definition FatAllocateClusters :: "ULONG \<Rightarrow> ULONG \<Rightarrow> (VCB, unit) fat_op" where
  "FatAllocateClusters FAT_INDEX CLUSTER_COUNT =
     (if CLUSTER_COUNT = 1 then FatSetFatEntry FAT_INDEX FAT_CLUSTER_LAST
      else FatSetFatRun FAT_INDEX CLUSTER_COUNT True)"

section \<open>The sectors marked\<close>

lemma FatMarkSectors_loop_marks:
  assumes "k < 31" and "x mod 2 ^ k = 0" and "x + n * 2 ^ k < 2 ^ 32" and "unat Lbo = x"
  shows "marks k (FatMarkSectors_loop n Lbo (2 ^ k)) (map (\<lambda>j. sector_call k (x + j * 2 ^ k)) [0..<n])"
  using assms(2-4)
proof (induction n arbitrary: x Lbo)
  case 0
  show ?case unfolding FatMarkSectors_loop.simps upt_0 list.map by (rule marks_ret)
next
  case (Suc n)
  have x: "x < 2 ^ 32" using Suc.prems by simp
  have p: "unat (2 ^ k :: ULONG) = 2 ^ k" using assms(1) by (simp add: unat_pow2_32)
  have al: "x div 2 ^ k * 2 ^ k = x" using Suc.prems(1) by (simp add: mod_0_imp_dvd)
  have u: "unat (ucast Lbo :: ULONG) = x"
    using Suc.prems(3) x by (simp add: unsigned_ucast_eq take_bit_eq_mod)
  have "Lbo = ucast (ucast Lbo :: ULONG)" using u Suc.prems(3) by (simp add: word_unat_eq_iff)
  then have m1: "marks k (FatAddDirtyFatMcb (ucast Lbo) Lbo (2 ^ k)) [sector_call k x]"
    using assms(1) u al by (intro marks_sector) simp_all
  have "unat (Lbo + ucast (2 ^ k :: ULONG)) = x + 2 ^ k"
    using Suc.prems by (subst unat_add_small) (simp_all add: p)
  then have m2: "marks k (FatMarkSectors_loop n (Lbo + ucast (2 ^ k :: ULONG)) (2 ^ k))
     (map (\<lambda>j. sector_call k (x + 2 ^ k + j * 2 ^ k)) [0..<n])"
    using Suc.prems by (intro Suc.IH) (simp_all add: algebra_simps)
  have l: "map (\<lambda>j. sector_call k (x + j * 2 ^ k)) [0..<Suc n] =
    [sector_call k x] @ map (\<lambda>j. sector_call k (x + 2 ^ k + j * 2 ^ k)) [0..<n]"
    by (subst upt_conv_Cons) (simp_all add: map_Suc_upt[symmetric] comp_def algebra_simps del: upt_Suc)
  show ?case unfolding l FatMarkSectors_loop.simps using marks_seq[OF m1 m2] .
qed

lemma sum_lt_pow32: "a \<le> b \<Longrightarrow> b < 2 ^ 31 \<Longrightarrow> c \<le> 2 ^ 30 \<Longrightarrow> a + c < (2::nat) ^ 32"
  by simp

definition run_calls :: "nat \<Rightarrow> nat \<Rightarrow> nat \<Rightarrow> mcb_call list" where
  "run_calls k x y = map (\<lambda>j. sector_call k (x div 2 ^ k * 2 ^ k + j * 2 ^ k)) [0..<Suc (y div 2 ^ k - x div 2 ^ k)]"

lemma FatMarkSectors_marks:
  assumes "k < 31" and "unat x \<le> unat y" and "unat y < 2 ^ 31"
  shows "marks k (FatMarkSectors (x AND NOT (2 ^ k - 1)) (y AND NOT (2 ^ k - 1)) (2 ^ k)) (run_calls k (unat x) (unat y))"
proof -
  let ?S = "x AND NOT (2 ^ k - 1)" and ?F = "y AND NOT (2 ^ k - 1)"
  have p: "unat (2 ^ k :: ULONG) = 2 ^ k" using assms(1) by (simp add: unat_pow2_32)
  have p30: "(2::nat) ^ k \<le> 2 ^ 30" using assms(1) by (intro power_increasing) simp_all
  have le: "unat x div 2 ^ k \<le> unat y div 2 ^ k" using assms(2) by (rule div_le_mono)
  have SF: "?S \<le> ?F" unfolding word_le_nat sector_start using le by (rule mult_le_mono1)
  have n: "unat ((?F - ?S) div 2 ^ k) = unat y div 2 ^ k - unat x div 2 ^ k"
    unfolding unat_div unat_sub_le[OF SF] sector_start p by (simp flip: diff_mult_distrib)
  have "unat x div 2 ^ k * 2 ^ k + Suc (unat y div 2 ^ k - unat x div 2 ^ k) * 2 ^ k
      = unat y div 2 ^ k * 2 ^ k + 2 ^ k"
    using le by (auto simp: le_iff_add algebra_simps)
  also have "\<dots> < 2 ^ 32" by (rule sum_lt_pow32[OF div_times_less_eq_dividend assms(3) p30])
  finally have lt: "unat x div 2 ^ k * 2 ^ k + Suc (unat y div 2 ^ k - unat x div 2 ^ k) * 2 ^ k < 2 ^ 32" .
  have "unat (ucast ?S :: LBO) = unat x div 2 ^ k * 2 ^ k" by (simp add: sector_start)
  from FatMarkSectors_loop_marks[OF assms(1) _ lt this] show ?thesis
    unfolding FatMarkSectors_def run_calls_def n using SF by simp
qed

lemma run_calls_cover:
  assumes "x \<le> y" "y < 2 ^ 31" "k < 31" "x div 2 ^ k \<le> a div 2 ^ k" "a div 2 ^ k \<le> y div 2 ^ k"
  shows "dirty_covers k (D @ run_calls k x y) a"
proof -
  let ?j = "a div 2 ^ k - x div 2 ^ k"
  have e: "x div 2 ^ k * 2 ^ k + ?j * 2 ^ k = a div 2 ^ k * 2 ^ k"
    using assms(4) by (simp flip: add_mult_distrib)
  have "sector_call k (x div 2 ^ k * 2 ^ k + ?j * 2 ^ k) \<in> set (run_calls k x y)"
    unfolding run_calls_def set_map by (rule imageI) (use assms(5) in \<open>simp add: diff_le_mono less_Suc_eq_le del: upt_Suc\<close>)
  moreover have "a div 2 ^ k * 2 ^ k \<le> y div 2 ^ k * 2 ^ k" using assms(5) by (rule mult_le_mono1)
  then have "a div 2 ^ k * 2 ^ k < 2 ^ 32"
    using sum_lt_pow32[OF order_trans[OF _ div_times_less_eq_dividend] assms(2), of _ "2 ^ k" 0] by simp
  ultimately show ?thesis
    unfolding e by (intro dirty_covers_sector_call[of "a div 2 ^ k * 2 ^ k"]) simp_all
qed

section \<open>The pages pinned\<close>

lemma FatPinPages_Inr:
  assumes "FatPinPages n x s = (Inr ps, t)" "unat x + n * 4096 < 2 ^ 32"
  shows "ps = map (\<lambda>j. unat x + j * 4096) [0..<n] \<and> t = s\<lparr>KernelResults := drop n (KernelResults s)\<rparr>"
  using assms
proof (induction n arbitrary: x s ps)
  case 0
  then show ?case by simp
next
  case (Suc n)
  obtain qs where q: "FatPinPages n (x + PAGE_SIZE) (s\<lparr>KernelResults := tl (KernelResults s)\<rparr>) = (Inr qs, t)"
    "ps = unat x # qs"
    using Suc.prems(1)
    by (auto simp: FatPrepareWriteVolumeFile_def seq_def KernelCall_eq split: sum.splits prod.splits)
  have "unat (x + PAGE_SIZE) = unat x + 4096" using Suc.prems(2) by (subst unat_add_small) simp_all
  then have "qs = map (\<lambda>j. unat x + 4096 + j * 4096) [0..<n] \<and>
      t = s\<lparr>KernelResults := drop n (tl (KernelResults s))\<rparr>"
    using Suc.IH[OF q(1)] Suc.prems(2) by simp
  moreover have "map (\<lambda>j. unat x + j * 4096) [0..<Suc n] = unat x # map (\<lambda>j. unat x + 4096 + j * 4096) [0..<n]"
    by (subst upt_conv_Cons) (simp_all add: map_Suc_upt[symmetric] comp_def algebra_simps del: upt_Suc)
  ultimately show ?case using q(2) by (simp add: drop_Suc)
qed

lemma FatPinPages_Inl:
  "FatPinPages n x s = (Inl e, t) \<Longrightarrow>
     Some e \<in> set (KernelResults s) \<and> (\<exists>K. t = s\<lparr>KernelResults := K\<rparr> \<and> set K \<subseteq> set (KernelResults s))"
proof (induction n arbitrary: x s)
  case 0
  then show ?case by simp
next
  case (Suc n)
  let ?s = "s\<lparr>KernelResults := tl (KernelResults s)\<rparr>"
  have "kres (KernelResults s) = Inl e \<and> t = ?s \<or> FatPinPages n (x + PAGE_SIZE) ?s = (Inl e, t)"
    using Suc.prems
    by (auto simp: FatPrepareWriteVolumeFile_def seq_def KernelCall_eq split: sum.splits prod.splits)
  then show ?case
  proof
    assume "kres (KernelResults s) = Inl e \<and> t = ?s"
    then show ?thesis using kres_Inl by (auto intro!: exI[of _ "tl (KernelResults s)"] dest: set_tl)
  next
    assume "FatPinPages n (x + PAGE_SIZE) ?s = (Inl e, t)"
    from Suc.IH[OF this] show ?thesis by (auto dest!: set_tl)
  qed
qed

section \<open>The stores through the page pointer\<close>

lemma for_loop_cong:
  "(\<And>k s. k < n \<Longrightarrow> f (i + of_nat k) s = g (i + of_nat k) s) \<Longrightarrow> for_loop n f i s = for_loop n g i s"
proof (induction n)
  case (Suc n)
  then show ?case by (simp only: for_loop_Suc_end lessI less_SucI)
qed simp

lemma nat_pred_diff: "a \<le> x \<Longrightarrow> 1 \<le> q \<Longrightarrow> x = q - 1 \<Longrightarrow> x - a + 1 = q - (a::nat)"
  by arith

lemma page_step:
  assumes "sz dvd 4096" "sz dvd p" "0 < sz" "sz \<le> p"
  shows "(p - sz) div 4096 = (if p mod 4096 = 0 then p div 4096 - 1 else p div (4096::nat))"
proof -
  obtain c where c: "4096 = sz * c" using assms(1) by (elim dvdE)
  obtain d where d: "p = sz * d" using assms(2) by (elim dvdE)
  have c0: "0 < c" using c by (cases c) auto
  have d0: "0 < d" using assms(3,4) d by (cases d) auto
  have ps: "p - sz = sz * (d - 1)" using d by (simp add: diff_mult_distrib2)
  have dv: "(p - sz) div 4096 = (d - 1) div c" "p div 4096 = d div c" "p mod 4096 = 0 \<longleftrightarrow> d mod c = 0"
    using assms(3) unfolding ps c unfolding d by (simp_all add: mod_mult_mult1)
  show ?thesis unfolding dv
    using d0 c0 by (metis Suc_diff_1 div_Suc diff_Suc_1)
qed

lemma FatStore_loop:
  assumes sz: "sz dvd 4096" "0 < sz" "sz dvd p0" and n: "n < 2 ^ 32"
    and pages: "\<And>j. j \<le> (p0 + sz * (n - 1)) div 4096 - p0 div 4096 \<Longrightarrow> ps ! j = (p0 div 4096 + j) * 4096"
  shows "for_loop n (FatStore_step put sz Chain start ps) start (m, 0, p0) =
    (for_loop n (\<lambda>i m. put m (p0 + sz * unat (i - start)) (if Chain then i + 1 else FAT_CLUSTER_AVAILABLE)) start m,
     if n = 0 then 0 else (p0 + sz * (n - 1)) div 4096 - p0 div 4096, p0 + sz * n)"
  using n pages
proof (induction n)
  case (Suc n)
  let ?p = "p0 + sz * n"
  let ?pg = "if n = 0 then 0 else (p0 + sz * (n - 1)) div 4096 - p0 div 4096"
  have mono: "(p0 + sz * (n - 1)) div 4096 \<le> ?p div 4096" by (intro div_le_mono add_left_mono mult_le_mono2) simp
  have IH: "for_loop n (FatStore_step put sz Chain start ps) start (m, 0, p0) =
    (for_loop n (\<lambda>i m. put m (p0 + sz * unat (i - start)) (if Chain then i + 1 else FAT_CLUSTER_AVAILABLE)) start m,
     ?pg, ?p)"
  proof (rule Suc.IH)
    fix j assume "j \<le> (p0 + sz * (n - 1)) div 4096 - p0 div 4096"
    then have "j \<le> ?p div 4096 - p0 div 4096" using mono by linarith
    then show "ps ! j = (p0 div 4096 + j) * 4096" using Suc.prems(2)[of j] by simp
  qed (use Suc.prems(1) in simp)
  have un: "unat (start + of_nat n - start) = n" using Suc.prems(1) by (simp add: unat_of_nat_small)
  have ne: "start + of_nat n \<noteq> start \<longleftrightarrow> n \<noteq> 0"
    using un by (cases "n = 0") auto
  have step: "(if ?p mod 4096 = 0 \<and> start + of_nat n \<noteq> start then (?pg + 1, ps ! (?pg + 1)) else (?pg, ?p))
      = (?p div 4096 - p0 div 4096, ?p)"
  proof (cases "n = 0")
    case True
    then show ?thesis by simp
  next
    case False
    have pm: "?p - sz = p0 + sz * (n - 1)" using False by (simp add: diff_mult_distrib2)
    have "sz * 1 \<le> sz * n" using False by (intro mult_le_mono2) simp
    then have pd: "sz dvd ?p" "sz \<le> ?p" using sz(3) by (simp, linarith)
    note ps = page_step[OF sz(1) pd(1) sz(2) pd(2), unfolded pm]
    have base: "p0 div 4096 \<le> (p0 + sz * (n - 1)) div 4096" by (intro div_le_mono) simp
    show ?thesis
    proof (cases "?p mod 4096 = 0")
      case True
      have "4096 \<le> ?p" using True pd(2) sz(2) by (auto simp: mod_eq_0_iff_dvd intro: dvd_imp_le)
      then have q: "1 \<le> ?p div 4096" by (simp add: Suc_le_eq div_greater_zero_iff)
      have pg: "?pg + 1 = ?p div 4096 - p0 div 4096"
        unfolding if_not_P[OF False] by (rule nat_pred_diff[OF base q ps[unfolded if_P[OF True]]])
      moreover have "ps ! (?p div 4096 - p0 div 4096) = (p0 div 4096 + (?p div 4096 - p0 div 4096)) * 4096"
        by (rule Suc.prems(2)) simp
      moreover have "p0 div 4096 \<le> ?p div 4096" by (intro div_le_mono) simp
      moreover have "?p div 4096 * 4096 = ?p" using div_mult_mod_eq[of ?p 4096] True by simp
      ultimately show ?thesis using True False ne by (simp del: unat_of_nat)
    next
      case f: False
      then show ?thesis using False ps by simp
    qed
  qed
  have body: "FatStore_step put sz Chain start ps (start + of_nat n) (M, ?pg, ?p) =
     (put M ?p (if Chain then start + of_nat n + 1 else FAT_CLUSTER_AVAILABLE), ?p div 4096 - p0 div 4096, ?p + sz)" for M
    unfolding FatStore_step_def Let_def prod.case step by simp
  show ?case unfolding for_loop_Suc_end IH body un by simp
qed simp

text \<open>The store loop with the entries written one by one.\<close>

definition run_stores :: "(mem \<Rightarrow> ULONG \<Rightarrow> ULONG \<Rightarrow> mem) \<Rightarrow> bool \<Rightarrow> bool \<Rightarrow> ULONG \<Rightarrow> nat \<Rightarrow> mem \<Rightarrow> mem" where
  "run_stores st Chain Last start n m =
     (let M = for_loop n (\<lambda>i m. st m i (if Chain then i + 1 else FAT_CLUSTER_AVAILABLE)) start m
      in if Last \<and> Chain then st M (start + of_nat (n - 1)) FAT_CLUSTER_LAST else M)"

lemma unat_add_of_nat_minus:
  "unat (start :: ULONG) + n < 2 ^ 32 \<Longrightarrow> unat (start + of_nat n - start) = n"
proof -
  assume "unat start + n < 2 ^ 32"
  then have "n < 2 ^ 32" by linarith
  then show ?thesis by (simp add: unat_of_nat_small)
qed

lemma FatStore_run_eq:
  assumes sz: "sz dvd 4096" "0 < sz" "sz dvd R" and n: "0 < n" "unat start + n < 2 ^ 32"
    and final: "final = start + of_nat (n - 1)"
    and pages: "\<And>j. j \<le> (R + sz * (unat start + n - 1)) div 4096 - (R + sz * unat start) div 4096 \<Longrightarrow>
        ps ! j = ((R + sz * unat start) div 4096 + j) * 4096"
    and put: "\<And>m i v. put m (R + sz * unat i) v = st m i v"
  shows "FatStore_run put sz Chain Last start final ps (R + sz * unat start) m = run_stores st Chain Last start n m"
proof -
  let ?p0 = "R + sz * unat start"
  let ?f = "\<lambda>i :: ULONG. if Chain then i + 1 else FAT_CLUSTER_AVAILABLE"
  have "unat final = unat start + (n - 1)" unfolding final using n by (intro unat_add_of_nat32) simp
  moreover have "unat (final - start) = n - 1"
    unfolding final using n by (intro unat_add_of_nat_minus) simp
  ultimately have count: "for_count start final = n"
    using n(1) by (simp add: for_count_def word_le_nat)
  have e: "?p0 + sz * (n - 1) = R + sz * (unat start + n - 1)"
    using n(1) by (cases n) (simp_all add: algebra_simps)
  have loop: "for_loop n (FatStore_step put sz Chain start ps) start (m, 0, ?p0) =
    (for_loop n (\<lambda>i m. put m (?p0 + sz * unat (i - start)) (?f i)) start m,
     if n = 0 then 0 else (?p0 + sz * (n - 1)) div 4096 - ?p0 div 4096, ?p0 + sz * n)"
    by (rule FatStore_loop[OF sz(1,2) _ _ pages[folded e]]) (use sz n in simp_all)
  have "for_loop n (\<lambda>i m. put m (?p0 + sz * unat (i - start)) (?f i)) start m
      = for_loop n (\<lambda>i m. st m i (?f i)) start m"
  proof (rule for_loop_cong)
    fix k and m :: mem assume k: "k < n"
    have "?p0 + sz * unat (start + of_nat k - start) = R + sz * unat (start + of_nat k)"
      using k n(2) unat_add_of_nat_minus[of start k] unat_add_of_nat32[of start k] by (simp add: algebra_simps)
    then show "put m (?p0 + sz * unat (start + of_nat k - start)) (?f (start + of_nat k)) =
      st m (start + of_nat k) (?f (start + of_nat k))" by (simp only: put)
  qed
  moreover have "?p0 + sz * n - sz = R + sz * unat (start + of_nat (n - 1))"
  proof -
    have "?p0 + sz * n = R + sz * (unat start + (n - 1)) + sz" using n(1) by (cases n) (simp_all add: algebra_simps)
    then show ?thesis using n unat_add_of_nat32[of start "n - 1"] by simp
  qed
  ultimately show ?thesis
    unfolding FatStore_run_def count loop run_stores_def Let_def prod.case by (simp only: put)
qed

section \<open>What a run of stores leaves in the FAT\<close>

definition run_value :: "bool \<Rightarrow> bool \<Rightarrow> nat \<Rightarrow> ULONG \<Rightarrow> ULONG" where
  "run_value Chain Last final j =
     (if \<not> Chain then FAT_CLUSTER_AVAILABLE
      else if Last \<and> unat j = final then FAT_CLUSTER_LAST else j + 1)"

context fat_codec
begin

lemma get_run_stores:
  assumes "lim \<le> 2 ^ 32" "0 < n" "unat start + n \<le> lim" "unat j < lim"
    and ok: "\<And>k. k < n \<Longrightarrow> Chain \<Longrightarrow> (start + of_nat k + 1) AND NOT vmask = 0" "FAT_CLUSTER_LAST AND NOT vmask = 0"
  shows "get (run_stores set Chain Last start n m) j =
    (if unat start \<le> unat j \<and> unat j < unat start + n
     then take_bit vw (run_value Chain Last (unat start + n - 1) j) else get m j)"
proof -
  let ?f = "\<lambda>i :: ULONG. if Chain then i + 1 else FAT_CLUSTER_AVAILABLE"
  let ?l = "start + of_nat (n - 1)"
  have fok: "\<And>k. k < n \<Longrightarrow> ?f (start + of_nat k) AND NOT vmask = 0" using ok by simp
  note run = get_run[where f = ?f, OF assms(3,1,4) fok, of m]
  have l: "unat ?l = unat start + n - 1" using assms by (subst run_step) simp_all
  have gs: "get (set M ?l FAT_CLUSTER_LAST) j = (if ?l = j then take_bit vw FAT_CLUSTER_LAST else get M j)" for M
    using l assms ok(2) by (intro get_set) simp_all
  have "?l = j \<longleftrightarrow> unat j = unat start + n - 1" using l by (auto simp: word_unat_eq_iff)
  then show ?thesis
    unfolding run_stores_def Let_def using run gs assms(2) by (auto simp: run_value_def)
qed

lemma run_stores_frame:
  assumes "lim \<le> 2 ^ 32" "0 < n" "unat start + n \<le> lim"
    and ok: "\<And>k. k < n \<Longrightarrow> Chain \<Longrightarrow> (start + of_nat k + 1) AND NOT vmask = 0" "FAT_CLUSTER_LAST AND NOT vmask = 0"
    and a: "a < R \<or> 8 * (a - R) + 8 \<le> w * unat start \<or> w * (unat start + n) \<le> 8 * (a - R)"
  shows "run_stores set Chain Last start n m a = m a"
proof -
  let ?f = "\<lambda>i :: ULONG. if Chain then i + 1 else FAT_CLUSTER_AVAILABLE"
  let ?l = "start + of_nat (n - 1)"
  have fok: "\<And>k. k < n \<Longrightarrow> ?f (start + of_nat k) AND NOT vmask = 0" using ok by simp
  note run = run_frame[where f = ?f, OF assms(3,1) fok a, of m]
  have l: "unat ?l = unat start + (n - 1)" using assms by (subst run_step) simp_all
  have "w * unat ?l + w = w * (unat start + n)"
    unfolding l using assms(2) by (cases n) (simp_all add: algebra_simps)
  moreover have "w * unat start \<le> w * unat ?l" unfolding l by (intro mult_le_mono2) simp
  ultimately have "a < R \<or> 8 * (a - R) + 8 \<le> w * unat ?l \<or> w * unat ?l + w \<le> 8 * (a - R)"
    using a by linarith
  then have "set M ?l FAT_CLUSTER_LAST a = M a" for M
    using l assms ok(2) by (intro set_frame) simp_all
  then show ?thesis unfolding run_stores_def Let_def using run by (cases Chain) simp_all
qed

end

section \<open>The outcome of a run\<close>

lemma small_and_NOT_mask:
  assumes "unat (x :: ULONG) < 2 ^ n"
  shows "x AND NOT (mask n) = 0"
proof -
  have d: "drop_bit n x = 0" using assms by (simp only: word_unat_eq_iff unat_drop_bit_div) simp
  have "bit x k \<Longrightarrow> k < n" for k
  proof (rule ccontr)
    assume k: "bit x k" "\<not> k < n"
    have "\<not> bit (drop_bit n x) (k - n)" unfolding d by simp
    with k show False by (simp add: bit_simps)
  qed
  then show ?thesis by (intro bit_word_eqI) (auto simp: bit_simps)
qed

text \<open>
  What the run does to the memory of the volume file: the entries of the run get their
  links (or are freed), and no other entry and no byte outside the run changes.
\<close>

definition run_effect :: "UCHAR \<Rightarrow> nat \<Rightarrow> nat \<Rightarrow> bool \<Rightarrow> bool \<Rightarrow> nat \<Rightarrow> nat \<Rightarrow> mem \<Rightarrow> mem \<Rightarrow> bool" where
  "run_effect b R N Chain Last start n m M \<longleftrightarrow>
     (\<forall>j. unat j \<le> N + 1 \<longrightarrow> fat_get b R M j =
        (if start \<le> unat j \<and> unat j < start + n
         then take_bit (fat_vwidth b) (run_value Chain Last (start + n - 1) j) else fat_get b R m j))
   \<and> (\<forall>a. a < R \<or> 8 * (a - R) + 8 \<le> fat_width b * start \<or> fat_width b * (start + n) \<le> 8 * (a - R)
        \<longrightarrow> M a = m a)"


lemma unat_link:
  assumes "unat (start :: ULONG) + n < 2 ^ 32" "k < n"
  shows "unat (start + of_nat k + 1) = unat start + k + 1"
proof -
  have "start + of_nat k + 1 = start + of_nat (k + 1)" by simp
  then show ?thesis using assms by (simp only:) (subst unat_add_of_nat32, simp_all)
qed

lemma run_effect_12:
  assumes "0 < n" "unat start + n \<le> N + 2" "N < 4087"
  shows "run_effect 12 R N Chain True (unat start) n m
    (FatSet12BitEntry (for_loop (n - 1) (\<lambda>i m. FatSet12BitEntry m R i (if Chain then i + 1 else FAT_CLUSTER_AVAILABLE)) start m)
       R (start + of_nat (n - 1)) (if Chain then FAT_CLUSTER_LAST AND 0xfff else FAT_CLUSTER_AVAILABLE))"
proof -
  let ?f = "\<lambda>i :: ULONG. if Chain then i + 1 else FAT_CLUSTER_AVAILABLE"
  let ?v = "if Chain then FAT_CLUSTER_LAST AND 0xfff else FAT_CLUSTER_AVAILABLE"
  let ?l = "start + of_nat (n - 1)"
  let ?M = "for_loop (n - 1) (\<lambda>i m. FatSet12BitEntry m R i (?f i)) start m"
  have lim: "unat start + (n - 1) \<le> 1431655765" using assms by simp
  have l: "unat ?l = unat start + (n - 1)" using assms by (intro unat_add_of_nat32) simp
  have fok: "\<And>k. k < n - 1 \<Longrightarrow> ?f (start + of_nat k) AND NOT 0xfff = 0"
  proof -
    fix k assume "k < n - 1"
    then have "unat (start + of_nat k + 1) < 2 ^ 12" using assms by (subst unat_link[of start "n - 1"]) simp_all
    then show "?f (start + of_nat k) AND NOT 0xfff = 0"
      unfolding fff_mask using small_and_NOT_mask[of "start + of_nat k + 1" 12] by simp
  qed
  have vok: "?v AND NOT 0xfff = 0" using and_fff_NOT[of FAT_CLUSTER_LAST] by simp
  have lok: "unat ?l < 1431655765" using l assms by simp
  have tl: "take_bit 12 (FAT_CLUSTER_LAST AND 0xfff) = take_bit 12 FAT_CLUSTER_LAST"
    unfolding fff_mask take_bit_eq_mask by (simp add: ac_simps)
  have eq: "?l = j \<longleftrightarrow> unat j = unat start + n - 1" for j using l assms(1) by (auto simp: word_unat_eq_iff)
  have "FatLookup12BitEntry (FatSet12BitEntry ?M R ?l ?v) R j 0 =
    (if unat start \<le> unat j \<and> unat j < unat start + n
     then take_bit 12 (run_value Chain True (unat start + n - 1) j) else FatLookup12BitEntry m R j 0)"
    if j: "unat j \<le> N + 1" for j
  proof -
    have jl: "unat j < 1431655765" using j assms(3) by simp
    have g2: "FatLookup12BitEntry ?M R j 0 =
        (if unat start \<le> unat j \<and> unat j < unat start + (n - 1) then take_bit 12 (?f j)
         else FatLookup12BitEntry m R j 0)"
      using c12.get_run[where f = ?f, OF lim _ jl fok] by simp
    consider "unat j = unat start + n - 1" | "unat start \<le> unat j" "unat j < unat start + (n - 1)"
      | "\<not> (unat start \<le> unat j \<and> unat j < unat start + n)" by linarith
    then show ?thesis
    proof cases
      case 1
      then have "?l = j" by (simp only: eq)
      moreover have "take_bit 12 ?v = take_bit 12 (run_value Chain True (unat start + n - 1) j)"
        using tl 1 by (simp add: run_value_def)
      moreover have "unat start \<le> unat j \<and> unat j < unat start + n" using 1 assms(1) by linarith
      ultimately show ?thesis unfolding c12.get_set[OF lok vok jl] by (simp only: if_True simp_thms)
    next
      case 2
      then have "?l \<noteq> j" unfolding eq by linarith
      moreover have "run_value Chain True (unat start + n - 1) j = ?f j"
        using 2 by (auto simp: run_value_def)
      moreover have "unat start \<le> unat j \<and> unat j < unat start + n" using 2 by linarith
      ultimately show ?thesis unfolding c12.get_set[OF lok vok jl] g2
        using 2 by (simp only: if_True if_False simp_thms)
    next
      case 3
      then have "?l \<noteq> j" "\<not> (unat start \<le> unat j \<and> unat j < unat start + (n - 1))"
        unfolding eq using assms(1) by linarith+
      then show ?thesis unfolding c12.get_set[OF lok vok jl] g2
        using 3 by (simp only: if_False simp_thms)
    qed
  qed
  moreover have "FatSet12BitEntry ?M R ?l ?v a = m a"
    if a: "a < R \<or> 8 * (a - R) + 8 \<le> 12 * unat start \<or> 12 * (unat start + n) \<le> 8 * (a - R)" for a
  proof -
    have "a < R \<or> 8 * (a - R) + 8 \<le> 12 * unat ?l \<or> 12 * unat ?l + 12 \<le> 8 * (a - R)"
      using a l assms(1) by auto
    note c12.set_frame[OF lok vok this, of ?M]
    moreover have "a < R \<or> 8 * (a - R) + 8 \<le> 12 * unat start \<or> 12 * (unat start + (n - 1)) \<le> 8 * (a - R)"
      using a by auto
    note c12.run_frame[where f = ?f, OF lim _ fok this, of m]
    ultimately show ?thesis by simp
  qed
  ultimately show ?thesis
    unfolding run_effect_def by (simp add: fat_get_def fat_vwidth_def fat_width_def)
qed

lemma run_effect_16:
  assumes "0 < n" "unat start + n \<le> N + 2" "N + 2 < 2 ^ 31"
  shows "run_effect 16 R N Chain Last (unat start) n m (run_stores (fat_set16 R) Chain Last start n m)"
proof -
  have lim: "unat start + n \<le> 2 ^ 32" using assms by simp
  show ?thesis
    unfolding run_effect_def
    using c16.get_run_stores[where Chain = Chain and Last = Last and m = m and R = R, OF _ assms(1) lim] assms
      c16.run_stores_frame[where Chain = Chain and Last = Last and m = m and R = R, OF _ assms(1) lim]
    by (simp add: fat_get_def fat_vwidth_def fat_width_def)
qed

lemma run_effect_32:
  assumes "0 < n" "unat start + n \<le> N + 2" "N + 2 < 2 ^ 31"
  shows "run_effect 32 R N Chain Last (unat start) n m (run_stores (fat_set32_raw R) Chain Last start n m)"
proof -
  have lim: "unat start + n \<le> 2 ^ 32" using assms by simp
  have "v AND FAT32_ENTRY_MASK = take_bit 28 v" for v :: ULONG
    unfolding fat32_mask take_bit_eq_mask ..
  then show ?thesis
    unfolding run_effect_def
    using c32raw.get_run_stores[where Chain = Chain and Last = Last and m = m and R = R, OF _ assms(1) lim] assms
      c32raw.run_stores_frame[where Chain = Chain and Last = Last and m = m and R = R, OF _ assms(1) lim]
    by (simp add: fat_get_def fat_vwidth_def fat_width_def fat_get32_def)
qed

text \<open>
  The state after: the volume file \<open>M\<close> when the run succeeds and as it was when it raises,
  with every changed byte marked dirty.
\<close>

definition run_outcome :: "VCB \<Rightarrow> (mem \<Rightarrow> bool) \<Rightarrow> ntstatus + unit \<Rightarrow> VCB \<Rightarrow> bool" where
  "run_outcome s P r t \<longleftrightarrow>
     (\<exists>M D K. t = s\<lparr>VolumeFile := M, DirtyFatMcb := DirtyFatMcb s @ D, KernelResults := K\<rparr>
       \<and> (r = Inr () \<longrightarrow> P M) \<and> (r \<noteq> Inr () \<longrightarrow> M = VolumeFile s)
       \<and> (\<forall>a. M a \<noteq> VolumeFile s a \<longrightarrow> dirty_covers (MCB_SCALE_LOG2 s) (DirtyFatMcb s @ D) a)
       \<and> set K \<subseteq> set (KernelResults s) \<and> (\<forall>e. r = Inl e \<longrightarrow> Some e \<in> set (KernelResults s)))"

text \<open>Pinning changes nothing but the outcomes left to the kernel, and gives pointers that do not depend on them.\<close>

definition pins :: "(VCB, 'a) fat_op \<Rightarrow> 'a \<Rightarrow> VCB \<Rightarrow> bool" where
  "pins P x s \<longleftrightarrow> (\<forall>r t. P s = (r, t) \<longrightarrow>
     (\<exists>K. t = s\<lparr>KernelResults := K\<rparr> \<and> set K \<subseteq> set (KernelResults s)) \<and>
     (\<forall>e. r = Inl e \<longrightarrow> Some e \<in> set (KernelResults s)) \<and> (\<forall>y. r = Inr y \<longrightarrow> y = x))"

lemma pinsD:
  assumes "pins P x s" "P s = (r, t)"
  shows "\<exists>K. t = s\<lparr>KernelResults := K\<rparr> \<and> set K \<subseteq> set (KernelResults s)"
    and "r = Inl e \<Longrightarrow> Some e \<in> set (KernelResults s)" and "r = Inr y \<Longrightarrow> y = x"
proof -
  have "(\<exists>K. t = s\<lparr>KernelResults := K\<rparr> \<and> set K \<subseteq> set (KernelResults s)) \<and>
     (\<forall>e. r = Inl e \<longrightarrow> Some e \<in> set (KernelResults s)) \<and> (\<forall>y. r = Inr y \<longrightarrow> y = x)"
    using assms(1)[unfolded pins_def, THEN spec, THEN spec, THEN mp, OF assms(2)] .
  then show "\<exists>K. t = s\<lparr>KernelResults := K\<rparr> \<and> set K \<subseteq> set (KernelResults s)"
    "r = Inl e \<Longrightarrow> Some e \<in> set (KernelResults s)" "r = Inr y \<Longrightarrow> y = x" by simp_all
qed

lemma pins_prepare: "pins (FatPrepareWriteVolumeFile V n reversible False) (unat V) s"
  unfolding pins_def
  by (auto simp: FatPrepareWriteVolumeFile_def seq_def KernelCall_eq kres_Inl split: sum.splits
      intro!: exI[of _ "tl (KernelResults s)"] dest: set_tl)

lemma pins_pages:
  assumes "unat x + n * 4096 < 2 ^ 32"
  shows "pins (FatPinPages n x) (map (\<lambda>j. unat x + j * 4096) [0..<n]) s"
  unfolding pins_def
proof (intro allI impI)
  fix r t assume run: "FatPinPages n x s = (r, t)"
  show "(\<exists>K. t = s\<lparr>KernelResults := K\<rparr> \<and> set K \<subseteq> set (KernelResults s)) \<and>
     (\<forall>e. r = Inl e \<longrightarrow> Some e \<in> set (KernelResults s)) \<and>
     (\<forall>y. r = Inr y \<longrightarrow> y = map (\<lambda>j. unat x + j * 4096) [0..<n])"
  proof (cases r)
    case (Inl e)
    then show ?thesis using FatPinPages_Inl[of n x s e t] run by auto
  next
    case (Inr ps)
    then show ?thesis using FatPinPages_Inr[OF run[unfolded Inr] assms] by (auto dest: in_set_dropD)
  qed
qed

lemma pin_mark_store_outcome:
  assumes "pins P x s" "marks (MCB_SCALE_LOG2 s) Mk calls"
    and eff: "Q (g x (VolumeFile s))"
    and cov: "\<And>a. g x (VolumeFile s) a \<noteq> VolumeFile s a \<Longrightarrow> dirty_covers (MCB_SCALE_LOG2 s) (DirtyFatMcb s @ calls) a"
    and run: "seq P (\<lambda>ps. seq Mk (\<lambda>_. modify (\<lambda>s. s\<lparr>VolumeFile := g ps (VolumeFile s)\<rparr>))) s = (r, t)"
  shows "run_outcome s Q r t"
proof -
  obtain r1 s1 where p: "P s = (r1, s1)" by force
  obtain K1 where s1: "s1 = s\<lparr>KernelResults := K1\<rparr>" "set K1 \<subseteq> set (KernelResults s)"
    and e1: "\<And>e. r1 = Inl e \<Longrightarrow> Some e \<in> set (KernelResults s)" "\<And>y. r1 = Inr y \<Longrightarrow> y = x"
    using pinsD[OF assms(1) p] by metis
  show ?thesis
  proof (cases r1)
    case (Inl e)
    then have "r = Inl e" "t = s1" using run p by (simp_all add: seq_def)
    then show ?thesis unfolding run_outcome_def using s1 e1(1) Inl
      by (intro exI[of _ "VolumeFile s"] exI[of _ "[]"] exI[of _ K1]) (auto intro!: VCB.equality)
  next
    case (Inr y)
    obtain r2 s2 where m: "Mk s1 = (r2, s2)" by force
    have k: "MCB_SCALE_LOG2 s1 = MCB_SCALE_LOG2 s" using s1 by (simp add: MCB_SCALE_LOG2_def)
    obtain D K where s2: "s2 = s1\<lparr>KernelResults := K, DirtyFatMcb := DirtyFatMcb s1 @ D\<rparr>"
      and d: "r2 = Inr () \<Longrightarrow> D = calls" "set K \<subseteq> set (KernelResults s1)"
      "\<And>e. r2 = Inl e \<Longrightarrow> Some e \<in> set (KernelResults s1)"
      by (rule marksD[OF assms(2) k m]) blast
    let ?M = "if r2 = Inr () then g x (VolumeFile s) else VolumeFile s"
    have r: "r = r2" "t = s2\<lparr>VolumeFile := ?M\<rparr>"
      using run p Inr e1(2) m s1 s2 unit_sum_cases[of r2] by (auto simp: seq_def intro!: VCB.equality)
    show ?thesis unfolding run_outcome_def
    proof (intro exI[of _ ?M] exI[of _ D] exI[of _ K] conjI allI impI)
      fix a assume "?M a \<noteq> VolumeFile s a"
      then show "dirty_covers (MCB_SCALE_LOG2 s) (DirtyFatMcb s @ D) a"
        using cov d(1) by (auto split: if_splits)
    qed (use r s1 s2 d eff in \<open>auto\<close>)
  qed
qed

section \<open>The branches of FatSetFatRun\<close>

lemma paged_run_outcome:
  assumes ok: "vcb_ok s" and sz: "sz = 2 \<or> sz = 4" and b: "fat_width b = 8 * sz" and k: "k = MCB_SCALE_LOG2 s"
    and R: "R = vcb_R s" and n: "0 < n" and x: "unat x = R + sz * unat start"
    and y: "unat y = R + sz * (unat start + n - 1)" and y31: "unat y + sz < 2 ^ 31"
    and final: "final = start + of_nat (n - 1)"
    and put: "\<And>m i v. put m (R + sz * unat i) v = st m i v"
    and eff: "run_effect b R N Chain Last (unat start) n (VolumeFile s) (run_stores st Chain Last start n (VolumeFile s))"
    and run: "seq (FatPinPages (unat (y div PAGE_SIZE - x div PAGE_SIZE + 1)) (x AND NOT (PAGE_SIZE - 1))) (\<lambda>ps.
         seq (FatMarkSectors (x AND NOT (2 ^ k - 1)) (y AND NOT (2 ^ k - 1)) (2 ^ k)) (\<lambda>_.
         modify (\<lambda>s. s\<lparr>VolumeFile := FatStore_run put sz Chain Last start final ps
                  (ps ! 0 + unat (x mod PAGE_SIZE)) (VolumeFile s)\<rparr>))) s = (r, t)"
  shows "run_outcome s (run_effect b R N Chain Last (unat start) n (VolumeFile s)) r t"
proof -
  have xy: "unat x \<le> unat y" unfolding x y using n by (intro add_left_mono mult_le_mono2) simp
  then have pxy: "unat x div 4096 \<le> unat y div 4096" by (rule div_le_mono)
  have ps31: "unat y < 2 ^ 31" using y31 by simp
  let ?np = "unat y div 4096 - unat x div 4096 + 1"
  have np: "unat (y div PAGE_SIZE - x div PAGE_SIZE + 1) = ?np"
  proof -
    have "x div PAGE_SIZE \<le> y div PAGE_SIZE" using pxy by (simp add: word_le_nat unat_div)
    then have "unat (y div PAGE_SIZE - x div PAGE_SIZE) = unat y div 4096 - unat x div 4096"
      by (simp add: unat_sub_le unat_div)
    then show ?thesis using ps31 by (subst unat_add_small) simp_all
  qed
  let ?base = "unat x div 4096 * 4096"
  have base: "unat (x AND NOT (PAGE_SIZE - 1)) = ?base" by (rule unat_page_of)
  have "?base + ?np * 4096 = unat y div 4096 * 4096 + 4096" using pxy by (auto simp: le_iff_add algebra_simps)
  also have "\<dots> < 2 ^ 32" by (rule sum_lt_pow32[OF div_times_less_eq_dividend ps31]) simp
  finally have lt: "?base + ?np * 4096 < 2 ^ 32" .
  let ?ps = "map (\<lambda>j. ?base + j * 4096) [0..<?np]"
  have P: "pins (FatPinPages ?np (x AND NOT (PAGE_SIZE - 1))) ?ps s"
    using pins_pages[of "x AND NOT (PAGE_SIZE - 1)" ?np s] lt unfolding base by simp
  have k31: "k < 31" using ok k by (simp add: vcb_ok_def fat_fits_def MCB_SCALE_LOG2_def)
  have M: "marks (MCB_SCALE_LOG2 s) (FatMarkSectors (x AND NOT (2 ^ k - 1)) (y AND NOT (2 ^ k - 1)) (2 ^ k))
      (run_calls k (unat x) (unat y))"
    unfolding k[symmetric] by (rule FatMarkSectors_marks[OF k31 xy ps31])
  have p0: "?ps ! 0 + unat (x mod PAGE_SIZE) = R + sz * unat start"
    unfolding x[symmetric] by (simp add: unat_mod del: upt_Suc)
  have R128: "128 dvd R" using reserved_even[OF ok] R by simp
  have szd: "sz dvd R" using sz R128 by (auto intro: dvd_trans[of _ 128])
  have st: "FatStore_run put sz Chain Last start final ?ps (R + sz * unat start) m = run_stores st Chain Last start n m" for m
  proof (rule FatStore_run_eq[where put = put and st = st, OF _ _ szd n _ final _ put])
    have "unat start + (n - 1) \<le> sz * (unat start + n - 1)" using sz n by auto
    also have "\<dots> \<le> unat y" unfolding y by simp
    finally show "unat start + n < 2 ^ 32" using ps31 by simp
    fix j assume "j \<le> (R + sz * (unat start + n - 1)) div 4096 - (R + sz * unat start) div 4096"
    then have "j < ?np" unfolding x[symmetric] y[symmetric] by simp
    then show "?ps ! j = ((R + sz * unat start) div 4096 + j) * 4096"
      unfolding x[symmetric] by (simp del: upt_Suc add: algebra_simps)
  qed (use sz in auto)
  let ?g = "\<lambda>ps m. FatStore_run put sz Chain Last start final ps (ps ! 0 + unat (x mod PAGE_SIZE)) m"
  have g: "?g ?ps m = run_stores st Chain Last start n m" for m using st p0 by simp
  show ?thesis
  proof (rule pin_mark_store_outcome[OF P M, where g = ?g])
    show "run_effect b R N Chain Last (unat start) n (VolumeFile s) (?g ?ps (VolumeFile s))"
      unfolding g by (rule eff)
    show "seq (FatPinPages ?np (x AND NOT (PAGE_SIZE - 1))) (\<lambda>ps.
         seq (FatMarkSectors (x AND NOT (2 ^ k - 1)) (y AND NOT (2 ^ k - 1)) (2 ^ k)) (\<lambda>_.
         modify (\<lambda>s. s\<lparr>VolumeFile := ?g ps (VolumeFile s)\<rparr>))) s = (r, t)"
      using run unfolding np .
    fix a assume a: "?g ?ps (VolumeFile s) a \<noteq> VolumeFile s a"
    have "\<not> (a < R \<or> 8 * (a - R) + 8 \<le> fat_width b * unat start \<or> fat_width b * (unat start + n) \<le> 8 * (a - R))"
      using a eff unfolding g run_effect_def by blast
    then have ar: "R \<le> a" "\<not> (a - R) + 1 \<le> sz * unat start" "\<not> sz * (unat start + n) \<le> a - R"
      unfolding b by auto
    have ye: "unat y + sz = R + sz * (unat start + n)" unfolding y using n by (cases n) (simp_all add: algebra_simps)
    have lo: "unat x \<le> a" unfolding x using ar by simp
    have hi: "a < unat y + sz" unfolding ye using ar by simp
    have "a div 2 ^ k \<le> unat y div 2 ^ k"
    proof -
      have k7: "7 \<le> k" using vcb_scale(1)[OF ok] k by simp
      have d: "sz dvd unat y" unfolding y using szd by simp
      have "a \<le> unat y + (sz - 1)" using hi sz by auto
      then have "a div 2 ^ k \<le> (unat y + (sz - 1)) div 2 ^ k" by (rule div_le_mono)
      also have "\<dots> = unat y div 2 ^ k"
        using sz
      proof
        assume "sz = 2"
        then show ?thesis using d k7 by (intro same_sector[of 1]) simp_all
      next
        assume "sz = 4"
        then show ?thesis using d k7 by (intro same_sector[of 2]) simp_all
      qed
      finally show ?thesis .
    qed
    then show "dirty_covers (MCB_SCALE_LOG2 s) (DirtyFatMcb s @ run_calls k (unat x) (unat y)) a"
      unfolding k[symmetric] using xy ps31 k31 lo by (intro run_calls_cover) (simp_all add: div_le_mono)
  qed
qed

lemma bytes_12_bounds:
  assumes "\<not> (a < R \<or> 8 * (a - R) + 8 \<le> 12 * u \<or> 12 * (u + n) \<le> 8 * (a - R))"
  shows "R + 3 * u div 2 \<le> a \<and> a \<le> R + (3 * (u + n) + 2) div (2::nat)"
proof -
  obtain d where d: "a = R + d" using assms by (auto simp: not_less le_iff_add)
  have "3 * u < (d + 1) * 2" "d * 2 < 3 * (u + n) + 2" using assms by (auto simp: d)
  then have "3 * u div 2 < d + 1" by (intro less_mult_imp_div_less)
  moreover have "d \<le> (3 * (u + n) + 2) div 2"
    using \<open>d * 2 < 3 * (u + n) + 2\<close> by (simp add: less_eq_div_iff_mult_less_eq)
  ultimately show ?thesis by (simp add: d)
qed

lemma run_offset: "0 < c \<Longrightarrow> R + sz * u + sz * (c - 1) = R + sz * (u + c - (1::nat))"
  by (cases c) (simp_all add: add_mult_distrib2)

lemma run_bounds:
  assumes "vcb_ok s" "unat (start :: ULONG) + unat (cnt :: ULONG) \<le> vcb_N s + 2" "cnt \<noteq> 0"
  shows "unat (start + cnt) = unat start + unat cnt" "unat (start + cnt - 1) = unat start + unat cnt - 1"
    "start + cnt - 1 = start + of_nat (unat cnt - 1)" "0 < unat cnt" "unat (cnt - 1) = unat cnt - 1"
proof -
  have N: "vcb_N s + 2 < 2 ^ 32" using vcb_N_bounds(1)[OF assms(1)] by simp
  show c: "0 < unat cnt" using assms(3) by (simp add: unat_gt_0)
  show u: "unat (start + cnt) = unat start + unat cnt" using assms(2) N by (subst unat_add_small) simp_all
  have "(1::ULONG) \<le> start + cnt" "(1::ULONG) \<le> cnt" using c u by (simp_all add: word_le_nat)
  then show "unat (start + cnt - 1) = unat start + unat cnt - 1" and c1: "unat (cnt - 1) = unat cnt - 1"
    using u by (simp_all add: unat_sub_le)
  have "cnt - 1 = of_nat (unat (cnt - 1))" by simp
  then have "cnt - 1 = of_nat (unat cnt - 1)" unfolding c1 .
  then show "start + cnt - 1 = start + of_nat (unat cnt - 1)" by (metis add_diff_eq)
qed

lemma FatSetFatRun_16_outcome:
  assumes ok: "vcb_ok s" and b: "vcb_bits s = 16" and k: "k = MCB_SCALE_LOG2 s"
    and c: "cnt \<noteq> 0" "unat start + unat cnt \<le> vcb_N s + 2"
    and run: "FatSetFatRun_16 (2 ^ k) start cnt Chain s = (r, t)"
  shows "run_outcome s (run_effect 16 (vcb_R s) (vcb_N s) Chain True (unat start) (unat cnt) (VolumeFile s)) r t"
proof -
  note rb = run_bounds[OF ok c(2,1)]
  let ?x = "FatReservedBytes (Bpb s) + start * 2"
  let ?y = "?x + (cnt - 1) * 2"
  have st: "unat start \<le> vcb_N s + 1" using rb(4) c(2) by simp
  have x: "unat ?x = vcb_R s + 2 * unat start" by (rule unat_entry_offset(2)[OF ok st b])
  have fit: "16 * (vcb_N s + 2) \<le> 8 * unat (FatBytesPerFat (Bpb s))"
    "vcb_R s + unat (FatBytesPerFat (Bpb s)) < 2 ^ 30"
    using ok b by (simp_all add: vcb_ok_def fat_fits_def)
  have m: "unat ((cnt - 1) * 2) = 2 * (unat cnt - 1)"
    using rb(5) c(2) fit by (subst unat_mult_small) (simp_all add: mult.commute)
  have y: "unat ?y = vcb_R s + 2 * (unat start + unat cnt - 1)"
  proof -
    have e: "unat ?x + unat ((cnt - 1) * 2) = vcb_R s + 2 * (unat start + unat cnt - 1)"
      unfolding x m using rb(4) by (rule run_offset)
    have "unat ?x + unat ((cnt - 1) * 2) < 2 ^ LENGTH(32)"
      unfolding e using rb(4) c(2) fit by simp
    then show ?thesis by (subst unat_add_small) (simp_all only: e)
  qed
  have y31: "unat ?y + 2 < 2 ^ 31" unfolding y using rb(4) c(2) fit by simp
  have N31: "vcb_N s + 2 < 2 ^ 31" using fit by simp
  show ?thesis
  proof (rule paged_run_outcome[OF ok _ _ k refl rb(4) x y y31 rb(3) _ run_effect_16[OF rb(4) c(2) N31]])
    show "\<And>m i v. put16 m (vcb_R s + 2 * unat i) (ucast v) = fat_set16 (vcb_R s) m i v"
      by (simp add: fat_set16_def)
    show "fat_width 16 = 8 * 2" by (simp add: fat_width_def)
  qed (simp, rule run[unfolded FatSetFatRun_16_def Let_def])
qed

lemma FatSetFatRun_32_chunk_outcome:
  assumes ok: "vcb_ok s" and b: "vcb_bits s = 32" and k: "k = MCB_SCALE_LOG2 s"
    and c: "cnt \<noteq> 0" "unat start + unat cnt \<le> vcb_N s + 2" "this_run = (if cnt > MAXCOUNTCLUS then MAXCOUNTCLUS else cnt)"
    and run: "FatSetFatRun_32_chunk (2 ^ k) start cnt Chain s = (r, t)"
  shows "run_outcome s (run_effect 32 (vcb_R s) (vcb_N s) Chain (cnt \<le> MAXCOUNTCLUS) (unat start) (unat this_run) (VolumeFile s)) r t"
proof -
  have c': "this_run \<noteq> 0" "unat start + unat this_run \<le> vcb_N s + 2"
    using c by (auto simp: word_less_nat split: if_splits)
  note rb = run_bounds[OF ok c'(2,1)]
  let ?x = "FatReservedBytes (Bpb s) + start * 4"
  let ?y = "?x + (this_run - 1) * 4"
  have st: "unat start \<le> vcb_N s + 1" using rb(4) c'(2) by simp
  have x: "unat ?x = vcb_R s + 4 * unat start" by (rule unat_entry_offset(3)[OF ok st b])
  have fit: "32 * (vcb_N s + 2) \<le> 8 * unat (FatBytesPerFat (Bpb s))"
    "vcb_R s + unat (FatBytesPerFat (Bpb s)) < 2 ^ 30"
    using ok b by (simp_all add: vcb_ok_def fat_fits_def)
  have m: "unat ((this_run - 1) * 4) = 4 * (unat this_run - 1)"
    using rb(5) c'(2) fit by (subst unat_mult_small) (simp_all add: mult.commute)
  have y: "unat ?y = vcb_R s + 4 * (unat start + unat this_run - 1)"
  proof -
    have e: "unat ?x + unat ((this_run - 1) * 4) = vcb_R s + 4 * (unat start + unat this_run - 1)"
      unfolding x m using rb(4) by (rule run_offset)
    have "unat ?x + unat ((this_run - 1) * 4) < 2 ^ LENGTH(32)"
      unfolding e using rb(4) c'(2) fit by simp
    then show ?thesis by (subst unat_add_small) (simp_all only: e)
  qed
  have y31: "unat ?y + 4 < 2 ^ 31" unfolding y using rb(4) c'(2) fit by simp
  have N31: "vcb_N s + 2 < 2 ^ 31" using fit by simp
  show ?thesis
  proof (rule paged_run_outcome[OF ok _ _ k refl rb(4) x y y31 rb(3) _ run_effect_32[OF rb(4) c'(2) N31]])
    show "\<And>m i v. put32 m (vcb_R s + 4 * unat i) v = fat_set32_raw (vcb_R s) m i v"
      by (simp add: fat_set32_raw_def)
    show "fat_width 32 = 8 * 4" by (simp add: fat_width_def)
  qed (simp, rule run[unfolded FatSetFatRun_32_chunk_def Let_def, folded c(3)])
qed

lemma FatSetFatRun_12_outcome:
  assumes ok: "vcb_ok s" and b: "vcb_bits s = 12" and k: "k = MCB_SCALE_LOG2 s"
    and c: "cnt \<noteq> 0" "unat start + unat cnt \<le> vcb_N s + 2"
    and run: "FatSetFatRun_12 (2 ^ k) start cnt Chain s = (r, t)"
  shows "run_outcome s (run_effect 12 (vcb_R s) (vcb_N s) Chain True (unat start) (unat cnt) (VolumeFile s)) r t"
proof -
  note rb = run_bounds[OF ok c(2,1)]
  let ?R = "vcb_R s"
  let ?x = "FatReservedBytes (Bpb s) + start * 3 div 2"
  let ?y = "FatReservedBytes (Bpb s) + ((start + cnt) * 3 + 2) div 2"
  let ?g = "\<lambda>p m. FatSet12BitEntry (for_loop (unat cnt - 1) (\<lambda>i m. FatSet12BitEntry m p i
       (if Chain then i + 1 else FAT_CLUSTER_AVAILABLE)) start m) p (start + of_nat (unat cnt - 1))
       (if Chain then FAT_CLUSTER_LAST AND 0xfff else FAT_CLUSTER_AVAILABLE)"
  have st: "unat start \<le> vcb_N s + 1" using rb(4) c(2) by simp
  have N: "vcb_N s < 4087" by (rule vcb_N_bounds(2)[OF ok b])
  have R30: "?R < 2 ^ 30" using ok by (simp add: vcb_ok_def fat_fits_def)
  have x: "unat ?x = ?R + 3 * unat start div 2" by (rule unat_entry_offset(1)[OF ok st b])
  have "unat ((start + cnt) * 3) = 3 * (unat start + unat cnt)"
    using rb(1) c(2) N by (subst unat_mult_small) (simp_all add: mult.commute)
  then have "unat ((start + cnt) * 3 + 2) = 3 * (unat start + unat cnt) + 2"
    using c(2) N by (subst unat_add_small) simp_all
  then have "unat (((start + cnt) * 3 + 2) div 2) = (3 * (unat start + unat cnt) + 2) div 2"
    by (simp add: unat_div)
  then have y: "unat ?y = ?R + (3 * (unat start + unat cnt) + 2) div 2"
    using R30 c(2) N by (subst unat_add_small) simp_all
  have y31: "unat ?y < 2 ^ 31" unfolding y using R30 c(2) N by simp
  have xy: "unat ?x \<le> unat ?y" unfolding x y by (intro add_left_mono div_le_mono) simp
  have k31: "k < 31" using ok k by (simp add: vcb_ok_def fat_fits_def MCB_SCALE_LOG2_def)
  have n: "unat (start + cnt - 1) - unat start = unat cnt - 1" using rb(2,4) by simp
  have eff: "run_effect 12 ?R (vcb_N s) Chain True (unat start) (unat cnt) m (?g ?R m)" for m
    by (rule run_effect_12[OF rb(4) c(2) N])
  have M: "marks (MCB_SCALE_LOG2 s) (FatMarkSectors (?x AND NOT (2 ^ k - 1)) (?y AND NOT (2 ^ k - 1)) (2 ^ k))
      (run_calls k (unat ?x) (unat ?y))"
    unfolding k[symmetric] by (rule FatMarkSectors_marks[OF k31 xy y31])
  show ?thesis
  proof (rule pin_mark_store_outcome[OF pins_prepare M, where g = ?g])
    show "run_effect 12 ?R (vcb_N s) Chain True (unat start) (unat cnt) (VolumeFile s)
      (?g (unat (FatReservedBytes (Bpb s))) (VolumeFile s))" by (rule eff)
    show "seq (FatPrepareWriteVolumeFile (FatReservedBytes (Bpb s)) (FatBytesPerFat (Bpb s)) True False) (\<lambda>p.
      seq (FatMarkSectors (?x AND NOT (2 ^ k - 1)) (?y AND NOT (2 ^ k - 1)) (2 ^ k)) (\<lambda>_.
        modify (\<lambda>s. s\<lparr>VolumeFile := ?g p (VolumeFile s)\<rparr>))) s = (r, t)"
      using run unfolding FatSetFatRun_12_def Let_def n .
    fix a assume a: "?g (unat (FatReservedBytes (Bpb s))) (VolumeFile s) a \<noteq> VolumeFile s a"
    have "\<not> (a < ?R \<or> 8 * (a - ?R) + 8 \<le> 12 * unat start \<or> 12 * (unat start + unat cnt) \<le> 8 * (a - ?R))"
      using a eff[of "VolumeFile s"] unfolding run_effect_def fat_width_def by (simp only: if_True refl) blast
    from bytes_12_bounds[OF this] have "unat ?x \<le> a" "a \<le> unat ?y" unfolding x y by blast+
    then show "dirty_covers (MCB_SCALE_LOG2 s) (DirtyFatMcb s @ run_calls k (unat ?x) (unat ?y)) a"
      unfolding k[symmetric] using xy y31 k31 by (intro run_calls_cover) (simp_all add: div_le_mono)
  qed
qed

section \<open>The chunks of FAT32 and their unwind\<close>

lemma run_outcome_frame:
  assumes "run_outcome s P r t"
  shows "t = s\<lparr>VolumeFile := VolumeFile t, DirtyFatMcb := DirtyFatMcb t, KernelResults := KernelResults t\<rparr>"
    "r = Inr () \<Longrightarrow> P (VolumeFile t)" "r \<noteq> Inr () \<Longrightarrow> VolumeFile t = VolumeFile s"
    "VolumeFile t a \<noteq> VolumeFile s a \<Longrightarrow> dirty_covers (MCB_SCALE_LOG2 s) (DirtyFatMcb t) a"
    "\<exists>D. DirtyFatMcb t = DirtyFatMcb s @ D"
    "set (KernelResults t) \<subseteq> set (KernelResults s)" "r = Inl e \<Longrightarrow> Some e \<in> set (KernelResults s)"
    "Bpb t = Bpb s" "AllocationSupport t = AllocationSupport s" "vcb_ok t = vcb_ok s"
    "MCB_SCALE_LOG2 t = MCB_SCALE_LOG2 s"
  using assms by (auto simp: run_outcome_def vcb_ok_def MCB_SCALE_LOG2_def)

lemma run_outcome_trans:
  assumes 1: "run_outcome s P (Inr ()) s1" and 2: "run_outcome s1 Q (Inr ()) t"
    and PQ: "P (VolumeFile s1) \<Longrightarrow> Q (VolumeFile t) \<Longrightarrow> P' (VolumeFile t)"
  shows "run_outcome s P' (Inr ()) t"
proof -
  note f1 = run_outcome_frame[OF 1] and f2 = run_outcome_frame[OF 2]
  obtain M1 D1 K1 where s1: "s1 = s\<lparr>VolumeFile := M1, DirtyFatMcb := DirtyFatMcb s @ D1, KernelResults := K1\<rparr>"
    using 1 unfolding run_outcome_def by blast
  obtain M2 D2 K2 where t: "t = s1\<lparr>VolumeFile := M2, DirtyFatMcb := DirtyFatMcb s1 @ D2, KernelResults := K2\<rparr>"
    using 2 unfolding run_outcome_def by blast
  have D: "DirtyFatMcb s1 = DirtyFatMcb s @ D1" "DirtyFatMcb t = DirtyFatMcb s1 @ D2" by (simp_all add: s1 t)
  have cov: "dirty_covers (MCB_SCALE_LOG2 s) (DirtyFatMcb t) a" if "VolumeFile t a \<noteq> VolumeFile s a" for a
  proof (cases "VolumeFile t a = VolumeFile s1 a")
    case True
    then show ?thesis using f1(4)[of a] that D(2) by simp
  next
    case False
    then show ?thesis using f2(4)[of a] f1(11) by simp
  qed
  show ?thesis unfolding run_outcome_def
  proof (intro exI[of _ "VolumeFile t"] exI[of _ "D1 @ D2"] exI[of _ "KernelResults t"] conjI allI impI)
    show "t = s\<lparr>VolumeFile := VolumeFile t, DirtyFatMcb := DirtyFatMcb s @ D1 @ D2, KernelResults := KernelResults t\<rparr>"
      by (simp add: s1 t)
    show "P' (VolumeFile t)" using PQ f1(2) f2(2) by blast
    show "set (KernelResults t) \<subseteq> set (KernelResults s)" using f1(6) f2(6) by blast
    show "dirty_covers (MCB_SCALE_LOG2 s) (DirtyFatMcb s @ D1 @ D2) a" if "VolumeFile t a \<noteq> VolumeFile s a" for a
      using cov[OF that] D by simp
  qed simp_all
qed

lemma run_effect_append:
  assumes 1: "run_effect b R N Chain False start n m m1" and 2: "run_effect b R N Chain Last (start + n) n' m1 M"
    and n: "0 < n'"
  shows "run_effect b R N Chain Last start (n + n') m M"
  unfolding run_effect_def
proof (intro conjI allI impI)
  fix j :: ULONG assume j: "unat j \<le> N + 1"
  have e: "start + n + n' - 1 = start + (n + n') - 1" by simp
  have g1: "fat_get b R m1 j = (if start \<le> unat j \<and> unat j < start + n
      then take_bit (fat_vwidth b) (run_value Chain False (start + n - 1) j) else fat_get b R m j)"
    using 1 j unfolding run_effect_def by blast
  have g2: "fat_get b R M j = (if start + n \<le> unat j \<and> unat j < start + n + n'
      then take_bit (fat_vwidth b) (run_value Chain Last (start + n + n' - 1) j) else fat_get b R m1 j)"
    using 2 j unfolding run_effect_def by blast
  have v: "run_value Chain False (start + n - 1) j = run_value Chain Last (start + (n + n') - 1) j"
    if "unat j < start + n"
    using that n by (auto simp: run_value_def)
  consider "start + n \<le> unat j \<and> unat j < start + n + n'" | "start \<le> unat j \<and> unat j < start + n"
    | "\<not> (start \<le> unat j \<and> unat j < start + (n + n'))" by linarith
  then show "fat_get b R M j = (if start \<le> unat j \<and> unat j < start + (n + n')
     then take_bit (fat_vwidth b) (run_value Chain Last (start + (n + n') - 1) j) else fat_get b R m j)"
  proof cases
    case 1
    then have "start \<le> unat j \<and> unat j < start + (n + n')" by linarith
    then show ?thesis using g2 1 e by (simp only: if_True simp_thms)
  next
    case 2
    then have "start \<le> unat j \<and> unat j < start + (n + n')" "\<not> (start + n \<le> unat j \<and> unat j < start + n + n')"
      by linarith+
    then show ?thesis using g1 g2 2 v by (simp only: if_True if_False simp_thms)
  next
    case 3
    then have "\<not> (start \<le> unat j \<and> unat j < start + n)" "\<not> (start + n \<le> unat j \<and> unat j < start + n + n')"
      by linarith+
    then show ?thesis using g1 g2 3 by (simp only: if_False simp_thms)
  qed
next
  fix a assume a: "a < R \<or> 8 * (a - R) + 8 \<le> fat_width b * start \<or> fat_width b * (start + (n + n')) \<le> 8 * (a - R)"
  have "fat_width b * start \<le> fat_width b * (start + n)" "fat_width b * (start + n) \<le> fat_width b * (start + (n + n'))"
    by (intro mult_le_mono2; simp)+
  then have a1: "a < R \<or> 8 * (a - R) + 8 \<le> fat_width b * start \<or> fat_width b * (start + n) \<le> 8 * (a - R)"
    and a2: "a < R \<or> 8 * (a - R) + 8 \<le> fat_width b * (start + n) \<or> fat_width b * (start + n + n') \<le> 8 * (a - R)"
    using a by (simp_all only: add.assoc) linarith+
  show "M a = m a" using 1 2 a1 a2 unfolding run_effect_def by metis
qed

lemma FatSetFatRun_32_loop_Inr:
  assumes "vcb_ok s" "vcb_bits s = 32" "k = MCB_SCALE_LOG2 s" "cnt \<noteq> 0" "unat start + unat cnt \<le> vcb_N s + 2"
    and "FatSetFatRun_32_loop SS start cnt Chain s = (Inr (), cur, t)" "SS = 2 ^ k"
  shows "run_outcome s (run_effect 32 (vcb_R s) (vcb_N s) Chain True (unat start) (unat cnt) (VolumeFile s)) (Inr ()) t"
  using assms
proof (induction SS start cnt Chain s rule: FatSetFatRun_32_loop.induct)
  case (1 SS start cnt Chain s)
  obtain r1 s1 where c: "FatSetFatRun_32_chunk (2 ^ k) start cnt Chain s = (r1, s1)" by force
  note o = FatSetFatRun_32_chunk_outcome[OF "1.prems"(1-5) refl c]
  have r1: "r1 = Inr ()" using "1.prems"(6,7) c unit_sum_cases[of r1]
    by (subst (asm) FatSetFatRun_32_loop.simps) auto
  note o = o[unfolded r1]
  show ?case
  proof (cases "cnt \<le> MAXCOUNTCLUS")
    case True
    then have "t = s1" using "1.prems"(6,7) c r1 by (subst (asm) FatSetFatRun_32_loop.simps) simp
    moreover have "\<not> cnt > MAXCOUNTCLUS" using True by simp
    ultimately show ?thesis using o True by (simp only: if_False simp_thms)
  next
    case False
    note f = run_outcome_frame[OF o]
    have gt: "0x10000 < unat cnt" using False by (simp add: word_le_nat)
    then have le: "MAXCOUNTCLUS \<le> cnt" by (simp add: word_le_nat)
    have cu: "unat (cnt - MAXCOUNTCLUS) = unat cnt - 0x10000" using le by (simp add: unat_sub_le)
    have N: "vcb_N s + 2 < 2 ^ 32" using vcb_N_bounds(1)[OF "1.prems"(1)] by simp
    have su: "unat (start + MAXCOUNTCLUS) = unat start + 0x10000"
      using "1.prems"(5) gt N by (subst unat_add_small) simp_all
    have rest: "FatSetFatRun_32_loop SS (start + MAXCOUNTCLUS) (cnt - MAXCOUNTCLUS) Chain s1 = (Inr (), cur, t)"
      using "1.prems"(6,7) c r1 False by (subst (asm) FatSetFatRun_32_loop.simps) simp
    have run: "FatSetFatRun_32_chunk SS start cnt Chain s = (Inr (), s1)" using c r1 "1.prems"(7) by simp
    have IH: "run_outcome s1 (run_effect 32 (vcb_R s1) (vcb_N s1) Chain True (unat (start + MAXCOUNTCLUS))
        (unat (cnt - MAXCOUNTCLUS)) (VolumeFile s1)) (Inr ()) t"
    proof (rule "1.IH"[OF run[symmetric] refl False _ _ _ _ _ rest "1.prems"(7)])
      show "cnt - MAXCOUNTCLUS \<noteq> 0" using gt by auto
      show "unat (start + MAXCOUNTCLUS) + unat (cnt - MAXCOUNTCLUS) \<le> vcb_N s1 + 2"
        using "1.prems"(5) gt by (simp only: su cu f(9))
    qed (use "1.prems"(1-3) f in simp_all)
    have m: "(if cnt > MAXCOUNTCLUS then MAXCOUNTCLUS else cnt) = MAXCOUNTCLUS" using False by (simp add: not_le)
    have sum: "unat start + 0x10000 + (unat cnt - 0x10000) = unat start + unat cnt" "unat (MAXCOUNTCLUS) = 0x10000"
      using gt by simp_all
    show ?thesis
    proof (rule run_outcome_trans[OF o IH])
      assume e1: "run_effect 32 (vcb_R s) (vcb_N s) Chain (cnt \<le> MAXCOUNTCLUS) (unat start)
          (unat (if cnt > MAXCOUNTCLUS then MAXCOUNTCLUS else cnt)) (VolumeFile s) (VolumeFile s1)"
        and e2: "run_effect 32 (vcb_R s1) (vcb_N s1) Chain True (unat (start + MAXCOUNTCLUS))
          (unat (cnt - MAXCOUNTCLUS)) (VolumeFile s1) (VolumeFile t)"
      have e1': "run_effect 32 (vcb_R s) (vcb_N s) Chain False (unat start) 0x10000 (VolumeFile s) (VolumeFile s1)"
        using e1 False unfolding m sum(2) by simp
      have e2': "run_effect 32 (vcb_R s) (vcb_N s) Chain True (unat start + 0x10000) (unat cnt - 0x10000)
          (VolumeFile s1) (VolumeFile t)"
        using e2 unfolding su cu f(8,9) .
      have "run_effect 32 (vcb_R s) (vcb_N s) Chain True (unat start) (0x10000 + (unat cnt - 0x10000)) (VolumeFile s) (VolumeFile t)"
        using gt by (intro run_effect_append[OF e1' e2']) simp
      then show "run_effect 32 (vcb_R s) (vcb_N s) Chain True (unat start) (unat cnt) (VolumeFile s) (VolumeFile t)"
        using gt by simp
    qed
  qed
qed

lemma FatSetFatRun_32_loop_Inl:
  assumes "vcb_ok s" "vcb_bits s = 32" "k = MCB_SCALE_LOG2 s" "cnt \<noteq> 0" "unat start + unat cnt \<le> vcb_N s + 2"
    and "FatSetFatRun_32_loop SS start cnt Chain s = (Inl e, cur, t)" "SS = 2 ^ k"
  shows "Some e \<in> set (KernelResults s)
    \<and> (cnt \<le> MAXCOUNTCLUS \<longrightarrow> cur = start \<and> run_outcome s P (Inl e) t)"
  using assms
proof (induction SS start cnt Chain s rule: FatSetFatRun_32_loop.induct)
  case (1 SS start cnt Chain s)
  obtain r1 s1 where c: "FatSetFatRun_32_chunk (2 ^ k) start cnt Chain s = (r1, s1)" by force
  note o = FatSetFatRun_32_chunk_outcome[OF "1.prems"(1-5) refl c]
  show ?case
  proof (cases r1)
    case (Inl e1)
    then have "e1 = e \<and> cur = start \<and> t = s1"
      using "1.prems"(6,7) c by (subst (asm) FatSetFatRun_32_loop.simps) simp
    moreover have "run_outcome s P (Inl e1) s1" using o unfolding Inl run_outcome_def by auto
    ultimately show ?thesis using o run_outcome_frame(7)[OF o] Inl by auto
  next
    case (Inr u)
    note f = run_outcome_frame[OF o]
    have False: "\<not> cnt \<le> MAXCOUNTCLUS"
      using "1.prems"(6,7) c Inr by (subst (asm) FatSetFatRun_32_loop.simps) (auto split: if_splits)
    have gt: "0x10000 < unat cnt" using False by (simp add: word_le_nat)
    then have le: "MAXCOUNTCLUS \<le> cnt" by (simp add: word_le_nat)
    have cu: "unat (cnt - MAXCOUNTCLUS) = unat cnt - 0x10000" using le by (simp add: unat_sub_le)
    have N: "vcb_N s + 2 < 2 ^ 32" using vcb_N_bounds(1)[OF "1.prems"(1)] by simp
    have su: "unat (start + MAXCOUNTCLUS) = unat start + 0x10000"
      using "1.prems"(5) gt N by (subst unat_add_small) simp_all
    have rest: "FatSetFatRun_32_loop SS (start + MAXCOUNTCLUS) (cnt - MAXCOUNTCLUS) Chain s1 = (Inl e, cur, t)"
      using "1.prems"(6,7) c Inr False by (subst (asm) FatSetFatRun_32_loop.simps) simp
    have run: "FatSetFatRun_32_chunk SS start cnt Chain s = (Inr u, s1)" using c Inr "1.prems"(7) by simp
    have "Some e \<in> set (KernelResults s1)"
    proof (rule "1.IH"[OF run[symmetric] refl False _ _ _ _ _ rest "1.prems"(7), THEN conjunct1])
      show "cnt - MAXCOUNTCLUS \<noteq> 0" using gt by auto
      show "unat (start + MAXCOUNTCLUS) + unat (cnt - MAXCOUNTCLUS) \<le> vcb_N s1 + 2"
        using "1.prems"(5) gt by (simp only: su cu f(9))
    qed (use "1.prems"(1-3) f in simp_all)
    then show ?thesis using f(6) False by blast
  qed
qed

lemma FatSetFatRun_outcome:
  assumes ok: "vcb_ok s" and c: "cnt \<noteq> 0" "2 \<le> unat start" "unat start + unat cnt \<le> vcb_N s + 2"
    and run: "FatSetFatRun start cnt Chain s = (r, t)"
    and P: "P = run_effect (vcb_bits s) (vcb_R s) (vcb_N s) Chain True (unat start) (unat cnt) (VolumeFile s)"
  shows "(r = Inr () \<or> vcb_bits s \<noteq> 32 \<or> cnt \<le> MAXCOUNTCLUS \<longrightarrow> run_outcome s P r t)
    \<and> (r \<noteq> Inr () \<longrightarrow> (\<exists>e. Some e \<in> set (KernelResults s)))"
proof -
  note rb = run_bounds[OF ok c(3,1)]
  have v1: "FatVerifyIndexIsValid start s = (Inr (), s)"
    using c rb(4) by (simp add: FatVerifyIndexIsValid_eq[OF ok] index_ok_def)
  have v2: "FatVerifyIndexIsValid (start + cnt - 1) s = (Inr (), s)"
  proof -
    have "index_ok s (start + cnt - 1)" unfolding index_ok_def rb(2) using c(2,3) rb(4) by arith
    then show ?thesis by (simp add: FatVerifyIndexIsValid_eq[OF ok])
  qed
  define k where "k = MCB_SCALE_LOG2 s"
  have run': "(if vcb_bits s = 12 then FatSetFatRun_12 (2 ^ k) start cnt Chain
      else if vcb_bits s = 32 then FatSetFatRun_32 (2 ^ k) start cnt Chain
      else FatSetFatRun_16 (2 ^ k) start cnt Chain) s = (r, t)"
    using run c(1) by (simp add: FatSetFatRun_def seq_def v1 v2 Let_def k_def MCB_SCALE_LOG2_def split: if_splits)
  have err: "run_outcome s P r t \<Longrightarrow> r \<noteq> Inr () \<longrightarrow> (\<exists>e. Some e \<in> set (KernelResults s))"
    using unit_sum_cases[of r] run_outcome_frame(7) by blast
  from vcb_bits_cases[OF ok] show ?thesis
  proof cases
    case 1
    then show ?thesis using FatSetFatRun_12_outcome[OF ok 1 k_def c(1,3)] run' P err by simp
  next
    case 2
    then show ?thesis using FatSetFatRun_16_outcome[OF ok 2 k_def c(1,3)] run' P err by simp
  next
    case 3
    obtain r1 cur s1 where l: "FatSetFatRun_32_loop (2 ^ k) start cnt Chain s = (r1, cur, s1)"
      by (metis prod_cases3)
    show ?thesis
    proof (cases r1)
      case (Inr u)
      then have "r = Inr ()" "t = s1" using run' 3 l by (simp_all add: FatSetFatRun_32_def)
      then show ?thesis
        using FatSetFatRun_32_loop_Inr[OF ok 3 k_def c(1,3) _ refl] l Inr P 3 by simp
    next
      case (Inl e)
      note i = FatSetFatRun_32_loop_Inl[OF ok 3 k_def c(1,3) l[unfolded Inl] refl, of P]
      have u: "seq (FatSetFatRun_unwind (unat cur - unat start) cur Chain) (\<lambda>_. raise_status e) s1 = (r, t)"
        using run' 3 l Inl by (simp add: FatSetFatRun_32_def)
      then have "r \<noteq> Inr ()" by (auto simp: seq_def split: prod.splits sum.splits)
      moreover have "run_outcome s P r t" if "cnt \<le> MAXCOUNTCLUS"
        using i that u by (auto simp: seq_def)
      ultimately show ?thesis using i 3 by auto
    qed
  qed
qed

lemma FatSetFatRun_32_loop_raise:
  assumes "vcb_ok s" "vcb_bits s = 32" "k = MCB_SCALE_LOG2 s" "cnt \<noteq> 0" "unat start + unat cnt \<le> vcb_N s + 2"
    and "FatSetFatRun_32_loop SS start cnt Chain s = (Inl e, cur, t)" "SS = 2 ^ k"
  shows "vcb_ok t \<and> vcb_N t = vcb_N s \<and> set (KernelResults t) \<subseteq> set (KernelResults s)
    \<and> unat start \<le> unat cur \<and> unat cur \<le> vcb_N s + 2"
  using assms
proof (induction SS start cnt Chain s rule: FatSetFatRun_32_loop.induct)
  case (1 SS start cnt Chain s)
  obtain r1 s1 where c: "FatSetFatRun_32_chunk (2 ^ k) start cnt Chain s = (r1, s1)" by force
  note f = run_outcome_frame[OF FatSetFatRun_32_chunk_outcome[OF "1.prems"(1-5) refl c]]
  show ?case
  proof (cases r1)
    case (Inl e1)
    then have "cur = start \<and> t = s1"
      using "1.prems"(6,7) c by (subst (asm) FatSetFatRun_32_loop.simps) simp
    then show ?thesis using f(6,9,10) "1.prems"(1,5) by simp
  next
    case (Inr u)
    have False: "\<not> cnt \<le> MAXCOUNTCLUS"
      using "1.prems"(6,7) c Inr by (subst (asm) FatSetFatRun_32_loop.simps) (auto split: if_splits)
    have gt: "0x10000 < unat cnt" using False by (simp add: word_le_nat)
    then have le: "MAXCOUNTCLUS \<le> cnt" by (simp add: word_le_nat)
    have cu: "unat (cnt - MAXCOUNTCLUS) = unat cnt - 0x10000" using le by (simp add: unat_sub_le)
    have N: "vcb_N s + 2 < 2 ^ 32" using vcb_N_bounds(1)[OF "1.prems"(1)] by simp
    have su: "unat (start + MAXCOUNTCLUS) = unat start + 0x10000"
      using "1.prems"(5) gt N by (subst unat_add_small) simp_all
    have rest: "FatSetFatRun_32_loop SS (start + MAXCOUNTCLUS) (cnt - MAXCOUNTCLUS) Chain s1 = (Inl e, cur, t)"
      using "1.prems"(6,7) c Inr False by (subst (asm) FatSetFatRun_32_loop.simps) simp
    have run: "FatSetFatRun_32_chunk SS start cnt Chain s = (Inr u, s1)" using c Inr "1.prems"(7) by simp
    have "vcb_ok t \<and> vcb_N t = vcb_N s1 \<and> set (KernelResults t) \<subseteq> set (KernelResults s1)
        \<and> unat (start + MAXCOUNTCLUS) \<le> unat cur \<and> unat cur \<le> vcb_N s1 + 2"
    proof (rule "1.IH"[OF run[symmetric] refl False _ _ _ _ _ rest "1.prems"(7)])
      show "cnt - MAXCOUNTCLUS \<noteq> 0" using gt by auto
      show "unat (start + MAXCOUNTCLUS) + unat (cnt - MAXCOUNTCLUS) \<le> vcb_N s1 + 2"
        using "1.prems"(5) gt by (simp only: su cu f(9))
    qed (use "1.prems"(1-3) f in simp_all)
    then show ?thesis using f(6,9) su by auto
  qed
qed

lemma FatSetFatRun_unwind_raise:
  assumes "vcb_ok s" "2 + n \<le> unat cur" "unat cur \<le> vcb_N s + 2" "FatSetFatRun_unwind n cur Chain s = (Inl e, t)"
  shows "Some e \<in> set (KernelResults s)"
  using assms
proof (induction n arbitrary: cur s)
  case (Suc n)
  let ?i = "cur - 1" and ?v = "if Chain then cur - 1 + 1 else FAT_CLUSTER_AVAILABLE"
  have "(1::ULONG) \<le> cur" using Suc.prems(2) by (simp add: word_le_nat)
  then have ui: "unat ?i = unat cur - 1" by (simp add: unat_sub_le)
  have i: "index_ok s ?i" unfolding index_ok_def ui using Suc.prems(2,3) by arith
  have i1: "?i \<noteq> FAT_DIRTY_BIT_INDEX" using i by (auto simp: index_ok_def)
  obtain r s1 where set: "FatSetFatEntry ?i ?v s = (r, s1)" by force
  have o: "set_outcome s (fat_set (vcb_bits s) (vcb_R s) (VolumeFile s) ?i ?v)
        (store_calls (vcb_bits s) (MCB_SCALE_LOG2 s) (vcb_R s) ?i) False True r s1"
    using FatSetFatEntry_cluster[OF Suc.prems(1) i1 set] i by blast
  note f = set_outcome_frame[OF o]
  show ?case
  proof (cases r)
    case (Inl e')
    have "FatSetFatRun_unwind (Suc n) cur Chain s = (Inl e', s1)"
      unfolding FatSetFatRun_unwind.simps using set[unfolded Inl] by (rule seq_Inl)
    then show ?thesis using f(18)[OF Inl] Suc.prems(4) by simp
  next
    case (Inr u)
    have "FatSetFatRun_unwind (Suc n) cur Chain s = FatSetFatRun_unwind n ?i Chain s1"
      unfolding FatSetFatRun_unwind.simps using set[unfolded Inr] by (rule seq_Inr)
    then have rest: "FatSetFatRun_unwind n ?i Chain s1 = (Inl e, t)" using Suc.prems(4) by simp
    have "vcb_ok s1" "2 + n \<le> unat ?i" "unat ?i \<le> vcb_N s1 + 2" using f(2,13) Suc.prems(1-3) ui by simp_all
    from Suc.IH[OF this rest] show ?thesis using f(17) by blast
  qed
qed simp

text \<open>What FatSetFatRun raises a kernel call has raised, in the run or in its unwind.\<close>

lemma FatSetFatRun_raise:
  assumes ok: "vcb_ok s" and c: "cnt \<noteq> 0" "2 \<le> unat start" "unat start + unat cnt \<le> vcb_N s + 2"
    and run: "FatSetFatRun start cnt Chain s = (Inl e, t)"
  shows "Some e \<in> set (KernelResults s)"
proof (cases "vcb_bits s = 32")
  case False
  then show ?thesis using FatSetFatRun_outcome[OF ok c run refl] by (blast dest: run_outcome_frame(7))
next
  case bits: True
  note rb = run_bounds[OF ok c(3,1)]
  have v1: "FatVerifyIndexIsValid start s = (Inr (), s)"
    using c rb(4) by (simp add: FatVerifyIndexIsValid_eq[OF ok] index_ok_def)
  have "index_ok s (start + cnt - 1)" unfolding index_ok_def rb(2) using c(2,3) rb(4) by arith
  then have v2: "FatVerifyIndexIsValid (start + cnt - 1) s = (Inr (), s)" by (simp add: FatVerifyIndexIsValid_eq[OF ok])
  define k where "k = MCB_SCALE_LOG2 s"
  have run': "FatSetFatRun_32 (2 ^ k) start cnt Chain s = (Inl e, t)"
    using run c(1) bits by (simp add: FatSetFatRun_def seq_def v1 v2 Let_def k_def MCB_SCALE_LOG2_def)
  obtain r1 cur s1 where l: "FatSetFatRun_32_loop (2 ^ k) start cnt Chain s = (r1, cur, s1)"
    by (metis prod_cases3)
  show ?thesis
  proof (cases r1)
    case (Inr u)
    then show ?thesis using run' l by (simp add: FatSetFatRun_32_def)
  next
    case (Inl e1)
    note i = FatSetFatRun_32_loop_Inl[OF ok bits k_def c(1,3) l[unfolded Inl] refl, THEN conjunct1]
    note f = FatSetFatRun_32_loop_raise[OF ok bits k_def c(1,3) l[unfolded Inl] refl]
    have u: "seq (FatSetFatRun_unwind (unat cur - unat start) cur Chain) (\<lambda>_. raise_status e1) s1 = (Inl e :: ntstatus + unit, t)"
      using run' l Inl by (simp add: FatSetFatRun_32_def)
    then consider "FatSetFatRun_unwind (unat cur - unat start) cur Chain s1 = (Inl e, t)" | "e = e1"
      unfolding seq_eq_Inl raise_eq by blast
    then show ?thesis
    proof cases
      case 1
      have "2 + (unat cur - unat start) \<le> unat cur" "unat cur \<le> vcb_N s1 + 2" using f c(2) by auto
      from FatSetFatRun_unwind_raise[OF _ this 1] f show ?thesis by blast
    next
      case 2
      then show ?thesis using i by simp
    qed
  qed
qed

text \<open>One cluster goes to FatSetFatEntry, more to FatSetFatRun; the effect is the same.\<close>

lemma one_entry_effect:
  assumes ok: "vcb_ok s" and i: "index_ok s i" and v: "v AND NOT FAT32_ENTRY_MASK = 0"
    and rv: "v = run_value Chain True (unat i) i"
  shows "run_effect (vcb_bits s) (vcb_R s) (vcb_N s) Chain True (unat i) 1 m (fat_set (vcb_bits s) (vcb_R s) m i v)"
proof -
  have lim: "unat i < 1431655765" by (rule index_lim[OF ok i])
  have N: "vcb_N s + 2 < 1431655765" by (rule vcb_N_bounds(1)[OF ok])
  have eq: "unat i \<le> unat j \<and> unat j < unat i + 1 \<longleftrightarrow> i = j" for j by (auto simp: word_unat_eq_iff)
  have "fat_get (vcb_bits s) (vcb_R s) (fat_set (vcb_bits s) (vcb_R s) m i v) j =
     (if unat i \<le> unat j \<and> unat j < unat i + 1
      then take_bit (fat_vwidth (vcb_bits s)) (run_value Chain True (unat i + 1 - 1) j)
      else fat_get (vcb_bits s) (vcb_R s) m j)" if "unat j \<le> vcb_N s + 1" for j
    unfolding eq using fat.get_set[OF lim v, of j] that N rv by auto
  moreover have "fat_set (vcb_bits s) (vcb_R s) m i v a = m a"
    if "a < vcb_R s \<or> 8 * (a - vcb_R s) + 8 \<le> fat_width (vcb_bits s) * unat i
      \<or> fat_width (vcb_bits s) * (unat i + 1) \<le> 8 * (a - vcb_R s)" for a
    using that by (intro fat.set_frame[OF lim v]) (simp add: add.commute)
  ultimately show ?thesis unfolding run_effect_def by blast
qed

definition FatClusters :: "bool \<Rightarrow> ULONG \<Rightarrow> ULONG \<Rightarrow> (VCB, unit) fat_op" where
  "FatClusters Chain i n = (if Chain then FatAllocateClusters i n else FatFreeClusters i n)"

lemma FatClusters_outcome:
  assumes ok: "vcb_ok s" and c: "cnt \<noteq> 0" "2 \<le> unat start" "unat start + unat cnt \<le> vcb_N s + 2"
    and run: "FatClusters Chain start cnt s = (r, t)"
    and E: "E = run_effect (vcb_bits s) (vcb_R s) (vcb_N s) Chain True (unat start) (unat cnt) (VolumeFile s)"
  shows "(r = Inr () \<longrightarrow> E (VolumeFile t) \<and> Bpb t = Bpb s \<and> AllocationSupport t = AllocationSupport s
           \<and> (\<forall>a. VolumeFile t a \<noteq> VolumeFile s a \<longrightarrow> dirty_covers (MCB_SCALE_LOG2 s) (DirtyFatMcb t) a))
    \<and> (r \<noteq> Inr () \<longrightarrow> (\<exists>e. Some e \<in> set (KernelResults s)))
    \<and> (r \<noteq> Inr () \<and> (vcb_bits s \<noteq> 32 \<or> cnt \<le> MAXCOUNTCLUS) \<longrightarrow> VolumeFile t = VolumeFile s)"
proof (cases "cnt = 1")
  case False
  then have "FatSetFatRun start cnt Chain s = (r, t)"
    using run by (simp add: FatClusters_def FatAllocateClusters_def FatFreeClusters_def split: if_splits)
  note o = FatSetFatRun_outcome[OF ok c this E]
  then show ?thesis using run_outcome_frame(2-4,8,9)[of s E r t] by blast
next
  case True
  let ?v = "if Chain then FAT_CLUSTER_LAST else FAT_CLUSTER_AVAILABLE"
  have i: "index_ok s start" "start \<noteq> FAT_DIRTY_BIT_INDEX" using c True by (auto simp: index_ok_def)
  have "FatSetFatEntry start ?v s = (r, t)"
    using run True by (simp add: FatClusters_def FatAllocateClusters_def FatFreeClusters_def split: if_splits)
  then have o: "set_outcome s (fat_set (vcb_bits s) (vcb_R s) (VolumeFile s) start ?v)
      (store_calls (vcb_bits s) (MCB_SCALE_LOG2 s) (vcb_R s) start) False True r t"
    using FatSetFatEntry_cluster[OF ok i(2)] i(1) by blast
  note f = set_outcome_frame[OF o]
  have "E (fat_set (vcb_bits s) (vcb_R s) (VolumeFile s) start ?v)"
    unfolding E True by (simp only: unat_1) (rule one_entry_effect[OF ok i(1)], simp_all add: run_value_def)
  moreover have "dirty_covers (MCB_SCALE_LOG2 s) (DirtyFatMcb t) a" if "VolumeFile t a \<noteq> VolumeFile s a" for a
    using f(15,16) that i store_covered[OF ok, of start "VolumeFile s" ?v a "DirtyFatMcb s"]
    by (auto simp: index_ok_def fat_store_def split: if_splits)
  ultimately show ?thesis using f(1,2,15) f(18) unit_sum_cases[of r] by auto
qed

section \<open>Chains\<close>

text \<open>The clusters of the chain that starts at \<open>i\<close>, if it ends within \<open>n\<close> entries.\<close>

fun fat_chain :: "VCB \<Rightarrow> nat \<Rightarrow> ULONG \<Rightarrow> ULONG list option" where
  "fat_chain s 0 i = None"
| "fat_chain s (Suc n) i =
     (case FatInterpretClusterType s (FatEntryOf s i) of
        FatClusterLast \<Rightarrow> Some [i]
      | FatClusterNext \<Rightarrow> map_option (Cons i) (fat_chain s n (FatEntryOf s i))
      | _ \<Rightarrow> None)"

lemma chain_of_links:
  assumes "\<And>k. k < n \<Longrightarrow> FatInterpretClusterType s (FatEntryOf s (i + of_nat k)) = FatClusterNext
      \<and> FatEntryOf s (i + of_nat k) = i + of_nat k + 1"
    and "FatInterpretClusterType s (FatEntryOf s (i + of_nat n)) = FatClusterLast"
  shows "fat_chain s (Suc n) i = Some (map (\<lambda>k. i + of_nat k) [0..<Suc n])"
  using assms
proof (induction n arbitrary: i)
  case 0
  then show ?case by simp
next
  case (Suc n)
  have e: "i + of_nat (Suc k) = i + 1 + of_nat k" for k by simp
  have "fat_chain s (Suc n) (i + 1) = Some (map (\<lambda>k. i + 1 + of_nat k) [0..<Suc n])"
  proof (rule Suc.IH)
    fix k assume "k < n"
    then have "Suc k < Suc n" by simp
    from Suc.prems(1)[OF this]
    show "FatInterpretClusterType s (FatEntryOf s (i + 1 + of_nat k)) = FatClusterNext
      \<and> FatEntryOf s (i + 1 + of_nat k) = i + 1 + of_nat k + 1"
      unfolding e .
  next
    show "FatInterpretClusterType s (FatEntryOf s (i + 1 + of_nat n)) = FatClusterLast"
      using Suc.prems(2) unfolding e .
  qed
  moreover have "FatInterpretClusterType s (FatEntryOf s i) = FatClusterNext" "FatEntryOf s i = i + 1"
    using Suc.prems(1)[OF zero_less_Suc, unfolded semiring_1_class.of_nat_0 add_0_right]
    by (rule conjunct1, rule conjunct2)
  moreover have "map (\<lambda>k. i + of_nat k) [0..<Suc (Suc n)] = i # map (\<lambda>k. i + 1 + of_nat k) [0..<Suc n]"
    by (subst upt_conv_Cons) (simp_all add: map_Suc_upt[symmetric] comp_def algebra_simps del: upt_Suc)
  ultimately show ?case by (simp del: upt_Suc)
qed

lemma interpret_value:
  assumes "vcb_bits s \<in> {12, 16, 32}" "unat v < 2 ^ fat_vwidth (vcb_bits s)"
  shows "v \<noteq> 0 \<Longrightarrow> unat v < 2 ^ fat_vwidth (vcb_bits s) - 16 \<Longrightarrow> FatInterpretClusterType s v = FatClusterNext"
    and "unat v = 2 ^ fat_vwidth (vcb_bits s) - 1 \<Longrightarrow> FatInterpretClusterType s v = FatClusterLast"
    and "v = 0 \<Longrightarrow> FatInterpretClusterType s v = FatClusterAvailable"
proof -
  have nz: "v \<noteq> 0 \<longleftrightarrow> unat v \<noteq> 0" by (simp add: word_unat_eq_iff)
  consider "vcb_bits s = 12" | "vcb_bits s = 16" | "vcb_bits s = 32" using assms(1) by blast
  then have "(v \<noteq> 0 \<and> unat v < 2 ^ fat_vwidth (vcb_bits s) - 16 \<longrightarrow> FatInterpretClusterType s v = FatClusterNext)
    \<and> (unat v = 2 ^ fat_vwidth (vcb_bits s) - 1 \<longrightarrow> FatInterpretClusterType s v = FatClusterLast)
    \<and> (v = 0 \<longrightarrow> FatInterpretClusterType s v = FatClusterAvailable)"
  proof cases
    case 1
    then show ?thesis using interpret_12[of v s] assms(2) by (auto simp: fat_vwidth_def nz)
  next
    case 2
    then show ?thesis using interpret_16[of v s] assms(2) by (auto simp: fat_vwidth_def nz)
  next
    case 3
    then show ?thesis using interpret_32[of s _ v, OF _ refl] assms(2) by (auto simp: fat_vwidth_def nz)
  qed
  then show "v \<noteq> 0 \<Longrightarrow> unat v < 2 ^ fat_vwidth (vcb_bits s) - 16 \<Longrightarrow> FatInterpretClusterType s v = FatClusterNext"
    "unat v = 2 ^ fat_vwidth (vcb_bits s) - 1 \<Longrightarrow> FatInterpretClusterType s v = FatClusterLast"
    "v = 0 \<Longrightarrow> FatInterpretClusterType s v = FatClusterAvailable" by blast+
qed

lemma take_bit_small: "unat (v :: ULONG) < 2 ^ n \<Longrightarrow> take_bit n v = v"
proof -
  assume v: "unat v < 2 ^ n"
  have "unat (take_bit n v) = take_bit n (unat v)" by (rule unsigned_take_bit_eq)
  also have "\<dots> = unat v" using v by (simp add: take_bit_nat_eq_self)
  finally show ?thesis by (simp add: word_unat_eq_iff)
qed

lemma unat_take_last: "n \<le> 28 \<Longrightarrow> unat (take_bit n FAT_CLUSTER_LAST) = 2 ^ n - 1"
proof -
  assume n: "n \<le> 28"
  have "take_bit n (mask 28) = (mask n :: ULONG)"
    using n by (intro bit_word_eqI) (auto simp: bit_simps)
  moreover have "FAT_CLUSTER_LAST = mask 28" by (simp add: mask_eq_exp_minus_1)
  ultimately have "take_bit n FAT_CLUSTER_LAST = mask n" by metis
  moreover have "unat (mask n :: ULONG) = 2 ^ n - 1"
    using n unat_pow2_32[of n] by (simp add: mask_eq_exp_minus_1 unat_sub_le word_le_nat)
  ultimately show ?thesis by simp
qed

lemma fat_vwidth_le: "fat_vwidth b \<le> 28" "12 \<le> fat_vwidth b"
  by (simp_all add: fat_vwidth_def)

lemma linked_run_chain:
  assumes bits: "vcb_bits t \<in> {12, 16, 32}" and N: "N + 1 < 2 ^ fat_vwidth (vcb_bits t) - 16"
    and c: "0 < n" "unat start + n \<le> N + 2"
    and e: "run_effect (vcb_bits t) (vcb_R t) N True True (unat start) n m (VolumeFile t)"
  shows "fat_chain t n start = Some (map (\<lambda>k. start + of_nat k) [0..<n])"
proof -
  let ?w = "fat_vwidth (vcb_bits t)"
  have wle: "(2::nat) ^ ?w \<le> 2 ^ 28" using fat_vwidth_le(1) by (rule power_increasing) simp
  obtain n' where n': "n = Suc n'" using c(1) by (cases n) auto
  have ent: "FatEntryOf t (start + of_nat k) = take_bit ?w (if k = n' then FAT_CLUSTER_LAST else start + of_nat k + 1)"
    if k: "k < n" for k
  proof -
    have u: "unat (start + of_nat k) = unat start + k" using k c N wle by (intro unat_add_of_nat32) simp
    then show ?thesis using e k c n' unfolding run_effect_def FatEntryOf_def
      by (simp add: run_value_def)
  qed
  have "fat_chain t (Suc n') start = Some (map (\<lambda>k. start + of_nat k) [0..<Suc n'])"
  proof (rule chain_of_links)
    fix k assume k: "k < n'"
    have u: "unat (start + of_nat k + 1) = unat start + k + 1"
      using k c N wle n' by (intro unat_link[of start n]) simp_all
    then have lt: "unat (start + of_nat k + 1) < 2 ^ ?w - 16" using k c N n' by simp
    then have en: "FatEntryOf t (start + of_nat k) = start + of_nat k + 1"
      using ent[of k] k n' take_bit_small[of "start + of_nat k + 1" ?w] by simp
    moreover have "start + of_nat k + 1 \<noteq> 0" using u by auto
    ultimately show "FatInterpretClusterType t (FatEntryOf t (start + of_nat k)) = FatClusterNext
      \<and> FatEntryOf t (start + of_nat k) = start + of_nat k + 1"
      using interpret_value(1)[OF bits, of "start + of_nat k + 1"] lt by simp
  next
    have "FatEntryOf t (start + of_nat n') = take_bit ?w FAT_CLUSTER_LAST" using ent[of n'] n' by simp
    then show "FatInterpretClusterType t (FatEntryOf t (start + of_nat n')) = FatClusterLast"
      using interpret_value(2)[OF bits] unat_take_last[OF fat_vwidth_le(1)] by simp
  qed
  then show ?thesis using n' by simp
qed

section \<open>Properties\<close>

text \<open>
  C11: FatSetFatRun over a run of clusters of the volume leaves in every entry of the run
  the link to the next cluster and the end mark in the last one, or a free entry in each
  when it does not chain, cut to the width of an entry; the stores through the page pointers
  reach no other entry and no byte outside the run, and every byte that changed lies in a
  sector marked dirty. The status it raises is one that a kernel call has raised, in the run or
  in its unwind, and the volume file is as it was then unless a FAT32 run of more than one
  chunk was under way.
\<close>

theorem FatSetFatRun_correct:
  assumes "vcb_ok s" and "cnt \<noteq> 0" and "2 \<le> unat start" and "unat start + unat cnt \<le> vcb_N s + 2"
    and "w = fat_width (vcb_bits s)"
  shows "case FatSetFatRun start cnt Chain s of
     (Inr _, t) \<Rightarrow>
       (\<forall>j. index_ok s j \<longrightarrow> FatEntryOf t j =
          (if unat start \<le> unat j \<and> unat j < unat start + unat cnt
           then take_bit (fat_vwidth (vcb_bits s))
                  (if \<not> Chain then FAT_CLUSTER_AVAILABLE
                   else if unat j = unat start + unat cnt - 1 then FAT_CLUSTER_LAST else j + 1)
           else FatEntryOf s j))
     \<and> (\<forall>a. a < vcb_R s \<or> 8 * (a - vcb_R s) + 8 \<le> w * unat start \<or> w * (unat start + unat cnt) \<le> 8 * (a - vcb_R s)
          \<longrightarrow> VolumeFile t a = VolumeFile s a)
     \<and> (\<forall>a. VolumeFile t a \<noteq> VolumeFile s a \<longrightarrow> dirty_covers (MCB_SCALE_LOG2 s) (DirtyFatMcb t) a)
   | (Inl e, t) \<Rightarrow> Some e \<in> set (KernelResults s)
     \<and> (vcb_bits s \<noteq> 32 \<or> cnt \<le> MAXCOUNTCLUS \<longrightarrow> VolumeFile t = VolumeFile s)"
proof (cases "FatSetFatRun start cnt Chain s")
  case (Pair r t)
  note o = FatSetFatRun_outcome[OF assms(1-4) Pair refl]
  show ?thesis
  proof (cases r)
    case (Inl e)
    have "Some e \<in> set (KernelResults s)" by (rule FatSetFatRun_raise[OF assms(1-4) Pair[unfolded Inl]])
    then show ?thesis using o Pair Inl by (auto dest: run_outcome_frame(3))
  next
    case (Inr u)
    then have ro: "run_outcome s (run_effect (vcb_bits s) (vcb_R s) (vcb_N s) Chain True (unat start) (unat cnt)
        (VolumeFile s)) (Inr ()) t" using o by simp
    note f = run_outcome_frame[OF ro]
    have e: "run_effect (vcb_bits s) (vcb_R s) (vcb_N s) Chain True (unat start) (unat cnt) (VolumeFile s) (VolumeFile t)"
      using f(2) by simp
    have "FatEntryOf t j = (if unat start \<le> unat j \<and> unat j < unat start + unat cnt
           then take_bit (fat_vwidth (vcb_bits s)) (run_value Chain True (unat start + unat cnt - 1) j)
           else FatEntryOf s j)" if "index_ok s j" for j
      using e that f(8,9) unfolding run_effect_def FatEntryOf_def index_ok_def by simp
    moreover have "VolumeFile t a = VolumeFile s a"
      if "a < vcb_R s \<or> 8 * (a - vcb_R s) + 8 \<le> w * unat start \<or> w * (unat start + unat cnt) \<le> 8 * (a - vcb_R s)" for a
      using e that assms(5) unfolding run_effect_def by blast
    ultimately show ?thesis using Inr Pair f(4) by (simp add: run_value_def)
  qed
qed

theorem FatSetFatRun_correct_witness:
  "\<exists>t. FatSetFatRun 5 3 True floppy_vcb = (Inr (), t) \<and>
     FatEntryOf t 5 = 6 \<and> FatEntryOf t 6 = 7 \<and> FatEntryOf t 7 = 0xfff"
proof -
  have k: "KernelResults floppy_vcb = []" "vcb_bits floppy_vcb = 12" "vcb_N floppy_vcb = 2847"
    by (simp_all add: floppy_vcb_def)
  have tb: "take_bit 12 (0x0fffffff :: ULONG) = 0xfff" "take_bit 12 (6 :: ULONG) = 6" "take_bit 12 (7 :: ULONG) = 7"
    by (simp_all add: take_bit_eq_mask fff_mask(1)[symmetric])
  obtain r t where run: "FatSetFatRun 5 3 True floppy_vcb = (r, t)" by force
  note c = FatSetFatRun_correct[OF floppy_ok _ _ _ refl, of 3 5 True, unfolded run prod.case]
  have "\<nexists>e. r = Inl e" using c k by auto
  then have "r = Inr ()" using unit_sum_cases[of r] by blast
  then have e: "FatEntryOf t j = (if 5 \<le> unat j \<and> unat j < 8 then take_bit 12 (if unat j = 7 then FAT_CLUSTER_LAST else j + 1)
      else FatEntryOf floppy_vcb j)" if "2 \<le> unat j" "unat j \<le> 2848" for j
    using c k that by (simp add: floppy_index fat_vwidth_def)
  show ?thesis using run \<open>r = Inr ()\<close> e[of 5] e[of 6] e[of 7] tb by simp
qed

text \<open>
  C12: After FatAllocateClusters has succeeded for a run of clusters, following the entries
  from its first cluster gives exactly the clusters of the run, in order, up to the end
  mark - provided the cluster numbers of the volume stay below the reserved values, which
  on FAT12 and FAT16 nothing in the mount ensures.
\<close>

theorem FatAllocateClusters_chain:
  assumes "vcb_ok s" and "cnt \<noteq> 0" and "2 \<le> unat start" and "unat start + unat cnt \<le> vcb_N s + 2"
    and "vcb_bits s \<noteq> 32 \<Longrightarrow> vcb_N s + 1 < 2 ^ fat_vwidth (vcb_bits s) - 16"
    and "FatAllocateClusters start cnt s = (Inr (), t)"
  shows "fat_chain t (unat cnt) start = Some (map (\<lambda>k. start + of_nat k) [0..<unat cnt])"
proof -
  have "FatClusters True start cnt s = (Inr (), t)" using assms(6) by (simp add: FatClusters_def)
  from FatClusters_outcome[OF assms(1-4) this refl]
  have e: "run_effect (vcb_bits s) (vcb_R s) (vcb_N s) True True (unat start) (unat cnt) (VolumeFile s) (VolumeFile t)"
    and f: "Bpb t = Bpb s" "AllocationSupport t = AllocationSupport s" by blast+
  have "vcb_N s + 1 < 2 ^ fat_vwidth (vcb_bits s) - 16"
  proof (cases "vcb_bits s = 32")
    case True
    then show ?thesis using vcb_N_bounds(3)[OF assms(1) True] by (simp add: fat_vwidth_def)
  qed (rule assms(5))
  moreover have "vcb_bits s \<in> {12, 16, 32}" using assms(1) by (simp add: vcb_ok_def fat_fits_def)
  moreover have "0 < unat cnt" using assms(2) by (simp add: unat_gt_0)
  ultimately show ?thesis using linked_run_chain[of t "vcb_N s" "unat cnt" start "VolumeFile s"] e f assms(4) by simp
qed

lemma interpret_cong:
  "AllocationSupport t = AllocationSupport s \<Longrightarrow> FatInterpretClusterType t = FatInterpretClusterType s"
  by (rule ext) (simp add: FatInterpretClusterType_def)

theorem FatAllocateClusters_chain_witness:
  "\<exists>t. FatAllocateClusters 5 3 floppy_vcb = (Inr (), t) \<and> fat_chain t 3 5 = Some [5, 6, 7]"
proof -
  obtain r t where run: "FatAllocateClusters 5 3 floppy_vcb = (r, t)" by force
  have k: "KernelResults floppy_vcb = []" "vcb_bits floppy_vcb = 12" "vcb_N floppy_vcb = 2847"
    by (simp_all add: floppy_vcb_def)
  have "FatClusters True 5 3 floppy_vcb = (r, t)" using run by (simp add: FatClusters_def)
  then have "r = Inr ()" using FatClusters_outcome[OF floppy_ok _ _ _ _ refl, of 3 5 True r t] k by simp
  with run have t: "FatAllocateClusters 5 3 floppy_vcb = (Inr (), t)" by simp
  have "fat_chain t (unat (3::ULONG)) 5 = Some (map (\<lambda>k. 5 + of_nat k) [0..<unat (3::ULONG)])"
    by (rule FatAllocateClusters_chain[OF floppy_ok _ _ _ _ t]) (simp_all add: k fat_vwidth_def)
  moreover have "map (\<lambda>k. 5 + of_nat k) [0..<unat (3::ULONG)] = [5, 6, 7::ULONG]"
    by (simp add: upt_rec)
  ultimately show ?thesis using t by simp
qed

text \<open>
  C24: After FatFreeClusters has succeeded every cluster of the run is free, and no entry
  outside the run has changed.
\<close>

theorem FatFreeClusters_free:
  assumes "vcb_ok s" and "cnt \<noteq> 0" and "2 \<le> unat start" and "unat start + unat cnt \<le> vcb_N s + 2"
    and "FatFreeClusters start cnt s = (Inr (), t)" and "index_ok s j"
  shows "if unat start \<le> unat j \<and> unat j < unat start + unat cnt
     then FatInterpretClusterType t (FatEntryOf t j) = FatClusterAvailable
     else FatEntryOf t j = FatEntryOf s j"
proof -
  have "FatClusters False start cnt s = (Inr (), t)" using assms(5) by (simp add: FatClusters_def)
  from FatClusters_outcome[OF assms(1-4) this refl]
  have e: "run_effect (vcb_bits s) (vcb_R s) (vcb_N s) False True (unat start) (unat cnt) (VolumeFile s) (VolumeFile t)"
    and f: "Bpb t = Bpb s" "AllocationSupport t = AllocationSupport s" by blast+
  have "FatEntryOf t j = (if unat start \<le> unat j \<and> unat j < unat start + unat cnt
     then take_bit (fat_vwidth (vcb_bits s)) FAT_CLUSTER_AVAILABLE else FatEntryOf s j)"
    using e f assms(6) unfolding run_effect_def FatEntryOf_def index_ok_def by (simp add: run_value_def)
  moreover have "FatInterpretClusterType t 0 = FatClusterAvailable"
    by (simp add: FatInterpretClusterType_def Let_def)
  ultimately show ?thesis by simp
qed

theorem FatFreeClusters_free_witness:
  "\<exists>t. FatFreeClusters 5 3 floppy_vcb = (Inr (), t) \<and>
     FatInterpretClusterType t (FatEntryOf t 7) = FatClusterAvailable"
proof -
  obtain r t where run: "FatFreeClusters 5 3 floppy_vcb = (r, t)" by force
  have k: "KernelResults floppy_vcb = []" "vcb_bits floppy_vcb = 12" "vcb_N floppy_vcb = 2847"
    by (simp_all add: floppy_vcb_def)
  have "FatClusters False 5 3 floppy_vcb = (r, t)" using run by (simp add: FatClusters_def)
  then have "r = Inr ()" using FatClusters_outcome[OF floppy_ok _ _ _ _ refl, of 3 5 False r t] k by simp
  with run have t: "FatFreeClusters 5 3 floppy_vcb = (Inr (), t)" by simp
  have "index_ok floppy_vcb 7" by (simp add: floppy_index)
  from FatFreeClusters_free[OF floppy_ok _ _ _ t this] k t show ?thesis by auto
qed

text \<open>The number of pages FatSetFatRun pins, and so of elements of SavedBcbs it fills, on FAT16 and FAT32.\<close>

definition FatSetFatRun_pages :: "VCB \<Rightarrow> ULONG \<Rightarrow> ULONG \<Rightarrow> nat" where
  "FatSetFatRun_pages s StartingFatIndex ClusterCount =
     (let sz = (if vcb_bits s = 32 then 4 else 2);
          n = (if vcb_bits s = 32 \<and> ClusterCount > MAXCOUNTCLUS then MAXCOUNTCLUS else ClusterCount);
          StartOffsetInVolume = FatReservedBytes (Bpb s) + StartingFatIndex * sz;
          FinalOffsetInVolume = StartOffsetInVolume + (n - 1) * sz
      in unat (FinalOffsetInVolume div PAGE_SIZE - StartOffsetInVolume div PAGE_SIZE + 1))"

text \<open>The pages of a run are those the two branches pin.\<close>

lemma FatSetFatRun_16_pins:
  "vcb_bits s \<noteq> 32 \<Longrightarrow> \<exists>x store. FatSetFatRun_16 SectorSize i c Chain s = seq (FatPinPages (FatSetFatRun_pages s i c) x) store s"
  unfolding FatSetFatRun_16_def FatSetFatRun_pages_def Let_def by (simp only: if_False simp_thms) blast

lemma FatSetFatRun_32_chunk_pins:
  "vcb_bits s = 32 \<Longrightarrow> \<exists>x store. FatSetFatRun_32_chunk SectorSize i c Chain s = seq (FatPinPages (FatSetFatRun_pages s i c) x) store s"
  unfolding FatSetFatRun_32_chunk_def FatSetFatRun_pages_def Let_def by (simp only: if_True simp_thms) blast

lemma pages_bound:
  assumes "unat y = unat x + d" "unat x + d < 2 ^ 31"
  shows "unat ((y :: ULONG) div PAGE_SIZE - x div PAGE_SIZE + 1) = (unat x + d) div 4096 - unat x div 4096 + 1"
    and "(unat x + d) div 4096 - unat x div 4096 \<le> d div 4096 + 1"
proof -
  have le: "unat x div 4096 \<le> (unat x + d) div 4096" by (rule div_le_mono) simp
  have "x div PAGE_SIZE \<le> y div PAGE_SIZE" using le assms(1) by (simp add: word_le_nat unat_div)
  then have "unat (y div PAGE_SIZE - x div PAGE_SIZE) = (unat x + d) div 4096 - unat x div 4096"
    using assms(1) by (simp add: unat_sub_le unat_div)
  moreover have "(unat x + d) div 4096 < 2 ^ 31" using assms(2) by (meson div_le_dividend le_less_trans)
  ultimately show "unat (y div PAGE_SIZE - x div PAGE_SIZE + 1) = (unat x + d) div 4096 - unat x div 4096 + 1"
    by (subst unat_add_small) simp_all
  show "(unat x + d) div 4096 - unat x div 4096 \<le> d div 4096 + 1" by linarith
qed

text \<open>
  C27: SavedBcbs, on the stack of FatSetFatRun, has room for all pages a run pins and the
  end mark after them: on FAT32 always, because the run is cut into chunks of 65536
  clusters, and on FAT16 when the volume has at most 65536 entries.
\<close>

theorem FatSetFatRun_pages_fit:
  assumes "vcb_ok s" and "cnt \<noteq> 0" and "2 \<le> unat start" and "unat start + unat cnt \<le> vcb_N s + 2"
    and "vcb_bits s = 32 \<or> vcb_bits s = 16 \<and> vcb_N s + 2 \<le> 0x10000"
  shows "FatSetFatRun_pages s start cnt + 1 \<le> COUNTSAVEDBCBS"
proof -
  let ?sz = "if vcb_bits s = 32 then 4 else 2 :: ULONG"
  let ?n = "if vcb_bits s = 32 \<and> cnt > MAXCOUNTCLUS then MAXCOUNTCLUS else cnt"
  let ?x = "FatReservedBytes (Bpb s) + start * ?sz"
  have n: "?n \<noteq> 0" "unat ?n \<le> unat cnt" using assms(2) by (auto simp: word_less_nat)
  have n64: "unat ?n \<le> 0x10000" using assms(4,5) n(2) by (auto simp: word_less_nat)
  have "unat start + unat ?n \<le> vcb_N s + 2" using assms(4) n(2) by linarith
  note rb = run_bounds[OF assms(1) this n(1)]
  have st: "unat start \<le> vcb_N s + 1" using rb(4) assms(4) n(2) by linarith
  have x: "unat ?x = vcb_R s + unat ?sz * unat start"
    using unat_entry_offset(2,3)[OF assms(1) st] assms(5) by auto
  have m: "unat ((?n - 1) * ?sz) = unat ?sz * (unat ?n - 1)"
    using rb(5) n64 by (subst unat_mult_small) auto
  have small: "vcb_R s + unat (FatBytesPerFat (Bpb s)) < 2 ^ 30"
    "unat (vcb_bits s) * (vcb_N s + 2) \<le> 8 * unat (FatBytesPerFat (Bpb s))"
    using assms(1) by (simp_all add: vcb_ok_def fat_fits_def)
  have x30: "unat ?x < 2 ^ 30" unfolding x using small st assms(5) by auto
  have d: "unat ?sz * (unat ?n - 1) \<le> 4 * 0xffff" using n64 by (auto intro: mult_le_mono)
  have y: "unat (?x + (?n - 1) * ?sz) = unat ?x + unat ?sz * (unat ?n - 1)"
    using x30 d by (subst unat_add_small) (simp_all only: m, simp)
  have lt: "unat ?x + unat ?sz * (unat ?n - 1) < 2 ^ 31" using x30 d by simp
  note pb = pages_bound[OF y lt]
  have "unat ?sz * (unat ?n - 1) div 4096 \<le> 63" using d by simp
  then have "FatSetFatRun_pages s start cnt \<le> 65"
    unfolding FatSetFatRun_pages_def Let_def pb(1) using pb(2) by linarith
  then show ?thesis by (simp add: COUNTSAVEDBCBS_def)
qed

theorem FatSetFatRun_pages_fit_witness:
  "FatSetFatRun_pages disk32_vcb 1000 100000 + 1 \<le> COUNTSAVEDBCBS"
  by (rule FatSetFatRun_pages_fit[OF disk32_ok]) (simp_all add: disk32_vcb_def)

text \<open>
  C28: On a FAT16 volume nothing bounds the pages: a boot sector with 60000 sectors per FAT
  passes FatIsBootSectorFat, its volume has 15359998 clusters, and a run of 200000 of them
  makes FatSetFatRun fill 98 elements of SavedBcbs and clear the one after, where the array
  has 66.
\<close>

definition fat16_boot :: mem where
  "fat16_boot = (\<lambda>_. 0)(0 := 0xeb, 12 := 2, 13 := 1, 14 := 1, 16 := 1, 18 := 2,
     21 := 0xf8, 22 := 0x60, 23 := 0xea, 35 := 1)"

theorem FatSetFatRun_pages_overflow:
  "FatIsBootSectorFat False fat16_boot
   \<and> (\<exists>A. FatSetupAllocationSupport_geometry (MountedBpb fat16_boot) = Inr A
        \<and> FatIndexBitSize A = 16 \<and> NumberOfClusters A = 15359998
        \<and> FatSetFatRun_pages (s\<lparr>Bpb := MountedBpb fat16_boot, AllocationSupport := A\<rparr>) 2 200000 = 98
        \<and> \<not> 98 + 1 \<le> COUNTSAVEDBCBS)"
proof -
  have b: "FatIsBootSectorFat False fat16_boot"
    by (simp add: FatIsBootSectorFat_def FatUnpackBios_def fat16_boot_def get16_def get32_def)
  have f: "BytesPerSector (MountedBpb fat16_boot) = 512" "SectorsPerFat (MountedBpb fat16_boot) = 60000"
    "SectorsPerCluster (MountedBpb fat16_boot) = 1" "ReservedSectors (MountedBpb fat16_boot) = 1"
    "FatNumberOfClusters (MountedBpb fat16_boot) = 16717183"
    by (simp_all add: MountedBpb_def FatUnpackBios_def fat16_boot_def get16_def get32_def
      FatNumberOfClusters_def IsBpbFat32_def)
  then have i: "FatIndexBitSize_of (MountedBpb fat16_boot) = 16"
    by (simp add: FatIndexBitSize_of_def IsBpbFat32_def)
  have d: "ClustersDescribableByFat (MountedBpb fat16_boot) = 15359998"
    by (simp add: ClustersDescribableByFat_def i f)
  obtain A where A: "FatSetupAllocationSupport_geometry (MountedBpb fat16_boot) = Inr A"
    using geometry_logs[OF b] by blast
  then have "FatIndexBitSize A = 16 \<and> NumberOfClusters A = 15359998"
    by (auto simp: FatSetupAllocationSupport_geometry_def i f d split: sum.splits)
  then show ?thesis using A b
    by (auto simp: FatSetFatRun_pages_def COUNTSAVEDBCBS_def FatReservedBytes_def f)
qed

lemma vcb_N_28: "vcb_ok s \<Longrightarrow> vcb_N s + 2 < 2 ^ 28"
proof -
  assume ok: "vcb_ok s"
  have "unat (vcb_bits s) * (vcb_N s + 2) \<le> 8 * unat (FatBytesPerFat (Bpb s))" "unat (FatBytesPerFat (Bpb s)) < 2 ^ 29"
    using ok by (simp_all add: vcb_ok_def fat_fits_def)
  with vcb_bits_cases[OF ok] vcb_N_bounds(2)[OF ok] show ?thesis by (cases; simp)
qed

text \<open>
  C29: The FAT32 unwind of FatSetFatRun does not give the entries back: when the run was
  being linked, and the entries were free before, it writes the links a second time, and
  when the run was being freed it writes free entries, in both cases the values the run
  itself had stored.
\<close>

theorem FatSetFatRun_unwind_keeps_run:
  assumes "vcb_ok s" and "2 + n \<le> unat cur" and "unat cur \<le> vcb_N s + 2"
    and "FatSetFatRun_unwind n cur Chain s = (Inr (), t)" and "index_ok s j"
  shows "FatEntryOf t j =
     (if unat cur - n \<le> unat j \<and> unat j < unat cur
      then take_bit (fat_vwidth (vcb_bits s)) (if Chain then j + 1 else FAT_CLUSTER_AVAILABLE)
      else FatEntryOf s j)"
  using assms
proof (induction n arbitrary: cur s)
  case 0
  have "t = s" using 0(4) by simp
  moreover have "\<not> (unat cur - 0 \<le> unat j \<and> unat j < unat cur)" by simp
  ultimately show ?case by (simp only: if_False)
next
  case (Suc n)
  let ?i = "cur - 1" and ?v = "if Chain then cur - 1 + 1 else FAT_CLUSTER_AVAILABLE"
  have "(1::ULONG) \<le> cur" using Suc.prems(2) by (simp add: word_le_nat)
  then have ui: "unat ?i = unat cur - 1" by (simp add: unat_sub_le)
  have i: "index_ok s ?i" unfolding index_ok_def ui using Suc.prems(2,3) by arith
  have i1: "?i \<noteq> FAT_DIRTY_BIT_INDEX" using i by (auto simp: index_ok_def)
  obtain s1 where set: "FatSetFatEntry ?i ?v s = (Inr (), s1)"
    and rest: "FatSetFatRun_unwind n ?i Chain s1 = (Inr (), t)"
    using Suc.prems(4) by (auto simp: seq_eq_Inr)
  have o: "set_outcome s (fat_set (vcb_bits s) (vcb_R s) (VolumeFile s) ?i ?v)
        (store_calls (vcb_bits s) (MCB_SCALE_LOG2 s) (vcb_R s) ?i) False True (Inr ()) s1"
    using FatSetFatEntry_cluster[OF Suc.prems(1) i1 set] by simp
  note f = set_outcome_frame[OF o]
  have v: "?v AND NOT FAT32_ENTRY_MASK = 0"
  proof -
    have "unat cur < 2 ^ 28" using vcb_N_28[OF Suc.prems(1)] Suc.prems(3) by linarith
    then show ?thesis using small_and_NOT_mask[of cur 28] unfolding fat32_mask by simp
  qed
  have IH: "FatEntryOf t j =
     (if unat ?i - n \<le> unat j \<and> unat j < unat ?i
      then take_bit (fat_vwidth (vcb_bits s1)) (if Chain then j + 1 else FAT_CLUSTER_AVAILABLE)
      else FatEntryOf s1 j)"
  proof (rule Suc.IH[OF _ _ _ rest])
    show "vcb_ok s1" "index_ok s1 j" using f(13,14) Suc.prems(1,5) by simp_all
    show "2 + n \<le> unat ?i" using Suc.prems(2) ui by simp
    show "unat ?i \<le> vcb_N s1 + 2" using Suc.prems(3) ui f(2) by simp
  qed
  have here: "FatEntryOf s1 j = (if ?i = j then take_bit (fat_vwidth (vcb_bits s)) ?v else FatEntryOf s j)"
    by (rule FatEntryOf_after_set[OF Suc.prems(1) i Suc.prems(5) v o])
  have eq: "?i = j \<longleftrightarrow> unat j = unat cur - 1" using ui by (auto simp: word_unat_eq_iff)
  consider "unat j = unat cur - 1" | "unat cur - 1 - n \<le> unat j" "unat j < unat cur - 1"
    | "\<not> (unat cur - Suc n \<le> unat j \<and> unat j < unat cur)" by linarith
  then show ?case
  proof cases
    case 1
    then have "unat cur - Suc n \<le> unat j \<and> unat j < unat cur" using Suc.prems(2) by arith
    moreover have "\<not> (unat ?i - n \<le> unat j \<and> unat j < unat ?i)" using 1 ui by arith
    moreover have "?i = j" using 1 eq by simp
    ultimately show ?thesis using IH here by (simp only: if_True if_False refl) auto
  next
    case 2
    then have "unat cur - Suc n \<le> unat j \<and> unat j < unat cur" "unat ?i - n \<le> unat j \<and> unat j < unat ?i"
      using Suc.prems(2) ui by arith+
    then show ?thesis using IH f(2) by (simp only: if_True simp_thms)
  next
    case 3
    then have "\<not> (unat ?i - n \<le> unat j \<and> unat j < unat ?i)" "?i \<noteq> j"
      using Suc.prems(2) ui eq by arith+
    then show ?thesis using 3 IH here by (simp only: if_False simp_thms)
  qed
qed

theorem FatSetFatRun_unwind_keeps_run_witness:
  "\<exists>t. FatSetFatRun_unwind 1 11 True disk32_vcb = (Inr (), t) \<and> FatEntryOf t 10 = 11"
proof -
  obtain r s1 where run: "FatSetFatEntry 10 11 disk32_vcb = (r, s1)" by force
  have i: "index_ok disk32_vcb 10" and k: "KernelResults disk32_vcb = []" and b: "vcb_bits disk32_vcb = 32"
    and N: "vcb_N disk32_vcb = 130000"
    by (simp_all add: index_ok_def disk32_vcb_def)
  obtain M calls where "set_outcome disk32_vcb M calls False True r s1"
    using FatSetFatEntry_cluster[OF disk32_ok _ run] i by auto
  then have "r = Inr ()" by (rule kres_total[OF k])
  then have u: "FatSetFatRun_unwind 1 11 True disk32_vcb = (Inr (), s1)"
    using run by (simp add: seq_def)
  have "FatEntryOf s1 10 = take_bit 28 11"
    using FatSetFatRun_unwind_keeps_run[OF disk32_ok _ _ u i] N b by (simp add: fat_vwidth_def)
  then have "FatEntryOf s1 10 = 11" using take_bit_small[of 11 28] by simp
  with u show ?thesis by blast
qed

text \<open>
  C31: The bound of 4087 clusters below which a volume is FAT12 is too large: a volume with
  4086 clusters passes the boot sector check and gets a 12-bit FAT, in which the number of
  its last cluster, 4087, is the mark of a bad cluster, so that a link to that cluster is
  not read as a link.
\<close>

definition fat12_boot :: mem where
  "fat12_boot = (\<lambda>_. 0)(0 := 0xeb, 12 := 2, 13 := 1, 14 := 1, 16 := 2, 17 := 224,
     19 := 0x1d, 20 := 0x10, 21 := 0xf0, 22 := 12)"

theorem FatIndexBitSize_reserved_clusters:
  "FatIsBootSectorFat False fat12_boot
   \<and> (\<exists>A. FatSetupAllocationSupport_geometry (MountedBpb fat12_boot) = Inr A
        \<and> FatIndexBitSize A = 12 \<and> NumberOfClusters A = 4086
        \<and> FatVerifyIndexIsValid 4087 (s\<lparr>AllocationSupport := A\<rparr>) = (Inr (), s\<lparr>AllocationSupport := A\<rparr>)
        \<and> FatInterpretClusterType (s\<lparr>AllocationSupport := A\<rparr>) 4087 = FatClusterBad)"
proof -
  have b: "FatIsBootSectorFat False fat12_boot"
    by (simp add: FatIsBootSectorFat_def FatUnpackBios_def fat12_boot_def get16_def get32_def)
  have f: "BytesPerSector (MountedBpb fat12_boot) = 512" "SectorsPerFat (MountedBpb fat12_boot) = 12"
    "FatNumberOfClusters (MountedBpb fat12_boot) = 4086"
    by (simp_all add: MountedBpb_def FatUnpackBios_def fat12_boot_def get16_def get32_def
      FatNumberOfClusters_def IsBpbFat32_def)
  then have i: "FatIndexBitSize_of (MountedBpb fat12_boot) = 12"
    by (simp add: FatIndexBitSize_of_def IsBpbFat32_def)
  have d: "ClustersDescribableByFat (MountedBpb fat12_boot) = 4094"
    by (simp add: ClustersDescribableByFat_def i f)
  obtain A where A: "FatSetupAllocationSupport_geometry (MountedBpb fat12_boot) = Inr A"
    using geometry_logs[OF b] by blast
  then have "FatIndexBitSize A = 12 \<and> NumberOfClusters A = 4086"
    by (auto simp: FatSetupAllocationSupport_geometry_def i f d split: sum.splits)
  then show ?thesis using A b
    by (auto simp: FatVerifyIndexIsValid_def FatInterpretClusterType_def)
qed

end
