(* ===== verification/FatWindow.thy ===== *)
theory FatWindow
  imports FatRun
begin

text \<open>
  The free cluster bitmap and the windows it is laid over (allocsup.c): the run-time
  library's bitmap operations, reservation of clusters with the allocation hint and
  FatSelectBestWindow.
\<close>

section \<open>Raises\<close>

text \<open>
  \<open>out_ok R s (r, t)\<close>: from state \<open>s\<close> an operation reached \<open>t\<close>, which \<open>R\<close> relates to \<open>s\<close>, and
  a status it raised was raised by a call into the kernel.
\<close>

fun out_ok :: "(VCB \<Rightarrow> VCB \<Rightarrow> bool) \<Rightarrow> VCB \<Rightarrow> (ntstatus + 'a) \<times> VCB \<Rightarrow> bool" where
  "out_ok R s (r, t) \<longleftrightarrow> R s t \<and> set (KernelResults t) \<subseteq> set (KernelResults s)
     \<and> (\<forall>e. r = Inl e \<longrightarrow> Some e \<in> set (KernelResults s))"

definition frame_rel :: "(VCB \<Rightarrow> VCB \<Rightarrow> bool) \<Rightarrow> bool" where
  "frame_rel R \<longleftrightarrow> reflp R \<and> transp R \<and> (\<forall>s K. R s (s\<lparr>KernelResults := K\<rparr>))"

lemma frame_relD: "frame_rel R \<Longrightarrow> R s s" "frame_rel R \<Longrightarrow> R s t \<Longrightarrow> R t u \<Longrightarrow> R s u"
  "frame_rel R \<Longrightarrow> R s (s\<lparr>KernelResults := K\<rparr>)"
  unfolding frame_rel_def by (auto dest: reflpD transpD)

lemma out_ok_seq:
  assumes "frame_rel R" "out_ok R s (m s)" "\<And>x t. m s = (Inr x, t) \<Longrightarrow> out_ok R t (k x t)"
  shows "out_ok R s (seq m k s)"
proof -
  obtain r t where 1: "m s = (r, t)" by force
  show ?thesis
  proof (cases r)
    case (Inr x)
    obtain r' u where 2: "k x t = (r', u)" by force
    show ?thesis using assms(2) assms(3)[of x t] 1 2 Inr frame_relD(2)[OF assms(1), of s t u] by (auto simp: seq_def)
  qed (use assms(2) 1 in \<open>auto simp: seq_def\<close>)
qed

lemma out_ok_Inr: "R s t \<Longrightarrow> KernelResults t = KernelResults s \<Longrightarrow> out_ok R s (Inr x, t)"
  by simp

lemma out_ok_ret: "frame_rel R \<Longrightarrow> out_ok R s (ret x s)"
  by (simp add: frame_relD)

lemma out_ok_KernelCall: "frame_rel R \<Longrightarrow> out_ok R s (KernelCall s)"
  by (auto simp: KernelCall_eq frame_relD dest: set_tl kres_Inl)

lemma out_ok_ReadVolumeFile: "frame_rel R \<Longrightarrow> out_ok R s (FatReadVolumeFile v n s)"
  unfolding FatReadVolumeFile_def by (intro out_ok_seq out_ok_KernelCall out_ok_ret)

lemma out_ok_for_op:
  "frame_rel R \<Longrightarrow> (\<And>i x s. out_ok R s (f i x s)) \<Longrightarrow> out_ok R s (for_op n f i x s)"
  by (induction n arbitrary: i x s) (auto intro!: out_ok_seq out_ok_ret simp: frame_relD)

section \<open>Bitmaps\<close>

text \<open>
  A bitmap is the list of its bits. RtlFindClearBits is a parameter of the operations that
  use it; \<open>find_clear_ok\<close> is what its documentation promises: the start of a run of clear
  bits inside the bitmap, or -1, and then there is no such run.
\<close>

abbreviation BITMAP_NOT_FOUND :: ULONG where
  "BITMAP_NOT_FOUND \<equiv> -1"

definition RtlCheckBit :: "bool list \<Rightarrow> ULONG \<Rightarrow> bool" where
  "RtlCheckBit BitMap BitNumber = BitMap ! unat BitNumber"

definition RtlFillBits :: "bool \<Rightarrow> bool list \<Rightarrow> ULONG \<Rightarrow> ULONG \<Rightarrow> bool list" where
  "RtlFillBits b BitMap StartingIndex NumberToSet =
     map (\<lambda>i. if unat StartingIndex \<le> i \<and> i < unat StartingIndex + unat NumberToSet then b else BitMap ! i)
       [0..<length BitMap]"

abbreviation "RtlSetBits \<equiv> RtlFillBits True"
abbreviation "RtlClearBits \<equiv> RtlFillBits False"

definition clear_run :: "bool list \<Rightarrow> nat \<Rightarrow> nat \<Rightarrow> bool" where
  "clear_run bm i n \<longleftrightarrow> i + n \<le> length bm \<and> (\<forall>j<n. \<not> bm ! (i + j))"

type_synonym find_clear_bits = "bool list \<Rightarrow> ULONG \<Rightarrow> ULONG \<Rightarrow> ULONG"

definition find_clear_ok :: "find_clear_bits \<Rightarrow> bool" where
  "find_clear_ok RtlFindClearBits \<longleftrightarrow>
     (\<forall>bm n hint. 0 < n \<and> length bm < 2 ^ 32 - 1 \<longrightarrow>
        (let r = RtlFindClearBits bm n hint
         in if r = BITMAP_NOT_FOUND then \<forall>i. \<not> clear_run bm i (unat n)
            else clear_run bm (unat r) (unat n)))"

section \<open>Reserving clusters\<close>

definition FatIsClusterFree :: "VCB \<Rightarrow> ULONG \<Rightarrow> bool" where
  "FatIsClusterFree s FAT_INDEX \<longleftrightarrow> \<not> RtlCheckBit (FreeClusterBitMap s) (FAT_INDEX - 2)"

definition FatUnreserveClusters :: "ULONG \<Rightarrow> ULONG \<Rightarrow> VCB \<Rightarrow> VCB" where
  "FatUnreserveClusters FAT_INDEX CLUSTER_COUNT s =
     s\<lparr>FreeClusterBitMap := RtlClearBits (FreeClusterBitMap s) (FAT_INDEX - 2) CLUSTER_COUNT,
       ClusterHint := (if FAT_INDEX < ClusterHint s then FAT_INDEX else ClusterHint s)\<rparr>"

definition FatReserveClusters :: "find_clear_bits \<Rightarrow> ULONG \<Rightarrow> ULONG \<Rightarrow> VCB \<Rightarrow> VCB" where
  "FatReserveClusters RtlFindClearBits FAT_INDEX CLUSTER_COUNT s =
     (let bm = RtlSetBits (FreeClusterBitMap s) (FAT_INDEX - 2) CLUSTER_COUNT;
          AfterRun0 = FAT_INDEX + CLUSTER_COUNT;
          AfterRun = (if AfterRun0 - 2 \<ge> of_nat (length bm) then 2 else AfterRun0)
      in s\<lparr>FreeClusterBitMap := bm,
           ClusterHint :=
             (if RtlCheckBit bm (AfterRun - 2)
              then (let h = RtlFindClearBits bm 1 (AfterRun - 2) + 2 in if h = 1 then 2 else h)
              else AfterRun)\<rparr>)"

definition FatFindFreeClusterRun :: "find_clear_bits \<Rightarrow> VCB \<Rightarrow> ULONG \<Rightarrow> ULONG \<Rightarrow> ULONG" where
  "FatFindFreeClusterRun RtlFindClearBits s CLUSTER_COUNT CLUSTER_HINT =
     (if CLUSTER_COUNT = 1 \<and> FatIsClusterFree s CLUSTER_HINT then CLUSTER_HINT
      else RtlFindClearBits (FreeClusterBitMap s) CLUSTER_COUNT (CLUSTER_HINT - 2) + 2)"

section \<open>The best window\<close>

abbreviation MAX_CLUSTER_BITMAP_SIZE :: ULONG where
  "MAX_CLUSTER_BITMAP_SIZE \<equiv> 0x10000"

definition FatWindowOfCluster :: "ULONG \<Rightarrow> ULONG" where
  "FatWindowOfCluster C = (C - 2) div MAX_CLUSTER_BITMAP_SIZE"

text \<open>The loop over the \<open>n\<close> windows from \<open>i\<close> on; the answer is (Fave, MaxFree, FirstEmpty) when it is left.\<close>

fun FatSelectBestWindow_loop ::
  "FAT_WINDOW list \<Rightarrow> ULONG \<Rightarrow> ULONG \<Rightarrow> ULONG \<Rightarrow> ULONG \<Rightarrow> ULONG \<times> ULONG \<times> ULONG" where
  "FatSelectBestWindow_loop [] i Fave MaxFree FirstEmpty = (Fave, MaxFree, FirstEmpty)"
| "FatSelectBestWindow_loop (W # Ws) i Fave MaxFree FirstEmpty =
     (if ClustersFree W = MAX_CLUSTER_BITMAP_SIZE
      then FatSelectBestWindow_loop Ws (i + 1) Fave MaxFree (if FirstEmpty = -1 then i else FirstEmpty)
      else if ClustersFree W > MaxFree
      then (if ClustersFree W \<ge> drop_bit 1 MAX_CLUSTER_BITMAP_SIZE then (i, ClustersFree W, FirstEmpty)
            else FatSelectBestWindow_loop Ws (i + 1) i (ClustersFree W) FirstEmpty)
      else FatSelectBestWindow_loop Ws (i + 1) Fave MaxFree FirstEmpty)"

definition FatSelectBestWindow :: "VCB \<Rightarrow> ULONG" where
  "FatSelectBestWindow s =
     (let (Fave, MaxFree, FirstEmpty) =
        FatSelectBestWindow_loop (take (unat (NumberOfWindows s)) (Windows s)) 0 0 0 (-1)
      in if MaxFree < drop_bit 1 MAX_CLUSTER_BITMAP_SIZE \<and> FirstEmpty \<noteq> -1 then FirstEmpty else Fave)"

section \<open>The choice of a window\<close>

text \<open>
  The reference: the first window at least half free that is not empty, otherwise the first
  empty one, otherwise the first with the most free clusters.
\<close>

primrec first_index :: "('a \<Rightarrow> bool) \<Rightarrow> 'a list \<Rightarrow> nat option" where
  "first_index P [] = None"
| "first_index P (x # xs) = (if P x then Some 0 else map_option Suc (first_index P xs))"

lemma first_index_None: "first_index P xs = None \<longleftrightarrow> (\<forall>x\<in>set xs. \<not> P x)"
  by (induction xs) auto

lemma first_index_Some: "first_index P xs = Some k \<Longrightarrow> k < length xs \<and> P (xs ! k) \<and> (\<forall>j<k. \<not> P (xs ! j))"
  by (induction xs arbitrary: k) (auto split: if_splits simp: nth_Cons less_Suc_eq_0_disj split: nat.split)

definition best_window :: "nat list \<Rightarrow> nat" where
  "best_window fs =
     (case first_index (\<lambda>f. 0x8000 \<le> f \<and> f \<noteq> 0x10000) fs of Some i \<Rightarrow> i
      | None \<Rightarrow> (case first_index (\<lambda>f. f = 0x10000) fs of Some i \<Rightarrow> i
               | None \<Rightarrow> the (first_index (\<lambda>f. f = fold max fs 0) fs)))"

abbreviation frees :: "FAT_WINDOW list \<Rightarrow> nat list" where
  "frees Ws \<equiv> map (\<lambda>W. unat (ClustersFree W)) Ws"

lemma unat_eq_65536: "unat (c :: ULONG) = 0x10000 \<longleftrightarrow> c = 0x10000"
proof -
  have "unat (0x10000 :: ULONG) = 0x10000" by simp
  then show ?thesis by (metis word_unat_eq_iff)
qed

lemma unat_ne_minus_1: "unat (i :: ULONG) < 2 ^ 32 - 1 \<Longrightarrow> i \<noteq> -1"
  by (auto simp: unsigned_minus_1_eq_mask mask_eq_exp_minus_1)

lemma half_window: "drop_bit 1 (0x10000 :: ULONG) = 0x8000"
  by (rule bit_word_eqI) (simp add: bit_simps)

lemmas FatSelectBestWindow_loop_Cons [simp] = FatSelectBestWindow_loop.simps(2)[unfolded half_window]
declare FatSelectBestWindow_loop.simps(2) [simp del]

lemma FatSelectBestWindow_loop_half:
  "first_index (\<lambda>f. 0x8000 \<le> f \<and> f \<noteq> 0x10000) (frees Ws) = Some k \<Longrightarrow> M < 0x8000 \<Longrightarrow>
   \<exists>M' E'. FatSelectBestWindow_loop Ws i F M E = (i + of_nat k, M', E') \<and> 0x8000 \<le> M'"
proof (induction Ws arbitrary: i F M E k)
  case (Cons W Ws)
  show ?case
  proof (cases "0x8000 \<le> ClustersFree W \<and> ClustersFree W \<noteq> 0x10000")
    case True
    with Cons.prems show ?thesis by (auto simp: word_le_nat word_less_nat unat_eq_65536)
  next
    case False
    with Cons.prems(1) obtain j where j: "k = Suc j"
      "first_index (\<lambda>f. 0x8000 \<le> f \<and> f \<noteq> 0x10000) (frees Ws) = Some j"
      by (auto simp: word_le_nat unat_eq_65536)
    have "M < ClustersFree W \<Longrightarrow> ClustersFree W \<noteq> 0x10000 \<Longrightarrow> ClustersFree W < 0x8000" using False by auto
    then show ?thesis
      using False Cons.IH[OF j(2) Cons.prems(2), of "i + 1"] Cons.IH[OF j(2), of "ClustersFree W" "i + 1"] j(1)
      by (auto simp: algebra_simps)
  qed
qed simp

lemma FatSelectBestWindow_loop_step:
  "ClustersFree W = 0x10000 \<Longrightarrow> FatSelectBestWindow_loop (W # Ws) i F M E =
     FatSelectBestWindow_loop Ws (i + 1) F M (if E = -1 then i else E)"
  "ClustersFree W < 0x8000 \<Longrightarrow> FatSelectBestWindow_loop (W # Ws) i F M E =
     (if M < ClustersFree W then FatSelectBestWindow_loop Ws (i + 1) i (ClustersFree W) E
      else FatSelectBestWindow_loop Ws (i + 1) F M E)"
  by auto

lemma FatSelectBestWindow_loop_empty:
  "unat i + length Ws < 2 ^ 32 \<Longrightarrow> \<forall>W\<in>set Ws. ClustersFree W = 0x10000 \<or> ClustersFree W < 0x8000 \<Longrightarrow> M < 0x8000 \<Longrightarrow>
   \<exists>F' M'. M' < 0x8000 \<and> FatSelectBestWindow_loop Ws i F M E = (F', M',
     if E \<noteq> -1 then E else case first_index (\<lambda>f. f = 0x10000) (frees Ws) of None \<Rightarrow> -1 | Some k \<Rightarrow> i + of_nat k)"
proof (induction Ws arbitrary: i F M E)
  case (Cons W Ws)
  have i1: "unat (i + 1) + length Ws < 2 ^ 32" using Cons.prems(1) by (subst unat_add_small) simp_all
  have ne: "i \<noteq> -1" using Cons.prems(1) by (intro unat_ne_minus_1) simp
  have rest: "\<forall>W\<in>set Ws. ClustersFree W = 0x10000 \<or> ClustersFree W < 0x8000" using Cons.prems(2) by simp
  note IH = Cons.IH[OF i1 rest]
  from Cons.prems(2) consider "ClustersFree W = 0x10000" | "ClustersFree W < 0x8000" by auto
  then show ?case
  proof cases
    case 1
    obtain F' M' where "M' < 0x8000" "FatSelectBestWindow_loop Ws (i + 1) F M (if E = -1 then i else E) =
        (F', M', if E = -1 then i else E)"
      using IH[OF Cons.prems(3), of F "if E = -1 then i else E"] ne by auto
    then show ?thesis using 1 ne
      by (simp only: FatSelectBestWindow_loop_step(1)) (auto simp: unat_eq_65536)
  next
    case 2
    obtain m F1 where m: "FatSelectBestWindow_loop (W # Ws) i F M E = FatSelectBestWindow_loop Ws (i + 1) F1 m E"
      "m < 0x8000"
      using 2 Cons.prems(3) FatSelectBestWindow_loop_step(2)[of W Ws i F M E] by metis
    have "ClustersFree W \<noteq> 0x10000" using 2 by auto
    then show ?thesis unfolding m(1) using IH[OF m(2), of F1 E]
      by (auto simp: unat_eq_65536 algebra_simps split: option.split)
  qed
qed simp

lemma FatSelectBestWindow_loop_max:
  "\<forall>f\<in>set (frees Ws). f < 0x8000 \<Longrightarrow>
   (\<forall>f\<in>set (frees Ws). f \<le> unat M) \<and> FatSelectBestWindow_loop Ws i F M E = (F, M, E) \<or>
   (\<exists>k M'. first_index (\<lambda>f. f = unat M') (frees Ws) = Some k \<and> M < M' \<and> (\<forall>f\<in>set (frees Ws). f \<le> unat M') \<and>
      FatSelectBestWindow_loop Ws i F M E = (i + of_nat k, M', E))"
proof (induction Ws arbitrary: i F M)
  case (Cons W Ws)
  have ne: "ClustersFree W \<noteq> 0x10000" and lt: "ClustersFree W < 0x8000"
    using Cons.prems by (auto simp: word_less_nat)
  have step: "FatSelectBestWindow_loop (W # Ws) i F M E =
      (if M < ClustersFree W then FatSelectBestWindow_loop Ws (i + 1) i (ClustersFree W) E
       else FatSelectBestWindow_loop Ws (i + 1) F M E)"
    using lt by (rule FatSelectBestWindow_loop_step(2))
  have small: "\<forall>f\<in>set (frees Ws). f < 0x8000" using Cons.prems by simp
  define m where "m = (if M < ClustersFree W then ClustersFree W else M)"
  define F' where "F' = (if M < ClustersFree W then i else F)"
  have eq: "FatSelectBestWindow_loop (W # Ws) i F M E = FatSelectBestWindow_loop Ws (i + 1) F' m E"
    unfolding step m_def F'_def by simp
  have m: "unat (ClustersFree W) \<le> unat m" "unat M \<le> unat m"
    by (auto simp: m_def word_less_nat)
  from Cons.IH[OF small, of m "i + 1" F'] show ?case
  proof (elim disjE exE conjE)
    assume *: "\<forall>f\<in>set (frees Ws). f \<le> unat m" "FatSelectBestWindow_loop Ws (i + 1) F' m E = (F', m, E)"
    show ?thesis
    proof (cases "M < ClustersFree W")
      case True
      with * eq show ?thesis
        by (intro disjI2 exI[of _ 0] exI[of _ m]) (simp add: m_def F'_def)
    next
      case False
      with * eq show ?thesis by (simp add: m_def F'_def word_less_nat)
    qed
  next
    fix k M' assume *: "first_index (\<lambda>f. f = unat M') (frees Ws) = Some k" "m < M'"
      "\<forall>f\<in>set (frees Ws). f \<le> unat M'"
      "FatSelectBestWindow_loop Ws (i + 1) F' m E = (i + 1 + of_nat k, M', E)"
    with eq m show ?thesis
      by (intro disjI2 exI[of _ "Suc k"] exI[of _ M']) (auto simp: word_less_nat algebra_simps)
  qed
qed simp

lemma fold_max_eq: "\<forall>f\<in>set fs. f \<le> m \<Longrightarrow> m \<in> set fs \<Longrightarrow> fold max fs 0 = (m :: nat)"
proof -
  assume le: "\<forall>f\<in>set fs. f \<le> m" and m: "m \<in> set fs"
  have "fold max fs 0 = Max (set (0 # fs))" by (simp only: Max.set_eq_fold)
  also have "\<dots> = m" using le m by (intro Max_eqI) auto
  finally show ?thesis .
qed

lemma FatSelectBestWindow_eq:
  assumes n: "0 < length (Windows s)" "length (Windows s) < 2 ^ 32" "unat (NumberOfWindows s) = length (Windows s)"
    and le: "\<forall>W\<in>set (Windows s). ClustersFree W \<le> MAX_CLUSTER_BITMAP_SIZE"
  shows "FatSelectBestWindow s = of_nat (best_window (map (\<lambda>W. unat (ClustersFree W)) (Windows s)))"
proof (cases "first_index (\<lambda>f. 0x8000 \<le> f \<and> f \<noteq> 0x10000) (frees (Windows s))")
  case (Some k)
  then obtain M' E' where "FatSelectBestWindow_loop (Windows s) 0 0 0 (-1) = (of_nat k, M', E')" "0x8000 \<le> M'"
    using FatSelectBestWindow_loop_half[OF Some, of 0 0 0 "-1"] by auto
  with Some n show ?thesis by (auto simp: FatSelectBestWindow_def best_window_def half_window)
next
  case None
  have cases: "ClustersFree W = 0x10000 \<or> ClustersFree W < 0x8000" if "W \<in> set (Windows s)" for W
  proof -
    have "\<not> (0x8000 \<le> unat (ClustersFree W) \<and> unat (ClustersFree W) \<noteq> 0x10000)"
      using None that by (auto simp: first_index_None)
    then show ?thesis by (auto simp: unat_eq_65536 word_less_nat)
  qed
  obtain F' M' where e: "M' < 0x8000" "FatSelectBestWindow_loop (Windows s) 0 0 0 (-1) = (F', M',
      case first_index (\<lambda>f. f = 0x10000) (frees (Windows s)) of None \<Rightarrow> -1 | Some k \<Rightarrow> of_nat k)"
    using FatSelectBestWindow_loop_empty[of 0 "Windows s" 0 0 "-1"] n(2) cases by (auto split: option.splits)
  show ?thesis
  proof (cases "first_index (\<lambda>f. f = 0x10000) (frees (Windows s))")
    case (Some k)
    then have "k < 2 ^ 32 - 1" using first_index_Some[OF Some] n(2) by simp
    then have "(of_nat k :: ULONG) \<noteq> -1" by (intro unat_ne_minus_1) (simp add: unat_of_nat_small)
    with Some e n None show ?thesis by (auto simp: FatSelectBestWindow_def best_window_def half_window)
  next
    case none: None
    have small: "\<forall>f\<in>set (frees (Windows s)). f < 0x8000"
      using cases none by (fastforce simp: first_index_None unat_eq_65536 word_less_nat)
    have ne: "frees (Windows s) \<noteq> []" using n(1) by auto
    from FatSelectBestWindow_loop_max[OF small, of 0 0 0 "-1"]
    have "F' = of_nat (the (first_index (\<lambda>f. f = fold max (frees (Windows s)) 0) (frees (Windows s))))"
    proof (elim disjE exE conjE)
      assume "\<forall>f\<in>set (frees (Windows s)). f \<le> unat (0 :: ULONG)"
        and l: "FatSelectBestWindow_loop (Windows s) 0 0 0 (-1) = (0, 0, -1)"
      then have z: "\<forall>f\<in>set (frees (Windows s)). f = 0" by simp
      then have "fold max (frees (Windows s)) 0 = 0" using fold_max_eq[of "frees (Windows s)" 0] ne
        by (metis le0 list.set_sel(1) order_refl)
      moreover have "first_index (\<lambda>f. f = 0) (frees (Windows s)) = Some 0"
        using z ne by (cases "Windows s") auto
      ultimately show ?thesis using l e(2) by simp
    next
      fix k m assume k: "first_index (\<lambda>f. f = unat m) (frees (Windows s)) = Some k"
        "\<forall>f\<in>set (frees (Windows s)). f \<le> unat m"
        "FatSelectBestWindow_loop (Windows s) 0 0 0 (-1) = (0 + of_nat k, m, -1)"
      have "unat m \<in> set (frees (Windows s))" using first_index_Some[OF k(1)] by (metis length_map nth_mem)
      then have "fold max (frees (Windows s)) 0 = unat m" using k(2) by (rule fold_max_eq[rotated])
      then show ?thesis using k e(2) by simp
    qed
    then show ?thesis using e none None n by (simp add: FatSelectBestWindow_def best_window_def half_window)
  qed
qed

text \<open>
  C17: the loop that chooses the window to allocate from computes the reference choice: the
  first window that is at least half free and not entirely free; when there is none, the first
  entirely free one; and when there is none either, the first with the most free clusters.
\<close>

theorem FatSelectBestWindow_correct:
  assumes "0 < length (Windows s)" "length (Windows s) < 2 ^ 32" "unat (NumberOfWindows s) = length (Windows s)"
    and "\<forall>W\<in>set (Windows s). ClustersFree W \<le> MAX_CLUSTER_BITMAP_SIZE"
  shows "FatSelectBestWindow s = of_nat (best_window (map (\<lambda>W. unat (ClustersFree W)) (Windows s)))"
  using assms by (rule FatSelectBestWindow_eq)

theorem FatSelectBestWindow_correct_witness:
  "\<exists>s. map ClustersFree (Windows s) = [0x10000, 17, 0x8000, 0x9000] \<and> FatSelectBestWindow s = 2"
proof -
  define s where "s = floppy_vcb\<lparr>Windows := map (\<lambda>n. \<lparr>FirstCluster = 0, LastCluster = 0, ClustersFree = n\<rparr>)
      [0x10000, 17, 0x8000, 0x9000], NumberOfWindows := 4\<rparr>"
  have "FatSelectBestWindow s = of_nat (best_window (map (\<lambda>W. unat (ClustersFree W)) (Windows s)))"
    by (rule FatSelectBestWindow_correct) (simp_all add: s_def)
  then show ?thesis by (intro exI[of _ s]) (simp add: s_def best_window_def)
qed

end
