(* ===== verification/FatScan.thy ===== *)
theory FatScan
  imports FatWindow
begin

text \<open>
  FatExamineFatEntries (allocsup.c), which scans a part of the FAT into a bitmap and into the
  windows' counts, the rest of FatSetupAllocationSupport and FatTearDownAllocationSupport.
\<close>

section \<open>Scanning the FAT\<close>

text \<open>
  The locals of FatExamineFatEntries that its loop updates. \<open>FatBuffer\<close> is the pointer into
  the mapped page (the offset in the volume file of the byte it addresses; mapped pages
  are page aligned, so that its low bits are those of the offset), \<open>ExamineWindow\<close> the
  index of CurrentWindow, and \<open>BitMap\<close> the private bitmap, None for a null pointer.
\<close>

datatype RunType = FreeClusters | AllocatedClusters | UnknownClusters

record EXAMINE =
  FatBuffer :: nat
  ExamineOffset :: ULONG
  ExamineEntry :: ULONG
  StartIndexOfThisRun :: ULONG
  CurrentRun :: RunType
  ExamineWindow :: nat
  BitMap :: "bool list option"
  BadClusterVbo :: VBO

definition FatUpdateWindow :: "nat \<Rightarrow> (FAT_WINDOW \<Rightarrow> FAT_WINDOW) \<Rightarrow> VCB \<Rightarrow> VCB" where
  "FatUpdateWindow w f s = s\<lparr>Windows := (Windows s)[w := f (Windows s ! w)]\<rparr>"

text \<open>\<open>*FreeClusterCount += n; CurrentWindow->ClustersFree += n\<close>, where \<open>FreeClusterCount\<close> says whether the pointer is not null.\<close>

definition FatCountFreeRun :: "bool \<Rightarrow> nat \<Rightarrow> ULONG \<Rightarrow> VCB \<Rightarrow> VCB" where
  "FatCountFreeRun FreeClusterCount w n s =
     (if FreeClusterCount
      then FatUpdateWindow w (\<lambda>W. W\<lparr>ClustersFree := ClustersFree W + n\<rparr>)
             (s\<lparr>AllocationSupport := (AllocationSupport s)
                  \<lparr>NumberOfFreeClusters := NumberOfFreeClusters (AllocationSupport s) + n\<rparr>\<rparr>)
      else s)"

text \<open>A new bucket during window setup: the window is finished and the next one started.\<close>

definition FatExamine_bucket :: "bool \<Rightarrow> ULONG \<Rightarrow> ULONG \<Rightarrow> ULONG \<Rightarrow> EXAMINE \<Rightarrow> (VCB, EXAMINE) fat_op" where
  "FatExamine_bucket SetupWindows StartIndex EntriesPerWindow FatIndex L s =
     (if SetupWindows \<and> FatIndex > StartIndex \<and> (FatIndex - 2) mod EntriesPerWindow = 0
      then let w = ExamineWindow L;
               s1 = FatUpdateWindow w (\<lambda>W. W\<lparr>LastCluster := FatIndex - 1\<rparr>) s;
               s2 = (if CurrentRun L = FreeClusters
                     then FatCountFreeRun True w (FatIndex - StartIndexOfThisRun L) s1 else s1)
           in (Inr (L\<lparr>StartIndexOfThisRun := FatIndex, CurrentRun := UnknownClusters, ExamineWindow := w + 1\<rparr>),
               FatUpdateWindow (w + 1) (\<lambda>W. W\<lparr>ClustersFree := 0, FirstCluster := FatIndex\<rparr>) s2)
      else (Inr L, s))"

text \<open>The entry the loop looks at, with the step to a new page (the prefetching of pages has no effect on it).\<close>

definition FatExamine_page :: "EXAMINE \<Rightarrow> (VCB, EXAMINE) fat_op" where
  "FatExamine_page L =
     (if FatBuffer L mod 4096 = 0
      then seq (FatReadVolumeFile (ExamineOffset L + PAGE_SIZE) PAGE_SIZE)
             (\<lambda>pv. ret (L\<lparr>ExamineOffset := ExamineOffset L + PAGE_SIZE, FatBuffer := pv\<rparr>))
      else ret L)"

definition FatExamine_read :: "UCHAR \<Rightarrow> ULONG \<Rightarrow> EXAMINE \<Rightarrow> (VCB, EXAMINE) fat_op" where
  "FatExamine_read BitSize FatIndex L s =
     (Inr (if BitSize = 12
           then L\<lparr>ExamineEntry := FatLookup12BitEntry (VolumeFile s) (FatBuffer L) FatIndex (ExamineEntry L)\<rparr>
           else if BitSize = 32
           then L\<lparr>ExamineEntry := get32 (VolumeFile s) (FatBuffer L) AND FAT32_ENTRY_MASK,
                  FatBuffer := FatBuffer L + 4\<rparr>
           else L\<lparr>ExamineEntry := ucast (get16 (VolumeFile s) (FatBuffer L)), FatBuffer := FatBuffer L + 2\<rparr>), s)"

text \<open>The two tests for the end of a run.\<close>

definition FatExamine_run :: "bool \<Rightarrow> ULONG \<Rightarrow> ULONG \<Rightarrow> EXAMINE \<Rightarrow> (VCB, EXAMINE) fat_op" where
  "FatExamine_run FreeClusterCount StartIndex FatIndex L0 s =
     (let L = (if CurrentRun L0 = UnknownClusters
               then L0\<lparr>CurrentRun := (if ExamineEntry L0 = FAT_CLUSTER_AVAILABLE
                                     then FreeClusters else AllocatedClusters)\<rparr> else L0);
          (L1, s1) =
            (if CurrentRun L = FreeClusters \<and> ExamineEntry L \<noteq> FAT_CLUSTER_AVAILABLE
             then let ClustersThisRun = FatIndex - StartIndexOfThisRun L
                  in (L\<lparr>BitMap := map_option (\<lambda>b. RtlClearBits b (StartIndexOfThisRun L - StartIndex) ClustersThisRun) (BitMap L),
                        CurrentRun := AllocatedClusters, StartIndexOfThisRun := FatIndex\<rparr>,
                      FatCountFreeRun FreeClusterCount (ExamineWindow L) ClustersThisRun s)
             else (L, s));
          L2 =
            (if CurrentRun L1 = AllocatedClusters \<and> ExamineEntry L1 = FAT_CLUSTER_AVAILABLE
             then let ClustersThisRun = FatIndex - StartIndexOfThisRun L1
                  in L1\<lparr>BitMap := map_option (\<lambda>b. RtlSetBits b (StartIndexOfThisRun L1 - StartIndex) ClustersThisRun) (BitMap L1),
                        CurrentRun := FreeClusters, StartIndexOfThisRun := FatIndex\<rparr>
             else L1)
      in (Inr L2, s1))"

definition FatExamine_bad :: "bool \<Rightarrow> ULONG \<Rightarrow> EXAMINE \<Rightarrow> (VCB, EXAMINE) fat_op" where
  "FatExamine_bad SetupWindows FatIndex L s =
     (let ClusterSize = push_bit (unat (LogOfBytesPerCluster (AllocationSupport s))) 1
      in if (SetupWindows \<or> NumberOfWindows s = 1) \<and> FatInterpretClusterType s (ExamineEntry L) = FatClusterBad
         then seq (FatAddBadBlockMcb (BadClusterVbo L) (FatGetLboFromIndex s FatIndex) ClusterSize)
                (\<lambda>_. ret (L\<lparr>BadClusterVbo := BadClusterVbo L + ClusterSize\<rparr>)) s
         else (Inr L, s))"

definition FatExamine_step ::
  "UCHAR \<Rightarrow> bool \<Rightarrow> bool \<Rightarrow> ULONG \<Rightarrow> ULONG \<Rightarrow> ULONG \<Rightarrow> EXAMINE \<Rightarrow> (VCB, EXAMINE) fat_op" where
  "FatExamine_step BitSize SetupWindows FreeClusterCount StartIndex EntriesPerWindow FatIndex L =
     seq (if BitSize = 12 then ret L
          else seq (FatExamine_bucket SetupWindows StartIndex EntriesPerWindow FatIndex L) FatExamine_page) (\<lambda>L1.
     seq (FatExamine_read BitSize FatIndex L1) (\<lambda>L2.
     seq (FatExamine_run FreeClusterCount StartIndex FatIndex L2) (\<lambda>L3.
     FatExamine_bad SetupWindows FatIndex L3)))"

text \<open>The first chunk of the FAT and the kind of the first run; \<open>L\<close> holds the initial values of the locals.\<close>

definition FatExamine_first :: "UCHAR \<Rightarrow> ULONG \<Rightarrow> EXAMINE \<Rightarrow> (VCB, EXAMINE) fat_op" where
  "FatExamine_first BitSize StartIndex L s =
     (if BitSize = 12
      then seq (FatReadVolumeFile (FatReservedBytes (Bpb s)) (FatBytesPerFat (Bpb s))) (\<lambda>p s.
             (Inr (L\<lparr>FatBuffer := p,
                     CurrentRun := (if FatLookup12BitEntry (VolumeFile s) p 0 FAT_CLUSTER_AVAILABLE
                                         = FAT_CLUSTER_AVAILABLE then FreeClusters else AllocatedClusters)\<rparr>), s)) s
      else
        (let BytesPerEntry = ucast (drop_bit 3 BitSize) :: ULONG;
             Page = (FatReservedBytes (Bpb s) + StartIndex * BytesPerEntry) div PAGE_SIZE;
             Offset = Page * PAGE_SIZE
         in seq (FatReadVolumeFile Offset PAGE_SIZE) (\<lambda>pv s.
              let p = (if BitSize = 32
                       then pv + unat ((FatReservedBytes (Bpb s) + StartIndex * BytesPerEntry) mod PAGE_SIZE)
                       else pv + unat (FatReservedBytes (Bpb s) mod PAGE_SIZE) + 4);
                  FirstFatEntry = (if BitSize = 32 then get32 (VolumeFile s) p AND FAT32_ENTRY_MASK
                                   else ucast (get16 (VolumeFile s) p))
              in (Inr (L\<lparr>FatBuffer := p, ExamineOffset := Offset,
                         CurrentRun := (if FirstFatEntry = FAT_CLUSTER_AVAILABLE then FreeClusters
                                        else AllocatedClusters)\<rparr>), s)) s))"

text \<open>After the loop: the last run, the last window, and the switch to the window examined.\<close>

definition FatExamine_last :: "bool \<Rightarrow> bool \<Rightarrow> ULONG \<Rightarrow> ULONG \<Rightarrow> EXAMINE \<Rightarrow> (VCB, bool list option) fat_op" where
  "FatExamine_last SetupWindows FreeClusterCount StartIndex FatIndex L s0 =
     (let s = s0\<lparr>BadBlocksPopulated := True\<rparr>;
          ClustersThisRun = FatIndex - StartIndexOfThisRun L;
          s1 = (if CurrentRun L = FreeClusters
                then FatCountFreeRun FreeClusterCount (ExamineWindow L) ClustersThisRun s else s);
          bm = map_option (\<lambda>b. RtlFillBits (CurrentRun L \<noteq> FreeClusters) b (StartIndexOfThisRun L - StartIndex)
                                 ClustersThisRun) (BitMap L)
      in (Inr bm, if SetupWindows
                  then FatUpdateWindow (ExamineWindow L) (\<lambda>W. W\<lparr>LastCluster := FatIndex - 1\<rparr>) s1 else s1))"

definition FatExamine_switch :: "bool \<Rightarrow> nat \<Rightarrow> bool list \<Rightarrow> VCB \<Rightarrow> VCB" where
  "FatExamine_switch FreeClusterCount w NewBitMap s =
     (let s1 = s\<lparr>FreeClusterBitMap := NewBitMap, CurrentWindow := w, ClusterHint := -1\<rparr>
      in if FreeClusterCount
         then FatUpdateWindow w (\<lambda>W. W\<lparr>ClustersFree := NumberOfFreeClusters (AllocationSupport s1)\<rparr>) s1 else s1)"

text \<open>
  The try block: \<open>w\<close> is the index of the window counted into, \<open>bm\<close> the private bitmap;
  \<open>FreeClusterCount\<close> says whether that pointer is not null. The answer is the private bitmap.
\<close>

definition FatExamine_scan ::
  "bool \<Rightarrow> bool \<Rightarrow> nat option \<Rightarrow> bool \<Rightarrow> ULONG \<Rightarrow> ULONG \<Rightarrow> nat \<Rightarrow> bool list option \<Rightarrow> (VCB, bool list option) fat_op" where
  "FatExamine_scan SetupWindows HaveBuffer SwitchToWindow FreeClusterCount StartIndex EndIndex w bm s =
     (let BitSize = FatIndexBitSize (AllocationSupport s);
          EntriesPerWindow = (if NumberOfWindows s > 1 then MAX_CLUSTER_BITMAP_SIZE
                              else NumberOfClusters (AllocationSupport s));
          rounds = for_count StartIndex EndIndex
      in seq (FatExamine_first BitSize StartIndex
                \<lparr>FatBuffer = 0, ExamineOffset = 0, ExamineEntry = FAT_CLUSTER_AVAILABLE,
                 StartIndexOfThisRun = StartIndex, CurrentRun = UnknownClusters, ExamineWindow = w,
                 BitMap = bm, BadClusterVbo = 0\<rparr>) (\<lambda>L.
         seq (for_op rounds (FatExamine_step BitSize SetupWindows FreeClusterCount StartIndex EntriesPerWindow)
                StartIndex L) (\<lambda>L'.
         seq (FatExamine_last SetupWindows FreeClusterCount StartIndex (StartIndex + of_nat rounds) L') (\<lambda>bm'.
         seq (case SwitchToWindow of
                None \<Rightarrow> ret ()
              | Some w' \<Rightarrow> modify (FatExamine_switch FreeClusterCount w' (if HaveBuffer then [] else the bm'))) (\<lambda>_.
         ret bm')))) s)"

text \<open>
  The scan with its three ways of use: during setup of the windows, switching to a window,
  and filling the caller's bitmap, whose new value is the answer. \<open>Pool\<close> is what freshly
  allocated memory holds. A null window pointer is dereferenced when neither a window nor a
  bitmap is given (an access violation).
\<close>

definition FatExamineFatEntries ::
  "(nat \<Rightarrow> bool) \<Rightarrow> ULONG \<Rightarrow> ULONG \<Rightarrow> bool \<Rightarrow> nat option \<Rightarrow> bool list option \<Rightarrow> (VCB, bool list option) fat_op" where
  "FatExamineFatEntries Pool StartIndex0 EndIndex0 SetupWindows SwitchToWindow BitMapBuffer s =
     (if SetupWindows
      then seq (modify (FatUpdateWindow 0 (\<lambda>W. W\<lparr>FirstCluster := StartIndex0, ClustersFree := 0\<rparr>)))
             (\<lambda>_. FatExamine_scan True (BitMapBuffer \<noteq> None) SwitchToWindow True StartIndex0 EndIndex0 0 None) s
      else (case BitMapBuffer of
          None \<Rightarrow>
            (case SwitchToWindow of
               None \<Rightarrow> (Inl (STATUS_RAISED 0xC0000005), s)
             | Some w \<Rightarrow>
                 (let StartIndex = FirstCluster (Windows s ! w); EndIndex = LastCluster (Windows s ! w)
                  in seq KernelCall (\<lambda>_.
                       FatExamine_scan False False SwitchToWindow
                         (\<not> (FatIndexBitSize (AllocationSupport s) = 32 \<and> NumberOfWindows s > 1)) StartIndex EndIndex w
                         (Some (map Pool [0..<unat (EndIndex - StartIndex + 1)]))) s))
        | Some B \<Rightarrow> FatExamine_scan False True SwitchToWindow False StartIndex0 EndIndex0 0 (Some B) s))"

section \<open>Setup and teardown\<close>

definition FatTearDownAllocationSupport :: "VCB \<Rightarrow> VCB" where
  "FatTearDownAllocationSupport s =
     s\<lparr>Windows := [], FreeClusterBitMap := [],
       DirtyFatMcb := FatRemoveMcbEntry s (DirtyFatMcb s) 0 0xFFFFFFFF\<rparr>"

text \<open>The choice of the window to begin operation in.\<close>

definition FatChooseWindow :: "(nat \<Rightarrow> bool) \<Rightarrow> (VCB, unit) fat_op" where
  "FatChooseWindow Pool s =
     (if NumberOfWindows s > 1
      then seq (FatExamineFatEntries Pool 2 (NumberOfClusters (AllocationSupport s) + 2 - 1) True None None) (\<lambda>_.
             modify (\<lambda>s. s\<lparr>CurrentWindow := unat (FatSelectBestWindow s)\<rparr>)) s
      else modify (\<lambda>s. FatUpdateWindow 0 (\<lambda>W. W\<lparr>FirstCluster := 2,
             LastCluster := NumberOfClusters (AllocationSupport s) + 2 - 1\<rparr>) (s\<lparr>CurrentWindow := 0\<rparr>)) s)"

text \<open>The body of the try block, from the choice of the number of windows on; \<open>PoolWindows\<close> is what the memory of the windows holds at first.\<close>

definition FatSetupWindows ::
  "find_clear_bits \<Rightarrow> (nat \<Rightarrow> FAT_WINDOW) \<Rightarrow> (nat \<Rightarrow> bool) \<Rightarrow> (VCB, unit) fat_op" where
  "FatSetupWindows RtlFindClearBits PoolWindows Pool =
     seq (modify (\<lambda>s. s\<lparr>NumberOfWindows :=
            (if FatIsFat32 s \<and> NumberOfClusters (AllocationSupport s) > MAX_CLUSTER_BITMAP_SIZE
             then (NumberOfClusters (AllocationSupport s) + MAX_CLUSTER_BITMAP_SIZE - 1) div MAX_CLUSTER_BITMAP_SIZE
             else 1)\<rparr>)) (\<lambda>_.
     seq KernelCall (\<lambda>_.
     seq (modify (\<lambda>s. s\<lparr>Windows := map PoolWindows [0..<unat (NumberOfWindows s)], FreeClusterBitMap := []\<rparr>)) (\<lambda>_.
     seq (FatChooseWindow Pool) (\<lambda>_.
     seq (\<lambda>s. FatExamineFatEntries Pool 0 0 False (Some (CurrentWindow s)) None s) (\<lambda>_.
     modify (\<lambda>s. let BitIndex = RtlFindClearBits (FreeClusterBitMap s) 1 0
                 in s\<lparr>ClusterHint := (if BitIndex \<noteq> -1 then BitIndex + 2 else 2)\<rparr>))))))"

definition FatSetupAllocationSupport ::
  "find_clear_bits \<Rightarrow> (nat \<Rightarrow> FAT_WINDOW) \<Rightarrow> (nat \<Rightarrow> bool) \<Rightarrow> (VCB, unit) fat_op" where
  "FatSetupAllocationSupport RtlFindClearBits PoolWindows Pool s =
     (case FatSetupAllocationSupport_geometry (Bpb s) of
        Inl e \<Rightarrow> (Inl e, s)
      | Inr A \<Rightarrow>
          seq (modify (\<lambda>s. s\<lparr>AllocationSupport := A\<rparr>)) (\<lambda>_.
          seq KernelCall (\<lambda>_.
          try_finally (FatSetupWindows RtlFindClearBits PoolWindows Pool)
            (\<lambda>abnormal. if abnormal then modify FatTearDownAllocationSupport else ret ()))) s)"

section \<open>Runs of entries\<close>

declare of_nat_diff [simp del]

text \<open>\<open>free_in e a b\<close> counts the free entries among \<open>a, \<dots>, b - 1\<close>.\<close>

definition free_in :: "(nat \<Rightarrow> ULONG) \<Rightarrow> nat \<Rightarrow> nat \<Rightarrow> nat" where
  "free_in e a b = length (filter (\<lambda>j. e j = FAT_CLUSTER_AVAILABLE) [a..<b])"

lemma free_in_same [simp]: "free_in e a a = 0"
  by (simp add: free_in_def)

lemma free_in_trans: "a \<le> b \<Longrightarrow> b \<le> c \<Longrightarrow> free_in e a c = free_in e a b + free_in e b c"
proof -
  assume "a \<le> b" "b \<le> c"
  then have "[a..<c] = [a..<b] @ [b..<c]" by (metis upt_add_eq_append le_add_diff_inverse)
  then show ?thesis by (simp add: free_in_def)
qed

lemma free_in_run: "\<forall>j. r \<le> j \<and> j < x \<longrightarrow> (e j = 0 \<longleftrightarrow> free) \<Longrightarrow> free_in e r x = (if free then x - r else 0)"
proof -
  assume *: "\<forall>j. r \<le> j \<and> j < x \<longrightarrow> (e j = 0 \<longleftrightarrow> free)"
  have "filter (\<lambda>j. e j = FAT_CLUSTER_AVAILABLE) [r..<x] = filter (\<lambda>_. free) [r..<x]"
    using * by (intro filter_cong) auto
  then show ?thesis by (simp add: free_in_def)
qed

lemma free_in_le: "free_in e a b \<le> b - a"
  unfolding free_in_def using length_filter_le[of _ "[a..<b]"] by simp

lemma nth_RtlFillBits: "i < length bm \<Longrightarrow> RtlFillBits b bm x n ! i =
    (if unat x \<le> i \<and> i < unat x + unat n then b else bm ! i)"
  by (simp add: RtlFillBits_def)

lemma length_RtlFillBits [simp]: "length (RtlFillBits b bm x n) = length bm"
  by (simp add: RtlFillBits_def)

lemma RtlFillBits_0 [simp]: "RtlFillBits b bm x 0 = bm"
  by (rule nth_equalityI) (auto simp: nth_RtlFillBits)

text \<open>The bits up to entry \<open>r\<close> tell occupied from free clusters.\<close>

definition bits_upto :: "(nat \<Rightarrow> ULONG) \<Rightarrow> nat \<Rightarrow> nat \<Rightarrow> nat \<Rightarrow> bool list option \<Rightarrow> bool" where
  "bits_upto e n a r bm \<longleftrightarrow>
     (case bm of None \<Rightarrow> True
      | Some b \<Rightarrow> length b = n \<and> (\<forall>j. a \<le> j \<and> j < r \<longrightarrow> j - a < n \<longrightarrow> b ! (j - a) = (e j \<noteq> 0)))"

definition in_run :: "(nat \<Rightarrow> ULONG) \<Rightarrow> nat \<Rightarrow> nat \<Rightarrow> RunType \<Rightarrow> bool" where
  "in_run e r x K \<longleftrightarrow> r \<le> x \<and> (\<forall>j. r \<le> j \<and> j < x \<longrightarrow> (e j = 0 \<longleftrightarrow> K = FreeClusters))"

lemma bits_upto_fill:
  assumes "bits_upto e n a r bm" "in_run e r x K" "a \<le> r" "x < 2 ^ 32"
  shows "bits_upto e n a x (map_option (\<lambda>b. RtlFillBits (K \<noteq> FreeClusters) b (of_nat (r - a)) (of_nat (x - r))) bm)"
proof (cases bm)
  case (Some b)
  have u: "unat (of_nat (r - a) :: ULONG) = r - a" "unat (of_nat (x - r) :: ULONG) = x - r"
    using assms(2-4) by (auto simp: in_run_def intro!: unat_of_nat_small)
  show ?thesis
    using assms Some by (auto simp: bits_upto_def in_run_def nth_RtlFillBits u)
qed (simp add: bits_upto_def)

lemma of_nat_minus32: "m \<le> n \<Longrightarrow> (of_nat n :: ULONG) - of_nat m = of_nat (n - m)"
  by (simp add: of_nat_diff)

text \<open>One round of the run tests moves the start of the run from \<open>r\<close> to some \<open>r'\<close> and counts the free clusters between.\<close>

lemma FatCountFreeRun_0: "FatCountFreeRun c w 0 s = s"
proof -
  have "W\<lparr>ClustersFree := ClustersFree W\<rparr> = W" "A\<lparr>NumberOfFreeClusters := NumberOfFreeClusters A\<rparr> = A"
    for W :: FAT_WINDOW and A :: ALLOCATION_SUPPORT by simp_all
  then show ?thesis by (simp add: FatCountFreeRun_def FatUpdateWindow_def)
qed

lemma FatCountFreeRun_add: "FatCountFreeRun c w m (FatCountFreeRun c w n s) = FatCountFreeRun c w (n + m) s"
  by (cases "w < length (Windows s)")
    (simp_all add: FatCountFreeRun_def FatUpdateWindow_def list_update_beyond algebra_simps)

lemma FatExamine_run_step:
  assumes run: "in_run e r x (CurrentRun L)" and unknown: "CurrentRun L = UnknownClusters \<Longrightarrow> r = x"
    and start: "StartIndexOfThisRun L = of_nat r" and a: "a \<le> r" and x: "x < 2 ^ 32 - 1"
    and entry: "ExamineEntry L = e x" and bits: "bits_upto e n a r (BitMap L)"
    and res: "FatExamine_run cnt (of_nat a) (of_nat x) L s = (res, t)"
  shows "\<exists>r' K b. res = Inr (L\<lparr>StartIndexOfThisRun := of_nat r', CurrentRun := K, BitMap := b\<rparr>)
    \<and> t = FatCountFreeRun cnt (ExamineWindow L) (of_nat (free_in e r r')) s
    \<and> in_run e r' (x + 1) K \<and> K \<noteq> UnknownClusters \<and> r \<le> r' \<and> bits_upto e n a r' b \<and> (b = None) = (BitMap L = None)"
proof -
  define K0 where "K0 = (if CurrentRun L = UnknownClusters then if e x = 0 then FreeClusters else AllocatedClusters
                        else CurrentRun L)"
  have K0: "in_run e r x K0" "K0 \<noteq> UnknownClusters"
    using run unknown by (auto simp: K0_def in_run_def)
  define same where "same \<longleftrightarrow> (K0 = FreeClusters \<longleftrightarrow> e x = 0)"
  define K where "K = (if e x = 0 then FreeClusters else AllocatedClusters)"
  define r' where "r' = (if same then r else x)"
  define b where "b = (if same then BitMap L else
      map_option (\<lambda>b. RtlFillBits (K0 \<noteq> FreeClusters) b (of_nat (r - a)) (of_nat (x - r))) (BitMap L))"
  have rx: "r \<le> x" using run by (simp add: in_run_def)
  have K01: "K0 \<noteq> FreeClusters \<Longrightarrow> K0 = AllocatedClusters" using K0(2) by (cases K0) auto
  have free: "free_in e r r' = (if \<not> same \<and> K0 = FreeClusters then x - r else 0)"
    using free_in_run[of r x e "K0 = FreeClusters"] K0(1) by (auto simp: r'_def in_run_def)
  have "in_run e r' (x + 1) K"
    using K0(1) by (auto simp: in_run_def r'_def K_def same_def less_Suc_eq)
  moreover have "bits_upto e n a r' b"
    using bits bits_upto_fill[OF bits K0(1) a] x by (auto simp: r'_def b_def)
  moreover have "FatExamine_run cnt (of_nat a) (of_nat x) L s =
      (Inr (L\<lparr>StartIndexOfThisRun := of_nat r', CurrentRun := K, BitMap := b\<rparr>),
       FatCountFreeRun cnt (ExamineWindow L) (of_nat (free_in e r r')) s)"
  proof -
    have L: "(if CurrentRun L = UnknownClusters
        then L\<lparr>CurrentRun := (if ExamineEntry L = FAT_CLUSTER_AVAILABLE then FreeClusters else AllocatedClusters)\<rparr>
        else L) = L\<lparr>CurrentRun := K0\<rparr>"
      by (cases L) (simp add: K0_def entry[symmetric])
    have d: "(of_nat x :: ULONG) - of_nat r = of_nat (x - r)" "(of_nat r :: ULONG) - of_nat a = of_nat (r - a)"
      using rx a by (simp_all add: of_nat_diff)
    consider "K0 = FreeClusters" "e x = 0" | "K0 = FreeClusters" "e x \<noteq> 0"
      | "K0 = AllocatedClusters" "e x = 0" | "K0 = AllocatedClusters" "e x \<noteq> 0"
      using K01 by blast
    then show ?thesis
      unfolding FatExamine_run_def L free
      by cases (simp_all add: Let_def entry start d r'_def b_def same_def K_def FatCountFreeRun_0)
  qed
  ultimately show ?thesis
    using res rx by (intro exI[of _ r'] exI[of _ K] exI[of _ b]) (auto simp: r'_def K_def b_def)
qed

section \<open>The scan\<close>

text \<open>What a scan may change before its end.\<close>

definition scan_strip :: "VCB \<Rightarrow> VCB" where
  "scan_strip s = s\<lparr>AllocationSupport := (AllocationSupport s)\<lparr>NumberOfFreeClusters := 0\<rparr>,
     Windows := [], BadBlockMcb := [], BadBlocksPopulated := False, KernelResults := []\<rparr>"

definition scan_frame :: "VCB \<Rightarrow> VCB \<Rightarrow> bool" where
  "scan_frame s0 s \<longleftrightarrow> scan_strip s = scan_strip s0"

lemma scan_frameD:
  assumes "scan_frame s0 s"
  shows "Bpb s = Bpb s0" "VolumeFile s = VolumeFile s0" "FreeClusterBitMap s = FreeClusterBitMap s0"
    "NumberOfWindows s = NumberOfWindows s0" "CurrentWindow s = CurrentWindow s0" "ClusterHint s = ClusterHint s0"
    "DirtyFatMcb s = DirtyFatMcb s0"
    "vcb_bits s = vcb_bits s0" "NumberOfClusters (AllocationSupport s) = NumberOfClusters (AllocationSupport s0)"
    "LogOfBytesPerCluster (AllocationSupport s) = LogOfBytesPerCluster (AllocationSupport s0)"
    "LogOfBytesPerSector (AllocationSupport s) = LogOfBytesPerSector (AllocationSupport s0)"
    "FileAreaLbo (AllocationSupport s) = FileAreaLbo (AllocationSupport s0)"
proof -
  have e: "f (scan_strip s) = f (scan_strip s0)" for f :: "VCB \<Rightarrow> 'x"
    using assms by (simp add: scan_frame_def)
  show "Bpb s = Bpb s0" using e[of Bpb] by (simp add: scan_strip_def)
  show "VolumeFile s = VolumeFile s0" using e[of VolumeFile] by (simp add: scan_strip_def)
  show "FreeClusterBitMap s = FreeClusterBitMap s0" using e[of FreeClusterBitMap] by (simp add: scan_strip_def)
  show "NumberOfWindows s = NumberOfWindows s0" using e[of NumberOfWindows] by (simp add: scan_strip_def)
  show "CurrentWindow s = CurrentWindow s0" using e[of CurrentWindow] by (simp add: scan_strip_def)
  show "ClusterHint s = ClusterHint s0" using e[of ClusterHint] by (simp add: scan_strip_def)
  show "DirtyFatMcb s = DirtyFatMcb s0" using e[of DirtyFatMcb] by (simp add: scan_strip_def)
  have A: "f ((AllocationSupport s)\<lparr>NumberOfFreeClusters := 0\<rparr>) = f ((AllocationSupport s0)\<lparr>NumberOfFreeClusters := 0\<rparr>)"
    for f :: "ALLOCATION_SUPPORT \<Rightarrow> 'x"
    using e[of AllocationSupport] by (simp add: scan_strip_def)
  show "vcb_bits s = vcb_bits s0" using A[of FatIndexBitSize] by simp
  show "NumberOfClusters (AllocationSupport s) = NumberOfClusters (AllocationSupport s0)"
    using A[of NumberOfClusters] by simp
  show "LogOfBytesPerCluster (AllocationSupport s) = LogOfBytesPerCluster (AllocationSupport s0)"
    using A[of LogOfBytesPerCluster] by simp
  show "LogOfBytesPerSector (AllocationSupport s) = LogOfBytesPerSector (AllocationSupport s0)"
    using A[of LogOfBytesPerSector] by simp
  show "FileAreaLbo (AllocationSupport s) = FileAreaLbo (AllocationSupport s0)"
    using A[of FileAreaLbo] by simp
qed

lemma scan_frame_refl [simp, intro]: "scan_frame s s"
  by (simp add: scan_frame_def)

lemma scan_frame_trans: "scan_frame a b \<Longrightarrow> scan_frame b c \<Longrightarrow> scan_frame a c"
  by (simp add: scan_frame_def)

lemma scan_strip_updates [simp]:
  "scan_strip (s\<lparr>KernelResults := K\<rparr>) = scan_strip s"
  "scan_strip (s\<lparr>BadBlockMcb := B\<rparr>) = scan_strip s"
  "scan_strip (s\<lparr>BadBlocksPopulated := P\<rparr>) = scan_strip s"
  "scan_strip (FatUpdateWindow w f s) = scan_strip s"
  "scan_strip (FatCountFreeRun c w n s) = scan_strip s"
  by (simp_all add: scan_strip_def FatUpdateWindow_def FatCountFreeRun_def)

lemma scan_strip_switch:
  "scan_strip (s\<lparr>FreeClusterBitMap := b, CurrentWindow := w, ClusterHint := h\<rparr>) =
     (scan_strip s)\<lparr>FreeClusterBitMap := b, CurrentWindow := w, ClusterHint := h\<rparr>"
  by (simp add: scan_strip_def)

lemma scan_frame_updates [simp]:
  "scan_frame s0 (s\<lparr>KernelResults := K\<rparr>) = scan_frame s0 s"
  "scan_frame s0 (s\<lparr>BadBlockMcb := B\<rparr>) = scan_frame s0 s"
  "scan_frame s0 (s\<lparr>BadBlocksPopulated := P\<rparr>) = scan_frame s0 s"
  "scan_frame s0 (FatUpdateWindow w f s) = scan_frame s0 s"
  "scan_frame s0 (FatCountFreeRun c w n s) = scan_frame s0 s"
  by (simp_all add: scan_frame_def)

lemma scan_frame_entry:
  "scan_frame s0 s \<Longrightarrow> FatEntryOf s i = FatEntryOf s0 i"
  "scan_frame s0 s \<Longrightarrow> vcb_ok s = vcb_ok s0"
  "scan_frame s0 s \<Longrightarrow> FatGetLboFromIndex s i = FatGetLboFromIndex s0 i"
  "scan_frame s0 s \<Longrightarrow> FatInterpretClusterType s v = FatInterpretClusterType s0 v"
  "scan_frame s0 s \<Longrightarrow> FatAddMcbEntry s M v l n = FatAddMcbEntry s0 M v l n"
  by (auto simp: FatEntryOf_def vcb_ok_def fat_fits_def FatGetLboFromIndex_def FatInterpretClusterType_def
      FatAddMcbEntry_def McbSectors_def MCB_SCALE_LOG2_def Let_def scan_frameD)

text \<open>The pointer into the mapped page before entry \<open>x\<close> is read.\<close>

definition buffer_at :: "VCB \<Rightarrow> nat \<Rightarrow> EXAMINE \<Rightarrow> bool" where
  "buffer_at s x L \<longleftrightarrow>
     (if vcb_bits s = 12 then FatBuffer L = vcb_R s
      else FatBuffer L = vcb_R s + (if vcb_bits s = 32 then 4 else 2) * x
         \<and> unat (ExamineOffset L) mod 4096 = 0
         \<and> unat (ExamineOffset L) < FatBuffer L \<and> FatBuffer L \<le> unat (ExamineOffset L) + 4096)"

lemma buffer_at_frame: "scan_frame s0 s \<Longrightarrow> buffer_at s x L = buffer_at s0 x L"
  by (simp add: buffer_at_def scan_frameD)

lemma of_nat_index: "vcb_ok s \<Longrightarrow> x \<le> vcb_N s + 1 \<Longrightarrow> unat (of_nat x :: ULONG) = x"
  using vcb_N_bounds(1)[of s] by (intro unat_of_nat_small) simp

lemma page_next:
  assumes "b mod 4096 = (0::nat)" "b < p" "p \<le> b + 4096"
  shows "if p mod 4096 = 0 then p = b + 4096 else b < p \<and> p < b + 4096"
proof -
  obtain k where k: "b = 4096 * k" using assms(1) by auto
  show ?thesis
  proof (cases "p mod 4096 = 0")
    case True
    then obtain m where m: "p = 4096 * m" by auto
    then have "m = k + 1" using assms(2,3) by (simp add: k)
    then show ?thesis using True by (simp add: k m)
  next
    case False
    then have "p \<noteq> b + 4096" using assms(1) by auto
    then show ?thesis using False assms(2,3) by simp
  qed
qed

lemma dvd_less_add: "d dvd p \<Longrightarrow> d dvd q \<Longrightarrow> p < q \<Longrightarrow> p + d \<le> (q :: nat)"
proof -
  assume "d dvd p" "d dvd q" "p < q"
  then obtain i j where ij: "p = d * i" "q = d * j" "i < j" by (auto simp: dvd_def)
  then have "d * (i + 1) \<le> d * j" by (intro mult_le_mono2) simp
  then show ?thesis by (simp add: ij)
qed

lemma FatExamine_entry:
  assumes ok: "vcb_ok s" and x: "x \<le> vcb_N s + 1" and buf: "buffer_at s x L"
    and res: "seq (if vcb_bits s = 12 then ret L else FatExamine_page L) (FatExamine_read (vcb_bits s) (of_nat x)) s = (Inr L', t)"
  shows "\<exists>p off K. L' = L\<lparr>FatBuffer := p, ExamineOffset := off, ExamineEntry := FatEntryOf s (of_nat x)\<rparr>
    \<and> buffer_at s (x + 1) L' \<and> t = s\<lparr>KernelResults := K\<rparr>"
proof -
  have u: "unat (of_nat x :: ULONG) = x" by (rule of_nat_index[OF ok x])
  have "unat (of_nat x :: ULONG) \<le> vcb_N s + 1" using u x by simp
  note inb = index_inside[OF ok this, unfolded u]
  show ?thesis
  proof (cases "vcb_bits s = 12")
    case True
    have "3 * unat (of_nat x :: ULONG) < 2 ^ 32" using inb True by (simp add: u fat_width_def)
    then have any: "FatLookup12BitEntry (VolumeFile s) (vcb_R s) (of_nat x) E = FatEntryOf s (of_nat x)" for E
      using True FatLookup12BitEntry_any[of "of_nat x"] by (simp add: FatEntryOf_def fat_get_def)
    have t: "t = s" using res True by (auto simp: seq_ret FatExamine_read_def)
    have "L' = L\<lparr>ExamineEntry := FatEntryOf s (of_nat x)\<rparr>"
      using res True buf unfolding t by (auto simp: seq_ret FatExamine_read_def any buffer_at_def)
    then show ?thesis using True buf t
      by (intro exI[of _ "FatBuffer L"] exI[of _ "ExamineOffset L"] exI[of _ "KernelResults s"])
        (simp add: buffer_at_def)
  next
    case b12: False
    define sz where "sz = (if vcb_bits s = 32 then 4 else 2 :: nat)"
    define P where "P = vcb_R s + sz * x"
    have P: "FatBuffer L = P" "unat (ExamineOffset L) mod 4096 = 0" "unat (ExamineOffset L) < P"
      "P \<le> unat (ExamineOffset L) + 4096"
      using buf b12 by (simp_all add: buffer_at_def P_def sz_def)
    note nx = page_next[OF P(2-4)]
    have "8 * (sz * (x + 1)) \<le> 8 * unat (FatBytesPerFat (Bpb s))"
      using inb(1) b12 by (simp add: sz_def fat_width_def algebra_simps split: if_splits)
    then have Pb: "P + sz < 2 ^ 31" using inb(2) by (simp add: P_def)
    obtain off K where pg: "FatExamine_page L s = (Inr (L\<lparr>FatBuffer := P, ExamineOffset := off\<rparr>), s\<lparr>KernelResults := K\<rparr>)"
      "unat off mod 4096 = 0" "unat off \<le> P" "P < unat off + 4096"
    proof (cases "P mod 4096 = 0")
      case True
      have o: "unat (ExamineOffset L + 4096) = P"
        using nx True Pb by (subst unat_add_small) simp_all
      with res True b12 show ?thesis
        by (intro that[of "ExamineOffset L + 4096" "tl (KernelResults s)"])
          (auto simp: FatExamine_page_def P FatReadVolumeFile_def seq_eq_Inr KernelCall_Inr)
    next
      case False
      with res nx P show ?thesis
        by (intro that[of "ExamineOffset L" "KernelResults s"]) (simp_all add: FatExamine_page_def)
    qed
    define v where "v = FatEntryOf s (of_nat x)"
    have v: "v = (if vcb_bits s = 32 then get32 (VolumeFile s) P AND FAT32_ENTRY_MASK
                  else ucast (get16 (VolumeFile s) P))"
      using b12 by (simp add: v_def FatEntryOf_def fat_get_def fat_get32_def fat_get16_def u P_def sz_def)
    have "L' = L\<lparr>FatBuffer := P + sz, ExamineOffset := off, ExamineEntry := v\<rparr> \<and> t = s\<lparr>KernelResults := K\<rparr>"
      using res pg(1) b12 by (auto simp: seq_eq_Inr FatExamine_read_def v sz_def)
    moreover have "buffer_at s (x + 1) (L\<lparr>FatBuffer := P + sz, ExamineOffset := off, ExamineEntry := v\<rparr>)"
    proof -
      have "4 dvd P" if "vcb_bits s = 32" using reserved_even[OF ok] that by (auto simp: P_def sz_def)
      moreover have "2 dvd P" using reserved_even[OF ok] by (auto simp: P_def sz_def)
      ultimately have "sz dvd P" by (simp add: sz_def)
      moreover have "sz dvd unat off + 4096" using pg(2) by (auto simp: sz_def)
      ultimately have "P + sz \<le> unat off + 4096" using pg(4) by (rule dvd_less_add)
      then show ?thesis using pg(2-3) b12 by (auto simp: buffer_at_def P_def sz_def algebra_simps)
    qed
    ultimately show ?thesis unfolding v_def by blast
  qed
qed


section \<open>The state of a scan\<close>

text \<open>
  The bad clusters among the entries \<open>js\<close> are added to the bad block Mcb one cluster long each, at
  consecutive offsets.
\<close>

definition bad_in :: "VCB \<Rightarrow> nat \<Rightarrow> nat \<Rightarrow> nat list" where
  "bad_in s a b = filter (\<lambda>j. FatInterpretClusterType s (FatEntryOf s (of_nat j)) = FatClusterBad) [a..<b]"

definition bad_mcb :: "VCB \<Rightarrow> nat list \<Rightarrow> LARGE_MCB" where
  "bad_mcb s js = (let cs = push_bit (unat (LogOfBytesPerCluster (AllocationSupport s))) 1
     in fold (\<lambda>(i, j) M. FatAddMcbEntry s M (of_nat i * cs) (FatGetLboFromIndex s (of_nat j)) cs)
          (enumerate 0 js) (BadBlockMcb s))"

lemma bad_in_Suc: "a \<le> b \<Longrightarrow> bad_in s a (b + 1) = bad_in s a b @
    (if FatInterpretClusterType s (FatEntryOf s (of_nat b)) = FatClusterBad then [b] else [])"
  by (simp add: bad_in_def)

lemma bad_mcb_snoc: "bad_mcb s (js @ [j]) =
    (let cs = push_bit (unat (LogOfBytesPerCluster (AllocationSupport s))) 1
     in FatAddMcbEntry s (bad_mcb s js) (of_nat (length js) * cs) (FatGetLboFromIndex s (of_nat j)) cs)"
  by (simp add: bad_mcb_def enumerate_append_eq Let_def)

text \<open>
  \<open>scan_inv s0 setup cnt bm0 n a x L s\<close>: before entry \<open>x\<close> of a scan from \<open>a\<close> on that began in \<open>s0\<close>,
  the locals are \<open>L\<close> and the Vcb is \<open>s\<close>. \<open>scan_base\<close> is the Vcb when the current window was
  begun: during setup the earlier windows are finished in it.
\<close>

definition window_start :: "nat \<Rightarrow> nat" where
  "window_start w = 2 + 65536 * w"

primrec scan_base :: "VCB \<Rightarrow> nat \<Rightarrow> VCB" where
  "scan_base s 0 = s"
| "scan_base s (Suc w) =
     FatUpdateWindow (w + 1) (\<lambda>W. W\<lparr>ClustersFree := 0, FirstCluster := of_nat (window_start (w + 1))\<rparr>)
       (FatCountFreeRun True w
          (of_nat (free_in (\<lambda>j. FatEntryOf s (of_nat j)) (window_start w) (window_start (w + 1))))
          (FatUpdateWindow w (\<lambda>W. W\<lparr>LastCluster := of_nat (window_start (w + 1)) - 1\<rparr>) (scan_base s w)))"

lemma scan_frame_base [simp]: "scan_frame s0 (scan_base s0 w)"
  by (induction w) simp_all

definition scan_inv :: "VCB \<Rightarrow> bool \<Rightarrow> bool \<Rightarrow> nat \<Rightarrow> bool list option \<Rightarrow> nat \<Rightarrow> nat \<Rightarrow> nat \<Rightarrow> EXAMINE \<Rightarrow> VCB \<Rightarrow> bool" where
  "scan_inv s0 setup cnt w0 bm0 n a x L s \<longleftrightarrow>
     (let e = (\<lambda>j. FatEntryOf s0 (of_nat j)); w = ExamineWindow L;
          bad = (setup \<or> NumberOfWindows s0 = 1);
          cs = push_bit (unat (LogOfBytesPerCluster (AllocationSupport s0))) 1;
          first = (if setup then window_start w else a)
      in (if setup then first \<le> x \<and> x \<le> window_start (w + 1) \<and> (x = first \<longrightarrow> x = a) else w = w0)
       \<and> CurrentRun L \<noteq> UnknownClusters \<and> buffer_at s0 x L \<and> (BitMap L = None) = (bm0 = None)
       \<and> BadClusterVbo L = (if bad then of_nat (length (bad_in s0 a x)) * cs else 0)
       \<and> (\<exists>r K. StartIndexOfThisRun L = of_nat r \<and> first \<le> r \<and> a \<le> r \<and> in_run e r x (CurrentRun L)
            \<and> bits_upto e n a r (BitMap L)
            \<and> s = (FatCountFreeRun cnt w (of_nat (free_in e first r)) (if setup then scan_base s0 w else s0))
                  \<lparr>BadBlockMcb := if bad then bad_mcb s0 (bad_in s0 a x) else BadBlockMcb s0, KernelResults := K\<rparr>))"


lemma FatCountFreeRun_other:
  "FatCountFreeRun c w m (s\<lparr>KernelResults := K\<rparr>) = (FatCountFreeRun c w m s)\<lparr>KernelResults := K\<rparr>"
  "FatCountFreeRun c w m (s\<lparr>BadBlockMcb := B\<rparr>) = (FatCountFreeRun c w m s)\<lparr>BadBlockMcb := B\<rparr>"
  "FatUpdateWindow w f (s\<lparr>KernelResults := K\<rparr>) = (FatUpdateWindow w f s)\<lparr>KernelResults := K\<rparr>"
  "FatUpdateWindow w f (s\<lparr>BadBlockMcb := B\<rparr>) = (FatUpdateWindow w f s)\<lparr>BadBlockMcb := B\<rparr>"
  by (simp_all add: FatCountFreeRun_def FatUpdateWindow_def)

lemma FatUpdateWindow_count:
  "FatUpdateWindow w (\<lambda>W. W\<lparr>LastCluster := l\<rparr>) (FatCountFreeRun c w n s) =
   FatCountFreeRun c w n (FatUpdateWindow w (\<lambda>W. W\<lparr>LastCluster := l\<rparr>) s)"
proof (cases "w < length (Windows s)")
  case True
  obtain f l0 c0 where "Windows s ! w = \<lparr>FirstCluster = f, LastCluster = l0, ClustersFree = c0\<rparr>"
    by (cases "Windows s ! w")
  with True show ?thesis by (simp add: FatUpdateWindow_def FatCountFreeRun_def)
qed (simp add: FatUpdateWindow_def FatCountFreeRun_def list_update_beyond)

definition scan_mid :: "VCB \<Rightarrow> bool \<Rightarrow> bool \<Rightarrow> nat \<Rightarrow> nat \<Rightarrow> nat \<Rightarrow> nat \<Rightarrow> nat \<Rightarrow> RunType \<Rightarrow> nat \<Rightarrow> ntstatus option list \<Rightarrow> VCB \<Rightarrow> bool" where
  "scan_mid s0 setup cnt w0 a x r w R b K s \<longleftrightarrow>
     (let e = (\<lambda>j. FatEntryOf s0 (of_nat j)); bad = (setup \<or> NumberOfWindows s0 = 1);
          first = (if setup then window_start w else a)
      in (if setup then first \<le> x \<and> x < window_start (w + 1) else w = w0) \<and> first \<le> r \<and> a \<le> r
       \<and> in_run e r b R \<and> (R = UnknownClusters \<longrightarrow> r = x)
       \<and> s = (FatCountFreeRun cnt w (of_nat (free_in e first r)) (if setup then scan_base s0 w else s0))
              \<lparr>BadBlockMcb := if bad then bad_mcb s0 (bad_in s0 a x) else BadBlockMcb s0, KernelResults := K\<rparr>)"

lemma window_start_mod:
  assumes "window_start w \<le> x" "x \<le> window_start (w + 1)" "x = window_start w \<longrightarrow> x = 2"
  shows "2 < x \<and> (x - 2) mod 65536 = 0 \<longleftrightarrow> x = window_start (w + 1)"
proof -
  define d where "d = x - (2 + 65536 * w)"
  have d: "x = 2 + 65536 * w + d" "d \<le> 65536" using assms(1,2) by (auto simp: window_start_def d_def)
  have m: "(x - 2) mod 65536 = d mod 65536" unfolding d(1) by simp
  have x: "x = window_start w \<longleftrightarrow> d = 0" "x = window_start (w + 1) \<longleftrightarrow> d = 65536" "2 < x \<or> w = 0 \<and> d = 0"
    unfolding d(1) by (auto simp: window_start_def)
  consider "d = 0" | "0 < d" "d < 65536" | "d = 65536" using d(2) by linarith
  then show ?thesis
  proof cases
    case 1
    then have "x = 2" using assms(3) x(1) by simp
    then show ?thesis using 1 x(2) by simp
  next
    case 2
    then show ?thesis unfolding m x(2) by simp
  next
    case 3
    then show ?thesis unfolding m x(2) using x(3) by simp
  qed
qed

lemma word_window:
  assumes "x < 2 ^ 31"
  shows "(of_nat x :: ULONG) > 2 \<longleftrightarrow> 2 < x" "2 \<le> x \<Longrightarrow> ((of_nat x :: ULONG) - 2) mod 0x10000 = 0 \<longleftrightarrow> (x - 2) mod 65536 = 0"
proof -
  have u: "unat (of_nat x :: ULONG) = x" using assms by (intro unat_of_nat_small) simp
  then show "(of_nat x :: ULONG) > 2 \<longleftrightarrow> 2 < x" by (simp add: word_less_nat)
  assume "2 \<le> x"
  then have "unat ((of_nat x :: ULONG) - 2) = x - 2" by (subst unat_sub_le) (simp_all add: word_le_nat u)
  then have "unat (((of_nat x :: ULONG) - 2) mod 0x10000) = (x - 2) mod 65536" by (simp add: unat_mod)
  then show "((of_nat x :: ULONG) - 2) mod 0x10000 = 0 \<longleftrightarrow> (x - 2) mod 65536 = 0"
    by (metis unat_eq_zero)
qed

lemma FatExamine_bucket_inv:
  assumes inv: "scan_inv s0 setup cnt w0 bm0 n a x L s" and x: "x < 2 ^ 31" and a: "a \<le> x"
    and su: "setup \<Longrightarrow> cnt \<and> a = 2 \<and> E = 0x10000 \<and> bm0 = None"
    and res: "FatExamine_bucket setup (of_nat a) E (of_nat x) L s = (res, t)"
  obtains r w R K where "res = Inr (L\<lparr>StartIndexOfThisRun := of_nat r, CurrentRun := R, ExamineWindow := w\<rparr>)"
    "scan_mid s0 setup cnt w0 a x r w R x K t" "bits_upto (\<lambda>j. FatEntryOf s0 (of_nat j)) n a r (BitMap L)"
proof -
  define e where "e = (\<lambda>j. FatEntryOf s0 (of_nat j))"
  define bad where "bad \<longleftrightarrow> setup \<or> NumberOfWindows s0 = 1"
  define w where "w = ExamineWindow L"
  define first where "first = (if setup then window_start w else a)"
  define B where "B = (if bad then bad_mcb s0 (bad_in s0 a x) else BadBlockMcb s0)"
  define base where "base = (if setup then scan_base s0 w else s0)"
  from inv obtain r K where r: "StartIndexOfThisRun L = of_nat r" "first \<le> r" "a \<le> r"
    "in_run e r x (CurrentRun L)" "bits_upto e n a r (BitMap L)" "CurrentRun L \<noteq> UnknownClusters"
    "if setup then first \<le> x \<and> x \<le> window_start (w + 1) \<and> (x = first \<longrightarrow> x = a) else w = w0"
    "s = (FatCountFreeRun cnt w (of_nat (free_in e first r)) base)\<lparr>BadBlockMcb := B, KernelResults := K\<rparr>"
    unfolding scan_inv_def Let_def e_def bad_def w_def first_def B_def base_def by blast
  have rx: "r \<le> x" using r(4) by (simp add: in_run_def)
  have bm: "setup \<Longrightarrow> BitMap L = None" using inv su by (auto simp: scan_inv_def Let_def)
  show thesis
  proof (cases "setup \<and> x = window_start (w + 1)")
    case True
    with su have cnt: cnt and a2: "a = 2" and E: "E = 0x10000" by auto
    have first: "first = window_start w" using True by (simp add: first_def)
    have step: "(of_nat x :: ULONG) > of_nat a" "((of_nat x :: ULONG) - 2) mod 0x10000 = 0"
      using word_window[OF x] True a2 window_start_mod[of w x] r(7) by (auto simp: first_def split: if_splits)
    have run: "(of_nat x :: ULONG) - of_nat r = of_nat (x - r)" using rx by (rule of_nat_minus32)
    have "free_in e r x = (if CurrentRun L = FreeClusters then x - r else 0)"
      using r(4) by (intro free_in_run) (auto simp: in_run_def)
    then have cnt_eq: "(if CurrentRun L = FreeClusters then FatCountFreeRun True w (of_nat (x - r)) s' else s')
        = FatCountFreeRun True w (of_nat (free_in e r x)) s'" for s'
      by (simp add: FatCountFreeRun_0)
    have tot: "free_in e (window_start w) x = free_in e (window_start w) r + free_in e r x"
      using r(2) rx first by (intro free_in_trans) simp_all
    from True have su: "setup" and xw: "x = window_start (w + 1)" by simp_all
    have base: "scan_base s0 (w + 1) =
        FatUpdateWindow (w + 1) (\<lambda>W. W\<lparr>ClustersFree := 0, FirstCluster := of_nat x\<rparr>)
          (FatCountFreeRun True w (of_nat (free_in e (window_start w) x))
             (FatUpdateWindow w (\<lambda>W. W\<lparr>LastCluster := of_nat x - 1\<rparr>) base))"
      by (simp add: xw e_def base_def su)
    have fin: "FatUpdateWindow w (\<lambda>W. W\<lparr>LastCluster := of_nat x - 1\<rparr>) s =
        (FatCountFreeRun True w (of_nat (free_in e first r))
          (FatUpdateWindow w (\<lambda>W. W\<lparr>LastCluster := of_nat x - 1\<rparr>) base))\<lparr>BadBlockMcb := B, KernelResults := K\<rparr>"
      using cnt by (simp add: r(8) FatUpdateWindow_count FatCountFreeRun_other)
    have "t = FatUpdateWindow (w + 1) (\<lambda>W. W\<lparr>ClustersFree := 0, FirstCluster := of_nat x\<rparr>)
        (FatCountFreeRun True w (of_nat (free_in e r x))
          (FatUpdateWindow w (\<lambda>W. W\<lparr>LastCluster := of_nat x - 1\<rparr>) s))"
      using res[symmetric] su step unfolding cnt_eq[symmetric] by (simp add: FatExamine_bucket_def Let_def E w_def r(1) run)
    then have t: "t = (scan_base s0 (w + 1))\<lparr>BadBlockMcb := B, KernelResults := K\<rparr>"
      unfolding fin base by (simp add: FatCountFreeRun_other FatCountFreeRun_add tot first)
    have "res = Inr (L\<lparr>StartIndexOfThisRun := of_nat x, CurrentRun := UnknownClusters, ExamineWindow := w + 1\<rparr>)"
      using res su step by (simp add: FatExamine_bucket_def Let_def E w_def)
    then show thesis
    proof (rule that)
      show "scan_mid s0 setup cnt w0 a x x (w + 1) UnknownClusters x K t"
        using True a2 by (auto simp: scan_mid_def Let_def in_run_def t B_def bad_def window_start_def FatCountFreeRun_0)
      show "bits_upto (\<lambda>j. FatEntryOf s0 (of_nat j)) n a x (BitMap L)"
        using bm True by (simp add: bits_upto_def)
    qed
  next
    case False
    have "FatExamine_bucket setup (of_nat a) E (of_nat x) L s = (Inr L, s)"
    proof (cases "setup")
      case True
      with su a have "a = 2" "E = 0x10000" "2 \<le> x" by auto
      moreover have "\<not> (2 < x \<and> (x - 2) mod 65536 = 0)"
        using window_start_mod[of w x] r(7) True False \<open>a = 2\<close> by (auto simp: first_def)
      ultimately have "\<not> ((of_nat x :: ULONG) > of_nat a \<and> ((of_nat x :: ULONG) - 2) mod E = 0)"
        using word_window[OF x] by auto
      then show ?thesis by (auto simp: FatExamine_bucket_def)
    qed (simp add: FatExamine_bucket_def)
    then have "res = Inr (L\<lparr>StartIndexOfThisRun := of_nat r, CurrentRun := CurrentRun L, ExamineWindow := w\<rparr>)" "t = s"
      using res r(1) by (simp_all add: w_def)
    then show thesis
    proof (intro that)
      show "scan_mid s0 setup cnt w0 a x r w (CurrentRun L) x K t"
        using r False \<open>t = s\<close> by (auto simp: scan_mid_def Let_def e_def B_def bad_def first_def base_def split: if_splits)
      show "bits_upto (\<lambda>j. FatEntryOf s0 (of_nat j)) n a r (BitMap L)" using r(5) by (simp add: e_def)
    qed
  qed
qed


lemma FatExamine_step_eq:
  "(B = 12 \<Longrightarrow> \<not> setup) \<Longrightarrow> FatExamine_step B setup cnt a E i L s =
     seq (FatExamine_bucket setup a E i L) (\<lambda>L1.
     seq (seq (if B = 12 then ret L1 else FatExamine_page L1) (FatExamine_read B i)) (\<lambda>L2.
     seq (FatExamine_run cnt a i L2) (FatExamine_bad setup i))) s"
  by (cases "B = 12") (simp_all add: FatExamine_step_def seq_assoc seq_ret FatExamine_bucket_def seq_def)

lemma scan_mid_frame: "scan_mid s0 setup cnt w0 a x r w R b K s \<Longrightarrow> scan_frame s0 s"
  by (auto simp: scan_mid_def Let_def)

lemma buffer_at_cong: "FatBuffer L' = FatBuffer L \<Longrightarrow> ExamineOffset L' = ExamineOffset L \<Longrightarrow> buffer_at s x L' = buffer_at s x L"
  by (simp add: buffer_at_def)

lemma FatExamine_bad_Inr:
  assumes "FatExamine_bad setup i L s = (Inr L', t)"
  shows "\<exists>K. let isbad = ((setup \<or> NumberOfWindows s = 1) \<and> FatInterpretClusterType s (ExamineEntry L) = FatClusterBad);
                 cs = push_bit (unat (LogOfBytesPerCluster (AllocationSupport s))) 1
    in L' = L\<lparr>BadClusterVbo := BadClusterVbo L + (if isbad then cs else 0)\<rparr>
     \<and> t = s\<lparr>BadBlockMcb := (if isbad then FatAddMcbEntry s (BadBlockMcb s) (BadClusterVbo L) (FatGetLboFromIndex s i) cs
                           else BadBlockMcb s), KernelResults := K\<rparr>"
proof -
  have swap: "s\<lparr>KernelResults := K, BadBlockMcb := B\<rparr> = s\<lparr>BadBlockMcb := B, KernelResults := K\<rparr>" for s :: VCB and K B
    by (cases s) simp
  have cong: "FatAddMcbEntry (s\<lparr>KernelResults := K\<rparr>) M v l n = FatAddMcbEntry s M v l n" for K M v l n
    by (rule scan_frame_entry(5)) simp
  show ?thesis
  proof (cases "(setup \<or> NumberOfWindows s = 1) \<and> FatInterpretClusterType s (ExamineEntry L) = FatClusterBad")
    case True
    then show ?thesis using assms
      by (intro exI[of _ "tl (KernelResults s)"])
        (auto simp: FatExamine_bad_def Let_def FatAddBadBlockMcb_def seq_eq_Inr KernelCall_Inr swap cong)
  next
    case False
    then have "L' = L" "t = s" using assms by (simp_all add: FatExamine_bad_def Let_def if_not_P)
    then show ?thesis unfolding Let_def if_not_P[OF False]
      by (intro exI[of _ "KernelResults s"]) simp
  qed
qed

lemma FatExamine_step_inv:
  assumes inv: "scan_inv s0 setup cnt w0 bm0 n a x L s" and ok: "vcb_ok s0" and x: "a \<le> x" "x \<le> vcb_N s0 + 1"
    and su: "setup \<Longrightarrow> cnt \<and> a = 2 \<and> E = 0x10000 \<and> bm0 = None \<and> vcb_bits s0 \<noteq> 12"
    and res: "FatExamine_step (vcb_bits s0) setup cnt (of_nat a) E (of_nat x) L s = (Inr L', t)"
  shows "scan_inv s0 setup cnt w0 bm0 n a (x + 1) L' t"
proof -
  have x31: "x < 2 ^ 31" using vcb_N_bounds(1)[OF ok] x(2) by simp
  have su': "setup \<Longrightarrow> cnt \<and> a = 2 \<and> E = 0x10000 \<and> bm0 = None" using su by simp
  define e where "e = (\<lambda>j. FatEntryOf s0 (of_nat j))"
  define bad where "bad \<longleftrightarrow> setup \<or> NumberOfWindows s0 = 1"
  define cs where "cs = (push_bit (unat (LogOfBytesPerCluster (AllocationSupport s0))) 1 :: ULONG)"
  from res su obtain L1 s1 L2 s2 L3 s3 where
    1: "FatExamine_bucket setup (of_nat a) E (of_nat x) L s = (Inr L1, s1)" and
    2: "seq (if vcb_bits s0 = 12 then ret L1 else FatExamine_page L1) (FatExamine_read (vcb_bits s0) (of_nat x)) s1
          = (Inr L2, s2)" and
    3: "FatExamine_run cnt (of_nat a) (of_nat x) L2 s2 = (Inr L3, s3)" and
    4: "FatExamine_bad setup (of_nat x) L3 s3 = (Inr L', t)"
    by (subst (asm) FatExamine_step_eq) (auto simp: seq_eq_Inr)
  obtain r w R K where L1: "L1 = L\<lparr>StartIndexOfThisRun := of_nat r, CurrentRun := R, ExamineWindow := w\<rparr>"
    and mid: "scan_mid s0 setup cnt w0 a x r w R x K s1" and bits: "bits_upto e n a r (BitMap L)"
    using FatExamine_bucket_inv[OF inv x31 x(1) su' 1] unfolding e_def by (metis sum.inject(2))
  have buf: "buffer_at s0 x L" and bmN: "(BitMap L = None) = (bm0 = None)"
    and vbo: "BadClusterVbo L = (if bad then of_nat (length (bad_in s0 a x)) * cs else 0)"
    using inv by (simp_all add: scan_inv_def Let_def bad_def cs_def)
  have f1: "scan_frame s0 s1" using mid by (rule scan_mid_frame)
  have "\<exists>p off K. L2 = L1\<lparr>FatBuffer := p, ExamineOffset := off, ExamineEntry := FatEntryOf s1 (of_nat x)\<rparr>
    \<and> buffer_at s1 (x + 1) L2 \<and> s2 = s1\<lparr>KernelResults := K\<rparr>"
  proof (rule FatExamine_entry)
    show "vcb_ok s1" "x \<le> vcb_N s1 + 1" using ok x(2) f1 by (simp_all add: scan_frame_entry scan_frameD)
    show "buffer_at s1 x L1" unfolding buffer_at_frame[OF f1] using buf buffer_at_cong[of L1 L s0 x] by (simp add: L1)
    show "seq (if vcb_bits s1 = 12 then ret L1 else FatExamine_page L1) (FatExamine_read (vcb_bits s1) (of_nat x)) s1
        = (Inr L2, s2)" using 2 f1 by (simp add: scan_frameD)
  qed
  then obtain p off K2 where L2: "L2 = L1\<lparr>FatBuffer := p, ExamineOffset := off, ExamineEntry := e x\<rparr>"
    and buf2: "buffer_at s0 (x + 1) L2" and s2: "s2 = s1\<lparr>KernelResults := K2\<rparr>"
    using f1 by (auto simp: e_def scan_frame_entry buffer_at_frame)
  from mid have m: "in_run e r x R" "R = UnknownClusters \<Longrightarrow> r = x" "a \<le> r"
    by (simp_all add: scan_mid_def Let_def e_def)
  obtain r' R' bm where L3: "L3 = L2\<lparr>StartIndexOfThisRun := of_nat r', CurrentRun := R', BitMap := bm\<rparr>"
    and s3: "s3 = FatCountFreeRun cnt w (of_nat (free_in e r r')) s2"
    and r': "in_run e r' (x + 1) R'" "R' \<noteq> UnknownClusters" "r \<le> r'" "bits_upto e n a r' bm" "(bm = None) = (BitMap L = None)"
  proof -
    have c: "CurrentRun L2 = R" "StartIndexOfThisRun L2 = of_nat r" "ExamineEntry L2 = e x" "BitMap L2 = BitMap L"
      "ExamineWindow L2 = w" by (simp_all add: L2 L1)
    show thesis
      using FatExamine_run_step[of e r x L2 a n cnt s2 "Inr L3" s3] m 3 x31 bits that unfolding c by auto
  qed
  have f3: "scan_frame s0 s3" using f1 by (simp add: s3 s2)
  define isbad where "isbad \<longleftrightarrow> bad \<and> FatInterpretClusterType s0 (e x) = FatClusterBad"
  have "\<exists>K'. L' = L3\<lparr>BadClusterVbo := BadClusterVbo L + (if isbad then cs else 0)\<rparr> \<and>
     t = s3\<lparr>BadBlockMcb := (if isbad then FatAddMcbEntry s0 (BadBlockMcb s3) (BadClusterVbo L) (FatGetLboFromIndex s0 (of_nat x)) cs
                         else BadBlockMcb s3), KernelResults := K'\<rparr>"
  proof -
    have c: "ExamineEntry L3 = e x" "BadClusterVbo L3 = BadClusterVbo L" by (simp_all add: L3 L2 L1)
    show ?thesis
      using FatExamine_bad_Inr[OF 4]
      unfolding c scan_frame_entry[OF f3] scan_frameD[OF f3] Let_def bad_def[symmetric] isbad_def[symmetric] cs_def[symmetric] .
  qed
  then obtain K' where L': "L' = L3\<lparr>BadClusterVbo := BadClusterVbo L + (if isbad then cs else 0)\<rparr>"
    and t: "t = s3\<lparr>BadBlockMcb := (if isbad then FatAddMcbEntry s0 (BadBlockMcb s3) (BadClusterVbo L) (FatGetLboFromIndex s0 (of_nat x)) cs
                         else BadBlockMcb s3), KernelResults := K'\<rparr>" by blast
  define first where "first = (if setup then window_start w else a)"
  define base where "base = (if setup then scan_base s0 w else s0)"
  define B where "B = (if bad then bad_mcb s0 (bad_in s0 a x) else BadBlockMcb s0)"
  from mid[unfolded scan_mid_def Let_def, folded bad_def e_def, folded first_def base_def B_def]
  have w: "if setup then first \<le> x \<and> x < window_start (w + 1) else w = w0" "first \<le> r"
    and s1: "s1 = (FatCountFreeRun cnt w (of_nat (free_in e first r)) base)\<lparr>BadBlockMcb := B, KernelResults := K\<rparr>"
    by blast+
  have tot: "free_in e first r' = free_in e first r + free_in e r r'" using w(2) r'(3) by (rule free_in_trans)
  have s3': "s3 = (FatCountFreeRun cnt w (of_nat (free_in e first r')) base)\<lparr>BadBlockMcb := B, KernelResults := K2\<rparr>"
    by (simp add: s3 s2 s1 FatCountFreeRun_other FatCountFreeRun_add tot)
  have sbad: "bad_in s0 a (x + 1) = bad_in s0 a x @ (if FatInterpretClusterType s0 (e x) = FatClusterBad then [x] else [])"
    using bad_in_Suc[OF x(1)] by (simp add: e_def)
  have B': "BadBlockMcb t = (if bad then bad_mcb s0 (bad_in s0 a (x + 1)) else BadBlockMcb s0)"
    unfolding sbad using vbo by (auto simp: t s3' B_def isbad_def bad_mcb_snoc cs_def Let_def)
  have V: "BadClusterVbo L' = (if bad then of_nat (length (bad_in s0 a (x + 1))) * cs else 0)"
    unfolding sbad using vbo by (auto simp: L' isbad_def algebra_simps)
  have "t = (FatCountFreeRun cnt w (of_nat (free_in e first r')) base)
      \<lparr>BadBlockMcb := if bad then bad_mcb s0 (bad_in s0 a (x + 1)) else BadBlockMcb s0, KernelResults := K'\<rparr>"
    unfolding B'[symmetric] by (simp add: t s3')
  moreover have "buffer_at s0 (x + 1) L'" using buf2 buffer_at_cong[of L' L2 s0 "x + 1"] by (simp add: L' L3)
  ultimately show ?thesis
    unfolding scan_inv_def Let_def e_def[symmetric] bad_def[symmetric] cs_def[symmetric]
    using w r' V bmN m(3) by (auto simp: L' L3 L2 L1 first_def base_def split: if_splits)
qed

section \<open>The whole scan\<close>

text \<open>
  Where a scan may start: the first entry must not lie at the start of a page, which the page
  test at the top of the loop would take for the end of the page before; a 16-bit scan always
  starts at entry 2.
\<close>

definition scan_start_ok :: "VCB \<Rightarrow> nat \<Rightarrow> bool" where
  "scan_start_ok s a \<longleftrightarrow> 2 \<le> a \<and> (vcb_bits s = 32 \<longrightarrow> a mod 32 \<noteq> 0) \<and> (vcb_bits s = 16 \<longrightarrow> a = 2)"

lemma page_split: "unat ((w div PAGE_SIZE) * PAGE_SIZE) + unat (w mod PAGE_SIZE) = unat w"
  "unat ((w div PAGE_SIZE) * PAGE_SIZE) = unat w div 4096 * 4096" "unat (w mod PAGE_SIZE) = unat w mod 4096"
proof -
  have "unat w div 4096 * 4096 \<le> unat w" by (rule div_times_less_eq_dividend)
  then show d: "unat ((w div PAGE_SIZE) * PAGE_SIZE) = unat w div 4096 * 4096"
    using unat_lt32[of w] by (subst unat_mult_small) (simp_all add: unat_div)
  show m: "unat (w mod PAGE_SIZE) = unat w mod 4096" by (simp add: unat_mod)
  show "unat ((w div PAGE_SIZE) * PAGE_SIZE) + unat (w mod PAGE_SIZE) = unat w"
    unfolding d m by (rule div_mult_mod_eq)
qed

lemma dvd_128_mod: "128 dvd R \<Longrightarrow> k mod 128 \<noteq> 0 \<Longrightarrow> (R + k) mod 4096 \<noteq> (0::nat)"
proof
  assume "128 dvd R" "k mod 128 \<noteq> 0" "(R + k) mod 4096 = 0"
  then have "4096 dvd R + k" by (simp add: mod_eq_0_iff_dvd)
  then have "128 dvd R + k" by (rule dvd_trans[rotated]) simp
  with \<open>128 dvd R\<close> have "128 dvd k" by (simp add: dvd_add_right_iff)
  with \<open>k mod 128 \<noteq> 0\<close> show False by simp
qed

lemma reserved_page:
  assumes "128 dvd (R::nat)"
  shows "(R + 4) div 4096 * 4096 + (R mod 4096 + 4) = R + 4"
proof -
  have "128 dvd R mod 4096" using assms by (simp add: dvd_mod)
  moreover have "R mod 4096 < 4096" by simp
  ultimately have "R mod 4096 + 128 \<le> 4096" by (intro dvd_less_add) simp_all
  then have l: "R mod 4096 + 4 < 4096" by simp
  define q m where "q = R div 4096" and "m = R mod 4096 + 4"
  have "R = q * 4096 + R mod 4096" unfolding q_def by (rule div_mult_mod_eq[symmetric])
  then have R: "R + 4 = q * 4096 + m" by (simp add: m_def)
  have "(q * 4096 + m) div 4096 = q" using l by (simp add: m_def)
  then show ?thesis unfolding R m_def[symmetric] by simp
qed

lemma buffer_at_page:
  assumes "vcb_bits s \<noteq> 12" "unat X = vcb_R s + (if vcb_bits s = 32 then 4 else 2) * x" "unat X mod 4096 \<noteq> 0"
    "FatBuffer L = unat X" "ExamineOffset L = X div PAGE_SIZE * PAGE_SIZE"
  shows "buffer_at s x L"
proof -
  have "unat X div 4096 * 4096 + unat X mod 4096 = unat X" "unat X mod 4096 < 4096" by (simp_all add: div_mult_mod_eq)
  then have "unat X div 4096 * 4096 < unat X" "unat X \<le> unat X div 4096 * 4096 + 4096"
    using assms(3) by linarith+
  then show ?thesis
    unfolding buffer_at_def page_split(2) assms(4,5) if_not_P[OF assms(1)] by (intro conjI assms(2)) simp_all
qed

lemma FatExamine_first_Inr:
  assumes ok: "vcb_ok s" and a: "a \<le> vcb_N s + 1" "scan_start_ok s a"
    and res: "FatExamine_first (vcb_bits s) (of_nat a) L0 s = (Inr L, t)"
  shows "StartIndexOfThisRun L = StartIndexOfThisRun L0 \<and> ExamineWindow L = ExamineWindow L0 \<and> BitMap L = BitMap L0
    \<and> BadClusterVbo L = BadClusterVbo L0 \<and> CurrentRun L \<noteq> UnknownClusters
    \<and> buffer_at s a L \<and> t = s\<lparr>KernelResults := tl (KernelResults s)\<rparr>"
proof -
  have u: "unat (of_nat a :: ULONG) = a" by (rule of_nat_index[OF ok a(1)])
  then have "unat (of_nat a :: ULONG) \<le> vcb_N s + 1" using a by simp
  note off = unat_entry_offset[OF ok this, unfolded u]
  note r128 = reserved_even[OF ok]
  show ?thesis
  proof (cases "vcb_bits s = 12")
    case True
    with res show ?thesis
      by (auto simp: FatExamine_first_def FatReadVolumeFile_def seq_eq_Inr KernelCall_Inr buffer_at_def split: if_splits)
  next
    case b12: False
    define sz where "sz = (if vcb_bits s = 32 then 4 else 2 :: nat)"
    define X where "X = FatReservedBytes (Bpb s) + of_nat a * (ucast (drop_bit 3 (vcb_bits s)) :: ULONG)"
    define p where "p = unat (X div PAGE_SIZE * PAGE_SIZE)
      + (if vcb_bits s = 32 then unat (X mod PAGE_SIZE) else unat (FatReservedBytes (Bpb s) mod PAGE_SIZE) + 4)"
    have b: "vcb_bits s = 16 \<or> vcb_bits s = 32" using ok b12 by (auto elim: vcb_bits_cases)
    have d: "drop_bit 3 (16 :: UCHAR) = 2" "drop_bit 3 (32 :: UCHAR) = 4" by (simp_all add: drop_bit_eq_div)
    have X: "unat X = vcb_R s + sz * a"
      using b off(2,3) by (auto simp: X_def sz_def d)
    have p: "p = unat X"
    proof (cases "vcb_bits s = 32")
      case True
      then show ?thesis using page_split(1)[of X] by (simp add: p_def)
    next
      case False
      then have "a = 2" "sz = 2" using a(2) b by (auto simp: scan_start_ok_def sz_def)
      then show ?thesis using False reserved_page[OF r128] X by (simp add: p_def page_split(2,3))
    qed
    have "(sz * a) mod 128 \<noteq> 0"
    proof (cases "vcb_bits s = 32")
      case True
      have "4 * a mod (4 * 32) = 4 * (a mod 32)" by (rule mult_mod_right[symmetric])
      then show ?thesis using True a(2) by (simp add: sz_def scan_start_ok_def)
    next
      case False
      then show ?thesis using a(2) b by (auto simp: scan_start_ok_def sz_def)
    qed
    then have m: "unat X mod 4096 \<noteq> 0" unfolding X by (rule dvd_128_mod[OF r128])
    have "\<exists>R. R \<noteq> UnknownClusters \<and> t = s\<lparr>KernelResults := tl (KernelResults s)\<rparr>
        \<and> L = L0\<lparr>FatBuffer := p, ExamineOffset := X div PAGE_SIZE * PAGE_SIZE, CurrentRun := R\<rparr>"
      using res unfolding FatExamine_first_def Let_def if_not_P[OF b12] FatReadVolumeFile_def
      by (auto simp: seq_eq_Inr KernelCall_Inr p_def X_def add.assoc split: if_splits)
    moreover have "buffer_at s a L" if "FatBuffer L = p" "ExamineOffset L = X div PAGE_SIZE * PAGE_SIZE"
      using b12 X m that by (intro buffer_at_page) (simp_all add: sz_def p)
    ultimately show ?thesis by auto
  qed
qed


text \<open>What a scan that is not abandoned has found, and the Vcb it leaves.\<close>

definition scan_result ::
  "VCB \<Rightarrow> bool \<Rightarrow> bool \<Rightarrow> nat \<Rightarrow> nat \<Rightarrow> nat \<Rightarrow> nat \<Rightarrow> ntstatus option list \<Rightarrow> VCB" where
  "scan_result s setup cnt a x w first K =
     (let bad = (setup \<or> NumberOfWindows s = 1);
          t = (FatCountFreeRun cnt w (of_nat (free_in (\<lambda>j. FatEntryOf s (of_nat j)) first x))
                 (if setup then scan_base s w else s))
              \<lparr>BadBlockMcb := if bad then bad_mcb s (bad_in s a x) else BadBlockMcb s, KernelResults := K,
               BadBlocksPopulated := True\<rparr>
      in if setup then FatUpdateWindow w (\<lambda>W. W\<lparr>LastCluster := of_nat x - 1\<rparr>) t else t)"

lemma FatExamine_last_inv:
  assumes inv: "scan_inv s0 setup cnt w0 bm0 n a x L s" and x: "x < 2 ^ 32"
    and res: "FatExamine_last setup cnt (of_nat a) (of_nat x) L s = (r, t)" and su: "setup \<Longrightarrow> cnt"
  shows "\<exists>bm w first K. r = Inr bm \<and> (bm = None) = (bm0 = None) \<and> bits_upto (\<lambda>j. FatEntryOf s0 (of_nat j)) n a x bm
    \<and> t = scan_result s0 setup cnt a x w first K
    \<and> (if setup then first = window_start w \<and> first \<le> x \<and> x \<le> window_start (w + 1) \<and> (x = first \<longrightarrow> x = a)
       else w = w0 \<and> first = a)"
proof -
  define e where "e = (\<lambda>j. FatEntryOf s0 (of_nat j))"
  define bad where "bad \<longleftrightarrow> setup \<or> NumberOfWindows s0 = 1"
  define w where "w = ExamineWindow L"
  define first where "first = (if setup then window_start w else a)"
  define B where "B = (if bad then bad_mcb s0 (bad_in s0 a x) else BadBlockMcb s0)"
  define base where "base = (if setup then scan_base s0 w else s0)"
  from inv[unfolded scan_inv_def Let_def, folded e_def bad_def w_def, folded first_def B_def base_def]
  obtain q K where q: "StartIndexOfThisRun L = of_nat q" "first \<le> q" "a \<le> q"
    "in_run e q x (CurrentRun L)" "bits_upto e n a q (BitMap L)" "CurrentRun L \<noteq> UnknownClusters"
    "if setup then first \<le> x \<and> x \<le> window_start (w + 1) \<and> (x = first \<longrightarrow> x = a) else w = w0"
    "(BitMap L = None) = (bm0 = None)"
    "s = (FatCountFreeRun cnt w (of_nat (free_in e first q)) base)\<lparr>BadBlockMcb := B, KernelResults := K\<rparr>"
    by (elim conjE exE) (rule that; assumption)
  have qx: "q \<le> x" using q(4) by (simp add: in_run_def)
  have d: "(of_nat x :: ULONG) - of_nat q = of_nat (x - q)" "(of_nat q :: ULONG) - of_nat a = of_nat (q - a)"
    using qx q(3) by (simp_all add: of_nat_diff)
  define bm where "bm = map_option (\<lambda>b. RtlFillBits (CurrentRun L \<noteq> FreeClusters) b (of_nat (q - a)) (of_nat (x - q))) (BitMap L)"
  have bits: "bits_upto e n a x bm" unfolding bm_def by (rule bits_upto_fill[OF q(5,4,3) x])
  have "free_in e q x = (if CurrentRun L = FreeClusters then x - q else 0)"
    using q(4) by (intro free_in_run) (auto simp: in_run_def)
  then have cnt_eq: "(if CurrentRun L = FreeClusters then FatCountFreeRun cnt w (of_nat (x - q)) s' else s')
      = FatCountFreeRun cnt w (of_nat (free_in e q x)) s'" for s'
    by (simp add: FatCountFreeRun_0)
  have tot: "free_in e first x = free_in e first q + free_in e q x" using q(2) qx by (rule free_in_trans)
  have other: "FatCountFreeRun c w m (s\<lparr>BadBlocksPopulated := True\<rparr>) = (FatCountFreeRun c w m s)\<lparr>BadBlocksPopulated := True\<rparr>"
    for c m s by (simp add: FatCountFreeRun_def FatUpdateWindow_def)
  have "(FatCountFreeRun cnt w (of_nat (free_in e q x)) (s\<lparr>BadBlocksPopulated := True\<rparr>)) =
      (FatCountFreeRun cnt w (of_nat (free_in e first x)) base)\<lparr>BadBlockMcb := B, KernelResults := K, BadBlocksPopulated := True\<rparr>"
    unfolding q(9) other FatCountFreeRun_other FatCountFreeRun_add tot by simp
  then have "FatExamine_last setup cnt (of_nat a) (of_nat x) L s = (Inr bm, scan_result s0 setup cnt a x w first K)"
    unfolding FatExamine_last_def Let_def w_def[symmetric] q(1) d cnt_eq bm_def[symmetric] scan_result_def
      e_def[symmetric] bad_def[symmetric] base_def[symmetric] B_def[symmetric] by simp
  then show ?thesis
    using res bits q(7,8) unfolding e_def
    by (intro exI[of _ bm] exI[of _ w] exI[of _ first] exI[of _ K]) (auto simp: bm_def first_def)
qed

lemma FatExamine_loop_inv:
  assumes ok: "vcb_ok s0" and a: "a \<le> b + 1" "b \<le> vcb_N s0 + 1" "2 \<le> a"
    and inv: "scan_inv s0 setup cnt w0 bm0 n a a L s"
    and su: "setup \<Longrightarrow> cnt \<and> a = 2 \<and> E = 0x10000 \<and> bm0 = None \<and> vcb_bits s0 \<noteq> 12"
    and res: "for_op (b + 1 - a) (FatExamine_step (vcb_bits s0) setup cnt (of_nat a) E) (of_nat a) L s = (Inr L', t)"
  shows "scan_inv s0 setup cnt w0 bm0 n a (b + 1) L' t"
proof -
  have "scan_inv s0 setup cnt w0 bm0 n a (a + (b + 1 - a)) L' t"
    using inv res
  proof (rule for_op_invariant[where I = "\<lambda>k. scan_inv s0 setup cnt w0 bm0 n a (a + k)", simplified])
    fix k L s L' s' assume "k < b + 1 - a" "scan_inv s0 setup cnt w0 bm0 n a (a + k) L s"
      "FatExamine_step (vcb_bits s0) setup cnt (of_nat a) E (of_nat a + of_nat k) L s = (Inr L', s')"
    then show "scan_inv s0 setup cnt w0 bm0 n a (Suc (a + k)) L' s'"
      using FatExamine_step_inv[OF _ ok _ _ su, where x = "a + k"] a by simp
  qed
  then show ?thesis using a(1) by simp
qed

lemma for_count_of_nat:
  "a \<le> b \<Longrightarrow> b < 2 ^ 32 \<Longrightarrow> for_count (of_nat a) (of_nat b) = b + 1 - a"
proof -
  assume ab: "a \<le> b" "b < 2 ^ 32"
  then have "unat (of_nat a :: ULONG) = a" "unat (of_nat b :: ULONG) = b" by (simp_all add: unat_of_nat_small)
  moreover have "(of_nat a :: ULONG) \<le> of_nat b" using ab calculation by (simp add: word_le_nat)
  ultimately show ?thesis using ab by (simp add: for_count_def unat_sub_le)
qed

lemma scan_inv_start:
  assumes "FatExamine_first (vcb_bits s) (of_nat a)
      \<lparr>FatBuffer = 0, ExamineOffset = 0, ExamineEntry = FAT_CLUSTER_AVAILABLE, StartIndexOfThisRun = of_nat a,
       CurrentRun = UnknownClusters, ExamineWindow = w0, BitMap = bm0, BadClusterVbo = 0\<rparr> s = (Inr L, t)"
    and "vcb_ok s" "a \<le> vcb_N s + 1" "scan_start_ok s a" "setup \<Longrightarrow> a = 2 \<and> w0 = 0"
    and "bits_upto (\<lambda>j. FatEntryOf s (of_nat j)) n a a bm0"
  shows "scan_inv s setup cnt w0 bm0 n a a L t"
proof -
  note f = FatExamine_first_Inr[OF assms(2-4,1)]
  have b: "bad_in s a a = []" "bad_mcb s [] = BadBlockMcb s" by (simp_all add: bad_in_def bad_mcb_def)
  show ?thesis
    unfolding scan_inv_def Let_def b
    using f assms(5,6) by (auto simp: in_run_def FatCountFreeRun_0 window_start_def intro!: exI[of _ a] exI[of _ "tl (KernelResults s)"])
qed

lemma FatExamine_scan_Inr:
  assumes ok: "vcb_ok s" and ab: "a \<le> b" "b \<le> vcb_N s + 1" "scan_start_ok s a"
    and su: "setup \<Longrightarrow> cnt \<and> a = 2 \<and> w0 = 0 \<and> bm0 = None \<and> vcb_bits s \<noteq> 12 \<and> NumberOfWindows s > 1"
    and bm0: "bits_upto (\<lambda>j. FatEntryOf s (of_nat j)) n a a bm0"
    and res: "FatExamine_scan setup hb sw cnt (of_nat a) (of_nat b) w0 bm0 s = (Inr bm, t)"
  shows "\<exists>w first K. (bm = None) = (bm0 = None) \<and> bits_upto (\<lambda>j. FatEntryOf s (of_nat j)) n a (b + 1) bm
    \<and> t = (case sw of None \<Rightarrow> scan_result s setup cnt a (b + 1) w first K
          | Some w' \<Rightarrow> FatExamine_switch cnt w' (if hb then [] else the bm) (scan_result s setup cnt a (b + 1) w first K))
    \<and> (if setup then first = window_start w \<and> first < b + 1 \<and> b + 1 \<le> window_start (w + 1)
       else w = w0 \<and> first = a)"
proof -
  have b32: "b + 1 < 2 ^ 32" using vcb_N_bounds(1)[OF ok] ab(2) by simp
  define E where "E = (if NumberOfWindows s > 1 then MAX_CLUSTER_BITMAP_SIZE else NumberOfClusters (AllocationSupport s))"
  have fc: "for_count (of_nat a) (of_nat b) = b + 1 - a" using ab(1) b32 by (intro for_count_of_nat) simp_all
  have fi: "(of_nat a :: ULONG) + of_nat (b + 1 - a) = of_nat (b + 1)"
    using ab(1) unfolding of_nat_add[symmetric] by simp
  from res[unfolded FatExamine_scan_def Let_def fc fi E_def[symmetric]]
  obtain L s1 L' s2 bm' s3 where
    1: "FatExamine_first (vcb_bits s) (of_nat a)
      \<lparr>FatBuffer = 0, ExamineOffset = 0, ExamineEntry = FAT_CLUSTER_AVAILABLE, StartIndexOfThisRun = of_nat a,
       CurrentRun = UnknownClusters, ExamineWindow = w0, BitMap = bm0, BadClusterVbo = 0\<rparr> s = (Inr L, s1)" and
    2: "for_op (b + 1 - a) (FatExamine_step (vcb_bits s) setup cnt (of_nat a) E) (of_nat a) L s1 = (Inr L', s2)" and
    3: "FatExamine_last setup cnt (of_nat a) (of_nat (b + 1)) L' s2 = (Inr bm', s3)" and
    4: "bm' = bm" "t = (case sw of None \<Rightarrow> s3 | Some w' \<Rightarrow> FatExamine_switch cnt w' (if hb then [] else the bm) s3)"
    by (auto simp: seq_eq_Inr split: option.splits)
  have start: "scan_inv s setup cnt w0 bm0 n a a L s1"
    using scan_inv_start[OF 1 ok _ ab(3) _ bm0] ab su by simp
  have "scan_inv s setup cnt w0 bm0 n a (b + 1) L' s2"
    by (rule FatExamine_loop_inv[OF ok _ _ _ start _ 2]) (use ab su in \<open>auto simp: scan_start_ok_def E_def\<close>)
  from FatExamine_last_inv[OF this b32 3] su obtain w first K where
    h1: "(bm' = None) = (bm0 = None)" and h2: "bits_upto (\<lambda>j. FatEntryOf s (of_nat j)) n a (b + 1) bm'"
    and h3: "s3 = scan_result s setup cnt a (b + 1) w first K"
    and h4: "if setup then first = window_start w \<and> first \<le> b + 1 \<and> b + 1 \<le> window_start (w + 1) \<and> (b + 1 = first \<longrightarrow> b + 1 = a)
       else w = w0 \<and> first = a"
    by auto
  have h5: "if setup then first = window_start w \<and> first < b + 1 \<and> b + 1 \<le> window_start (w + 1) else w = w0 \<and> first = a"
    using h4 ab(1) by (auto split: if_splits)
  show ?thesis
    by (rule exI[of _ w], rule exI[of _ first], rule exI[of _ K], intro conjI h5)
      (rule h1[unfolded 4(1)], rule h2[unfolded 4(1)], rule 4(2)[unfolded h3])
qed

section \<open>Scans that raise\<close>

lemma scan_frame_rel: "frame_rel scan_frame"
  unfolding frame_rel_def by (auto intro!: reflpI transpI elim: scan_frame_trans)

lemmas scan_out_seq = out_ok_seq[OF scan_frame_rel]
lemmas scan_out_ret = out_ok_ret[OF scan_frame_rel]

lemma FatExamine_first_out: "out_ok scan_frame s (FatExamine_first B a L s)"
proof (cases "B = 12")
  case True
  show ?thesis unfolding FatExamine_first_def if_P[OF True]
    by (intro scan_out_seq out_ok_ReadVolumeFile[OF scan_frame_rel]) simp
next
  case False
  show ?thesis unfolding FatExamine_first_def if_not_P[OF False] Let_def
    by (intro scan_out_seq out_ok_ReadVolumeFile[OF scan_frame_rel]) simp
qed

lemma FatExamine_step_out: "out_ok scan_frame s (FatExamine_step B su c a E i L s)"
proof -
  have page: "out_ok scan_frame s (FatExamine_page L s)" for L s
    unfolding FatExamine_page_def
    by (cases "FatBuffer L mod 4096 = 0", simp_all only: if_P if_not_P scan_out_ret not_False_eq_True)
      (auto intro!: scan_out_seq scan_out_ret out_ok_ReadVolumeFile[OF scan_frame_rel])
  have bucket: "out_ok scan_frame s (FatExamine_bucket su a E i L s)" for L s
    by (simp add: FatExamine_bucket_def Let_def) (auto simp: FatUpdateWindow_def FatCountFreeRun_def)
  have read: "out_ok scan_frame s (FatExamine_read B i L s)" for L s
    by (simp add: FatExamine_read_def)
  have run: "out_ok scan_frame s (FatExamine_run c a i L s)" for L s
    unfolding FatExamine_run_def Let_def
    by (auto simp: FatUpdateWindow_def FatCountFreeRun_def scan_frame_def scan_strip_def split: prod.split)
  have add: "out_ok scan_frame s (FatAddBadBlockMcb v l n s)" for v l n s
    unfolding FatAddBadBlockMcb_def
    by (intro scan_out_seq out_ok_KernelCall[OF scan_frame_rel]) simp
  have bad: "out_ok scan_frame s (FatExamine_bad su i L s)" for L s
  proof (cases "(su \<or> NumberOfWindows s = 1) \<and> FatInterpretClusterType s (ExamineEntry L) = FatClusterBad")
    case True
    show ?thesis unfolding FatExamine_bad_def Let_def if_P[OF True] by (intro scan_out_seq add scan_out_ret)
  next
    case False
    show ?thesis unfolding FatExamine_bad_def Let_def if_not_P[OF False] by simp
  qed
  have "out_ok scan_frame s ((if B = 12 then ret L else seq (FatExamine_bucket su a E i L) FatExamine_page) s)" for L s
    by (auto intro!: scan_out_seq bucket page)
  then show ?thesis unfolding FatExamine_step_def
    by (intro scan_out_seq read run bad)
qed

lemma seq_Inl_total:
  "seq m k s = (Inl e, t) \<Longrightarrow> (\<And>x s'. \<exists>y t'. k x s' = (Inr y, t')) \<Longrightarrow> m s = (Inl e, t)"
  by (metis Inl_Inr_False prod.inject seq_eq_Inl)

lemma FatExamine_scan_Inl:
  assumes "FatExamine_scan su hb sw c a b w bm s = (Inl e, t)"
  shows "scan_frame s t \<and> Some e \<in> set (KernelResults s)"
proof -
  define R where "R L' = seq (FatExamine_last su c a (a + of_nat (for_count a b)) L') (\<lambda>bm'.
         seq (case sw of
                None \<Rightarrow> ret ()
              | Some w' \<Rightarrow> modify (FatExamine_switch c w' (if hb then [] else the bm'))) (\<lambda>_.
         ret bm'))" for L'
  have R: "\<exists>y t'. R L' s' = (Inr y, t')" for L' s'
    by (simp add: R_def seq_def FatExamine_last_def Let_def split: option.split)
  from assms[unfolded FatExamine_scan_def Let_def, folded R_def] obtain B L n E where
    e: "seq (FatExamine_first B a L) (\<lambda>L. seq (for_op n (FatExamine_step B su c a E) a L) R) s = (Inl e, t)"
    by blast
  then have "seq (seq (FatExamine_first B a L) (\<lambda>L. for_op n (FatExamine_step B su c a E) a L)) R s = (Inl e, t)"
    by (simp add: seq_assoc)
  then have "seq (FatExamine_first B a L) (\<lambda>L. for_op n (FatExamine_step B su c a E) a L) s = (Inl e, t)"
    by (rule seq_Inl_total) (rule R)
  moreover have "out_ok scan_frame s (seq (FatExamine_first B a L) (\<lambda>L. for_op n (FatExamine_step B su c a E) a L) s)"
    by (intro scan_out_seq FatExamine_first_out out_ok_for_op scan_frame_rel FatExamine_step_out)
  ultimately show ?thesis by simp
qed

section \<open>Switching to a window\<close>

lemma scan_result_frame: "scan_frame s (scan_result s su c a x w f K)"
  by (auto simp: scan_result_def Let_def)

lemma scan_frame_vcb_N: "scan_frame s t \<Longrightarrow> FatEntryOf t i = FatEntryOf s i \<and> vcb_ok t = vcb_ok s"
  by (simp add: scan_frame_entry)

lemma scan_result_counts:
  "NumberOfFreeClusters (AllocationSupport (scan_result s False c a x w f K)) =
     NumberOfFreeClusters (AllocationSupport s) + (if c then of_nat (free_in (\<lambda>j. FatEntryOf s (of_nat j)) f x) else 0)"
  "length (Windows (scan_result s False c a x w f K)) = length (Windows s)"
  "\<not> c \<Longrightarrow> Windows (scan_result s False c a x w f K) = Windows s"
  "v \<noteq> w \<Longrightarrow> Windows (scan_result s False c a x w f K) ! v = Windows s ! v"
  "w < length (Windows s) \<Longrightarrow> FirstCluster (Windows (scan_result s False c a x w f K) ! w) = FirstCluster (Windows s ! w)
    \<and> LastCluster (Windows (scan_result s False c a x w f K) ! w) = LastCluster (Windows s ! w)"
  by (simp_all add: scan_result_def Let_def FatCountFreeRun_def FatUpdateWindow_def)

lemma bits_upto_list:
  "bits_upto e n a (b + 1) (Some bm) \<Longrightarrow> n = b + 1 - a \<Longrightarrow> bm = map (\<lambda>j. e j \<noteq> 0) [a..<b + 1]"
proof (rule nth_equalityI)
  assume "bits_upto e n a (b + 1) (Some bm)" "n = b + 1 - a"
  then have l: "length bm = b + 1 - a" and *: "\<And>j. a \<le> j \<Longrightarrow> j < b + 1 \<Longrightarrow> j - a < b + 1 - a \<Longrightarrow> bm ! (j - a) = (e j \<noteq> 0)"
    by (auto simp: bits_upto_def)
  from l show "length bm = length (map (\<lambda>j. e j \<noteq> 0) [a..<b + 1])" by (simp del: upt_Suc)
  fix i assume "i < length bm"
  then show "bm ! i = map (\<lambda>j. e j \<noteq> 0) [a..<b + 1] ! i" using *[of "a + i"] l by (simp del: upt_Suc)
qed

text \<open>The clusters of a window.\<close>

definition window_range :: "VCB \<Rightarrow> nat \<Rightarrow> nat list" where
  "window_range s w = [unat (FirstCluster (Windows s ! w))..<unat (LastCluster (Windows s ! w)) + 1]"

lemma switch_outcome:
  assumes ok: "vcb_ok s" and w: "w < length (Windows s)"
    and ab: "FirstCluster (Windows s ! w) \<le> LastCluster (Windows s ! w)"
      "unat (LastCluster (Windows s ! w)) \<le> vcb_N s + 1" "scan_start_ok s (unat (FirstCluster (Windows s ! w)))"
    and res: "FatExamineFatEntries Pool 0 0 False (Some w) None s = (r, t)"
  shows "(case r of
      Inl e \<Rightarrow> Some e \<in> set (KernelResults s) \<and> FreeClusterBitMap t = FreeClusterBitMap s
        \<and> CurrentWindow t = CurrentWindow s \<and> ClusterHint t = ClusterHint s
    | Inr _ \<Rightarrow>
        FreeClusterBitMap t = map (\<lambda>j. FatEntryOf s (of_nat j) \<noteq> FAT_CLUSTER_AVAILABLE) (window_range s w)
      \<and> CurrentWindow t = w \<and> ClusterHint t = -1
      \<and> window_range t w = window_range s w \<and> length (Windows t) = length (Windows s)
      \<and> scan_frame (s\<lparr>FreeClusterBitMap := FreeClusterBitMap t, CurrentWindow := w, ClusterHint := -1\<rparr>) t
      \<and> (if vcb_bits s = 32 \<and> NumberOfWindows s > 1
         then NumberOfFreeClusters (AllocationSupport t) = NumberOfFreeClusters (AllocationSupport s)
            \<and> Windows t = Windows s
         else NumberOfFreeClusters (AllocationSupport t) = NumberOfFreeClusters (AllocationSupport s)
                + of_nat (length (filter (\<lambda>j. FatEntryOf s (of_nat j) = FAT_CLUSTER_AVAILABLE) (window_range s w)))
            \<and> ClustersFree (Windows t ! w) = NumberOfFreeClusters (AllocationSupport t)))
    \<and> VolumeFile t = VolumeFile s \<and> Bpb t = Bpb s"
proof -
  define a b where "a = unat (FirstCluster (Windows s ! w))" and "b = unat (LastCluster (Windows s ! w))"
  define e where "e = (\<lambda>j. FatEntryOf s (of_nat j))"
  define cnt where "cnt \<longleftrightarrow> \<not> (vcb_bits s = 32 \<and> NumberOfWindows s > 1)"
  have A: "FirstCluster (Windows s ! w) = of_nat a" "LastCluster (Windows s ! w) = of_nat b"
    by (simp_all add: a_def b_def)
  have ab': "a \<le> b" "b \<le> vcb_N s + 1" "scan_start_ok s a"
    using ab by (simp_all add: a_def b_def word_le_nat)
  have b32: "b + 1 < 2 ^ 32" using vcb_N_bounds(1)[OF ok] ab' by simp
  have n: "unat ((of_nat b :: ULONG) - of_nat a + 1) = b + 1 - a"
  proof -
    have "(of_nat b :: ULONG) - of_nat a + 1 = of_nat (b - a + 1)" using ab'(1) by (simp add: of_nat_minus32)
    then show ?thesis using ab' b32 by (simp only:) (subst unat_of_nat_small, simp_all)
  qed
  have rng: "window_range s w = [a..<b + 1]" by (simp add: window_range_def a_def b_def)
  define s1 where "s1 = s\<lparr>KernelResults := tl (KernelResults s)\<rparr>"
  define bm0 where "bm0 = Some (map Pool [0..<b + 1 - a])"
  have f1: "scan_frame s s1" by (simp add: s1_def)
  have e1: "FatEntryOf s1 i = FatEntryOf s i" for i using scan_frame_entry(1)[OF f1] .
  have r: "(case kres (KernelResults s) of Inl e \<Rightarrow> (Inl e, s1)
      | Inr _ \<Rightarrow> FatExamine_scan False False (Some w) cnt (of_nat a) (of_nat b) w bm0 s1) = (r, t)"
    using res unfolding FatExamineFatEntries_def Let_def A n cnt_def bm0_def s1_def
    by (simp add: seq_def KernelCall_eq A n split: sum.splits)
  show ?thesis
  proof (cases r)
    case (Inl er)
    then have "scan_frame s t \<and> Some er \<in> set (KernelResults s)"
      using r FatExamine_scan_Inl[of False False "Some w" cnt "of_nat a" "of_nat b" w bm0 s1 er t] f1
      by (auto split: sum.splits dest: kres_Inl set_tl simp: s1_def scan_frame_def)
    then show ?thesis using Inl by (simp add: scan_frameD)
  next
    case (Inr bm)
    then have sc: "FatExamine_scan False False (Some w) cnt (of_nat a) (of_nat b) w bm0 s1 = (Inr bm, t)"
      using r by (auto split: sum.splits)
    have bits0: "bits_upto (\<lambda>j. FatEntryOf s1 (of_nat j)) (b + 1 - a) a a bm0"
      by (simp add: bits_upto_def bm0_def)
    have "\<exists>v first K. (bm = None) = (bm0 = None) \<and> bits_upto (\<lambda>j. FatEntryOf s1 (of_nat j)) (b + 1 - a) a (b + 1) bm
    \<and> t = (case Some w of None \<Rightarrow> scan_result s1 False cnt a (b + 1) v first K
          | Some w' \<Rightarrow> FatExamine_switch cnt w' (if False then [] else the bm) (scan_result s1 False cnt a (b + 1) v first K))
    \<and> (if False then first = window_start v \<and> first < b + 1 \<and> b + 1 \<le> window_start (v + 1)
       else v = w \<and> first = a)"
      by (rule FatExamine_scan_Inr[OF _ ab'(1) _ _ _ bits0 sc])
        (use ok ab' f1 in \<open>simp_all add: scan_frame_entry scan_frameD scan_start_ok_def\<close>)
    then obtain K where K: "bm \<noteq> None" "bits_upto e (b + 1 - a) a (b + 1) bm"
      "t = FatExamine_switch cnt w (the bm) (scan_result s1 False cnt a (b + 1) w a K)"
      by (auto simp: bm0_def e_def e1)
    define t1 where "t1 = scan_result s1 False cnt a (b + 1) w a K"
    have s1w: "Windows s1 = Windows s" "AllocationSupport s1 = AllocationSupport s" by (simp_all add: s1_def)
    note c = scan_result_counts[where s = s1 and c = cnt and a = a and x = "b + 1" and w = w and f = a and K = K, folded t1_def, unfolded s1w e1, folded e_def]
    have t1: "scan_frame s t1" unfolding t1_def using f1 scan_result_frame by (rule scan_frame_trans)
    have bm: "the bm = map (\<lambda>j. e j \<noteq> 0) [a..<b + 1]" using K(1,2) by (intro bits_upto_list) auto
    have t: "t = (if cnt then FatUpdateWindow w (\<lambda>W. W\<lparr>ClustersFree := NumberOfFreeClusters (AllocationSupport t1)\<rparr>)
         (t1\<lparr>FreeClusterBitMap := the bm, CurrentWindow := w, ClusterHint := -1\<rparr>)
       else t1\<lparr>FreeClusterBitMap := the bm, CurrentWindow := w, ClusterHint := -1\<rparr>)"
      by (simp add: K(3) FatExamine_switch_def Let_def t1_def)
    have wr: "window_range t w = window_range s w" using c(2) c(5)[OF w] w
      by (simp add: t window_range_def FatUpdateWindow_def)
    have nc: "(vcb_bits s = 32 \<and> NumberOfWindows s > 1) = (\<not> cnt)" by (simp add: cnt_def)
    have cnts: "if \<not> cnt then NumberOfFreeClusters (AllocationSupport t) = NumberOfFreeClusters (AllocationSupport s)
            \<and> Windows t = Windows s
         else NumberOfFreeClusters (AllocationSupport t) = NumberOfFreeClusters (AllocationSupport s) + of_nat (free_in e a (b + 1))
            \<and> ClustersFree (Windows t ! w) = NumberOfFreeClusters (AllocationSupport t)"
      using w c(1-3) by (cases cnt) (simp_all add: t FatUpdateWindow_def)
    have rest: "FreeClusterBitMap t = map (\<lambda>j. e j \<noteq> 0) [a..<b + 1]" "CurrentWindow t = w" "ClusterHint t = -1"
      "VolumeFile t = VolumeFile s" "Bpb t = Bpb s"
      using scan_frameD(1,2)[OF t1] unfolding bm[symmetric] by (simp_all add: t FatUpdateWindow_def)
    have len: "length (Windows t) = length (Windows s)"
      using c(2) by (simp add: t FatUpdateWindow_def)
    have fr: "scan_frame (s\<lparr>FreeClusterBitMap := FreeClusterBitMap t, CurrentWindow := w, ClusterHint := -1\<rparr>) t"
      using t1 unfolding rest(1) bm[symmetric]
      by (auto simp: t scan_frame_def scan_strip_switch)
    show ?thesis
      unfolding Inr sum.case nc wr using cnts rest len fr unfolding rng free_in_def e_def by blast
  qed
qed

section \<open>Setting up the windows\<close>

lemma scan_base_windows:
  assumes "w < length (Windows s)" "FirstCluster (Windows s ! 0) = 2" "ClustersFree (Windows s ! 0) = 0"
  shows "(\<forall>v<w. Windows (scan_base s w) ! v =
      \<lparr>FirstCluster = of_nat (window_start v), LastCluster = of_nat (window_start (v + 1)) - 1,
       ClustersFree = of_nat (free_in (\<lambda>j. FatEntryOf s (of_nat j)) (window_start v) (window_start (v + 1)))\<rparr>)
    \<and> FirstCluster (Windows (scan_base s w) ! w) = of_nat (window_start w)
    \<and> ClustersFree (Windows (scan_base s w) ! w) = 0
    \<and> length (Windows (scan_base s w)) = length (Windows s)
    \<and> NumberOfFreeClusters (AllocationSupport (scan_base s w)) = NumberOfFreeClusters (AllocationSupport s)
        + of_nat (free_in (\<lambda>j. FatEntryOf s (of_nat j)) 2 (window_start w))"
  using assms(1)
proof (induction w)
  case 0
  then show ?case using assms by (simp add: window_start_def)
next
  case (Suc w)
  define e where "e = (\<lambda>j. FatEntryOf s (of_nat j))"
  define b where "b = scan_base s w"
  have IH: "\<forall>v<w. Windows b ! v =
      \<lparr>FirstCluster = of_nat (window_start v), LastCluster = of_nat (window_start (v + 1)) - 1,
       ClustersFree = of_nat (free_in e (window_start v) (window_start (v + 1)))\<rparr>"
    "FirstCluster (Windows b ! w) = of_nat (window_start w)" "ClustersFree (Windows b ! w) = 0"
    "length (Windows b) = length (Windows s)"
    "NumberOfFreeClusters (AllocationSupport b) = NumberOfFreeClusters (AllocationSupport s) + of_nat (free_in e 2 (window_start w))"
    using Suc by (simp_all add: b_def e_def)
  have tot: "free_in e 2 (window_start (Suc w)) = free_in e 2 (window_start w) + free_in e (window_start w) (window_start (Suc w))"
    by (intro free_in_trans) (simp_all add: window_start_def)
  obtain l where W: "Windows b ! w = \<lparr>FirstCluster = of_nat (window_start w), LastCluster = l, ClustersFree = 0\<rparr>"
    using IH(2,3) by (cases "Windows b ! w") auto
  show ?case
    using IH(1,4,5) Suc.prems W tot
    unfolding scan_base.simps(2) b_def[symmetric] e_def[symmetric]
    by (auto simp: FatUpdateWindow_def FatCountFreeRun_def nth_list_update less_Suc_eq)
qed

definition window_count :: "VCB \<Rightarrow> nat" where
  "window_count s = (vcb_N s + 65535) div 65536"

lemma setup_outcome:
  assumes ok: "vcb_ok s" and b32: "vcb_bits s = 32" and n: "NumberOfWindows s > 1" "length (Windows s) = window_count s"
    "vcb_N s > 0"
    and res: "FatExamineFatEntries Pool 2 (NumberOfClusters (AllocationSupport s) + 1) True None None s = (Inr r, t)"
  shows "length (Windows t) = window_count s
    \<and> (\<forall>v<window_count s. Windows t ! v =
        \<lparr>FirstCluster = of_nat (2 + 65536 * v), LastCluster = of_nat (min (2 + 65536 * (v + 1)) (vcb_N s + 2)) - 1,
         ClustersFree = of_nat (length (filter (\<lambda>j. FatEntryOf s (of_nat j) = FAT_CLUSTER_AVAILABLE)
                                  [2 + 65536 * v..<min (2 + 65536 * (v + 1)) (vcb_N s + 2)]))\<rparr>)
    \<and> NumberOfFreeClusters (AllocationSupport t) = NumberOfFreeClusters (AllocationSupport s)
        + of_nat (length (filter (\<lambda>j. FatEntryOf s (of_nat j) = FAT_CLUSTER_AVAILABLE) [2..<vcb_N s + 2]))
    \<and> BadBlockMcb t = bad_mcb s (bad_in s 2 (vcb_N s + 2))
    \<and> BadBlocksPopulated t \<and> scan_frame s t"
proof -
  define N where "N = vcb_N s"
  define e where "e = (\<lambda>j. FatEntryOf s (of_nat j))"
  have N32: "N + 2 < 2 ^ 32" using vcb_N_bounds(1)[OF ok] by (simp add: N_def)
  have NE: "NumberOfClusters (AllocationSupport s) + 1 = of_nat (N + 1)" by (simp add: N_def)
  define s1 where "s1 = FatUpdateWindow 0 (\<lambda>W. W\<lparr>FirstCluster := 2, ClustersFree := 0\<rparr>) s"
  have f1: "scan_frame s s1" by (simp add: s1_def)
  note e1 = scan_frame_entry(1)[OF f1]
  have sc: "FatExamine_scan True False None True (of_nat 2) (of_nat (N + 1)) 0 None s1 = (Inr r, t)"
    using res unfolding FatExamineFatEntries_def NE by (simp add: seq_def s1_def)
  have "\<exists>w first K. (r = None) = (None = (None :: bool list option)) \<and> bits_upto (\<lambda>j. FatEntryOf s1 (of_nat j)) 0 2 (N + 1 + 1) r
    \<and> t = (case None of None \<Rightarrow> scan_result s1 True True 2 (N + 1 + 1) w first K
          | Some w' \<Rightarrow> FatExamine_switch True w' (if False then [] else the r) (scan_result s1 True True 2 (N + 1 + 1) w first K))
    \<and> (if True then first = window_start w \<and> first < N + 1 + 1 \<and> N + 1 + 1 \<le> window_start (w + 1)
       else w = 0 \<and> first = 2)"
    by (rule FatExamine_scan_Inr[OF _ _ _ _ _ _ sc])
      (use ok b32 n f1 in \<open>simp_all add: scan_frame_entry scan_frameD scan_start_ok_def bits_upto_def N_def\<close>)
  then obtain w K where w: "window_start w < N + 2" "N + 2 \<le> window_start (w + 1)"
    and t: "t = scan_result s1 True True 2 (N + 2) w (window_start w) K"
    by (auto simp: numeral_2_eq_2)
  have wc: "window_count s = w + 1"
  proof -
    have "65536 * w < N" "N \<le> 65536 * (w + 1)" using w by (simp_all add: window_start_def)
    then have "(N + 65535) div 65536 = w + 1" by (intro div_nat_eqI) simp_all
    then show ?thesis by (simp add: window_count_def N_def)
  qed
  have w1: "w < length (Windows s1)" "FirstCluster (Windows s1 ! 0) = 2" "ClustersFree (Windows s1 ! 0) = 0"
    using n(2) wc by (simp_all add: s1_def FatUpdateWindow_def)
  note B = scan_base_windows[OF w1, unfolded e1, folded e_def]
  have tot: "free_in e 2 (N + 2) = free_in e 2 (window_start w) + free_in e (window_start w) (N + 2)"
    using w by (intro free_in_trans) (simp_all add: window_start_def)
  obtain l where W: "Windows (scan_base s1 w) ! w = \<lparr>FirstCluster = of_nat (window_start w), LastCluster = l, ClustersFree = 0\<rparr>"
    using B by (cases "Windows (scan_base s1 w) ! w") auto
  have WS: "2 + 65536 * v = window_start v" for v by (simp add: window_start_def)
  have mn: "min (window_start (v + 1)) (N + 2) = (if v < w then window_start (v + 1) else N + 2)" if "v < w + 1" for v
  proof (cases "v < w")
    case True
    then have "window_start (v + 1) \<le> window_start w" by (simp add: window_start_def)
    then show ?thesis using w True by simp
  next
    case False
    then have "v = w" using that by simp
    then show ?thesis using w by simp
  qed
  have NF: "NumberOfFreeClusters (AllocationSupport s1) = NumberOfFreeClusters (AllocationSupport s)"
    by (simp add: s1_def FatUpdateWindow_def)
  have bad: "bad_mcb s1 (bad_in s1 2 (N + 2)) = bad_mcb s (bad_in s 2 (N + 2))"
    using f1 by (simp add: bad_mcb_def bad_in_def scan_frame_entry scan_frameD Let_def case_prod_beta) (simp add: s1_def FatUpdateWindow_def)
  have t': "t = FatUpdateWindow w (\<lambda>W. W\<lparr>LastCluster := of_nat (N + 2) - 1\<rparr>)
      ((FatCountFreeRun True w (of_nat (free_in e (window_start w) (N + 2))) (scan_base s1 w))
         \<lparr>BadBlockMcb := bad_mcb s (bad_in s 2 (N + 2)), KernelResults := K, BadBlocksPopulated := True\<rparr>)"
    unfolding t scan_result_def Let_def e1 bad e_def by simp
  have win: "Windows t ! v = \<lparr>FirstCluster = of_nat (window_start v), LastCluster = of_nat (min (window_start (v + 1)) (N + 2)) - 1,
        ClustersFree = of_nat (free_in e (window_start v) (min (window_start (v + 1)) (N + 2)))\<rparr>" if "v < w + 1" for v
    using B W w1(1) that unfolding mn[OF that]
    by (auto simp: t' FatUpdateWindow_def FatCountFreeRun_def nth_list_update less_Suc_eq)
  have "scan_frame s t"
    using scan_frame_trans[OF f1 scan_result_frame] t by simp
  moreover have "NumberOfFreeClusters (AllocationSupport t) = NumberOfFreeClusters (AllocationSupport s) + of_nat (free_in e 2 (N + 2))"
    using B NF tot by (simp add: t' FatUpdateWindow_def FatCountFreeRun_def)
  moreover have "length (Windows t) = window_count s" "BadBlockMcb t = bad_mcb s (bad_in s 2 (N + 2))" "BadBlocksPopulated t"
    using B n(2) by (simp_all add: t' FatUpdateWindow_def FatCountFreeRun_def) (simp add: s1_def FatUpdateWindow_def)
  ultimately show ?thesis
    using win unfolding wc N_def[symmetric] WS free_in_def e_def by blast
qed

section \<open>Setting up a volume\<close>

lemma fold_max_in: "fs \<noteq> [] \<Longrightarrow> fold max fs (0::nat) \<in> set fs"
proof -
  assume "fs \<noteq> []"
  then have "Max (set fs) \<in> set fs" "\<forall>f\<in>set fs. f \<le> Max (set fs)" by simp_all
  then show ?thesis using fold_max_eq by metis
qed

lemma best_window_less: "fs \<noteq> [] \<Longrightarrow> best_window fs < length fs"
proof -
  assume ne: "fs \<noteq> []"
  have "\<exists>i. first_index (\<lambda>f. f = fold max fs 0) fs = Some i"
    using fold_max_in[OF ne] first_index_None[of "\<lambda>f. f = fold max fs 0" fs] by auto
  then show ?thesis
    unfolding best_window_def by (auto split: option.split dest: first_index_Some)
qed

lemma window_range_nonempty:
  assumes "v < (N + 65535) div 65536" "N + 2 < 2 ^ 31"
  shows "unat (of_nat (2 + 65536 * v) :: ULONG) = 2 + 65536 * v"
    "unat ((of_nat (min (2 + 65536 * (v + 1)) (N + 2)) :: ULONG) - 1) = min (2 + 65536 * (v + 1)) (N + 2) - 1"
    "2 + 65536 * v \<le> min (2 + 65536 * (v + 1)) (N + 2) - 1"
proof -
  have "(v + 1) * 65536 \<le> (N + 65535) div 65536 * 65536" using assms(1) by (intro mult_le_mono1) simp
  also have "\<dots> \<le> N + 65535" by (rule div_times_less_eq_dividend)
  finally have v: "65536 * v < N" by simp
  then show "unat (of_nat (2 + 65536 * v) :: ULONG) = 2 + 65536 * v"
    using assms(2) by (intro unat_of_nat_small) simp
  define m where "m = min (2 + 65536 * (v + 1)) (N + 2)"
  have m: "1 \<le> m" "m < 2 ^ 32" using assms(2) by (simp_all add: m_def)
  have "(of_nat m :: ULONG) - 1 = of_nat (m - 1)" using m(1) by (simp add: of_nat_diff)
  then have "unat ((of_nat m :: ULONG) - 1) = m - 1" using m by (simp add: unat_of_nat_small)
  then show "unat ((of_nat (min (2 + 65536 * (v + 1)) (N + 2)) :: ULONG) - 1) = min (2 + 65536 * (v + 1)) (N + 2) - 1"
    by (simp add: m_def)
  show "2 + 65536 * v \<le> min (2 + 65536 * (v + 1)) (N + 2) - 1" using v by simp
qed

definition bitmap_synced :: "VCB \<Rightarrow> bool" where
  "bitmap_synced s \<longleftrightarrow> CurrentWindow s < length (Windows s)
     \<and> FreeClusterBitMap s = map (\<lambda>j. FatEntryOf s (of_nat j) \<noteq> FAT_CLUSTER_AVAILABLE) (window_range s (CurrentWindow s))"

definition all_free :: "VCB \<Rightarrow> nat" where
  "all_free s = length (filter (\<lambda>j. FatEntryOf s (of_nat j) = FAT_CLUSTER_AVAILABLE) [2..<vcb_N s + 2])"

text \<open>The windows of a large FAT32 volume as the setup lays them out.\<close>

definition windows_laid :: "VCB \<Rightarrow> FAT_WINDOW list \<Rightarrow> bool" where
  "windows_laid s Ws \<longleftrightarrow> length Ws = window_count s \<and> (\<forall>v<window_count s. Ws ! v =
     \<lparr>FirstCluster = of_nat (2 + 65536 * v), LastCluster = of_nat (min (2 + 65536 * (v + 1)) (vcb_N s + 2)) - 1,
      ClustersFree = of_nat (free_in (\<lambda>j. FatEntryOf s (of_nat j)) (2 + 65536 * v) (min (2 + 65536 * (v + 1)) (vcb_N s + 2)))\<rparr>)"

lemma FatChooseWindow_Inr:
  assumes ok: "vcb_ok s" and N: "0 < vcb_N s" and nf: "NumberOfFreeClusters (AllocationSupport s) = 0"
    and nw: "NumberOfWindows s = (if vcb_bits s = 32 \<and> vcb_N s > 65536 then of_nat (window_count s) else 1)"
    and len: "length (Windows s) = unat (NumberOfWindows s)"
    and res: "FatChooseWindow Pool s = (Inr (), t)"
  shows "scan_strip t = scan_strip (s\<lparr>CurrentWindow := CurrentWindow t\<rparr>)
    \<and> length (Windows t) = length (Windows s) \<and> CurrentWindow t < length (Windows t)
    \<and> FirstCluster (Windows t ! CurrentWindow t) \<le> LastCluster (Windows t ! CurrentWindow t)
    \<and> unat (LastCluster (Windows t ! CurrentWindow t)) \<le> vcb_N s + 1
    \<and> scan_start_ok s (unat (FirstCluster (Windows t ! CurrentWindow t)))
    \<and> (NumberOfWindows s > 1 \<longrightarrow> windows_laid s (Windows t))
    \<and> (if NumberOfWindows s > 1 then vcb_bits s = 32 \<and> NumberOfFreeClusters (AllocationSupport t) = of_nat (all_free s)
       else window_range t (CurrentWindow t) = [2..<vcb_N s + 2] \<and> NumberOfFreeClusters (AllocationSupport t) = 0)"
proof -
  define N where "N = vcb_N s"
  have N31: "N + 2 < 2 ^ 31" using vcb_N_bounds(1)[OF ok] by (simp add: N_def)
  have NE: "NumberOfClusters (AllocationSupport s) + 2 - 1 = NumberOfClusters (AllocationSupport s) + 1" by simp
  have Nu: "unat (NumberOfClusters (AllocationSupport s) + 1) = N + 1"
    using N31 by (subst unat_add_small) (simp_all add: N_def)
  show ?thesis
  proof (cases "NumberOfWindows s > 1")
    case False
    have "length (Windows s) = 1"
    proof -
      have "window_count s < 2 ^ 32" "vcb_N s > 65536 \<Longrightarrow> window_count s > 1"
        using N31 by (simp_all add: window_count_def N_def) 
      then show ?thesis using False nw len by (auto simp: word_less_nat unat_of_nat_small split: if_splits)
    qed
    then obtain W where W: "Windows s = [W]" by (auto simp: length_Suc_conv)
    have t: "t = FatUpdateWindow 0 (\<lambda>W. W\<lparr>FirstCluster := 2,
        LastCluster := NumberOfClusters (AllocationSupport s) + 1\<rparr>) (s\<lparr>CurrentWindow := 0\<rparr>)"
      using res False unfolding FatChooseWindow_def NE by (auto simp: add.commute)
    then show ?thesis using W False nf Nu N
      by (simp add: FatUpdateWindow_def scan_strip_def scan_start_ok_def window_range_def word_le_nat N_def del: upt_Suc)
  next
    case True
    then have m: "vcb_bits s = 32" "vcb_N s > 65536" using nw by (auto split: if_splits)
    have wc: "1 < window_count s" "window_count s < 2 ^ 31" using N31 m(2) by (simp_all add: window_count_def N_def)
    have uw: "unat (NumberOfWindows s) = window_count s" using nw m wc by (simp add: unat_of_nat_small)
    obtain r t1 where t1: "FatExamineFatEntries Pool 2 (NumberOfClusters (AllocationSupport s) + 1) True None None s = (Inr r, t1)"
      and t: "t = t1\<lparr>CurrentWindow := unat (FatSelectBestWindow t1)\<rparr>"
      using res True unfolding FatChooseWindow_def NE by (auto simp: seq_eq_Inr)
    have lens: "length (Windows s) = window_count s" using len uw by simp
    note out = setup_outcome[OF ok m(1) True lens N t1, folded N_def]
    have win: "Windows t1 ! v = \<lparr>FirstCluster = of_nat (2 + 65536 * v), LastCluster = of_nat (min (2 + 65536 * (v + 1)) (N + 2)) - 1,
         ClustersFree = of_nat (free_in (\<lambda>j. FatEntryOf s (of_nat j)) (2 + 65536 * v) (min (2 + 65536 * (v + 1)) (N + 2)))\<rparr>"
      if "v < window_count s" for v using out that by (simp add: free_in_def)
    have laid: "windows_laid s (Windows t)" using out win by (simp add: windows_laid_def N_def t)
    have fr: "scan_frame s t1" and len1: "length (Windows t1) = window_count s"
      and nf1: "NumberOfFreeClusters (AllocationSupport t1) = of_nat (all_free s)"
      using out nf by (simp_all add: all_free_def N_def)
    have "ClustersFree W \<le> 0x10000" if "W \<in> set (Windows t1)" for W
    proof -
      from that obtain v where "v < length (Windows t1)" "Windows t1 ! v = W" by (auto simp: in_set_conv_nth)
      then have v: "v < window_count s" "W = Windows t1 ! v" using len1 by simp_all
      define c where "c = free_in (\<lambda>j. FatEntryOf s (of_nat j)) (2 + 65536 * v) (min (2 + 65536 * (v + 1)) (N + 2))"
      have "c \<le> min (2 + 65536 * (v + 1)) (N + 2) - (2 + 65536 * v)" unfolding c_def by (rule free_in_le)
      then have "c \<le> 65536" by simp
      moreover have "ClustersFree W = of_nat c" using win[OF v(1)] by (simp add: v(2) c_def)
      ultimately show ?thesis by (simp add: word_le_nat unat_of_nat_small)
    qed
    then have best: "FatSelectBestWindow t1 = of_nat (best_window (frees (Windows t1)))"
      using len1 uw wc scan_frameD(4)[OF fr] by (intro FatSelectBestWindow_eq) auto
    define w where "w = best_window (frees (Windows t1))"
    have "frees (Windows t1) \<noteq> []" using len1 wc by auto
    then have w: "w < window_count s" using best_window_less[of "frees (Windows t1)"] len1 by (simp add: w_def)
    have cw: "CurrentWindow t = w" using w wc best by (simp add: t w_def unat_of_nat_small)
    have rg: "unat (of_nat (2 + 65536 * w) :: ULONG) = 2 + 65536 * w"
      "unat ((of_nat (min (2 + 65536 * (w + 1)) (N + 2)) :: ULONG) - 1) = min (2 + 65536 * (w + 1)) (N + 2) - 1"
      "2 + 65536 * w \<le> min (2 + 65536 * (w + 1)) (N + 2) - 1"
      using window_range_nonempty[of w N] w N31 by (simp_all only: window_count_def N_def)
    have f: "FirstCluster (Windows t ! w) = of_nat (2 + 65536 * w)"
      "LastCluster (Windows t ! w) = of_nat (min (2 + 65536 * (w + 1)) (N + 2)) - 1"
      using win[OF w] by (simp_all add: t)
    have "(2 + 65536 * w) mod 32 = 2" by presburger
    then have start: "scan_start_ok s (2 + 65536 * w)" using m(1) by (simp add: scan_start_ok_def)
    have "scan_strip t = scan_strip (s\<lparr>CurrentWindow := CurrentWindow t\<rparr>)"
    proof -
      have "scan_strip t = (scan_strip t1)\<lparr>CurrentWindow := CurrentWindow t\<rparr>" by (simp add: t scan_strip_def)
      also have "scan_strip t1 = scan_strip s" using fr by (simp add: scan_frame_def)
      finally show ?thesis by (simp add: scan_strip_def)
    qed
    then show ?thesis
      using True w len1 lens nf1 m(1) start rg laid unfolding cw f word_le_nat
      by (simp add: t N_def)
  qed
qed


lemma geometry_free_0: "FatSetupAllocationSupport_geometry B = Inr A \<Longrightarrow> NumberOfFreeClusters A = 0"
  by (auto simp: FatSetupAllocationSupport_geometry_def split: sum.splits)

text \<open>The hint: a free cluster of the window when there is one.\<close>

definition hint_ok :: "VCB \<Rightarrow> bool" where
  "hint_ok s \<longleftrightarrow> (if False \<in> set (FreeClusterBitMap s)
     then 2 \<le> unat (ClusterHint s) \<and> unat (ClusterHint s) - 2 < length (FreeClusterBitMap s) \<and> FatIsClusterFree s (ClusterHint s)
     else ClusterHint s = 2)"

lemma find_clear_one:
  assumes "find_clear_ok F" "length bm < 2 ^ 32 - 2"
  shows "if False \<in> set bm then F bm 1 h \<noteq> -1 \<and> unat (F bm 1 h) < length bm \<and> \<not> bm ! unat (F bm 1 h)
      \<and> unat (F bm 1 h + 2) = unat (F bm 1 h) + 2
    else F bm 1 h = -1"
proof -
  define r where "r = F bm 1 h"
  have F: "if r = -1 then \<forall>i. \<not> clear_run bm i 1 else clear_run bm (unat r) 1"
    using assms(1)[unfolded find_clear_ok_def Let_def, rule_format, of 1 bm h] assms(2)
    by (auto simp: r_def split: if_splits)
  show ?thesis
  proof (cases "False \<in> set bm")
    case True
    then obtain i where "i < length bm" "\<not> bm ! i" by (auto simp: in_set_conv_nth)
    then have i: "clear_run bm i 1" by (simp add: clear_run_def)
    have "r \<noteq> -1"
    proof
      assume "r = -1"
      from F[unfolded if_P[OF this]] i show False by blast
    qed
    from F[unfolded if_not_P[OF this]] have "clear_run bm (unat r) 1" .
    then have c: "unat r < length bm" "\<not> bm ! unat r" by (simp_all add: clear_run_def)
    then have "unat (r + 2) = unat r + 2" using assms(2) by (subst unat_add_small) simp_all
    moreover have "r \<noteq> -1" using c(1) assms(2) by (intro unat_ne_minus_1) simp
    ultimately show ?thesis using True c by (simp add: r_def)
  next
    case False
    have no: "\<not> clear_run bm i 1" for i
    proof
      assume "clear_run bm i 1"
      then have "i < length bm" "\<not> bm ! i" by (auto simp: clear_run_def)
      then show False using False nth_mem[of i bm] by simp
    qed
    have "r = -1"
    proof (rule ccontr)
      assume "r \<noteq> -1"
      from F[unfolded if_not_P[OF this]] no show False by blast
    qed
    then show ?thesis using False by (simp add: r_def)
  qed
qed


lemma FatSetupWindows_Inr:
  assumes F: "find_clear_ok F" and ok: "vcb_ok s" and N: "0 < vcb_N s" and nf: "NumberOfFreeClusters (AllocationSupport s) = 0"
    and res: "FatSetupWindows F PW Pool s = (Inr (), t)"
  shows "bitmap_synced t \<and> hint_ok t \<and> NumberOfFreeClusters (AllocationSupport t) = of_nat (all_free s)
    \<and> unat (NumberOfWindows t) = length (Windows t)
    \<and> (NumberOfWindows t = 1 \<longrightarrow> window_range t 0 = [2..<vcb_N s + 2] \<and> CurrentWindow t = 0)
    \<and> (NumberOfWindows t > 1 \<longrightarrow> vcb_bits s = 32 \<and> windows_laid s (Windows t))
    \<and> (\<not> NumberOfWindows t > 1 \<longrightarrow> NumberOfWindows t = 1 \<and> (vcb_bits s = 32 \<longrightarrow> vcb_N s \<le> 65536)
        \<and> ClustersFree (Windows t ! 0) = NumberOfFreeClusters (AllocationSupport t))
    \<and> VolumeFile t = VolumeFile s \<and> Bpb t = Bpb s
    \<and> (AllocationSupport t)\<lparr>NumberOfFreeClusters := 0\<rparr> = (AllocationSupport s)\<lparr>NumberOfFreeClusters := 0\<rparr>"
proof -
  define nw where "nw = (if FatIsFat32 s \<and> NumberOfClusters (AllocationSupport s) > MAX_CLUSTER_BITMAP_SIZE
             then (NumberOfClusters (AllocationSupport s) + MAX_CLUSTER_BITMAP_SIZE - 1) div MAX_CLUSTER_BITMAP_SIZE
             else 1)"
  have N31: "vcb_N s + 2 < 2 ^ 31" using vcb_N_bounds(1)[OF ok] by simp
  have nw': "nw = (if vcb_bits s = 32 \<and> vcb_N s > 65536 then of_nat (window_count s) else 1)"
  proof -
    have "unat (NumberOfClusters (AllocationSupport s) + MAX_CLUSTER_BITMAP_SIZE) = vcb_N s + 65536"
      using N31 by (subst unat_add_small) simp_all
    then have "unat (NumberOfClusters (AllocationSupport s) + MAX_CLUSTER_BITMAP_SIZE - 1) = vcb_N s + 65535"
      by (subst unat_sub_le) (simp_all add: word_le_nat)
    then have "unat ((NumberOfClusters (AllocationSupport s) + MAX_CLUSTER_BITMAP_SIZE - 1) div MAX_CLUSTER_BITMAP_SIZE) = window_count s"
      by (simp add: unat_div window_count_def)
    then have "(NumberOfClusters (AllocationSupport s) + MAX_CLUSTER_BITMAP_SIZE - 1) div MAX_CLUSTER_BITMAP_SIZE = of_nat (window_count s)"
      using N31 by (simp add: word_unat_eq_iff unat_of_nat_small window_count_def)
    then show ?thesis by (simp add: nw_def FatIsFat32_def word_less_nat)
  qed
  obtain s3 bm s4 where
    1: "kres (KernelResults s) = Inr ()" and
    2: "FatChooseWindow Pool (s\<lparr>NumberOfWindows := nw, KernelResults := tl (KernelResults s),
          Windows := map PW [0..<unat nw], FreeClusterBitMap := []\<rparr>) = (Inr (), s3)" and
    3: "FatExamineFatEntries Pool 0 0 False (Some (CurrentWindow s3)) None s3 = (Inr bm, s4)" and
    t: "t = s4\<lparr>ClusterHint := (if F (FreeClusterBitMap s4) 1 0 \<noteq> -1 then F (FreeClusterBitMap s4) 1 0 + 2 else 2)\<rparr>"
    using res unfolding FatSetupWindows_def nw_def
    by (auto simp: seq_eq_Inr KernelCall_eq Let_def)
  define s2 where "s2 = s\<lparr>NumberOfWindows := nw, KernelResults := tl (KernelResults s),
          Windows := map PW [0..<unat nw], FreeClusterBitMap := []\<rparr>"
  have ok2: "vcb_ok s2" and v2: "vcb_N s2 = vcb_N s" "vcb_bits s2 = vcb_bits s" "window_count s2 = window_count s"
    and e2: "FatEntryOf s2 i = FatEntryOf s i" for i
    using ok by (simp_all add: s2_def vcb_ok_def FatEntryOf_def window_count_def)
  have c: "scan_strip s3 = scan_strip (s2\<lparr>CurrentWindow := CurrentWindow s3\<rparr>)"
    "length (Windows s3) = unat nw" "CurrentWindow s3 < length (Windows s3)"
    "FirstCluster (Windows s3 ! CurrentWindow s3) \<le> LastCluster (Windows s3 ! CurrentWindow s3)"
    "unat (LastCluster (Windows s3 ! CurrentWindow s3)) \<le> vcb_N s + 1"
    "scan_start_ok s2 (unat (FirstCluster (Windows s3 ! CurrentWindow s3)))"
    "if nw > 1 then vcb_bits s = 32 \<and> NumberOfFreeClusters (AllocationSupport s3) = of_nat (all_free s)
       else window_range s3 (CurrentWindow s3) = [2..<vcb_N s + 2] \<and> NumberOfFreeClusters (AllocationSupport s3) = 0"
    "nw > 1 \<longrightarrow> windows_laid s (Windows s3)"
  proof -
    have q: "NumberOfWindows s2 = nw" "length (Windows s2) = unat nw" "all_free s2 = all_free s"
      by (simp_all add: s2_def all_free_def FatEntryOf_def)
    have ld: "windows_laid s2 = windows_laid s" by (simp add: fun_eq_iff windows_laid_def v2 e2)
    have p: "0 < vcb_N s2" "NumberOfFreeClusters (AllocationSupport s2) = 0" using N nf by (simp_all add: s2_def)
    have w: "NumberOfWindows s2 = (if vcb_bits s2 = 32 \<and> vcb_N s2 > 65536 then of_nat (window_count s2) else 1)"
      unfolding q v2 by (rule nw')
    have l: "length (Windows s2) = unat (NumberOfWindows s2)" by (simp only: q)
    note C = FatChooseWindow_Inr[OF ok2 p w l 2[folded s2_def], unfolded q v2 ld]
    from C show "scan_strip s3 = scan_strip (s2\<lparr>CurrentWindow := CurrentWindow s3\<rparr>)"
      "length (Windows s3) = unat nw" "CurrentWindow s3 < length (Windows s3)"
      "FirstCluster (Windows s3 ! CurrentWindow s3) \<le> LastCluster (Windows s3 ! CurrentWindow s3)"
      "unat (LastCluster (Windows s3 ! CurrentWindow s3)) \<le> vcb_N s + 1"
      "scan_start_ok s2 (unat (FirstCluster (Windows s3 ! CurrentWindow s3)))"
      "if nw > 1 then vcb_bits s = 32 \<and> NumberOfFreeClusters (AllocationSupport s3) = of_nat (all_free s)
       else window_range s3 (CurrentWindow s3) = [2..<vcb_N s + 2] \<and> NumberOfFreeClusters (AllocationSupport s3) = 0"
      "nw > 1 \<longrightarrow> windows_laid s (Windows s3)"
      by blast+
  qed
  have f3: "scan_frame (s2\<lparr>CurrentWindow := CurrentWindow s3\<rparr>) s3" using c(1) by (simp add: scan_frame_def)
  have e3: "FatEntryOf s3 i = FatEntryOf s i" for i
    using scan_frame_entry(1)[OF f3, of i] e2[of i] by (simp add: FatEntryOf_def)
  have ok3: "vcb_ok s3" using scan_frame_entry(2)[OF f3] ok2 by (simp add: vcb_ok_def)
  have A3: "vcb_bits s3 = vcb_bits s" "vcb_N s3 = vcb_N s" "NumberOfWindows s3 = nw"
    using scan_frameD[OF f3] v2 by (simp_all add: s2_def)
  have "scan_start_ok s3 (unat (FirstCluster (Windows s3 ! CurrentWindow s3)))"
    using c(6) A3 v2 by (simp add: scan_start_ok_def)
  note sw = switch_outcome[OF ok3 c(3,4) _ this 3, unfolded sum.case A3 e3, OF c(5)]
  define cw where "cw = CurrentWindow s3"
  define bm4 where "bm4 = FreeClusterBitMap s4"
  have B4: "bm4 = map (\<lambda>j. FatEntryOf s (of_nat j) \<noteq> 0) (window_range s3 cw)"
    and w4: "CurrentWindow s4 = cw" "window_range s4 cw = window_range s3 cw" "length (Windows s4) = unat nw"
    and f4: "scan_frame (s3\<lparr>FreeClusterBitMap := FreeClusterBitMap s4, CurrentWindow := cw, ClusterHint := -1\<rparr>) s4"
    and V4: "VolumeFile s4 = VolumeFile s3" "Bpb s4 = Bpb s3"
    using sw unfolding cw_def bm4_def c(2) by blast+
  have e4: "FatEntryOf s4 i = FatEntryOf s i" for i
    using scan_frame_entry(1)[OF f4, of i] e3[of i] by (simp add: FatEntryOf_def)
  have n4: "NumberOfFreeClusters (AllocationSupport s4) = of_nat (all_free s)"
  proof (cases "nw > 1")
    case True
    then show ?thesis using sw c(7) by simp
  next
    case False
    then show ?thesis using sw c(7) by (simp add: all_free_def del: upt_Suc)
  qed
  have A4: "(AllocationSupport s4)\<lparr>NumberOfFreeClusters := 0\<rparr> = (AllocationSupport s)\<lparr>NumberOfFreeClusters := 0\<rparr>"
  proof -
    have A: "scan_frame x y \<Longrightarrow> (AllocationSupport y)\<lparr>NumberOfFreeClusters := 0\<rparr> = (AllocationSupport x)\<lparr>NumberOfFreeClusters := 0\<rparr>" for x y
      unfolding scan_frame_def by (drule arg_cong[where f = AllocationSupport]) (simp add: scan_strip_def)
    show ?thesis using A[OF f4] A[OF f3] by (simp add: s2_def)
  qed
  have len4: "length bm4 < 2 ^ 32 - 2"
    using N31 c(5) by (simp add: B4 window_range_def cw_def del: upt_Suc)
  have tt: "CurrentWindow t = cw" "FreeClusterBitMap t = bm4" "Windows t = Windows s4"
    using w4 by (simp_all add: t bm4_def)
  have wt: "window_range t cw = window_range s3 cw" using w4(2) by (simp add: window_range_def tt)
  have et: "FatEntryOf t i = FatEntryOf s i" for i using e4[of i] by (simp add: t FatEntryOf_def)
  have "cw < length (Windows s4)" using c(2,3) w4 by (simp add: cw_def)
  then have "bitmap_synced t"
    unfolding bitmap_synced_def tt(1,2) wt et B4 unfolding tt(3) by simp
  moreover have "hint_ok t"
    using find_clear_one[OF F len4, of 0]
    by (auto simp: hint_ok_def t bm4_def[symmetric] FatIsClusterFree_def RtlCheckBit_def split: if_splits)
  moreover have "unat (NumberOfWindows t) = length (Windows t)"
    using scan_frameD(4)[OF f4] A3(3) w4(3) by (simp add: t)
  moreover have "NumberOfWindows t = 1 \<longrightarrow> window_range t 0 = [2..<vcb_N s + 2] \<and> CurrentWindow t = 0"
  proof
    assume "NumberOfWindows t = 1"
    then have nw1: "nw = 1" using scan_frameD(4)[OF f4] A3(3) by (simp add: t)
    then have "cw = 0" "window_range s3 cw = [2..<vcb_N s + 2]" using c(2,3,7) by (simp_all add: cw_def)
    moreover have "window_range t 0 = window_range s4 0" by (simp add: t window_range_def)
    ultimately show "window_range t 0 = [2..<vcb_N s + 2] \<and> CurrentWindow t = 0" using w4 by (simp add: t)
  qed
  moreover have "NumberOfWindows t > 1 \<longrightarrow> vcb_bits s = 32 \<and> windows_laid s (Windows t)"
  proof
    assume "NumberOfWindows t > 1"
    then have nw1: "nw > 1" using scan_frameD(4)[OF f4] A3(3) by (simp add: t)
    then have "vcb_bits s = 32" using c(7) by simp
    moreover from this have "Windows s4 = Windows s3" using sw nw1 by simp
    ultimately show "vcb_bits s = 32 \<and> windows_laid s (Windows t)" using c(8) nw1 tt(3) by simp
  qed
  moreover have "\<not> NumberOfWindows t > 1 \<longrightarrow> NumberOfWindows t = 1 \<and> (vcb_bits s = 32 \<longrightarrow> vcb_N s \<le> 65536)
      \<and> ClustersFree (Windows t ! 0) = NumberOfFreeClusters (AllocationSupport t)"
  proof
    assume "\<not> NumberOfWindows t > 1"
    then have nw0: "\<not> nw > 1" and nwt: "NumberOfWindows t = nw" using scan_frameD(4)[OF f4] A3(3) by (simp_all add: t)
    have small: "\<not> (vcb_bits s = 32 \<and> vcb_N s > 65536)"
    proof
      assume b: "vcb_bits s = 32 \<and> vcb_N s > 65536"
      then have "2 * 65536 div 65536 \<le> window_count s" unfolding window_count_def by (intro div_le_mono) simp
      moreover have "window_count s < 2 ^ 32" using N31 by (simp add: window_count_def)
      ultimately have "nw > 1" using nw' b by (simp add: word_less_nat unat_of_nat_small)
      then show False using nw0 by simp
    qed
    then have n1: "nw = 1" using nw' by auto
    then have "cw = 0" using c(2,3) by (simp add: cw_def)
    moreover have "ClustersFree (Windows s4 ! cw) = NumberOfFreeClusters (AllocationSupport s4)"
      using sw n1 by (simp add: cw_def)
    ultimately show "NumberOfWindows t = 1 \<and> (vcb_bits s = 32 \<longrightarrow> vcb_N s \<le> 65536)
      \<and> ClustersFree (Windows t ! 0) = NumberOfFreeClusters (AllocationSupport t)"
      using small nwt n1 by (auto simp: t)
  qed
  moreover have "VolumeFile s4 = VolumeFile s" "Bpb s4 = Bpb s"
    using V4 scan_frameD(1,2)[OF f3] by (simp_all add: s2_def)
  ultimately show ?thesis using n4 A4 by (simp add: t)
qed

lemma out_ok_mono: "out_ok R s o1 \<Longrightarrow> (\<And>t. R s t \<Longrightarrow> R' s t) \<Longrightarrow> out_ok R' s o1"
  by (cases o1) simp

abbreviation only_kernel :: "VCB \<Rightarrow> (ntstatus + 'a) \<times> VCB \<Rightarrow> bool" where
  "only_kernel \<equiv> out_ok (\<lambda>_ _. True)"

lemma any_frame_rel: "frame_rel (\<lambda>_ _. True)"
  by (auto simp: frame_rel_def intro: reflpI transpI)

lemmas only_kernel_seq = out_ok_seq[OF any_frame_rel]

lemma only_kernel_modify: "KernelResults (f s) = KernelResults s \<Longrightarrow> only_kernel s (modify f s)"
  by simp

lemma FatExamine_scan_out: "only_kernel s (FatExamine_scan su hb sw c a b w bm s)"
  unfolding FatExamine_scan_def Let_def
proof (intro only_kernel_seq)
  show "only_kernel s (FatExamine_first B a L s)" for B L
    using FatExamine_first_out by (rule out_ok_mono) simp
  show "only_kernel s' (for_op n (FatExamine_step B su c a E) a L s')" for s' n B E L
    by (intro out_ok_for_op any_frame_rel out_ok_mono[OF FatExamine_step_out]) simp
  show "only_kernel s' (FatExamine_last su c a i L s')" for s' i L
    by (simp add: FatExamine_last_def Let_def FatUpdateWindow_def FatCountFreeRun_def)
  show "only_kernel s' ((case sw of None \<Rightarrow> ret () | Some w' \<Rightarrow> modify (FatExamine_switch c w' b)) s')" for s' b
    by (auto simp: FatExamine_switch_def FatUpdateWindow_def Let_def split: option.split)
  show "only_kernel s' (ret x s')" for s' and x :: "bool list option" by simp
qed

lemma FatExamineFatEntries_out:
  "su \<or> bm \<noteq> None \<or> sw \<noteq> None \<Longrightarrow> only_kernel s (FatExamineFatEntries Pool a b su sw bm s)"
proof -
  assume h: "su \<or> bm \<noteq> None \<or> sw \<noteq> None"
  have m: "only_kernel s (modify (FatUpdateWindow w f) s)" for w f s by (simp add: FatUpdateWindow_def)
  consider "su" | "\<not> su" "bm \<noteq> None" | w where "\<not> su" "bm = None" "sw = Some w" using h by auto
  then show ?thesis
  proof cases
    case 1
    then show ?thesis unfolding FatExamineFatEntries_def if_P[OF 1] by (intro only_kernel_seq m FatExamine_scan_out)
  next
    case 2
    then show ?thesis unfolding FatExamineFatEntries_def if_not_P[OF 2(1)]
      using FatExamine_scan_out by (auto simp del: out_ok.simps split: option.split)
  next
    case 3
    show ?thesis unfolding FatExamineFatEntries_def if_not_P[OF 3(1)] 3 option.case Let_def
      by (intro only_kernel_seq out_ok_KernelCall any_frame_rel FatExamine_scan_out)
  qed
qed

lemma FatSetupWindows_out: "only_kernel s (FatSetupWindows F PW Pool s)"
proof -
  have choose: "only_kernel s (FatChooseWindow Pool s)" for s
  proof (cases "NumberOfWindows s > 1")
    case True
    show ?thesis unfolding FatChooseWindow_def if_P[OF True]
      by (intro only_kernel_seq FatExamineFatEntries_out only_kernel_modify) simp_all
  next
    case False
    show ?thesis unfolding FatChooseWindow_def if_not_P[OF False]
      by (intro only_kernel_modify) (simp add: FatUpdateWindow_def)
  qed
  show ?thesis unfolding FatSetupWindows_def
    by (intro only_kernel_seq choose FatExamineFatEntries_out only_kernel_modify out_ok_KernelCall any_frame_rel)
      (simp_all add: Let_def)
qed

section \<open>The scan and the setup, as properties\<close>

text \<open>A search for clear bits as its documentation has it: the first run that is long enough.\<close>

definition first_fit :: find_clear_bits where
  "first_fit bm n hint =
     (case first_index (\<lambda>i. clear_run bm i (unat n)) [0..<length bm] of None \<Rightarrow> -1 | Some i \<Rightarrow> of_nat i)"

lemma first_fit_ok: "find_clear_ok first_fit"
proof (unfold find_clear_ok_def, intro allI impI)
  fix bm :: "bool list" and n hint :: ULONG
  assume h: "0 < n \<and> length bm < 2 ^ 32 - 1"
  show "let r = first_fit bm n hint
        in if r = -1 then \<forall>i. \<not> clear_run bm i (unat n) else clear_run bm (unat r) (unat n)"
  proof (cases "first_index (\<lambda>i. clear_run bm i (unat n)) [0..<length bm]")
    case None
    have "\<not> clear_run bm i (unat n)" for i
    proof
      assume r: "clear_run bm i (unat n)"
      have "0 < unat n" using h by (simp add: word_less_nat)
      then have "i < length bm" using r by (simp add: clear_run_def)
      then show False using None r by (auto simp: first_index_None)
    qed
    then show ?thesis using None by (simp add: first_fit_def)
  next
    case (Some i)
    then have i: "i < length bm" "clear_run bm i (unat n)" using first_index_Some[OF Some] by auto
    then have u: "unat (of_nat i :: ULONG) = i" using h by (intro unat_of_nat_small) simp
    then have "(of_nat i :: ULONG) \<noteq> -1" using i h by (intro unat_ne_minus_1) simp
    then show ?thesis using Some i u by (simp add: first_fit_def Let_def)
  qed
qed

lemma alloc_support_eq:
  "(A :: ALLOCATION_SUPPORT)\<lparr>NumberOfFreeClusters := 0\<rparr> = B\<lparr>NumberOfFreeClusters := 0\<rparr>
    \<Longrightarrow> A = B\<lparr>NumberOfFreeClusters := NumberOfFreeClusters A\<rparr>"
  by (cases A; cases B) simp

text \<open>
  C13: setting up the allocation support of a volume whose FAT has room for its clusters makes
  the bitmap that of the current window, bit by bit; puts the hint on a free cluster of the
  window when there is one; counts the free clusters of the whole volume; and when there is
  one window it covers every cluster. When the setup raises, which it does only when a
  kernel call has, the volume is left without windows and without bitmap if they had been
  begun.
\<close>

theorem FatSetupAllocationSupport_correct:
  assumes F: "find_clear_ok RtlFindClearBits" and A: "FatSetupAllocationSupport_geometry (Bpb s) = Inr A"
    and fits: "fat_fits (Bpb s) A" and N: "0 < NumberOfClusters A"
    and res: "FatSetupAllocationSupport RtlFindClearBits PoolWindows Pool s = (r, t)"
  shows "case r of
      Inl e \<Rightarrow> Some e \<in> set (KernelResults s)
        \<and> (Windows t = Windows s \<and> FreeClusterBitMap t = FreeClusterBitMap s \<or> Windows t = [] \<and> FreeClusterBitMap t = [])
    | Inr _ \<Rightarrow> bitmap_synced t \<and> hint_ok t
        \<and> AllocationSupport t = A\<lparr>NumberOfFreeClusters :=
            of_nat (length (filter (\<lambda>j. FatEntryOf t (of_nat j) = FAT_CLUSTER_AVAILABLE) [2..<unat (NumberOfClusters A) + 2]))\<rparr>
        \<and> (NumberOfWindows t = 1 \<longrightarrow> window_range t (CurrentWindow t) = [2..<unat (NumberOfClusters A) + 2])
        \<and> VolumeFile t = VolumeFile s"
proof -
  define s1 where "s1 = s\<lparr>AllocationSupport := A, KernelResults := tl (KernelResults s)\<rparr>"
  have ok1: "vcb_ok s1" and N1: "0 < vcb_N s1" and nf1: "NumberOfFreeClusters (AllocationSupport s1) = 0"
    using fits N geometry_free_0[OF A] by (simp_all add: s1_def vcb_ok_def word_less_nat)
  have r: "(case kres (KernelResults s) of Inl e \<Rightarrow> (Inl e, s1)
      | Inr _ \<Rightarrow> try_finally (FatSetupWindows RtlFindClearBits PoolWindows Pool)
            (\<lambda>abnormal. if abnormal then modify FatTearDownAllocationSupport else ret ()) s1) = (r, t)"
  proof (cases "kres (KernelResults s)")
    case (Inl e)
    then show ?thesis using res[symmetric] by (simp add: FatSetupAllocationSupport_def A seq_def KernelCall_eq s1_def)
  next
    case (Inr u)
    then show ?thesis using res[symmetric] by (simp add: FatSetupAllocationSupport_def A seq_def KernelCall_eq s1_def)
  qed
  show ?thesis
  proof (cases "kres (KernelResults s)")
    case (Inl e)
    have "r = Inl e" "t = s1" using r[unfolded Inl] by simp_all
    then show ?thesis using kres_Inl[OF Inl] by (simp add: s1_def)
  next
    case (Inr u)
    obtain r2 t2 where b: "FatSetupWindows RtlFindClearBits PoolWindows Pool s1 = (r2, t2)" by force
    show ?thesis
    proof (cases r2)
      case (Inl e)
      then have "r = Inl e" "t = FatTearDownAllocationSupport t2" using r b Inr by (simp_all add: try_finally_def)
      moreover have "Some e \<in> set (KernelResults s)"
        using FatSetupWindows_out[of s1 RtlFindClearBits PoolWindows Pool] b Inl by (auto simp: s1_def dest: set_tl)
      ultimately show ?thesis by (simp add: FatTearDownAllocationSupport_def)
    next
      case (Inr u')
      then have rt: "r = Inr ()" "t = t2" using r b \<open>kres (KernelResults s) = Inr u\<close> by (simp_all add: try_finally_def)
      have b': "FatSetupWindows RtlFindClearBits PoolWindows Pool s1 = (Inr (), t2)" using b Inr by simp
      note out = FatSetupWindows_Inr[OF F ok1 N1 nf1 b']
      have At: "AllocationSupport t2 = A\<lparr>NumberOfFreeClusters := of_nat (all_free s1)\<rparr>"
      proof -
        have "(AllocationSupport t2)\<lparr>NumberOfFreeClusters := 0\<rparr> = A\<lparr>NumberOfFreeClusters := 0\<rparr>"
          using out by (simp add: s1_def)
        from alloc_support_eq[OF this] show ?thesis using out by simp
      qed
      have bits: "vcb_bits t2 = FatIndexBitSize A" by (simp add: At)
      have e: "FatEntryOf s1 i = FatEntryOf t2 i" for i
        using out bits by (simp add: FatEntryOf_def s1_def)
      have NA: "vcb_N s1 = unat (NumberOfClusters A)" by (simp add: s1_def)
      show ?thesis using out At unfolding rt sum.case all_free_def e NA by (auto simp: s1_def)
    qed
  qed
qed


lemma floppy_geometry: "FatSetupAllocationSupport_geometry (Bpb floppy_vcb) =
    Inr ((AllocationSupport floppy_vcb)\<lparr>NumberOfFreeClusters := 0\<rparr>)"
proof -
  have "FatLogOf 512 = Inr 9" using FatLogOf_power[of 9] by simp
  then show ?thesis
    by (simp add: MountedBpb_def FatUnpackBios_def floppy_boot_def get16_def get32_def
      FatSetupAllocationSupport_geometry_def floppy_vcb_def floppy_bpb_def FatBytesPerCluster_def
      FatRootDirectoryLbo_def FatReservedBytes_def FatBytesPerFat_def IsBpbFat32_def FatFileAreaLbo_def
      FatRootDirectorySize_def FatNumberOfClusters_def FatIndexBitSize_of_def ClustersDescribableByFat_def)
qed

lemma no_raise: "only_kernel s (r, t) \<Longrightarrow> KernelResults s = [] \<Longrightarrow> \<exists>x. r = Inr x"
  by (cases r) auto

theorem FatSetupAllocationSupport_correct_witness:
  "\<exists>t. FatSetupAllocationSupport first_fit (\<lambda>_. \<lparr>FirstCluster = 7, LastCluster = 7, ClustersFree = 7\<rparr>) (\<lambda>_. True) floppy_vcb
      = (Inr (), t) \<and> bitmap_synced t \<and> hint_ok t"
proof -
  let ?W = "\<lambda>_. \<lparr>FirstCluster = 7, LastCluster = 7, ClustersFree = 7\<rparr>"
  obtain r t where rt: "FatSetupAllocationSupport first_fit ?W (\<lambda>_. True) floppy_vcb = (r, t)" by force
  have "fat_fits (Bpb floppy_vcb) ((AllocationSupport floppy_vcb)\<lparr>NumberOfFreeClusters := 0\<rparr>)"
    using floppy_fits by (simp add: fat_fits_def)
  note c = FatSetupAllocationSupport_correct[OF first_fit_ok floppy_geometry this _ rt]
  have "0 < NumberOfClusters ((AllocationSupport floppy_vcb)\<lparr>NumberOfFreeClusters := 0\<rparr>)" "KernelResults floppy_vcb = []"
    by (simp_all add: floppy_vcb_def)
  with c rt show ?thesis by (cases r) auto
qed

text \<open>
  C14: switching to a window either replaces the bitmap by one whose bit \<open>i\<close> tells whether
  cluster \<open>FirstCluster + i\<close> is in use, makes the window current and resets the hint, the
  free clusters being counted when there is one window only; or raises a status a kernel
  call raised, and then the bitmap, the current window and the hint are those of before.
\<close>

theorem FatExamineFatEntries_switch:
  assumes "vcb_ok s" and "w < length (Windows s)"
    and "FirstCluster (Windows s ! w) \<le> LastCluster (Windows s ! w)"
    and "unat (LastCluster (Windows s ! w)) \<le> vcb_N s + 1" "scan_start_ok s (unat (FirstCluster (Windows s ! w)))"
    and "FatExamineFatEntries Pool 0 0 False (Some w) None s = (r, t)"
  shows "(case r of
      Inl e \<Rightarrow> Some e \<in> set (KernelResults s) \<and> FreeClusterBitMap t = FreeClusterBitMap s
        \<and> CurrentWindow t = CurrentWindow s \<and> ClusterHint t = ClusterHint s
    | Inr _ \<Rightarrow>
        FreeClusterBitMap t = map (\<lambda>j. FatEntryOf s (of_nat j) \<noteq> FAT_CLUSTER_AVAILABLE) (window_range s w)
      \<and> CurrentWindow t = w \<and> ClusterHint t = -1
      \<and> (if vcb_bits s = 32 \<and> NumberOfWindows s > 1
         then NumberOfFreeClusters (AllocationSupport t) = NumberOfFreeClusters (AllocationSupport s)
         else NumberOfFreeClusters (AllocationSupport t) = NumberOfFreeClusters (AllocationSupport s)
                + of_nat (length (filter (\<lambda>j. FatEntryOf s (of_nat j) = FAT_CLUSTER_AVAILABLE) (window_range s w)))
            \<and> ClustersFree (Windows t ! w) = NumberOfFreeClusters (AllocationSupport t)))
    \<and> VolumeFile t = VolumeFile s"
  using switch_outcome[OF assms] by (auto split: sum.splits)

lemma disk32_calls: "KernelResults disk32_vcb = []"
  by (simp add: disk32_vcb_def)

theorem FatExamineFatEntries_switch_witness:
  "\<exists>bm t. FatExamineFatEntries (\<lambda>_. True) 0 0 False (Some 1) None disk32_vcb = (Inr bm, t)
     \<and> CurrentWindow t = 1 \<and> length (FreeClusterBitMap t) = 64464"
proof -
  have w: "1 < length (Windows disk32_vcb)" "FirstCluster (Windows disk32_vcb ! 1) \<le> LastCluster (Windows disk32_vcb ! 1)"
    "unat (LastCluster (Windows disk32_vcb ! 1)) \<le> vcb_N disk32_vcb + 1"
    "scan_start_ok disk32_vcb (unat (FirstCluster (Windows disk32_vcb ! 1)))"
    by (simp_all add: disk32_vcb_def scan_start_ok_def)
  obtain r t where rt: "FatExamineFatEntries (\<lambda>_. True) 0 0 False (Some 1) None disk32_vcb = (r, t)" by force
  have "only_kernel disk32_vcb (r, t)"
    using FatExamineFatEntries_out[of False None "Some 1" disk32_vcb "\<lambda>_. True" 0 0] rt by (simp del: out_ok.simps)
  then obtain bm where bm: "r = Inr bm" using no_raise[of disk32_vcb r t] disk32_calls by blast
  from FatExamineFatEntries_switch[OF disk32_ok w rt] rt bm show ?thesis
    by (intro exI[of _ bm] exI[of _ t]) (simp add: window_range_def disk32_vcb_def del: upt_Suc upt_rec_numeral)
qed


text \<open>
  C15: the scan that sets up the windows of a large FAT32 volume lays window \<open>v\<close> over the
  clusters from \<open>65536 * v + 2\<close> on, 65536 of them or up to the last cluster, counts its free
  clusters, and adds the free clusters of the volume to the volume's count.
\<close>

theorem FatExamineFatEntries_setup:
  assumes "vcb_ok s" "vcb_bits s = 32" "NumberOfWindows s > 1" "length (Windows s) = window_count s" "0 < vcb_N s"
    and "FatExamineFatEntries Pool 2 (NumberOfClusters (AllocationSupport s) + 1) True None None s = (Inr r, t)"
  shows "length (Windows t) = window_count s
    \<and> (\<forall>v<window_count s. Windows t ! v =
        \<lparr>FirstCluster = of_nat (2 + 65536 * v), LastCluster = of_nat (min (2 + 65536 * (v + 1)) (vcb_N s + 2)) - 1,
         ClustersFree = of_nat (length (filter (\<lambda>j. FatEntryOf s (of_nat j) = FAT_CLUSTER_AVAILABLE)
                                  [2 + 65536 * v..<min (2 + 65536 * (v + 1)) (vcb_N s + 2)]))\<rparr>)
    \<and> NumberOfFreeClusters (AllocationSupport t) = NumberOfFreeClusters (AllocationSupport s)
        + of_nat (length (filter (\<lambda>j. FatEntryOf s (of_nat j) = FAT_CLUSTER_AVAILABLE) [2..<vcb_N s + 2]))"
  using setup_outcome[OF assms] by blast

theorem FatExamineFatEntries_setup_witness:
  "\<exists>r t. FatExamineFatEntries (\<lambda>_. True) 2 130001 True None None disk32_vcb = (Inr r, t)
     \<and> FirstCluster (Windows t ! 1) = 65538 \<and> LastCluster (Windows t ! 1) = 130001"
proof -
  obtain r t where rt: "FatExamineFatEntries (\<lambda>_. True) 2 130001 True None None disk32_vcb = (r, t)" by force
  have "only_kernel disk32_vcb (r, t)"
    using FatExamineFatEntries_out[of True None None disk32_vcb "\<lambda>_. True" 2 130001] rt by (simp del: out_ok.simps)
  then obtain bm where bm: "r = Inr bm" using no_raise[of disk32_vcb r t] disk32_calls by blast
  have d: "vcb_bits disk32_vcb = 32" "NumberOfWindows disk32_vcb > 1" "window_count disk32_vcb = 2"
    "length (Windows disk32_vcb) = 2" "vcb_N disk32_vcb = 130000" "NumberOfClusters (AllocationSupport disk32_vcb) + 1 = 130001"
    by (simp_all add: disk32_vcb_def window_count_def)
  have "FatExamineFatEntries (\<lambda>_. True) 2 (NumberOfClusters (AllocationSupport disk32_vcb) + 1) True None None disk32_vcb
      = (Inr bm, t)" using rt bm by (simp only: d)
  note s = FatExamineFatEntries_setup[OF disk32_ok d(1,2) _ _ this, unfolded d]
  have "Windows t ! 1 = \<lparr>FirstCluster = of_nat (2 + 65536 * 1), LastCluster = of_nat (min (2 + 65536 * (1 + 1)) (130000 + 2)) - 1,
         ClustersFree = of_nat (length (filter (\<lambda>j. FatEntryOf disk32_vcb (of_nat j) = FAT_CLUSTER_AVAILABLE)
                                  [2 + 65536 * 1..<min (2 + 65536 * (1 + 1)) (130000 + 2)]))\<rparr>"
    using s[OF refl] by (simp del: upt_rec_numeral upt_Suc)
  then have "FirstCluster (Windows t ! 1) = of_nat (2 + 65536 * 1)"
    "LastCluster (Windows t ! 1) = of_nat (min (2 + 65536 * (1 + 1)) (130000 + 2)) - 1" by (simp_all del: upt_rec_numeral upt_Suc)
  then show ?thesis using rt bm by (intro exI[of _ bm] exI[of _ t]) simp
qed

text \<open>
  C16: the scan into a caller's bitmap (the volume bitmap request) sets bit \<open>i\<close> exactly when
  cluster \<open>StartIndex + i\<close> is in use and leaves the free counts and windows as they are; and
  this holds whatever the bitmap held. The start must not be the first entry of a page, which
  the page test at the top of the loop would skip.
\<close>

theorem FatExamineFatEntries_bitmap:
  assumes "vcb_ok s" "a \<le> b" "b \<le> vcb_N s + 1" "scan_start_ok s a" "length B = b + 1 - a"
    and "FatExamineFatEntries Pool (of_nat a) (of_nat b) False None (Some B) s = (Inr r, t)"
  shows "r = Some (map (\<lambda>j. FatEntryOf s (of_nat j) \<noteq> FAT_CLUSTER_AVAILABLE) [a..<b + 1])
    \<and> NumberOfFreeClusters (AllocationSupport t) = NumberOfFreeClusters (AllocationSupport s)
    \<and> Windows t = Windows s \<and> FreeClusterBitMap t = FreeClusterBitMap s \<and> CurrentWindow t = CurrentWindow s"
proof -
  have sc: "FatExamine_scan False True None False (of_nat a) (of_nat b) 0 (Some B) s = (Inr r, t)"
    using assms(6) by (simp add: FatExamineFatEntries_def)
  have "bits_upto (\<lambda>j. FatEntryOf s (of_nat j)) (b + 1 - a) a a (Some B)" using assms(5) by (simp add: bits_upto_def)
  from FatExamine_scan_Inr[OF assms(1-4) _ this sc] obtain K where
    r: "r \<noteq> None" "bits_upto (\<lambda>j. FatEntryOf s (of_nat j)) (b + 1 - a) a (b + 1) r"
    and t: "t = scan_result s False False a (b + 1) 0 a K" by auto
  have "the r = map (\<lambda>j. FatEntryOf s (of_nat j) \<noteq> 0) [a..<b + 1]" using r by (intro bits_upto_list) auto
  then show ?thesis
    using r scan_frameD(3,5)[OF scan_result_frame] scan_result_counts(1,3)[where c = False and s = s] by (auto simp: t simp del: upt_Suc)
qed

theorem FatExamineFatEntries_bitmap_witness:
  "\<exists>t. FatExamineFatEntries (\<lambda>_. True) 10 41 False None (Some (replicate 32 False)) disk32_vcb
     = (Inr (Some (replicate 32 True)), t)"
proof -
  obtain r t where rt: "FatExamineFatEntries (\<lambda>_. True) (of_nat 10) (of_nat 41) False None (Some (replicate 32 False)) disk32_vcb = (r, t)"
    by force
  have "only_kernel disk32_vcb (r, t)"
    using FatExamineFatEntries_out[of False "Some (replicate 32 False)" None disk32_vcb "\<lambda>_. True" "of_nat 10" "of_nat 41"] rt
    by (simp del: out_ok.simps)
  then obtain bm where bm: "r = Inr bm" using no_raise[of disk32_vcb r t] disk32_calls by blast
  have "scan_start_ok disk32_vcb 10" "41 \<le> vcb_N disk32_vcb + 1" by (simp_all add: scan_start_ok_def disk32_vcb_def)
  from FatExamineFatEntries_bitmap[OF disk32_ok _ this(2,1) _ rt[unfolded bm]]
  have "bm = Some (map (\<lambda>j. FatEntryOf disk32_vcb (of_nat j) \<noteq> FAT_CLUSTER_AVAILABLE) [10..<42])" by simp
  moreover have "FatEntryOf disk32_vcb i \<noteq> FAT_CLUSTER_AVAILABLE" for i
    by (simp add: FatEntryOf_def fat_get_def fat_get32_def disk32_vcb_def get32_def get16_def)
  ultimately have "bm = Some (map (\<lambda>j. True) [10..<42])" by simp
  then have "bm = Some (replicate 32 True)" by (simp add: map_replicate_const del: upt_rec_numeral)
  then show ?thesis using rt bm by (intro exI[of _ t]) simp
qed

end
