(* ===== verification/FatStable.thy ===== *)
theory FatStable
  imports FatScan
begin

text \<open>
  What the operations on the FAT leave alone: a locale of predicates they keep, with its
  lemmas for every operation from FatPrepareWriteVolumeFile to FatAllocateClusters, and two
  interpretations, the fields that are not the volume file's and the outcomes of kernel calls.
\<close>

section \<open>What operations on the FAT leave alone\<close>

lemma keeps_modify: "(\<And>s. P s \<Longrightarrow> P (f s)) \<Longrightarrow> keeps P (modify f)"
  by (simp add: keeps_def)

lemma keeps_raise: "keeps P (raise_status e)"
  by (simp add: keeps_def)

lemma keeps_if: "keeps P m \<Longrightarrow> keeps P m' \<Longrightarrow> keeps P (if c then m else m')"
  by simp

lemmas keeps_intros = keeps_ret keeps_raise keeps_seq keeps_try_finally keeps_modify keeps_if for_op_keeps

named_theorems stable_keeps

text \<open>
  A predicate on the volume is stable when it does not depend on the contents of the volume
  file, the dirty Mcb and the flags, and stays true when outcomes of kernel calls are used up:
  every operation on the FAT keeps it, raised or not.
\<close>

locale fat_stable =
  fixes P :: "VCB \<Rightarrow> bool"
  assumes stable_results: "P s \<Longrightarrow> set K \<subseteq> set (KernelResults s) \<Longrightarrow> P (s\<lparr>KernelResults := K\<rparr>)"
    and stable_volume: "P s \<Longrightarrow> P (s\<lparr>VolumeFile := M\<rparr>)"
    and stable_dirty: "P s \<Longrightarrow> P (s\<lparr>DirtyFatMcb := D\<rparr>)"
    and stable_wait: "P s \<Longrightarrow> P (s\<lparr>IrpContextWait := b\<rparr>)"
    and stable_disable: "P s \<Longrightarrow> P (s\<lparr>IrpContextDisableDirty := b\<rparr>)"
    and stable_through: "P s \<Longrightarrow> P (s\<lparr>WrittenThrough := T\<rparr>)"
begin

lemmas stable_fields = stable_volume stable_dirty stable_wait stable_disable stable_through

lemma P_snd: "P s \<Longrightarrow> keeps P m \<Longrightarrow> P (snd (m s))"
  by (simp add: keeps_def)

lemma keeps_KernelCall [stable_keeps]: "keeps P KernelCall"
  using stable_results by (auto simp: keeps_def KernelCall_eq dest: set_tl)

lemma keeps_PrepareWrite [stable_keeps]: "keeps P (FatPrepareWriteVolumeFile v n r z)"
  unfolding FatPrepareWriteVolumeFile_def
  by (intro keeps_intros stable_keeps) (auto intro: stable_fields)

lemma keeps_AddDirty [stable_keeps]: "keeps P (FatAddDirtyFatMcb v l c)"
  unfolding FatAddDirtyFatMcb_def by (intro keeps_intros stable_keeps) (auto intro: stable_fields)

lemma keeps_finally [stable_keeps]: "keeps P (FatSetFatEntry_finally c w b)"
  unfolding FatSetFatEntry_finally_def
  by (intro keeps_intros) (auto simp: Let_def intro: stable_fields split: option.splits)

lemma keeps_try [stable_keeps]:
  "(\<And>p. keeps P (body p)) \<Longrightarrow> (\<And>b. keeps P (fin b)) \<Longrightarrow> keeps P (FatSetFatEntry_try v n r fin body)"
proof (rule keepsI)
  fix s assume b: "\<And>p. keeps P (body p)" and f: "\<And>b. keeps P (fin b)" and s: "P s"
  obtain x s1 where p: "FatPrepareWriteVolumeFile v n r False s = (x, s1)" by force
  have s1: "P s1" by (rule keepsD[OF keeps_PrepareWrite s p])
  have A: "P (snd (m s1))" if "keeps P m" for m :: "(VCB, unit) fat_op"
    using that s1 by (simp add: keeps_def)
  show "P (snd (FatSetFatEntry_try v n r fin body s))"
    by (cases x) (auto simp: FatSetFatEntry_try_def p intro!: A keeps_intros f b)
qed

lemma keeps_set_volume [stable_keeps]: "keeps P (modify (\<lambda>s. s\<lparr>VolumeFile := f s\<rparr>))"
  by (intro keeps_intros) (auto intro: stable_fields)

lemma keeps_12 [stable_keeps]:
  "(\<And>b. keeps P (fin b)) \<Longrightarrow> keeps P (FatSetFatEntry_12 ss i v r fin)"
  by (rule keepsI) (simp only: FatSetFatEntry_12_def Let_def, erule P_snd, intro keeps_intros stable_keeps)

lemma keeps_32 [stable_keeps]:
  "(\<And>b. keeps P (fin b)) \<Longrightarrow> keeps P (FatSetFatEntry_32 ss i v r fin)"
  by (rule keepsI) (simp only: FatSetFatEntry_32_def Let_def, erule P_snd, intro keeps_intros stable_keeps)

lemma keeps_16 [stable_keeps]:
  "(\<And>b. keeps P (fin b)) \<Longrightarrow> keeps P (FatSetFatEntry_16 ss i v r fin)"
  by (rule keepsI) (simp only: FatSetFatEntry_16_def Let_def, erule P_snd, intro keeps_intros stable_keeps)

lemma keeps_by_size [stable_keeps]: "keeps P (FatSetFatEntry_by_size i v r c w)"
  by (rule keepsI) (simp only: FatSetFatEntry_by_size_def Let_def, erule P_snd, intro keeps_intros stable_keeps)

lemma keeps_VerifyIndex [stable_keeps]: "keeps P (FatVerifyIndexIsValid i)"
  by (simp add: keeps_def FatVerifyIndexIsValid_def)

lemma keeps_FatSetFatEntry [stable_keeps]: "keeps P (FatSetFatEntry i v)"
proof (rule keepsI)
  fix s assume s: "P s"
  then have "P (s\<lparr>IrpContextWait := True, IrpContextDisableDirty := True\<rparr>)" by (intro stable_fields)
  from P_snd[OF this keeps_by_size]
  have "P (snd (FatSetFatEntry_by_size i' e r c w (s\<lparr>IrpContextWait := True, IrpContextDisableDirty := True\<rparr>)))"
    for i' e r c w .
  moreover have "P (snd (seq (FatVerifyIndexIsValid i) (\<lambda>_. FatSetFatEntry_by_size i v True False True) s))"
    by (intro P_snd[OF s] keeps_intros stable_keeps)
  ultimately show "P (snd (FatSetFatEntry i v s))" using s by (simp add: FatSetFatEntry_def Let_def)
qed

lemma keeps_MarkSectors [stable_keeps]: "keeps P (FatMarkSectors a b c)"
proof -
  have "keeps P (FatMarkSectors_loop n l c)" for n l
    by (induction n arbitrary: l) (auto intro!: keeps_intros stable_keeps)
  then show ?thesis by (simp add: FatMarkSectors_def)
qed

lemma keeps_PinPages [stable_keeps]: "keeps P (FatPinPages n v)"
  by (induction n arbitrary: v) (auto intro!: keeps_intros stable_keeps)

lemma keeps_run_12 [stable_keeps]: "keeps P (FatSetFatRun_12 ss i n c)"
  by (rule keepsI) (simp only: FatSetFatRun_12_def Let_def, erule P_snd, intro keeps_intros stable_keeps)

lemma keeps_run_16 [stable_keeps]: "keeps P (FatSetFatRun_16 ss i n c)"
  by (rule keepsI) (simp only: FatSetFatRun_16_def Let_def, erule P_snd, intro keeps_intros stable_keeps)

lemma keeps_run_chunk [stable_keeps]: "keeps P (FatSetFatRun_32_chunk ss i n c)"
  by (rule keepsI) (simp only: FatSetFatRun_32_chunk_def Let_def, erule P_snd, intro keeps_intros stable_keeps)

lemma keeps_run_loop: "P s \<Longrightarrow> P (snd (snd (FatSetFatRun_32_loop ss i n c s)))"
proof (induction ss i n c s rule: FatSetFatRun_32_loop.induct)
  case (1 ss i n c s)
  obtain r s1 where ch: "FatSetFatRun_32_chunk ss i n c s = (r, s1)" by force
  have "P s1" by (rule keepsD[OF keeps_run_chunk "1.prems" ch])
  then show ?case using "1.IH"[OF ch[symmetric]] ch
    by (subst FatSetFatRun_32_loop.simps) (auto split: sum.split)
qed

lemma keeps_run_unwind [stable_keeps]: "keeps P (FatSetFatRun_unwind n i c)"
  by (induction n arbitrary: i) (simp_all only: FatSetFatRun_unwind.simps, (intro keeps_intros stable_keeps | assumption)+)

lemma keeps_run_32 [stable_keeps]: "keeps P (FatSetFatRun_32 ss i n c)"
proof (rule keepsI)
  fix s assume s: "P s"
  obtain r j s1 where l: "FatSetFatRun_32_loop ss i n c s = (r, j, s1)" by (metis prod_cases3)
  then have s1: "P s1" using keeps_run_loop[OF s, of ss i n c] by simp
  have "P (snd (seq (FatSetFatRun_unwind k j c) (\<lambda>_. raise_status e :: (VCB, unit) fat_op) s1))" for k e
    by (intro P_snd[OF s1] keeps_intros stable_keeps)
  then show "P (snd (FatSetFatRun_32 ss i n c s))" using s1
    by (simp add: FatSetFatRun_32_def l split: sum.split)
qed

lemma keeps_FatSetFatRun [stable_keeps]: "keeps P (FatSetFatRun i n c)"
proof -
  have "keeps P (\<lambda>s. if n = 0 then (Inr (), s)
       else (let SectorSize = push_bit (unat (LogOfBytesPerSector (AllocationSupport s))) 1
          in (if FatIndexBitSize (AllocationSupport s) = 12 then FatSetFatRun_12 SectorSize i n c
              else if FatIndexBitSize (AllocationSupport s) = 32 then FatSetFatRun_32 SectorSize i n c
              else FatSetFatRun_16 SectorSize i n c) s))"
    by (rule keepsI) (auto simp: Let_def intro: P_snd stable_keeps)
  then show ?thesis unfolding FatSetFatRun_def by (intro keeps_intros stable_keeps)
qed

lemma keeps_FatFreeClusters [stable_keeps]: "keeps P (FatFreeClusters i n)"
  unfolding FatFreeClusters_def by (intro keeps_intros stable_keeps)

lemma keeps_FatAllocateClusters [stable_keeps]: "keeps P (FatAllocateClusters i n)"
  unfolding FatAllocateClusters_def by (intro keeps_intros stable_keeps)

end

text \<open>The fields of the volume an operation on the FAT does not touch.\<close>

definition fat_strip :: "VCB \<Rightarrow> VCB" where
  "fat_strip s = s\<lparr>VolumeFile := (\<lambda>_. 0), DirtyFatMcb := [], KernelResults := [],
     IrpContextDisableDirty := False, IrpContextWait := False, WrittenThrough := []\<rparr>"

interpretation strip: fat_stable "\<lambda>t. fat_strip t = S" for S
  by unfold_locales (auto simp: fat_strip_def)

interpretation kernel: fat_stable "\<lambda>t. set (KernelResults t) \<subseteq> A" for A
  by unfold_locales auto

lemma stripD:
  assumes "keeps (\<lambda>t. fat_strip t = fat_strip s) m" "m s = (r, t)"
  shows "fat_strip t = fat_strip s"
  using keepsD[OF assms(1) refl assms(2)] .

end
