(* ===== verification/FatDealloc.thy ===== *)
theory FatDealloc
  imports FatStable
begin

text \<open>
  FatDeallocateDiskSpace (allocsup.c) and the invariant of the allocation layer: the windows
  tile the clusters, and bitmap and free counts agree with the FAT. The bitmap half of the
  routine is shown to keep bitmap, window counts and volume count in step.
\<close>

section \<open>FatDeallocateDiskSpace\<close>

text \<open>
  The runs of an Mcb: \<open>GetNext\<close> stands for FsRtlGetNextLargeMcbEntry and \<open>NumberOfRuns\<close> for
  FsRtlNumberOfRunsInLargeMcb. A run of 4 GB has the byte count 0xFFFFFFFF.
\<close>

type_synonym get_next = "LARGE_MCB \<Rightarrow> ULONG \<Rightarrow> (LBO \<times> LBO \<times> LBO) option"

definition FatClusterCountOf :: "VCB \<Rightarrow> ULONG \<Rightarrow> ULONG" where
  "FatClusterCountOf s ByteCount =
     (let LogOfBytesPerCluster = unat (LogOfBytesPerCluster (AllocationSupport s))
      in if ByteCount = 0xFFFFFFFF then push_bit (32 - LogOfBytesPerCluster) 1
         else drop_bit LogOfBytesPerCluster ByteCount)"

definition FatMcbRun :: "get_next \<Rightarrow> LARGE_MCB \<Rightarrow> VCB \<Rightarrow> ULONG \<Rightarrow> ULONG \<times> ULONG" where
  "FatMcbRun GetNext Mcb s McbIndex =
     (let (Vbo, Lbo, ByteCount) = the (FatGetNextMcbEntry GetNext s Mcb McbIndex)
      in (FatGetIndexFromLbo s Lbo, FatClusterCountOf s ByteCount))"

text \<open>
  The first loop frees the runs in the FAT, the second clears bits and counts. Both answer
  with McbIndex as it is when they are left, raised or not.
\<close>

primrec FatDeallocate_fat ::
  "(VCB \<Rightarrow> ULONG \<Rightarrow> ULONG \<times> ULONG) \<Rightarrow> nat \<Rightarrow> ULONG \<Rightarrow> VCB \<Rightarrow> (ntstatus + unit) \<times> ULONG \<times> VCB" where
  "FatDeallocate_fat run 0 McbIndex s = (Inr (), McbIndex, s)"
| "FatDeallocate_fat run (Suc n) McbIndex s =
     (case FatFreeClusters (fst (run s McbIndex)) (snd (run s McbIndex)) s of
        (Inl e, s1) \<Rightarrow> (Inl e, McbIndex, s1)
      | (Inr _, s1) \<Rightarrow> FatDeallocate_fat run n (McbIndex + 1) s1)"

text \<open>The part of a run that lies in the current window: its start and length, when they overlap.\<close>

definition FatWindowOverlap :: "FAT_WINDOW \<Rightarrow> ULONG \<Rightarrow> ULONG \<Rightarrow> (ULONG \<times> ULONG) option" where
  "FatWindowOverlap Window ClusterIndex ClusterCount =
     (let ClusterEnd = ClusterIndex + ClusterCount - 1
      in if ClusterIndex > LastCluster Window \<or> ClusterEnd < FirstCluster Window then None
         else if ClusterIndex < FirstCluster Window \<and> ClusterEnd > LastCluster Window
         then Some (FirstCluster Window, LastCluster Window - FirstCluster Window + 1)
         else if ClusterIndex < FirstCluster Window
         then Some (FirstCluster Window, ClusterEnd - FirstCluster Window + 1)
         else Some (ClusterIndex, if ClusterEnd \<le> LastCluster Window then ClusterCount
                                  else LastCluster Window - ClusterIndex + 1))"

text \<open>
  The free counts of the windows a run spans, from window \<open>w\<close> on. A step past the last
  window would access memory behind the array (an access violation).
\<close>

function FatCountWindows :: "nat \<Rightarrow> ULONG \<Rightarrow> ULONG \<Rightarrow> (VCB, unit) fat_op" where
  "FatCountWindows w MyStart MyLength s =
     (if MyLength = 0 then (Inr (), s)
      else if w \<ge> length (Windows s) then (Inl (STATUS_RAISED 0xC0000005), s)
      else
        (let count = min (LastCluster (Windows s ! w) - MyStart + 1) MyLength;
             s1 = FatUpdateWindow w (\<lambda>W. W\<lparr>ClustersFree := ClustersFree W + count\<rparr>) s
         in if MyLength \<noteq> count
            then FatCountWindows (w + 1) (FirstCluster (Windows s1 ! (w + 1))) (MyLength - count) s1
            else (Inr (), s1)))"
  by pat_completeness auto
termination
  by (relation "measure (\<lambda>(w, a, n, s). length (Windows s) - w)") (auto simp: FatUpdateWindow_def)

declare FatCountWindows.simps [simp del]

definition FatDeallocate_run :: "ULONG \<Rightarrow> ULONG \<Rightarrow> (VCB, unit) fat_op" where
  "FatDeallocate_run ClusterIndex ClusterCount s =
     (let Window = Windows s ! CurrentWindow s;
          Count = (\<lambda>s. seq (FatCountWindows (if FatIsFat32 s then unat (FatWindowOfCluster ClusterIndex) else 0)
                              ClusterIndex ClusterCount)
                         (\<lambda>_. modify (\<lambda>s. s\<lparr>AllocationSupport := (AllocationSupport s)
                            \<lparr>NumberOfFreeClusters := NumberOfFreeClusters (AllocationSupport s) + ClusterCount\<rparr>\<rparr>)) s)
      in case FatWindowOverlap Window ClusterIndex ClusterCount of
           None \<Rightarrow> Count s
         | Some (MyStart, MyLength) \<Rightarrow>
             if MyLength = 0 then (Inr (), s)
             else Count (FatUnreserveClusters (MyStart - FirstCluster Window + 2) MyLength s))"

primrec FatDeallocate_bitmap ::
  "(VCB \<Rightarrow> ULONG \<Rightarrow> ULONG \<times> ULONG) \<Rightarrow> nat \<Rightarrow> ULONG \<Rightarrow> VCB \<Rightarrow> (ntstatus + unit) \<times> ULONG \<times> VCB" where
  "FatDeallocate_bitmap run 0 McbIndex s = (Inr (), McbIndex, s)"
| "FatDeallocate_bitmap run (Suc n) McbIndex s =
     (case FatDeallocate_run (fst (run s McbIndex)) (snd (run s McbIndex)) s of
        (Inl e, s1) \<Rightarrow> (Inl e, McbIndex, s1)
      | (Inr _, s1) \<Rightarrow> FatDeallocate_bitmap run n (McbIndex + 1) s1)"

text \<open>The unwind: the runs freed are allocated again and linked, the last one to the run that failed.\<close>

definition FatDeallocate_relink ::
  "(VCB \<Rightarrow> ULONG \<Rightarrow> ULONG \<times> ULONG) \<Rightarrow> ULONG \<Rightarrow> ULONG \<Rightarrow> ULONG \<Rightarrow> (VCB, ULONG) fat_op" where
  "FatDeallocate_relink run McbIndex Index PriorLastIndex s =
     (let (FatIndex, Clusters) = run s Index
      in seq (if PriorLastIndex \<noteq> 0 then FatSetFatEntry PriorLastIndex FatIndex else ret ()) (\<lambda>_.
         if Index < McbIndex
         then seq (FatAllocateClusters FatIndex Clusters) (\<lambda>_. ret (FatIndex + Clusters - 1))
         else ret PriorLastIndex) s)"

definition FatDeallocate_unwind :: "(VCB \<Rightarrow> ULONG \<Rightarrow> ULONG \<times> ULONG) \<Rightarrow> ULONG \<Rightarrow> (VCB, unit) fat_op" where
  "FatDeallocate_unwind run McbIndex =
     seq (for_op (for_count 0 McbIndex) (FatDeallocate_relink run McbIndex) 0 0) (\<lambda>_. ret ())"

definition FatDeallocateRuns :: "(VCB \<Rightarrow> ULONG \<Rightarrow> ULONG \<times> ULONG) \<Rightarrow> nat \<Rightarrow> (VCB, unit) fat_op" where
  "FatDeallocateRuns run RunsInMcb s =
     (case (case FatDeallocate_fat run RunsInMcb 0 s of
              (Inl e, McbIndex, s1) \<Rightarrow> (Inl e, McbIndex, s1)
            | (Inr _, _, s1) \<Rightarrow> FatDeallocate_bitmap run RunsInMcb 0 s1) of
        (Inr _, _, s2) \<Rightarrow> (Inr (), s2)
      | (Inl e, McbIndex, s2) \<Rightarrow> seq (FatDeallocate_unwind run McbIndex) (\<lambda>_. raise_status e) s2)"

section \<open>The allocation invariant\<close>

text \<open>
  The windows lie one after the other over the clusters 2 to \<open>vcb_N s + 1\<close>: 65536 clusters
  each on FAT32, one window otherwise. \<open>win_lo s v\<close> is the first cluster of window \<open>v\<close> and
  \<open>win_hi s v\<close> the first one behind it.
\<close>

definition win_size :: "VCB \<Rightarrow> nat" where
  "win_size s = (if vcb_bits s = 32 then 65536 else vcb_N s)"

definition win_lo :: "VCB \<Rightarrow> nat \<Rightarrow> nat" where
  "win_lo s v = 2 + win_size s * v"

definition win_hi :: "VCB \<Rightarrow> nat \<Rightarrow> nat" where
  "win_hi s v = min (2 + win_size s * Suc v) (vcb_N s + 2)"

definition windows_ok :: "VCB \<Rightarrow> bool" where
  "windows_ok s \<longleftrightarrow> 0 < vcb_N s \<and> vcb_N s + 2 < 2 ^ 31
     \<and> length (Windows s) = (vcb_N s + win_size s - 1) div win_size s
     \<and> unat (NumberOfWindows s) = length (Windows s) \<and> CurrentWindow s < length (Windows s)
     \<and> (\<forall>v<length (Windows s). unat (FirstCluster (Windows s ! v)) = win_lo s v
          \<and> unat (LastCluster (Windows s ! v)) + 1 = win_hi s v)"

text \<open>
  The bitmap, the counts of the windows and of the volume agree with the table of entries
  \<open>e\<close>, and the hint is unset or in the current window.
\<close>

definition synced :: "(nat \<Rightarrow> ULONG) \<Rightarrow> VCB \<Rightarrow> bool" where
  "synced e s \<longleftrightarrow> windows_ok s
     \<and> FreeClusterBitMap s = map (\<lambda>j. e j \<noteq> FAT_CLUSTER_AVAILABLE) [win_lo s (CurrentWindow s)..<win_hi s (CurrentWindow s)]
     \<and> (\<forall>v<length (Windows s). unat (ClustersFree (Windows s ! v)) = free_in e (win_lo s v) (win_hi s v))
     \<and> unat (NumberOfFreeClusters (AllocationSupport s)) = free_in e 2 (vcb_N s + 2)
     \<and> (ClusterHint s = -1 \<or> 2 \<le> unat (ClusterHint s) \<and> unat (ClusterHint s) < length (FreeClusterBitMap s) + 2)"

text \<open>The invariant of the allocation layer: these agree with the FAT.\<close>

abbreviation fat_entries :: "VCB \<Rightarrow> nat \<Rightarrow> ULONG" where
  "fat_entries s j \<equiv> FatEntryOf s (of_nat j)"

definition alloc_ok :: "VCB \<Rightarrow> bool" where
  "alloc_ok s \<longleftrightarrow> vcb_ok s \<and> synced (fat_entries s) s"

lemma win_size_pos: "0 < vcb_N s \<Longrightarrow> 0 < win_size s"
  by (simp add: win_size_def)

lemma win_N: "windows_ok s \<Longrightarrow> vcb_N s < 2 ^ 31 - 2" "windows_ok s \<Longrightarrow> 0 < vcb_N s"
  by (simp_all add: windows_ok_def)

lemma win_disjoint: "v < w \<Longrightarrow> win_hi s v \<le> win_lo s w"
proof -
  assume "v < w"
  then have "win_size s * Suc v \<le> win_size s * w" by (intro mult_le_mono2) simp
  then show ?thesis by (simp add: win_lo_def win_hi_def)
qed

lemma win_lo_Suc: "win_lo s (Suc v) = win_lo s v + win_size s"
  by (simp add: win_lo_def)

lemma win_index:
  assumes "windows_ok s" "2 \<le> a" "a < vcb_N s + 2"
  shows "(a - 2) div win_size s < length (Windows s)"
    "win_lo s ((a - 2) div win_size s) \<le> a" "a < win_hi s ((a - 2) div win_size s)"
proof -
  let ?W = "win_size s" and ?v = "(a - 2) div win_size s"
  have W: "0 < ?W" using assms(1) by (intro win_size_pos) (simp add: windows_ok_def)
  have d: "?W * ?v \<le> a - 2" "a - 2 < ?W * Suc ?v"
    using W by (simp_all add: dividend_less_times_div)
  show "win_lo s ?v \<le> a" unfolding win_lo_def using d(1) assms(2) by linarith
  show "a < win_hi s ?v" unfolding win_hi_def using d(2) assms(2,3) by simp
  have "?v \<le> (vcb_N s - 1) div ?W" using assms(2,3) by (intro div_le_mono) simp
  also have "\<dots> < (vcb_N s + ?W - 1) div ?W"
  proof -
    have "vcb_N s + ?W - 1 = (vcb_N s - 1) + ?W" using assms(1) W by (simp add: windows_ok_def)
    moreover have "(vcb_N s - 1 + ?W) div ?W = (vcb_N s - 1) div ?W + 1" using W by (intro div_add_self2) simp
    ultimately show ?thesis by (simp only:)
  qed
  finally show "?v < length (Windows s)" using assms(1) by (simp add: windows_ok_def)
qed

lemma win_next:
  assumes "windows_ok s" "v < length (Windows s)" "win_hi s v < vcb_N s + 2"
  shows "Suc v < length (Windows s)" "win_lo s (Suc v) = win_hi s v"
proof -
  have W: "0 < win_size s" using assms(1) by (intro win_size_pos) (simp add: windows_ok_def)
  have h: "win_hi s v = 2 + win_size s * Suc v" using assms(3) by (simp add: win_hi_def min_def split: if_splits)
  then show "win_lo s (Suc v) = win_hi s v" by (simp add: win_lo_def)
  have "win_size s * Suc v < vcb_N s" using assms(3) h by simp
  then have "win_size s * Suc v + win_size s \<le> vcb_N s + win_size s - 1" using W by simp
  then have "win_size s * Suc (Suc v) \<le> vcb_N s + win_size s - 1" by (simp add: algebra_simps)
  then have "Suc (Suc v) \<le> (vcb_N s + win_size s - 1) div win_size s"
    using W by (simp add: less_eq_div_iff_mult_less_eq mult.commute)
  then show "Suc v < length (Windows s)" using assms(1) by (simp add: windows_ok_def)
qed

lemma win_lo_hi: "windows_ok s \<Longrightarrow> v < length (Windows s) \<Longrightarrow> win_lo s v < win_hi s v \<and> win_hi s v \<le> vcb_N s + 2"
proof -
  assume ok: "windows_ok s" and v: "v < length (Windows s)"
  have W: "0 < win_size s" using ok by (intro win_size_pos) (simp add: windows_ok_def)
  have "Suc v \<le> (vcb_N s + win_size s - 1) div win_size s" using ok v by (simp add: windows_ok_def)
  then have "win_size s * Suc v \<le> vcb_N s + win_size s - 1"
    using W by (simp add: less_eq_div_iff_mult_less_eq mult.commute)
  then have "win_size s * v < vcb_N s" using W by simp
  then show ?thesis using W by (simp add: win_lo_def win_hi_def)
qed

lemma win_of_window:
  assumes "windows_ok s" "v < length (Windows s)"
  shows "unat (FirstCluster (Windows s ! v)) = win_lo s v" "unat (LastCluster (Windows s ! v)) = win_hi s v - 1"
    "unat (LastCluster (Windows s ! v) + 1) = win_hi s v" "0 < win_hi s v"
proof -
  have l: "unat (LastCluster (Windows s ! v)) + 1 = win_hi s v" using assms by (simp add: windows_ok_def)
  then show "unat (LastCluster (Windows s ! v)) = win_hi s v - 1" "0 < win_hi s v" by simp_all
  have "win_hi s v < 2 ^ 31" using win_lo_hi[OF assms] assms(1) by (simp add: windows_ok_def)
  with l show "unat (LastCluster (Windows s ! v) + 1) = win_hi s v" by (subst unat_add_small) simp_all
  show "unat (FirstCluster (Windows s ! v)) = win_lo s v" using assms by (simp add: windows_ok_def)
qed

text \<open>Free entries as a set, and how freeing a run or taking one changes their number.\<close>

lemma free_in_card: "free_in e a b = card {j. a \<le> j \<and> j < b \<and> e j = FAT_CLUSTER_AVAILABLE}"
proof -
  have "free_in e a b = card (set (filter (\<lambda>j. e j = FAT_CLUSTER_AVAILABLE) [a..<b]))"
    unfolding free_in_def by (rule distinct_card[symmetric]) simp
  also have "set (filter (\<lambda>j. e j = FAT_CLUSTER_AVAILABLE) [a..<b]) = {j. a \<le> j \<and> j < b \<and> e j = FAT_CLUSTER_AVAILABLE}"
    by auto
  finally show ?thesis .
qed

lemma free_in_freed:
  assumes "\<And>j. a \<le> j \<Longrightarrow> j < b \<Longrightarrow> e j \<noteq> FAT_CLUSTER_AVAILABLE \<and> e' j = FAT_CLUSTER_AVAILABLE"
    and "\<And>j. j < a \<or> b \<le> j \<Longrightarrow> x \<le> j \<Longrightarrow> j < y \<Longrightarrow> e' j = FAT_CLUSTER_AVAILABLE \<longleftrightarrow> e j = FAT_CLUSTER_AVAILABLE"
  shows "free_in e' x y = free_in e x y + (min y b - max x a)"
proof -
  let ?S = "{j. x \<le> j \<and> j < y \<and> e j = FAT_CLUSTER_AVAILABLE}" and ?R = "{max x a..<min y b}"
  have "{j. x \<le> j \<and> j < y \<and> e' j = FAT_CLUSTER_AVAILABLE} = ?S \<union> ?R"
  proof (intro set_eqI)
    fix j
    show "j \<in> {j. x \<le> j \<and> j < y \<and> e' j = FAT_CLUSTER_AVAILABLE} \<longleftrightarrow> j \<in> ?S \<union> ?R"
      using assms(1)[of j] assms(2)[of j] by (cases "a \<le> j \<and> j < b") auto
  qed
  moreover have "?S \<inter> ?R = {}" using assms(1) by auto
  moreover have "finite ?S" "finite ?R" by simp_all
  ultimately show ?thesis by (simp add: free_in_card card_Un_disjoint)
qed

section \<open>Counting the clusters of a run in its windows\<close>

lemma FatCountWindows_windows:
  assumes "windows_ok s" "w < length (Windows s)" "win_lo s w \<le> unat a" "unat a < win_hi s w"
    "unat a + unat n \<le> vcb_N s + 2"
  shows "\<exists>Ws. FatCountWindows w a n s = (Inr (), s\<lparr>Windows := Ws\<rparr>) \<and> length Ws = length (Windows s)
    \<and> (\<forall>v<length Ws. Ws ! v = (Windows s ! v)\<lparr>ClustersFree := ClustersFree (Windows s ! v)
         + of_nat (if w \<le> v then min (win_hi s v) (unat a + unat n) - max (win_lo s v) (unat a) else 0)\<rparr>)"
  using assms
proof (induction w a n s rule: FatCountWindows.induct)
  case (1 w a n s)
  note ok = "1.prems"(1) and w = "1.prems"(2) and a = "1.prems"(3-5)
  show ?case
  proof (cases "n = 0")
    case True
    then show ?thesis using a by (intro exI[of _ "Windows s"]) (auto simp: FatCountWindows.simps)
  next
    case False
    define c where "c = min (LastCluster (Windows s ! w) - a + 1) n"
    define s1 where "s1 = FatUpdateWindow w (\<lambda>W. W\<lparr>ClustersFree := ClustersFree W + c\<rparr>) s"
    note ww = win_of_window[OF ok w] and lh = win_lo_hi[OF ok w]
    have l: "unat (LastCluster (Windows s ! w) - a + 1) = win_hi s w - unat a"
    proof -
      have "a \<le> LastCluster (Windows s ! w)" using ww a(2) by (simp add: word_le_nat)
      then have "unat (LastCluster (Windows s ! w) - a) = win_hi s w - 1 - unat a" using ww by (simp add: unat_sub_le)
      moreover have "win_hi s w < 2 ^ 32" using lh win_N(1)[OF ok] by simp
      then have "win_hi s w - unat a < 2 ^ 32" by (rule le_less_trans[OF diff_le_self])
      ultimately show ?thesis using a(2) ww(4) by (subst unat_add_small) simp_all
    qed
    have c: "unat c = min (win_hi s w) (unat a + unat n) - unat a"
      using l by (auto simp: c_def min_def word_le_nat)
    have "max (win_lo s w) (unat a) = unat a" using a by simp
    then have ofc: "of_nat (min (win_hi s w) (unat a + unat n) - max (win_lo s w) (unat a)) = c"
      by (simp flip: c)
    have Ws1: "Windows s1 = (Windows s)[w := (Windows s ! w)\<lparr>ClustersFree := ClustersFree (Windows s ! w) + c\<rparr>]"
      "s1 = s\<lparr>Windows := Windows s1\<rparr>"
      by (simp_all add: s1_def FatUpdateWindow_def)
    have eq: "FatCountWindows w a n s =
        (if n \<noteq> c then FatCountWindows (w + 1) (FirstCluster (Windows s1 ! (w + 1))) (n - c) s1 else (Inr (), s1))"
      using False w by (subst FatCountWindows.simps) (simp add: c_def s1_def Let_def)
    show ?thesis
    proof (cases "n = c")
      case True
      then have end': "unat a + unat n \<le> win_hi s w" using c a by (simp add: min_def split: if_splits)
      have "Windows s1 ! v = (Windows s ! v)\<lparr>ClustersFree := ClustersFree (Windows s ! v)
         + of_nat (if w \<le> v then min (win_hi s v) (unat a + unat n) - max (win_lo s v) (unat a) else 0)\<rparr>"
        if v: "v < length (Windows s)" for v
      proof (cases "v = w")
        case v: True
        show ?thesis using v w ofc by (simp add: Ws1(1))
      next
        case ne: False
        then show ?thesis using end' win_disjoint[of w v s] by (cases "w < v") (auto simp: Ws1(1))
      qed
      then show ?thesis using eq True Ws1(2)[symmetric] by (intro exI[of _ "Windows s1"]) (simp, simp add: Ws1(1))
    next
      case ne: False
      have "c \<le> n" by (simp add: c_def)
      with ne have cn: "unat c < unat n" by (metis word_le_nat word_unat_eq_iff le_neq_implies_less)
      have h: "win_hi s w < unat a + unat n" "unat c = win_hi s w - unat a" using c a cn by auto
      have nx: "Suc w < length (Windows s)" "win_lo s (Suc w) = win_hi s w"
        using h a by (intro win_next[OF ok w], simp)+
      have f1: "unat (FirstCluster (Windows s1 ! (w + 1))) = win_hi s w"
        using win_of_window(1)[OF ok nx(1)] nx w by (simp add: Ws1(1))
      have len: "length (Windows s1) = length (Windows s)" by (simp add: Ws1(1))
      have geo: "win_lo s1 = win_lo s" "win_hi s1 = win_hi s" "vcb_N s1 = vcb_N s"
        by (simp_all add: fun_eq_iff win_lo_def win_hi_def win_size_def s1_def FatUpdateWindow_def)
      have ok1: "windows_ok s1"
      proof -
        have fl: "FirstCluster (Windows s1 ! v) = FirstCluster (Windows s ! v)"
          "LastCluster (Windows s1 ! v) = LastCluster (Windows s ! v)" for v
          using w by (cases "v = w"; simp add: Ws1(1))+
        have oth: "NumberOfWindows s1 = NumberOfWindows s" "CurrentWindow s1 = CurrentWindow s" "win_size s1 = win_size s"
          by (simp_all add: s1_def FatUpdateWindow_def win_size_def)
        show ?thesis using ok unfolding windows_ok_def geo len fl oth .
      qed
      have nc: "unat (n - c) = unat a + unat n - win_hi s w" using cn h a by (simp add: unat_sub_le word_le_nat)
      have p: "w + 1 < length (Windows s1)" "win_lo s1 (w + 1) \<le> unat (FirstCluster (Windows s1 ! (w + 1)))"
        "unat (FirstCluster (Windows s1 ! (w + 1))) < win_hi s1 (w + 1)"
        "unat (FirstCluster (Windows s1 ! (w + 1))) + unat (n - c) \<le> vcb_N s1 + 2"
        unfolding geo len f1 nc using nx win_lo_hi[OF ok nx(1)] h a(3) by simp_all
      obtain Ws where Ws: "FatCountWindows (w + 1) (FirstCluster (Windows s1 ! (w + 1))) (n - c) s1 = (Inr (), s1\<lparr>Windows := Ws\<rparr>)"
        "length Ws = length (Windows s1)"
        "\<And>v. v < length Ws \<Longrightarrow> Ws ! v = (Windows s1 ! v)\<lparr>ClustersFree := ClustersFree (Windows s1 ! v)
         + of_nat (if w + 1 \<le> v then min (win_hi s1 v) (win_hi s w + unat (n - c)) - max (win_lo s1 v) (win_hi s w) else 0)\<rparr>"
        using "1.IH"[OF False _ c_def s1_def ne ok1 p] w unfolding f1 by auto
      have e: "win_hi s w + unat (n - c) = unat a + unat n" using nc h by simp
      have "Ws ! v = (Windows s ! v)\<lparr>ClustersFree := ClustersFree (Windows s ! v)
         + of_nat (if w \<le> v then min (win_hi s v) (unat a + unat n) - max (win_lo s v) (unat a) else 0)\<rparr>"
        if v: "v < length (Windows s)" for v
      proof -
        have Wv: "Ws ! v = (Windows s1 ! v)\<lparr>ClustersFree := ClustersFree (Windows s1 ! v)
         + of_nat (if w + 1 \<le> v then min (win_hi s v) (unat a + unat n) - max (win_lo s v) (win_hi s w) else 0)\<rparr>"
          using Ws(3)[of v] Ws(2) v unfolding len geo e by simp
        consider "v < w" | "v = w" | "w < v" by linarith
        then show ?thesis
        proof cases
          case 1
          then show ?thesis unfolding Wv by (simp add: Ws1(1))
        next
          case 2
          show ?thesis unfolding Wv using 2 w ofc by (simp add: Ws1(1))
        next
          case 3
          have "win_hi s w \<le> win_lo s v" using 3 by (rule win_disjoint)
          then show ?thesis unfolding Wv using 3 a by (simp add: Ws1(1))
        qed
      qed
      then show ?thesis using eq ne Ws(1,2) len
        by (intro exI[of _ Ws]) (simp add: s1_def FatUpdateWindow_def)
    qed
  qed
qed

lemma FatWindowOverlap_eq:
  assumes W: "unat (FirstCluster W) = lo" "unat (LastCluster W) + 1 = hi" "lo < hi" "hi < 2 ^ 31"
    and n: "0 < unat n" "unat a + unat n < 2 ^ 31"
  shows "if hi \<le> unat a \<or> unat a + unat n \<le> lo then FatWindowOverlap W a n = None
     else \<exists>x l. FatWindowOverlap W a n = Some (x, l) \<and> unat x = max lo (unat a)
       \<and> unat l = min hi (unat a + unat n) - max lo (unat a)"
proof -
  have "unat (a + n) = unat a + unat n" using n by (intro unat_add_small) simp
  then have e: "unat (a + n - 1) = unat a + unat n - 1" using n by (subst unat_sub_le) (simp_all add: word_le_nat)
  have l: "unat (x - y + 1) = unat x + 1 - unat y" if "unat y \<le> unat x" "unat x < 2 ^ 31" for x y :: ULONG
    using that by (subst unat_add_small) (simp_all add: unat_sub_le word_le_nat)
  show ?thesis
  proof (cases "hi \<le> unat a \<or> unat a + unat n \<le> lo")
    case True
    then show ?thesis using W n e by (auto simp: FatWindowOverlap_def Let_def word_less_nat)
  next
    case False
    have d: "\<not> (LastCluster W < a \<or> a + n - 1 < FirstCluster W)" using False W n e by (auto simp: word_less_nat)
    have la: "unat (LastCluster W - FirstCluster W + 1) = hi - lo"
      "unat (LastCluster W - a + 1) = hi - unat a" "lo < unat a + unat n \<Longrightarrow> unat (a + n - 1 - FirstCluster W + 1) = unat a + unat n - lo"
      using W False n e by (subst l; simp)+
    consider "unat a < lo" "hi < unat a + unat n" | "unat a < lo" "unat a + unat n \<le> hi" | "lo \<le> unat a" by linarith
    then show ?thesis
    proof cases
      case 1
      then have "FatWindowOverlap W a n = Some (FirstCluster W, LastCluster W - FirstCluster W + 1)"
        using d W n e by (auto simp: FatWindowOverlap_def Let_def word_less_nat)
      then show ?thesis using False 1 la W by simp
    next
      case 2
      then have "FatWindowOverlap W a n = Some (FirstCluster W, a + n - 1 - FirstCluster W + 1)"
        using d W n e by (auto simp: FatWindowOverlap_def Let_def word_less_nat)
      then show ?thesis using False 2 la W by simp
    next
      case 3
      then have "FatWindowOverlap W a n = Some (a, if unat a + unat n \<le> hi then n else LastCluster W - a + 1)"
        using d W n e by (auto simp: FatWindowOverlap_def Let_def word_less_nat word_le_nat)
      then show ?thesis using False 3 la W by auto
    qed
  qed
qed

text \<open>Clearing or setting the bits of a run in the bitmap of a window.\<close>

lemma fill_window_bits:
  assumes "lo \<le> x" "x + unat l \<le> hi" "unat i = x - lo" "hi < 2 ^ 32"
    and "\<And>j. lo \<le> j \<Longrightarrow> j < hi \<Longrightarrow> (e' j \<noteq> 0) = (if x \<le> j \<and> j < x + unat l then b else e j \<noteq> (0 :: ULONG))"
  shows "RtlFillBits b (map (\<lambda>j. e j \<noteq> 0) [lo..<hi]) i l = map (\<lambda>j. e' j \<noteq> (0 :: ULONG)) [lo..<hi]"
proof (rule nth_equalityI)
  fix k assume "k < length (RtlFillBits b (map (\<lambda>j. e j \<noteq> 0) [lo..<hi]) i l)"
  then have k: "k < hi - lo" by simp
  have "(e' (lo + k) \<noteq> 0) = (if x \<le> lo + k \<and> lo + k < x + unat l then b else e (lo + k) \<noteq> 0)"
    using k by (intro assms(5)) simp_all
  moreover have "unat i \<le> k \<and> k < unat i + unat l \<longleftrightarrow> x \<le> lo + k \<and> lo + k < x + unat l" using assms(1,3) by auto
  ultimately show "RtlFillBits b (map (\<lambda>j. e j \<noteq> 0) [lo..<hi]) i l ! k = map (\<lambda>j. e' j \<noteq> 0) [lo..<hi] ! k"
    using k by (simp add: nth_RtlFillBits)
qed simp

text \<open>A free count fits its word.\<close>

lemma free_in_word: "free_in e a b + k \<le> b - a \<Longrightarrow> b < 2 ^ 32 \<Longrightarrow> unat (c :: ULONG) = free_in e a b \<Longrightarrow> unat (c + of_nat k) = free_in e a b + k"
  by (subst unat_add_of_nat32) simp_all

lemma free_in_freed_le:
  assumes "\<And>j. a \<le> j \<Longrightarrow> j < b \<Longrightarrow> e j \<noteq> FAT_CLUSTER_AVAILABLE"
  shows "free_in e x y + (min y b - max x a) \<le> y - x"
proof -
  have "free_in e x y + (min y b - max x a) = free_in (\<lambda>j. if a \<le> j \<and> j < b then 0 else e j) x y"
    using assms by (intro free_in_freed[symmetric]) auto
  then show ?thesis using free_in_le by simp
qed

text \<open>The state with other counts, bitmap and hint: its geometry is the same.\<close>

lemma win_update:
  "win_lo (s\<lparr>Windows := Ws, FreeClusterBitMap := bm, ClusterHint := h, AllocationSupport := (AllocationSupport s)\<lparr>NumberOfFreeClusters := c\<rparr>\<rparr>) = win_lo s"
  "win_hi (s\<lparr>Windows := Ws, FreeClusterBitMap := bm, ClusterHint := h, AllocationSupport := (AllocationSupport s)\<lparr>NumberOfFreeClusters := c\<rparr>\<rparr>) = win_hi s"
  "win_size (s\<lparr>Windows := Ws, FreeClusterBitMap := bm, ClusterHint := h, AllocationSupport := (AllocationSupport s)\<lparr>NumberOfFreeClusters := c\<rparr>\<rparr>) = win_size s"
  by (auto simp: fun_eq_iff win_lo_def win_hi_def win_size_def)

lemma windows_ok_update:
  assumes "windows_ok s" "length Ws = length (Windows s)"
    and "\<And>v. v < length (Windows s) \<Longrightarrow> FirstCluster (Ws ! v) = FirstCluster (Windows s ! v) \<and> LastCluster (Ws ! v) = LastCluster (Windows s ! v)"
    and "t = s\<lparr>Windows := Ws, FreeClusterBitMap := bm, ClusterHint := h, AllocationSupport := (AllocationSupport s)\<lparr>NumberOfFreeClusters := c\<rparr>\<rparr>"
  shows "windows_ok t"
  using assms(1-3) unfolding assms(4) windows_ok_def win_update by simp

lemma FatDeallocate_run_synced:
  assumes sy: "synced e s" and run: "2 \<le> unat a" "0 < unat n" "unat a + unat n \<le> vcb_N s + 2"
    and used: "\<And>j. unat a \<le> j \<Longrightarrow> j < unat a + unat n \<Longrightarrow> e j \<noteq> FAT_CLUSTER_AVAILABLE"
    and e': "e' = (\<lambda>j. if unat a \<le> j \<and> j < unat a + unat n then FAT_CLUSTER_AVAILABLE else e j)"
  shows "\<exists>Ws bm h c. FatDeallocate_run a n s = (Inr (), s\<lparr>Windows := Ws, FreeClusterBitMap := bm, ClusterHint := h,
      AllocationSupport := (AllocationSupport s)\<lparr>NumberOfFreeClusters := c\<rparr>\<rparr>)
    \<and> synced e' (s\<lparr>Windows := Ws, FreeClusterBitMap := bm, ClusterHint := h,
      AllocationSupport := (AllocationSupport s)\<lparr>NumberOfFreeClusters := c\<rparr>\<rparr>)"
proof -
  have ok: "windows_ok s" using sy by (simp add: synced_def)
  define cw where "cw = CurrentWindow s"
  have cw: "cw < length (Windows s)" using ok by (simp add: cw_def windows_ok_def)
  define lo hi where "lo = win_lo s cw" and "hi = win_hi s cw"
  have lh: "lo < hi" "hi \<le> vcb_N s + 2" "2 \<le> lo" using win_lo_hi[OF ok cw] by (simp_all add: lo_def hi_def win_lo_def)
  have N: "vcb_N s + 2 < 2 ^ 31" using win_N(1)[OF ok] by simp
  define b where "b = unat a + unat n"
  define over where "over = (\<not> (hi \<le> unat a \<or> b \<le> lo))"
  define x where "x = max lo (unat a)"
  define l where "l = min hi b - x"
  define bm where "bm = (if over then RtlClearBits (FreeClusterBitMap s) (of_nat (x - lo)) (of_nat l) else FreeClusterBitMap s)"
  define h where "h = (if over then if of_nat (x - lo + 2) < ClusterHint s then of_nat (x - lo + 2) else ClusterHint s else ClusterHint s)"
  define s1 where "s1 = s\<lparr>FreeClusterBitMap := bm, ClusterHint := h\<rparr>"
  have bms: "FreeClusterBitMap s = map (\<lambda>j. e j \<noteq> 0) [lo..<hi]" using sy by (simp add: synced_def lo_def hi_def cw_def)
  have small: "hi < 2 ^ 31" "b < 2 ^ 31" using lh run N by (simp_all add: b_def)
  note W = win_of_window(1)[OF ok cw] conjunct2[OF spec[OF conjunct2[OF conjunct2[OF conjunct2[OF conjunct2[OF conjunct2[OF ok[unfolded windows_ok_def]]]]]], THEN mp, OF cw]]
  have ov: "if hi \<le> unat a \<or> b \<le> lo then FatWindowOverlap (Windows s ! cw) a n = None
     else \<exists>x l. FatWindowOverlap (Windows s ! cw) a n = Some (x, l) \<and> unat x = max lo (unat a) \<and> unat l = min hi b - max lo (unat a)"
    unfolding b_def by (rule FatWindowOverlap_eq) (use W lh(1) small run in \<open>simp_all add: lo_def hi_def b_def\<close>)
  have count: "FatDeallocate_run a n s = seq (FatCountWindows (if FatIsFat32 s then unat (FatWindowOfCluster a) else 0) a n)
       (\<lambda>_. modify (\<lambda>s. s\<lparr>AllocationSupport := (AllocationSupport s)
          \<lparr>NumberOfFreeClusters := NumberOfFreeClusters (AllocationSupport s) + n\<rparr>\<rparr>)) s1"
  proof (cases over)
    case False
    then show ?thesis using ov by (simp add: FatDeallocate_run_def over_def cw_def s1_def bm_def h_def)
  next
    case True
    then obtain x' l' where o: "FatWindowOverlap (Windows s ! cw) a n = Some (x', l')" "unat x' = x" "unat l' = l"
      using ov by (auto simp: over_def x_def l_def)
    have lpos: "l' \<noteq> 0" using o(3) True lh run(2) by (auto simp: l_def x_def over_def b_def)
    have xl: "x' - FirstCluster (Windows s ! cw) = of_nat (x - lo)" "l' = of_nat l"
      "x' - FirstCluster (Windows s ! cw) + 2 = of_nat (x - lo + 2)"
    proof -
      have f: "unat (FirstCluster (Windows s ! cw)) = lo" using W by (simp add: lo_def)
      have e1: "unat (x' - FirstCluster (Windows s ! cw)) = x - lo"
        using o f by (subst unat_sub_le) (simp_all add: word_le_nat x_def)
      show 1: "x' - FirstCluster (Windows s ! cw) = of_nat (x - lo)" unfolding e1[symmetric] by simp
      show "l' = of_nat l" unfolding o(3)[symmetric] by simp
      show "x' - FirstCluster (Windows s ! cw) + 2 = of_nat (x - lo + 2)" unfolding 1 by simp
    qed
    have "FatUnreserveClusters (x' - FirstCluster (Windows s ! cw) + 2) l' s = s1"
      unfolding xl(3) using True by (simp add: FatUnreserveClusters_def s1_def bm_def h_def xl(2))
    then show ?thesis using o(1) lpos by (simp add: FatDeallocate_run_def cw_def FatIsFat32_def s1_def)
  qed
  have geo: "win_lo s1 = win_lo s" "win_hi s1 = win_hi s" "Windows s1 = Windows s" "win_size s1 = win_size s"
    "AllocationSupport s1 = AllocationSupport s"
    by (auto simp: fun_eq_iff win_lo_def win_hi_def win_size_def s1_def)
  have ok1: "windows_ok s1"
    using ok unfolding windows_ok_def geo by (simp add: s1_def)
  define w where "w = (unat a - 2) div win_size s"
  have a2: "2 \<le> unat a" "unat a < vcb_N s + 2" using run by simp_all
  note wi = win_index[OF ok a2, folded w_def]
  have weq: "(if FatIsFat32 s then unat (FatWindowOfCluster a) else 0) = w"
  proof -
    have "unat (a - 2) = unat a - 2" using run(1) by (subst unat_sub_le) (simp_all add: word_le_nat)
    moreover have "unat a - 2 < vcb_N s" using a2 by simp
    ultimately show ?thesis by (simp add: w_def win_size_def FatWindowOfCluster_def unat_div FatIsFat32_def)
  qed
  obtain Ws where Ws: "FatCountWindows w a n s1 = (Inr (), s1\<lparr>Windows := Ws\<rparr>)" "length Ws = length (Windows s)"
    "\<And>v. v < length (Windows s) \<Longrightarrow> Ws ! v = (Windows s ! v)\<lparr>ClustersFree := ClustersFree (Windows s ! v)
         + of_nat (if w \<le> v then min (win_hi s v) b - max (win_lo s v) (unat a) else 0)\<rparr>"
    using FatCountWindows_windows[OF ok1, of w a n] wi run(3) unfolding geo b_def by auto
  define c where "c = NumberOfFreeClusters (AllocationSupport s) + n"
  define t where "t = s\<lparr>Windows := Ws, FreeClusterBitMap := bm, ClusterHint := h,
      AllocationSupport := (AllocationSupport s)\<lparr>NumberOfFreeClusters := c\<rparr>\<rparr>"
  have res: "FatDeallocate_run a n s = (Inr (), t)"
    unfolding count weq seq_def Ws(1) by (simp add: t_def c_def s1_def)
  have used': "e j \<noteq> 0" if "unat a \<le> j" "j < b" for j using used that by (simp add: b_def)
  have ov0: "w \<le> v \<or> min (win_hi s v) b - max (win_lo s v) (unat a) = 0" for v
  proof (cases "w \<le> v")
    case False
    then have "win_hi s v \<le> win_lo s w" by (intro win_disjoint) simp
    then show ?thesis using wi(2) by simp
  qed simp
  have frees: "unat (ClustersFree (Ws ! v)) = free_in e' (win_lo s v) (win_hi s v)" if v: "v < length (Windows s)" for v
  proof -
    let ?k = "min (win_hi s v) b - max (win_lo s v) (unat a)"
    have f: "unat (ClustersFree (Windows s ! v)) = free_in e (win_lo s v) (win_hi s v)" using sy v by (simp add: synced_def)
    have "ClustersFree (Ws ! v) = ClustersFree (Windows s ! v) + of_nat ?k" using Ws(3)[OF v] ov0[of v] by auto
    moreover have "free_in e (win_lo s v) (win_hi s v) + ?k \<le> win_hi s v - win_lo s v"
      by (rule free_in_freed_le) (rule used')
    moreover have "win_hi s v < 2 ^ 32" using win_lo_hi[OF ok v] N by simp
    ultimately have "unat (ClustersFree (Ws ! v)) = free_in e (win_lo s v) (win_hi s v) + ?k"
      using f free_in_word by metis
    also have "\<dots> = free_in e' (win_lo s v) (win_hi s v)"
      unfolding e' by (rule free_in_freed[symmetric]) (use used' in \<open>auto simp: b_def\<close>)
    finally show ?thesis .
  qed
  have total: "unat c = free_in e' 2 (vcb_N s + 2)"
  proof -
    have f: "unat (NumberOfFreeClusters (AllocationSupport s)) = free_in e 2 (vcb_N s + 2)" using sy by (simp add: synced_def)
    have k: "min (vcb_N s + 2) b - max 2 (unat a) = unat n" using run by (simp add: b_def)
    have "free_in e 2 (vcb_N s + 2) + unat n \<le> vcb_N s + 2 - 2"
      using free_in_freed_le[of "unat a" b e 2 "vcb_N s + 2"] used' unfolding k by blast
    then have "unat (NumberOfFreeClusters (AllocationSupport s) + of_nat (unat n)) = free_in e 2 (vcb_N s + 2) + unat n"
      using f N by (intro free_in_word) simp_all
    also have "\<dots> = free_in e 2 (vcb_N s + 2) + (min (vcb_N s + 2) b - max 2 (unat a))" by (simp only: k)
    also have "\<dots> = free_in e' 2 (vcb_N s + 2)"
      unfolding e' by (rule free_in_freed[symmetric]) (use used' in \<open>auto simp: b_def\<close>)
    finally show ?thesis by (simp add: c_def)
  qed
  have bm': "bm = map (\<lambda>j. e' j \<noteq> 0) [lo..<hi]"
  proof (cases over)
    case True
    have l32: "unat (of_nat l :: ULONG) = l" "unat (of_nat (x - lo) :: ULONG) = x - lo"
    proof -
      have "x < 2 ^ 31" using small lh(1) run(2) by (simp add: x_def b_def)
      then show "unat (of_nat (x - lo) :: ULONG) = x - lo" by (intro unat_of_nat_small) (simp add: less_imp_diff_less)
      have "l \<le> hi" by (simp add: l_def)
      then show "unat (of_nat l :: ULONG) = l" using small by (intro unat_of_nat_small) simp
    qed
    have "x + l = min hi b" using True lh by (auto simp: l_def x_def over_def b_def)
    then show ?thesis unfolding bm_def bms if_P[OF True] using small
      by (intro fill_window_bits[where x = x]) (auto simp: l32 l32(2)[unfolded x_def] x_def e' b_def[symmetric] used')
  next
    case False
    then have "e' j = e j" if "lo \<le> j" "j < hi" for j using that by (auto simp: e' over_def b_def)
    then show ?thesis using False bms by (simp add: bm_def)
  qed
  have hint: "h = -1 \<or> 2 \<le> unat h \<and> unat h < length bm + 2"
  proof -
    have "ClusterHint s = -1 \<or> 2 \<le> unat (ClusterHint s) \<and> unat (ClusterHint s) < (hi - lo) + 2" using sy bms by (simp add: synced_def)
    moreover have "unat (of_nat (x - lo + 2) :: ULONG) = x - lo + 2" if over
      using small that by (intro unat_of_nat_small) (auto simp: x_def over_def b_def)
    moreover have "x - lo < hi - lo" if over using that lh by (auto simp: x_def over_def)
    ultimately show ?thesis by (auto simp: h_def bm')
  qed
  have cwt: "CurrentWindow t = cw" by (simp add: t_def cw_def)
  have okt: "windows_ok t" by (rule windows_ok_update[OF ok Ws(2) _ t_def]) (simp add: Ws(3))
  have gt: "win_lo t = win_lo s" "win_hi t = win_hi s" "vcb_N t = vcb_N s" unfolding t_def by (simp_all add: win_update)
  have "synced e' t"
    unfolding synced_def gt cwt using okt bm' frees total hint Ws(2)
    by (simp add: t_def lo_def hi_def)
  then show ?thesis using res unfolding t_def by blast
qed

end
