(* ===== verification/FatFree.thy ===== *)
theory FatFree
  imports FatDealloc
begin

text \<open>
  Runs of clusters in the FAT, and FatDeallocateDiskSpace as a whole: after a return its
  runs are free and the invariant holds, after a raise bitmap and counts are untouched and
  the unwind has linked the runs again.
\<close>

lemma fat_strip_fields:
  assumes "fat_strip t = fat_strip s"
  shows "Bpb t = Bpb s" "AllocationSupport t = AllocationSupport s" "NumberOfWindows t = NumberOfWindows s"
    "Windows t = Windows s" "CurrentWindow t = CurrentWindow s" "FreeClusterBitMap t = FreeClusterBitMap s"
    "ClusterHint t = ClusterHint s" "MountInProgress t = MountInProgress s" "BadBlockMcb t = BadBlockMcb s"
    "vcb_ok t = vcb_ok s" "index_ok t = index_ok s" "windows_ok t = windows_ok s" "synced e t = synced e s"
proof -
  have f: "Bpb t = Bpb s \<and> AllocationSupport t = AllocationSupport s \<and> NumberOfWindows t = NumberOfWindows s
    \<and> Windows t = Windows s \<and> CurrentWindow t = CurrentWindow s \<and> FreeClusterBitMap t = FreeClusterBitMap s
    \<and> ClusterHint t = ClusterHint s \<and> MountInProgress t = MountInProgress s \<and> BadBlockMcb t = BadBlockMcb s"
    using assms by (cases s; cases t) (simp add: fat_strip_def)
  then show "Bpb t = Bpb s" "AllocationSupport t = AllocationSupport s" "NumberOfWindows t = NumberOfWindows s"
    "Windows t = Windows s" "CurrentWindow t = CurrentWindow s" "FreeClusterBitMap t = FreeClusterBitMap s"
    "ClusterHint t = ClusterHint s" "MountInProgress t = MountInProgress s" "BadBlockMcb t = BadBlockMcb s" by blast+
  have g: "win_lo t = win_lo s" "win_hi t = win_hi s" "win_size t = win_size s"
    using f by (auto simp: fun_eq_iff win_lo_def win_hi_def win_size_def)
  show "vcb_ok t = vcb_ok s" "index_ok t = index_ok s" using f by (auto simp: vcb_ok_def index_ok_def fun_eq_iff)
  show w: "windows_ok t = windows_ok s" using f g by (simp add: windows_ok_def)
  show "synced e t = synced e s" using f g w by (simp add: synced_def)
qed

section \<open>Runs of clusters\<close>

definition run_in :: "VCB \<Rightarrow> ULONG \<times> ULONG \<Rightarrow> bool" where
  "run_in s r \<longleftrightarrow> 2 \<le> unat (fst r) \<and> 0 < unat (snd r) \<and> unat (fst r) + unat (snd r) \<le> vcb_N s + 2"

definition in_cluster_run :: "ULONG \<times> ULONG \<Rightarrow> nat \<Rightarrow> bool" where
  "in_cluster_run r j \<longleftrightarrow> unat (fst r) \<le> j \<and> j < unat (fst r) + unat (snd r)"

definition in_runs :: "(ULONG \<times> ULONG) list \<Rightarrow> nat \<Rightarrow> bool" where
  "in_runs rs j \<longleftrightarrow> (\<exists>r\<in>set rs. in_cluster_run r j)"

definition disjoint_runs :: "(ULONG \<times> ULONG) list \<Rightarrow> bool" where
  "disjoint_runs = sorted_wrt (\<lambda>r q. \<forall>j. \<not> (in_cluster_run r j \<and> in_cluster_run q j))"

lemma in_runs_simps [simp]: "\<not> in_runs [] j" "in_runs (r # rs) j \<longleftrightarrow> in_cluster_run r j \<or> in_runs rs j"
  "in_runs (rs @ qs) j \<longleftrightarrow> in_runs rs j \<or> in_runs qs j"
  by (auto simp: in_runs_def)

text \<open>The entries of the FAT after a run of clusters has been freed or linked.\<close>

lemma vcb_N_small: "vcb_ok s \<Longrightarrow> vcb_N s + 2 < 2 ^ 31"
  using vcb_N_bounds(1) by fastforce

lemma fat_entries_index: "vcb_ok s \<Longrightarrow> j < vcb_N s + 2 \<Longrightarrow> unat (of_nat j :: ULONG) = j"
  using vcb_N_small by (intro unat_of_nat_small) fastforce

definition run_entries :: "UCHAR \<Rightarrow> bool \<Rightarrow> ULONG \<times> ULONG \<Rightarrow> (nat \<Rightarrow> ULONG) \<Rightarrow> nat \<Rightarrow> ULONG" where
  "run_entries b Chain r e j =
     (if in_cluster_run r j
      then take_bit (fat_vwidth b) (run_value Chain True (unat (fst r) + unat (snd r) - 1) (of_nat j)) else e j)"

lemma FatClusters_entries:
  assumes ok: "vcb_ok s" and r: "run_in s r" and run: "FatClusters Chain (fst r) (snd r) s = (Inr (), t)" and j: "j < vcb_N s + 2"
  shows "fat_entries t j = run_entries (vcb_bits s) Chain r (fat_entries s) j"
proof -
  have c: "snd r \<noteq> 0" "2 \<le> unat (fst r)" "unat (fst r) + unat (snd r) \<le> vcb_N s + 2" using r by (auto simp: run_in_def)
  have e: "run_effect (vcb_bits s) (vcb_R s) (vcb_N s) Chain True (unat (fst r)) (unat (snd r)) (VolumeFile s) (VolumeFile t)"
    and f: "Bpb t = Bpb s" "AllocationSupport t = AllocationSupport s"
    using FatClusters_outcome[OF ok c run refl] by blast+
  have u: "unat (of_nat j :: ULONG) = j" by (rule fat_entries_index[OF ok j])
  have "fat_get (vcb_bits s) (vcb_R s) (VolumeFile t) (of_nat j) =
     (if unat (fst r) \<le> unat (of_nat j :: ULONG) \<and> unat (of_nat j :: ULONG) < unat (fst r) + unat (snd r)
      then take_bit (fat_vwidth (vcb_bits s)) (run_value Chain True (unat (fst r) + unat (snd r) - 1) (of_nat j))
      else fat_get (vcb_bits s) (vcb_R s) (VolumeFile s) (of_nat j))"
  proof -
    have "\<forall>i. unat i \<le> vcb_N s + 1 \<longrightarrow> fat_get (vcb_bits s) (vcb_R s) (VolumeFile t) i =
     (if unat (fst r) \<le> unat i \<and> unat i < unat (fst r) + unat (snd r)
      then take_bit (fat_vwidth (vcb_bits s)) (run_value Chain True (unat (fst r) + unat (snd r) - 1) i)
      else fat_get (vcb_bits s) (vcb_R s) (VolumeFile s) i)" using e unfolding run_effect_def by (rule conjunct1)
    moreover have "unat (of_nat j :: ULONG) \<le> vcb_N s + 1" using j u by simp
    ultimately show ?thesis by blast
  qed
  then show ?thesis by (simp add: FatEntryOf_def f run_entries_def in_cluster_run_def u)
qed

lemma FatClusters_keeps:
  "keeps (\<lambda>t. fat_strip t = S) (FatClusters Chain i n)" "keeps (\<lambda>t. set (KernelResults t) \<subseteq> A) (FatClusters Chain i n)"
  unfolding FatClusters_def
  by (intro keeps_if strip.keeps_FatAllocateClusters strip.keeps_FatFreeClusters
      kernel.keeps_FatAllocateClusters kernel.keeps_FatFreeClusters)+

lemma FatClusters_strip: "FatClusters Chain i n s = (r, t) \<Longrightarrow> fat_strip t = fat_strip s"
  by (rule stripD[OF FatClusters_keeps(1)])

lemma FatClusters_results: "FatClusters Chain i n s = (r, t) \<Longrightarrow> set (KernelResults t) \<subseteq> set (KernelResults s)"
  by (rule keepsD[OF FatClusters_keeps(2)]) simp_all

lemma FatClusters_kernel:
  "vcb_ok s \<Longrightarrow> run_in s q \<Longrightarrow> FatClusters Chain (fst q) (snd q) s = (Inl e, t) \<Longrightarrow> \<exists>e'. Some e' \<in> set (KernelResults s)"
proof -
  assume "vcb_ok s" "run_in s q" "FatClusters Chain (fst q) (snd q) s = (Inl e, t)"
  moreover from \<open>run_in s q\<close> have "snd q \<noteq> 0" "2 \<le> unat (fst q)" "unat (fst q) + unat (snd q) \<le> vcb_N s + 2"
    by (auto simp: run_in_def)
  ultimately show ?thesis using FatClusters_outcome[OF _ _ _ _ _ refl, of s "snd q" "fst q" Chain "Inl e" t] by blast
qed

lemma FatFree_eq: "FatFreeClusters = FatClusters False" "FatAllocateClusters = FatClusters True"
  by (auto simp: fun_eq_iff FatClusters_def)

text \<open>The runs of the Mcb do not depend on what the operations change.\<close>

definition run_fixed :: "(VCB \<Rightarrow> ULONG \<Rightarrow> ULONG \<times> ULONG) \<Rightarrow> bool" where
  "run_fixed run \<longleftrightarrow> (\<forall>s t. (AllocationSupport t)\<lparr>NumberOfFreeClusters := 0\<rparr> = (AllocationSupport s)\<lparr>NumberOfFreeClusters := 0\<rparr>
      \<longrightarrow> run t = run s)"

lemma FatMcbRun_fixed: "run_fixed (FatMcbRun GetNext Mcb)"
proof -
  have "FatMcbRun GetNext Mcb t = FatMcbRun GetNext Mcb s"
    if "(AllocationSupport t)\<lparr>NumberOfFreeClusters := 0\<rparr> = (AllocationSupport s)\<lparr>NumberOfFreeClusters := 0\<rparr>" for s t
  proof -
    have "LogOfBytesPerSector (AllocationSupport t) = LogOfBytesPerSector (AllocationSupport s)"
      "LogOfBytesPerCluster (AllocationSupport t) = LogOfBytesPerCluster (AllocationSupport s)"
      "FileAreaLbo (AllocationSupport t) = FileAreaLbo (AllocationSupport s)"
      using arg_cong[OF that, of LogOfBytesPerSector] arg_cong[OF that, of LogOfBytesPerCluster]
        arg_cong[OF that, of FileAreaLbo] by simp_all
    then have m: "MCB_SCALE_LOG2 t = MCB_SCALE_LOG2 s" and g: "FatGetIndexFromLbo t = FatGetIndexFromLbo s"
      and c: "FatClusterCountOf t = FatClusterCountOf s"
      by (simp_all add: fun_eq_iff MCB_SCALE_LOG2_def FatGetIndexFromLbo_def FatClusterCountOf_def)
    have "FatGetNextMcbEntry GetNext t Mcb = FatGetNextMcbEntry GetNext s Mcb"
      unfolding fun_eq_iff FatGetNextMcbEntry_def m by simp
    with g c show ?thesis unfolding fun_eq_iff FatMcbRun_def by simp
  qed
  then show ?thesis unfolding run_fixed_def by blast
qed

lemma run_fixedD: "run_fixed run \<Longrightarrow> fat_strip t = fat_strip s \<Longrightarrow> run t = run s"
proof -
  assume f: "run_fixed run" and e: "fat_strip t = fat_strip s"
  have "(AllocationSupport t)\<lparr>NumberOfFreeClusters := 0\<rparr> = (AllocationSupport s)\<lparr>NumberOfFreeClusters := 0\<rparr>"
    by (simp only: fat_strip_fields(2)[OF e])
  then show ?thesis using f[unfolded run_fixed_def, THEN spec, THEN spec] by (rule rev_mp)
qed

abbreviation mcb_runs :: "(VCB \<Rightarrow> ULONG \<Rightarrow> ULONG \<times> ULONG) \<Rightarrow> VCB \<Rightarrow> nat \<Rightarrow> (ULONG \<times> ULONG) list" where
  "mcb_runs run s n \<equiv> map (\<lambda>i. run s (of_nat i)) [0..<n]"

text \<open>The first loop: the runs are freed one after the other, up to the one that raises.\<close>

lemma FatDeallocate_fat_outcome:
  assumes "vcb_ok s" "run_fixed run" "\<And>k. k < n \<Longrightarrow> run_in s (run s (i + of_nat k))"
    and "FatDeallocate_fat run n i s = (r, m, t)"
  shows "fat_strip t = fat_strip s \<and> set (KernelResults t) \<subseteq> set (KernelResults s)
    \<and> (case r of
        Inr _ \<Rightarrow> \<forall>j<vcb_N s + 2. fat_entries t j =
            (if in_runs (map (\<lambda>k. run s (i + of_nat k)) [0..<n]) j then FAT_CLUSTER_AVAILABLE else fat_entries s j)
      | Inl e \<Rightarrow> \<exists>k s1. k < n \<and> m = i + of_nat k \<and> (\<exists>e'. Some e' \<in> set (KernelResults s))
          \<and> FatFreeClusters (fst (run s m)) (snd (run s m)) s1 = (Inl e, t) \<and> fat_strip s1 = fat_strip s
          \<and> (\<forall>j<vcb_N s + 2. fat_entries s1 j =
              (if in_runs (map (\<lambda>k. run s (i + of_nat k)) [0..<k]) j then FAT_CLUSTER_AVAILABLE else fat_entries s j)))"
  using assms
proof (induction n arbitrary: i s)
  case 0
  then show ?case by auto
next
  case (Suc n)
  let ?q = "run s i"
  have q: "run_in s ?q" using Suc.prems(3)[of 0] by simp
  obtain r1 s1 where 1: "FatFreeClusters (fst ?q) (snd ?q) s = (r1, s1)" by force
  then have c1: "FatClusters False (fst ?q) (snd ?q) s = (r1, s1)" by (simp add: FatFree_eq)
  note st = FatClusters_strip[OF c1] and kr = FatClusters_results[OF c1]
  show ?case
  proof (cases r1)
    case (Inl e)
    then have "r = Inl e" "m = i" "t = s1" using Suc.prems(4) 1 by simp_all
    moreover have "\<exists>e'. Some e' \<in> set (KernelResults s)" using FatClusters_kernel[OF Suc.prems(1) q] c1 Inl by blast
    ultimately show ?thesis using st kr 1 Inl by (auto intro!: exI[of _ 0] exI[of _ s])
  next
    case (Inr u)
    have ents: "fat_entries s1 j = (if in_cluster_run ?q j then FAT_CLUSTER_AVAILABLE else fat_entries s j)" if "j < vcb_N s + 2" for j
      using FatClusters_entries[OF Suc.prems(1) q, of False s1 j] c1 Inr that by (simp add: run_entries_def run_value_def)
    have rs: "run s1 = run s" by (rule run_fixedD[OF Suc.prems(2) st])
    have N: "vcb_N s1 = vcb_N s" by (simp add: fat_strip_fields(2)[OF st])
    have "FatDeallocate_fat run n (i + 1) s1 = (r, m, t)" using Suc.prems(4) 1 Inr by simp
    moreover have "vcb_ok s1" using Suc.prems(1) fat_strip_fields(10)[OF st] by simp
    moreover have "run_in s1 (run s1 (i + 1 + of_nat k))" if "k < n" for k
      using Suc.prems(3)[of "Suc k"] that by (simp add: rs run_in_def N algebra_simps)
    ultimately have IH: "fat_strip t = fat_strip s1 \<and> set (KernelResults t) \<subseteq> set (KernelResults s1)
      \<and> (case r of
        Inr _ \<Rightarrow> \<forall>j<vcb_N s1 + 2. fat_entries t j =
            (if in_runs (map (\<lambda>k. run s1 (i + 1 + of_nat k)) [0..<n]) j then FAT_CLUSTER_AVAILABLE else fat_entries s1 j)
      | Inl e \<Rightarrow> \<exists>k s2. k < n \<and> m = i + 1 + of_nat k \<and> (\<exists>e'. Some e' \<in> set (KernelResults s1))
          \<and> FatFreeClusters (fst (run s1 m)) (snd (run s1 m)) s2 = (Inl e, t) \<and> fat_strip s2 = fat_strip s1
          \<and> (\<forall>j<vcb_N s1 + 2. fat_entries s2 j =
              (if in_runs (map (\<lambda>k. run s1 (i + 1 + of_nat k)) [0..<k]) j then FAT_CLUSTER_AVAILABLE else fat_entries s1 j)))"
      using Suc.IH[OF _ Suc.prems(2)] by blast
    have ms: "map (\<lambda>k. run s (i + of_nat k)) [0..<Suc k] = ?q # map (\<lambda>k. run s (i + 1 + of_nat k)) [0..<k]" for k
      by (subst upt_conv_Cons) (simp_all add: map_Suc_upt[symmetric] comp_def algebra_simps del: upt_Suc)
    show ?thesis
    proof (cases r)
      case r: (Inr u)
      then show ?thesis using IH st kr ents unfolding rs N ms by (auto split: if_splits)
    next
      case r: (Inl e)
      with IH obtain k s2 where k: "k < n" "m = i + 1 + of_nat k" "\<exists>e'. Some e' \<in> set (KernelResults s1)"
        "FatFreeClusters (fst (run s m)) (snd (run s m)) s2 = (Inl e, t)" "fat_strip s2 = fat_strip s1"
        "\<And>j. j < vcb_N s + 2 \<Longrightarrow> fat_entries s2 j =
              (if in_runs (map (\<lambda>k. run s (i + 1 + of_nat k)) [0..<k]) j then FAT_CLUSTER_AVAILABLE else fat_entries s1 j)"
        unfolding rs N by auto
      have "fat_entries s2 j = (if in_runs (map (\<lambda>k. run s (i + of_nat k)) [0..<Suc k]) j then FAT_CLUSTER_AVAILABLE else fat_entries s j)"
        if "j < vcb_N s + 2" for j
        using k(6)[OF that] ents[OF that] unfolding ms by simp
      moreover have "\<exists>e'. Some e' \<in> set (KernelResults s)" using k(3) kr by blast
      ultimately show ?thesis using r IH st kr k
        by (auto intro!: exI[of _ "Suc k"] exI[of _ s2] simp: algebra_simps simp del: upt_Suc)
    qed
  qed
qed

section \<open>The bitmap and the counts\<close>

definition counts_frame :: "VCB \<Rightarrow> VCB \<Rightarrow> bool" where
  "counts_frame s t \<longleftrightarrow> (\<exists>Ws bm h c. t = s\<lparr>Windows := Ws, FreeClusterBitMap := bm, ClusterHint := h,
      AllocationSupport := (AllocationSupport s)\<lparr>NumberOfFreeClusters := c\<rparr>\<rparr>)"

lemma counts_frame_refl: "counts_frame s s"
  unfolding counts_frame_def
  by (rule exI[of _ "Windows s"], rule exI[of _ "FreeClusterBitMap s"], rule exI[of _ "ClusterHint s"],
      rule exI[of _ "NumberOfFreeClusters (AllocationSupport s)"]) simp

lemma counts_frame_trans: "counts_frame s t \<Longrightarrow> counts_frame t u \<Longrightarrow> counts_frame s u"
proof -
  assume "counts_frame s t" "counts_frame t u"
  then obtain Ws bm h c Ws' bm' h' c' where
    "t = s\<lparr>Windows := Ws, FreeClusterBitMap := bm, ClusterHint := h, AllocationSupport := (AllocationSupport s)\<lparr>NumberOfFreeClusters := c\<rparr>\<rparr>"
    "u = t\<lparr>Windows := Ws', FreeClusterBitMap := bm', ClusterHint := h', AllocationSupport := (AllocationSupport t)\<lparr>NumberOfFreeClusters := c'\<rparr>\<rparr>"
    unfolding counts_frame_def by blast
  then have "u = s\<lparr>Windows := Ws', FreeClusterBitMap := bm', ClusterHint := h', AllocationSupport := (AllocationSupport s)\<lparr>NumberOfFreeClusters := c'\<rparr>\<rparr>"
    by (cases s) simp
  then show ?thesis unfolding counts_frame_def by blast
qed

lemma counts_frameD:
  assumes "counts_frame s t"
  shows "Bpb t = Bpb s" "VolumeFile t = VolumeFile s" "KernelResults t = KernelResults s" "CurrentWindow t = CurrentWindow s"
    "DirtyFatMcb t = DirtyFatMcb s" "NumberOfWindows t = NumberOfWindows s" "vcb_bits t = vcb_bits s" "vcb_N t = vcb_N s"
    "(AllocationSupport t)\<lparr>NumberOfFreeClusters := 0\<rparr> = (AllocationSupport s)\<lparr>NumberOfFreeClusters := 0\<rparr>"
    "FatEntryOf t i = FatEntryOf s i" "vcb_ok t = vcb_ok s" "IrpContextWait t = IrpContextWait s"
  using assms by (auto simp: counts_frame_def FatEntryOf_def vcb_ok_def fat_fits_def)

lemma synced_cong:
  assumes "\<And>j. 2 \<le> j \<Longrightarrow> j < vcb_N s + 2 \<Longrightarrow> (e j = 0) = (e' j = 0)"
  shows "synced e s = synced e' s"
proof (cases "windows_ok s")
  case True
  have f: "free_in e a b = free_in e' a b" if "2 \<le> a" "b \<le> vcb_N s + 2" for a b
    unfolding free_in_def using that assms by (intro arg_cong[where f = length] filter_cong) auto
  have lo: "2 \<le> win_lo s v" for v by (simp add: win_lo_def)
  have v: "win_hi s v \<le> vcb_N s + 2" for v by (simp add: win_hi_def)
  have m: "map (\<lambda>j. e j \<noteq> 0) [win_lo s cw..<win_hi s cw] = map (\<lambda>j. e' j \<noteq> 0) [win_lo s cw..<win_hi s cw]" for cw
    using lo[of cw] v[of cw] assms by (intro map_cong refl) auto
  have f2: "free_in e 2 (vcb_N s + 2) = free_in e' 2 (vcb_N s + 2)" by (rule f) simp_all
  show ?thesis unfolding synced_def m f[OF lo v] f2 ..
qed (simp add: synced_def)

lemma FatDeallocate_bitmap_outcome:
  assumes "synced e s" "run_fixed run" "\<And>k. k < n \<Longrightarrow> run_in s (run s (i + of_nat k))"
    and "disjoint_runs (map (\<lambda>k. run s (i + of_nat k)) [0..<n])"
    and "\<And>j. in_runs (map (\<lambda>k. run s (i + of_nat k)) [0..<n]) j \<Longrightarrow> e j \<noteq> FAT_CLUSTER_AVAILABLE"
  shows "\<exists>m t. FatDeallocate_bitmap run n i s = (Inr (), m, t) \<and> counts_frame s t
    \<and> synced (\<lambda>j. if in_runs (map (\<lambda>k. run s (i + of_nat k)) [0..<n]) j then FAT_CLUSTER_AVAILABLE else e j) t"
  using assms
proof (induction n arbitrary: i s e)
  case 0
  then show ?case using counts_frame_refl by (auto intro!: exI[of _ s])
next
  case (Suc n)
  define q where "q = run s i"
  define qs where "qs = map (\<lambda>k. run s (i + 1 + of_nat k)) [0..<n]"
  have ms: "map (\<lambda>k. run s (i + of_nat k)) [0..<Suc n] = q # qs"
    unfolding q_def qs_def
    by (subst upt_conv_Cons) (simp_all add: map_Suc_upt[symmetric] comp_def algebra_simps del: upt_Suc)
  have dj: "disjoint_runs qs" "\<And>r j. r \<in> set qs \<Longrightarrow> in_cluster_run q j \<Longrightarrow> \<not> in_cluster_run r j"
    using Suc.prems(4) unfolding ms by (auto simp: disjoint_runs_def)
  have used: "e j \<noteq> 0" if "in_cluster_run q j \<or> in_runs qs j" for j using Suc.prems(5) that unfolding ms by auto
  have qi: "2 \<le> unat (fst q)" "0 < unat (snd q)" "unat (fst q) + unat (snd q) \<le> vcb_N s + 2"
    using Suc.prems(3)[of 0] by (auto simp: q_def run_in_def)
  obtain s1 where s1: "FatDeallocate_run (fst q) (snd q) s = (Inr (), s1)" "counts_frame s s1"
    "synced (\<lambda>j. if unat (fst q) \<le> j \<and> j < unat (fst q) + unat (snd q) then FAT_CLUSTER_AVAILABLE else e j) s1"
    using FatDeallocate_run_synced[OF Suc.prems(1) qi _ refl] used
    unfolding counts_frame_def in_cluster_run_def by blast
  define e1 where "e1 = (\<lambda>j. if in_cluster_run q j then FAT_CLUSTER_AVAILABLE else e j)"
  have sy1: "synced e1 s1" using s1(3) by (simp add: e1_def in_cluster_run_def)
  note cf = counts_frameD[OF s1(2)]
  have rs: "run s1 = run s" using Suc.prems(2) cf(9) unfolding run_fixed_def by blast
  have p1: "run_in s1 (run s1 (i + 1 + of_nat k))" if "k < n" for k
    using Suc.prems(3)[of "Suc k"] that by (simp add: rs run_in_def cf(8) algebra_simps)
  have p2: "disjoint_runs (map (\<lambda>k. run s1 (i + 1 + of_nat k)) [0..<n])" using dj(1) by (simp add: rs qs_def)
  have p3: "e1 j \<noteq> 0" if "in_runs (map (\<lambda>k. run s1 (i + 1 + of_nat k)) [0..<n]) j" for j
  proof -
    have "in_runs qs j" using that by (simp add: rs qs_def)
    then have "e j \<noteq> 0" "\<not> in_cluster_run q j" using used dj(2) by (auto simp: in_runs_def)
    then show ?thesis by (simp add: e1_def)
  qed
  obtain m t where t: "FatDeallocate_bitmap run n (i + 1) s1 = (Inr (), m, t)" "counts_frame s1 t"
    "synced (\<lambda>j. if in_runs (map (\<lambda>k. run s1 (i + 1 + of_nat k)) [0..<n]) j then FAT_CLUSTER_AVAILABLE else e1 j) t"
    using Suc.IH[OF sy1 Suc.prems(2) p1 p2 p3] by blast
  have "(\<lambda>j. if in_runs (map (\<lambda>k. run s1 (i + 1 + of_nat k)) [0..<n]) j then FAT_CLUSTER_AVAILABLE else e1 j)
      = (\<lambda>j. if in_runs (q # qs) j then FAT_CLUSTER_AVAILABLE else e j)"
    by (auto simp: fun_eq_iff e1_def rs qs_def)
  then have "synced (\<lambda>j. if in_runs (q # qs) j then FAT_CLUSTER_AVAILABLE else e j) t" using t(3) by simp
  moreover have "FatDeallocate_bitmap run (Suc n) i s = (Inr (), m, t)" using s1(1) t(1) by (simp add: q_def)
  moreover have "counts_frame s t" by (rule counts_frame_trans[OF s1(2) t(2)])
  ultimately show ?case unfolding ms by blast
qed

section \<open>The whole routine\<close>

text \<open>The runs of an Mcb that describes allocated space of the volume.\<close>

definition runs_ok :: "VCB \<Rightarrow> (ULONG \<times> ULONG) list \<Rightarrow> bool" where
  "runs_ok s rs \<longleftrightarrow> (\<forall>r\<in>set rs. run_in s r) \<and> disjoint_runs rs
     \<and> (\<forall>j. in_runs rs j \<longrightarrow> fat_entries s j \<noteq> FAT_CLUSTER_AVAILABLE)"

lemma FatDeallocateRuns_outcome:
  assumes ok: "alloc_ok s" and fx: "run_fixed run" and rs: "runs_ok s (mcb_runs run s n)"
    and res: "FatDeallocateRuns run n s = (r, t)"
  shows "case r of
      Inr _ \<Rightarrow> alloc_ok t \<and> (\<forall>j<vcb_N s + 2. fat_entries t j =
          (if in_runs (mcb_runs run s n) j then FAT_CLUSTER_AVAILABLE else fat_entries s j))
    | Inl e \<Rightarrow> fat_strip t = fat_strip s \<and> (\<exists>e'. Some e' \<in> set (KernelResults s))"
proof -
  obtain r1 m s1 where 1: "FatDeallocate_fat run n 0 s = (r1, m, s1)" by (metis prod_cases3)
  have vok: "vcb_ok s" and sy: "synced (fat_entries s) s" using ok by (simp_all add: alloc_ok_def)
  have ri: "run_in s (run s (0 + of_nat k))" if "k < n" for k using rs that by (auto simp: runs_ok_def)
  note o = FatDeallocate_fat_outcome[OF vok fx ri 1, unfolded add_0]
  show ?thesis
  proof (cases r1)
    case (Inl e)
    have "FatDeallocateRuns run n s = seq (FatDeallocate_unwind run m) (\<lambda>_. raise_status e) s1"
      by (simp add: FatDeallocateRuns_def 1 Inl)
    then have u: "seq (FatDeallocate_unwind run m) (\<lambda>_. raise_status e) s1 = (r, t)" using res by simp
    have kp: "keeps (\<lambda>t. fat_strip t = S) (FatDeallocate_relink run m i p)" for S i p
    proof (rule keepsI)
      fix s assume "fat_strip s = S"
      then show "fat_strip (snd (FatDeallocate_relink run m i p s)) = S"
        unfolding FatDeallocate_relink_def case_prod_beta Let_def
        by (rule strip.P_snd) (intro keeps_intros
            strip.keeps_FatSetFatEntry strip.keeps_FatAllocateClusters)
    qed
    have "keeps (\<lambda>t. fat_strip t = fat_strip s1) (seq (FatDeallocate_unwind run m) (\<lambda>_. raise_status e :: (VCB, unit) fat_op))"
      unfolding FatDeallocate_unwind_def by (intro keeps_intros kp)
    from stripD[OF this u] have "fat_strip t = fat_strip s" using o by simp
    moreover have "\<exists>e. r = Inl e" using u by (auto simp: seq_def split: prod.splits sum.splits)
    moreover have "\<exists>e'. Some e' \<in> set (KernelResults s)" using o Inl by auto
    ultimately show ?thesis by auto
  next
    case (Inr x)
    define e1 where "e1 = (\<lambda>j. if in_runs (mcb_runs run s n) j then FAT_CLUSTER_AVAILABLE else fat_entries s j)"
    have st: "fat_strip s1 = fat_strip s" and e1: "\<And>j. j < vcb_N s + 2 \<Longrightarrow> fat_entries s1 j = e1 j"
      using o Inr by (auto simp: e1_def)
    note ff = fat_strip_fields[OF st]
    have rs1: "run s1 = run s" by (rule run_fixedD[OF fx st])
    have p: "synced (fat_entries s) s1" "\<And>k. k < n \<Longrightarrow> run_in s1 (run s1 (0 + of_nat k))"
      "disjoint_runs (map (\<lambda>k. run s1 (0 + of_nat k)) [0..<n])"
      "\<And>j. in_runs (map (\<lambda>k. run s1 (0 + of_nat k)) [0..<n]) j \<Longrightarrow> fat_entries s j \<noteq> FAT_CLUSTER_AVAILABLE"
      using sy ri rs by (simp_all add: ff(13) rs1 run_in_def ff(2) runs_ok_def)
    obtain m' t' where t': "FatDeallocate_bitmap run n 0 s1 = (Inr (), m', t')" "counts_frame s1 t'"
      "synced (\<lambda>j. if in_runs (map (\<lambda>k. run s1 (0 + of_nat k)) [0..<n]) j then FAT_CLUSTER_AVAILABLE else fat_entries s j) t'"
      using FatDeallocate_bitmap_outcome[OF p(1) fx p(2-4)] by blast
    have rt: "r = Inr ()" "t = t'" using res by (simp_all add: FatDeallocateRuns_def 1 Inr t')
    note cf = counts_frameD[OF t'(2)]
    have ents: "fat_entries t j = e1 j" if "j < vcb_N s + 2" for j using e1[OF that] by (simp add: rt cf(10))
    have "synced e1 t" using t'(3) by (simp add: rt e1_def rs1)
    then have "synced (fat_entries t) t"
      by (rule synced_cong[THEN iffD1, rotated]) (use ents in \<open>simp add: rt cf(8) ff(2)\<close>)
    moreover have "vcb_ok t" using vok by (simp add: rt cf(11) ff(10))
    ultimately show ?thesis using ents rt by (simp add: alloc_ok_def e1_def)
  qed
qed

end
