(* ===== verification/FatInvariant.thy ===== *)
theory FatInvariant
  imports FatFree
begin

text \<open>
  A volume that has been set up satisfies the invariant of the allocation layer, and two
  concrete volumes that do: a formatted floppy and a full FAT32 volume of two windows.
\<close>

section \<open>The setup establishes the invariant\<close>

lemma upt_eq_bounds: "[a..<b] = [c..<d] \<Longrightarrow> c < d \<Longrightarrow> a = c \<and> b = d"
proof -
  assume e: "[a..<b] = [c..<d]" and cd: "c < d"
  have "length [a..<b] = length [c..<d]" by (simp only: e)
  then have l: "b - a = d - c" by simp
  then have "hd [a..<b] = a" "hd [c..<d] = c" using cd by (simp_all add: hd_upt)
  then have "a = c" using e by simp
  then show ?thesis using l cd by simp
qed

lemma windows_laid_ok:
  assumes v: "vcb_ok s" "0 < vcb_N s" "vcb_bits s = 32" and laid: "windows_laid s (Windows t)"
    and t: "vcb_bits t = vcb_bits s" "vcb_N t = vcb_N s" "CurrentWindow t < length (Windows t)"
      "unat (NumberOfWindows t) = length (Windows t)"
  shows "windows_ok t" "\<And>v. v < length (Windows t) \<Longrightarrow>
      unat (ClustersFree (Windows t ! v)) = free_in (fat_entries s) (win_lo t v) (win_hi t v)"
proof -
  have W: "win_size t = 65536" using v(3) t(1) by (simp add: win_size_def)
  have N: "vcb_N s + 2 < 2 ^ 31" by (rule vcb_N_small[OF v(1)])
  have len: "length (Windows t) = window_count s" using laid by (simp add: windows_laid_def)
  have hi: "2 + 65536 * v < min (2 + 65536 * (v + 1)) (vcb_N s + 2)" if "v < window_count s" for v
    using window_range_nonempty[of v "vcb_N s"] that N by (simp add: window_count_def)
  have win: "unat (FirstCluster (Windows t ! v)) = win_lo t v" "unat (LastCluster (Windows t ! v)) + 1 = win_hi t v"
    "unat (ClustersFree (Windows t ! v)) = free_in (fat_entries s) (win_lo t v) (win_hi t v)"
    if vl: "v < length (Windows t)" for v
  proof -
    have vw: "v < window_count s" using vl len by simp
    define lo hi' where "lo = 2 + 65536 * v" and "hi' = min (2 + 65536 * (v + 1)) (vcb_N s + 2)"
    have lh: "lo < hi'" "hi' < 2 ^ 31" using hi[OF vw] N by (simp_all add: lo_def hi'_def)
    have Wv: "Windows t ! v = \<lparr>FirstCluster = of_nat lo, LastCluster = of_nat hi' - 1,
        ClustersFree = of_nat (free_in (fat_entries s) lo hi')\<rparr>"
      using laid vw by (simp add: windows_laid_def lo_def hi'_def)
    have g: "win_lo t v = lo" "win_hi t v = hi'" by (simp_all add: win_lo_def win_hi_def W t(2) lo_def hi'_def)
    have u: "unat (of_nat lo :: ULONG) = lo" "unat (of_nat hi' :: ULONG) = hi'"
      using lh by (simp_all add: unat_of_nat_small)
    have "free_in (fat_entries s) lo hi' < 2 ^ 32" using free_in_le[of "fat_entries s" lo hi'] lh by simp
    then show "unat (ClustersFree (Windows t ! v)) = free_in (fat_entries s) (win_lo t v) (win_hi t v)"
      by (simp add: Wv g unat_of_nat_small)
    show "unat (FirstCluster (Windows t ! v)) = win_lo t v" by (simp add: Wv g u)
    have "unat (of_nat hi' - 1 :: ULONG) = hi' - 1" using u lh by (subst unat_sub_le) (simp_all add: word_le_nat)
    then show "unat (LastCluster (Windows t ! v)) + 1 = win_hi t v" using lh by (simp add: Wv g)
  qed
  have "window_count s = (vcb_N t + win_size t - 1) div win_size t" by (simp add: window_count_def W t(2))
  then show "windows_ok t" unfolding windows_ok_def using win(1,2) t(2-4) v(2) N len by simp
  show "\<And>v. v < length (Windows t) \<Longrightarrow>
      unat (ClustersFree (Windows t ! v)) = free_in (fat_entries s) (win_lo t v) (win_hi t v)" by (rule win(3))
qed

lemma one_window_ok:
  assumes v: "vcb_ok s" "0 < vcb_N s" "vcb_bits s = 32 \<Longrightarrow> vcb_N s \<le> 65536"
    and t: "vcb_bits t = vcb_bits s" "vcb_N t = vcb_N s" "CurrentWindow t = 0" "length (Windows t) = 1" "NumberOfWindows t = 1"
    and r: "window_range t 0 = [2..<vcb_N s + 2]"
  shows "windows_ok t" "win_lo t 0 = 2" "win_hi t 0 = vcb_N t + 2"
proof -
  have N: "vcb_N s + 2 < 2 ^ 31" by (rule vcb_N_small[OF v(1)])
  have b: "unat (FirstCluster (Windows t ! 0)) = 2" "unat (LastCluster (Windows t ! 0)) + 1 = vcb_N s + 2"
    using upt_eq_bounds[OF r[unfolded window_range_def]] v(2) by simp_all
  show l: "win_lo t 0 = 2" by (simp add: win_lo_def)
  show h: "win_hi t 0 = vcb_N t + 2" using v(3) t(1,2) by (auto simp: win_hi_def win_size_def)
  have "(vcb_N t + win_size t - 1) div win_size t = 1"
  proof (cases "vcb_bits t = 32")
    case True
    then have "1 \<le> vcb_N s" "vcb_N s \<le> 65536" using v t by simp_all
    moreover have "(n + 65536 - 1) div 65536 = 1" if "1 \<le> n" "n \<le> 65536" for n :: nat
      using that by (intro div_nat_eqI) simp_all
    ultimately show ?thesis using True t(2) by (simp add: win_size_def)
  next
    case False
    have "(n + n - 1) div n = 1" if "1 \<le> n" for n :: nat using that by (intro div_nat_eqI) simp_all
    then show ?thesis using False v(2) t(2) by (simp add: win_size_def)
  qed
  then show "windows_ok t" unfolding windows_ok_def using b l h t v(2) N by simp
qed

lemma FatSetupWindows_alloc_ok:
  assumes F: "find_clear_ok F" and ok: "vcb_ok s" and N: "0 < vcb_N s" and nf: "NumberOfFreeClusters (AllocationSupport s) = 0"
    and res: "FatSetupWindows F PW Pool s = (Inr (), t)"
  shows "alloc_ok t"
proof -
  note o = FatSetupWindows_Inr[OF F ok N nf res]
  have A: "(AllocationSupport t)\<lparr>NumberOfFreeClusters := 0\<rparr> = (AllocationSupport s)\<lparr>NumberOfFreeClusters := 0\<rparr>" using o by blast
  have bn: "vcb_bits t = vcb_bits s" "NumberOfClusters (AllocationSupport t) = NumberOfClusters (AllocationSupport s)"
    "LogOfBytesPerSector (AllocationSupport t) = LogOfBytesPerSector (AllocationSupport s)"
    using arg_cong[OF A, of FatIndexBitSize] arg_cong[OF A, of NumberOfClusters] arg_cong[OF A, of LogOfBytesPerSector] by simp_all
  have V: "VolumeFile t = VolumeFile s" "Bpb t = Bpb s" using o by blast+
  have e: "fat_entries t = fat_entries s" by (simp add: fun_eq_iff FatEntryOf_def bn V)
  have vt: "vcb_ok t" using ok by (simp add: vcb_ok_def fat_fits_def bn V)
  have N31: "vcb_N s + 2 < 2 ^ 31" by (rule vcb_N_small[OF ok])
  have free: "unat (NumberOfFreeClusters (AllocationSupport t)) = free_in (fat_entries t) 2 (vcb_N t + 2)"
  proof -
    have "all_free s = free_in (fat_entries s) 2 (vcb_N s + 2)" by (simp add: all_free_def free_in_def)
    moreover have "free_in (fat_entries s) 2 (vcb_N s + 2) < 2 ^ 32" using free_in_le[of "fat_entries s" 2 "vcb_N s + 2"] N31 by simp
    ultimately show ?thesis using o by (simp add: unat_of_nat_small e bn)
  qed
  have bs: "bitmap_synced t" and hk: "hint_ok t" and nw: "unat (NumberOfWindows t) = length (Windows t)" using o by blast+
  have cw: "CurrentWindow t < length (Windows t)" using bs by (simp add: bitmap_synced_def)
  have win: "windows_ok t \<and> (\<forall>v<length (Windows t). unat (ClustersFree (Windows t ! v)) = free_in (fat_entries t) (win_lo t v) (win_hi t v))"
  proof (cases "NumberOfWindows t > 1")
    case True
    then have l: "vcb_bits s = 32" "windows_laid s (Windows t)" using o by blast+
    show ?thesis using windows_laid_ok[OF ok N l bn(1) _ cw nw] bn(2) e by auto
  next
    case False
    then have l: "NumberOfWindows t = 1" "vcb_bits s = 32 \<Longrightarrow> vcb_N s \<le> 65536"
      "ClustersFree (Windows t ! 0) = NumberOfFreeClusters (AllocationSupport t)" using o by blast+
    then have r: "window_range t 0 = [2..<vcb_N s + 2]" "CurrentWindow t = 0" using o by blast+
    have len: "length (Windows t) = 1" using nw l(1) by simp
    note w1 = one_window_ok[OF ok N l(2) bn(1) _ r(2) len l(1) r(1)]
    show ?thesis using w1 bn(2) len l(3) free by simp
  qed
  have "window_range t (CurrentWindow t) = [win_lo t (CurrentWindow t)..<win_hi t (CurrentWindow t)]"
    using win cw unfolding windows_ok_def window_range_def by simp
  moreover have "ClusterHint t = -1 \<or> 2 \<le> unat (ClusterHint t) \<and> unat (ClusterHint t) < length (FreeClusterBitMap t) + 2"
  proof (cases "False \<in> set (FreeClusterBitMap t)")
    case True
    then show ?thesis using hk by (auto simp: hint_ok_def)
  next
    case False
    then have "ClusterHint t = 2" using hk by (simp add: hint_ok_def)
    moreover have "0 < length (FreeClusterBitMap t)"
      using bs win_lo_hi[of t "CurrentWindow t"] win cw calculation unfolding bitmap_synced_def
      by (simp add: \<open>window_range t (CurrentWindow t) = _\<close>)
    ultimately show ?thesis by simp
  qed
  ultimately have "synced (fat_entries t) t" unfolding synced_def using win free bs by (simp add: bitmap_synced_def)
  then show ?thesis using vt by (simp add: alloc_ok_def)
qed

lemma FatSetupAllocationSupport_Inr:
  assumes A: "FatSetupAllocationSupport_geometry (Bpb s) = Inr A"
    and res: "FatSetupAllocationSupport F PW Pool s = (Inr (), t)"
  shows "FatSetupWindows F PW Pool (s\<lparr>AllocationSupport := A, KernelResults := tl (KernelResults s)\<rparr>) = (Inr (), t)"
proof (cases "kres (KernelResults s)")
  case (Inl e)
  then show ?thesis using res by (simp add: FatSetupAllocationSupport_def A seq_def KernelCall_eq)
next
  case (Inr u)
  then have "try_finally (FatSetupWindows F PW Pool)
      (\<lambda>abnormal. if abnormal then modify FatTearDownAllocationSupport else ret ())
      (s\<lparr>AllocationSupport := A, KernelResults := tl (KernelResults s)\<rparr>) = (Inr (), t)"
    using res by (simp add: FatSetupAllocationSupport_def A seq_def KernelCall_eq)
  then show ?thesis by (auto simp: try_finally_eq_Inr)
qed

text \<open>
  C19: a volume that has been set up satisfies the invariant of the allocation layer: its
  windows lie one after the other over all clusters, the bitmap is that of the current
  window, the counts of free clusters of every window and of the volume are those of the
  FAT, and the hint is unset or inside the window.
\<close>

theorem FatSetupAllocationSupport_alloc_ok:
  assumes "find_clear_ok RtlFindClearBits" and "FatSetupAllocationSupport_geometry (Bpb s) = Inr A"
    and "fat_fits (Bpb s) A" and "0 < NumberOfClusters A"
    and "FatSetupAllocationSupport RtlFindClearBits PoolWindows Pool s = (Inr (), t)"
  shows "alloc_ok t"
proof (rule FatSetupWindows_alloc_ok[OF assms(1)])
  show "FatSetupWindows RtlFindClearBits PoolWindows Pool (s\<lparr>AllocationSupport := A, KernelResults := tl (KernelResults s)\<rparr>)
      = (Inr (), t)"
    by (rule FatSetupAllocationSupport_Inr[OF assms(2,5)])
qed (use assms(3,4) geometry_free_0[OF assms(2)] in \<open>simp_all add: vcb_ok_def word_less_nat\<close>)

theorem FatSetupAllocationSupport_alloc_ok_witness:
  "\<exists>t. FatSetupAllocationSupport first_fit (\<lambda>_. \<lparr>FirstCluster = 7, LastCluster = 7, ClustersFree = 7\<rparr>) (\<lambda>_. True) floppy_vcb
      = (Inr (), t) \<and> alloc_ok t"
proof -
  let ?W = "\<lambda>_. \<lparr>FirstCluster = 7, LastCluster = 7, ClustersFree = 7\<rparr>"
  obtain r t where rt: "FatSetupAllocationSupport first_fit ?W (\<lambda>_. True) floppy_vcb = (r, t)" by force
  have f: "fat_fits (Bpb floppy_vcb) ((AllocationSupport floppy_vcb)\<lparr>NumberOfFreeClusters := 0\<rparr>)"
    using floppy_fits by (simp add: fat_fits_def)
  have k: "KernelResults floppy_vcb = []" "0 < NumberOfClusters ((AllocationSupport floppy_vcb)\<lparr>NumberOfFreeClusters := 0\<rparr>)"
    by (simp_all add: floppy_vcb_def)
  let ?s = "floppy_vcb\<lparr>AllocationSupport := (AllocationSupport floppy_vcb)\<lparr>NumberOfFreeClusters := 0\<rparr>\<rparr>"
  obtain r2 t2 where b: "FatSetupWindows first_fit ?W (\<lambda>_. True) ?s = (r2, t2)" by force
  have "r2 = Inr ()" using no_raise[of ?s r2 t2] FatSetupWindows_out[of ?s first_fit ?W "\<lambda>_. True"] b k(1) by auto
  then have "r = Inr ()" using rt b k(1)
    by (auto simp: FatSetupAllocationSupport_def floppy_geometry seq_def KernelCall_def try_finally_def)
  with rt have "FatSetupAllocationSupport first_fit ?W (\<lambda>_. True) floppy_vcb = (Inr (), t)" by simp
  from FatSetupAllocationSupport_alloc_ok[OF first_fit_ok floppy_geometry f k(2) this] this show ?thesis by blast
qed

text \<open>The formatted floppy, and a full FAT32 volume of two windows, satisfy the invariant.\<close>

lemma floppy_entries: "FatEntryOf floppy_vcb i = 0"
proof -
  have "get16 floppy_boot (512 + n) = 0" for n by (simp add: get16_def floppy_boot_def)
  moreover have "vcb_R floppy_vcb = 512" "vcb_bits floppy_vcb = 12" "VolumeFile floppy_vcb = floppy_boot"
    by (simp_all add: floppy_vcb_def FatReservedBytes_def floppy_bpb_def MountedBpb_def FatUnpackBios_def floppy_boot_def get16_def)
  ultimately show ?thesis by (simp add: FatEntryOf_def fat_get_def FatLookup12BitEntry_def Let_def)
qed

lemma floppy_alloc_ok: "alloc_ok floppy_vcb"
proof -
  have f: "free_in (\<lambda>j. 0) a b = b - a" for a b by (simp add: free_in_def)
  have w: "windows_ok floppy_vcb" by (simp add: windows_ok_def floppy_vcb_def win_size_def win_lo_def win_hi_def)
  have "synced (fat_entries floppy_vcb) floppy_vcb"
    unfolding synced_def floppy_entries f using w
    by (simp add: floppy_vcb_def win_size_def win_lo_def win_hi_def map_replicate_const del: upt_rec_numeral)
  then show ?thesis using floppy_ok by (simp add: alloc_ok_def)
qed

definition full32_vcb :: VCB where
  "full32_vcb = disk32_vcb\<lparr>AllocationSupport := (AllocationSupport disk32_vcb)\<lparr>NumberOfFreeClusters := 0\<rparr>,
     Windows := [\<lparr> FirstCluster = 2, LastCluster = 65537, ClustersFree = 0 \<rparr>,
                 \<lparr> FirstCluster = 65538, LastCluster = 130001, ClustersFree = 0 \<rparr>],
     FreeClusterBitMap := replicate 65536 True\<rparr>"

lemma full32_entries: "FatEntryOf full32_vcb i \<noteq> 0"
  by (simp add: FatEntryOf_def fat_get_def fat_get32_def full32_vcb_def disk32_vcb_def get32_def get16_def)

lemma full32_alloc_ok: "alloc_ok full32_vcb"
proof -
  have e: "(fat_entries full32_vcb j \<noteq> 0) = True" "(fat_entries full32_vcb j = 0) = False" for j using full32_entries by simp_all
  have f: "free_in (fat_entries full32_vcb) a b = 0" for a b by (simp add: free_in_def full32_entries)
  have w: "windows_ok full32_vcb"
    by (simp add: windows_ok_def full32_vcb_def disk32_vcb_def win_size_def win_lo_def win_hi_def less_Suc_eq)
  have "synced (fat_entries full32_vcb) full32_vcb"
    unfolding synced_def f e using w
    by (simp add: full32_vcb_def disk32_vcb_def win_size_def win_lo_def win_hi_def map_replicate_const less_Suc_eq del: upt_rec_numeral)
  moreover have "vcb_ok full32_vcb" using disk32_ok by (simp add: vcb_ok_def fat_fits_def full32_vcb_def)
  ultimately show ?thesis by (simp add: alloc_ok_def)
qed

end
