(* ===== verification/FatZero.thy ===== *)
theory FatZero
  imports FatInvariant
begin

text \<open>
  Zeroing of freed space (allocsup.c, FatBuildZeroMdl of deviosup.c) and the routine
  FatDeallocateDiskSpace as it is called, with its correctness.
\<close>

section \<open>Zeroing the space that is freed\<close>

text \<open>
  FatBuildZeroMdl (deviosup.c): the byte count of the Mdl it gets, of \<open>Length\<close> bytes or as
  much less as memory allows; no length is asked for twice, so that \<open>IoAllocateMdl\<close> is a
  function of the length. Its page frame array is not modelled.
\<close>

abbreviation BlockAlignTruncate :: "ULONG \<Rightarrow> ULONG \<Rightarrow> ULONG" where
  "BlockAlignTruncate P V \<equiv> P AND (0 - V)"

lemma zero_mdl_smaller:
  assumes "\<not> Length \<le> PAGE_SIZE"
  shows "unat (if BlockAlignTruncate (Length div 2) PAGE_SIZE < PAGE_SIZE then PAGE_SIZE
      else BlockAlignTruncate (Length div 2) PAGE_SIZE) < unat (Length :: ULONG)"
proof -
  have l: "4096 < unat Length" using assms by (simp add: word_le_nat)
  have "BlockAlignTruncate (Length div 2) PAGE_SIZE \<le> Length div 2" by (rule word_and_le2)
  then have "unat (BlockAlignTruncate (Length div 2) PAGE_SIZE) \<le> unat Length div 2" by (simp add: word_le_nat unat_div)
  then show ?thesis using l by auto
qed

function FatBuildZeroMdl :: "(ULONG \<Rightarrow> bool) \<Rightarrow> ULONG \<Rightarrow> ULONG option" where
  "FatBuildZeroMdl IoAllocateMdl Length =
     (if IoAllocateMdl Length then Some Length
      else if Length \<le> PAGE_SIZE then None
      else FatBuildZeroMdl IoAllocateMdl
             (if BlockAlignTruncate (Length div 2) PAGE_SIZE < PAGE_SIZE then PAGE_SIZE
              else BlockAlignTruncate (Length div 2) PAGE_SIZE))"
  by pat_completeness auto
termination
  by (relation "measure (\<lambda>(f, l). unat l)") (use zero_mdl_smaller in auto)

declare FatBuildZeroMdl.simps [simp del]

abbreviation MAX_ZERO_MDL_SIZE :: ULONG where
  "MAX_ZERO_MDL_SIZE \<equiv> 0x100000"

text \<open>
  The loop that writes zeros over one run, with the writes that reached the device as its
  answer, in order; None when it does not end. \<open>Write Lbo n\<close> says whether a write succeeds.
\<close>

partial_function (option) FatZeroRun_loop ::
  "(LBO \<Rightarrow> ULONG \<Rightarrow> bool) \<Rightarrow> LBO \<Rightarrow> ULONG \<Rightarrow> ULONG \<Rightarrow> (LBO \<times> ULONG) list option" where
  "FatZeroRun_loop Write Lbo ByteCountToZero MdlSizeMapped =
     (if ByteCountToZero = 0 then Some []
      else if \<not> Write Lbo MdlSizeMapped then Some []
      else Option.bind
             (FatZeroRun_loop Write (Lbo + ucast MdlSizeMapped) (ByteCountToZero - MdlSizeMapped)
               (if ByteCountToZero - MdlSizeMapped < MdlSizeMapped
                then ByteCountToZero - MdlSizeMapped else MdlSizeMapped))
             (\<lambda>ws. Some ((Lbo, MdlSizeMapped) # ws)))"

text \<open>
  All runs. A run whose Mdl cannot be built ends the zeroing, one whose Mdl cannot be mapped
  or one with a failing write is left as it is; whatever fails, the space is freed.
\<close>

fun FatZeroRuns ::
  "(ULONG \<Rightarrow> bool) \<Rightarrow> (ULONG \<Rightarrow> bool) \<Rightarrow> (LBO \<Rightarrow> ULONG \<Rightarrow> bool) \<Rightarrow> (LBO \<times> ULONG) list \<Rightarrow> (LBO \<times> ULONG) list option" where
  "FatZeroRuns IoAllocateMdl MapMdl Write [] = Some []"
| "FatZeroRuns IoAllocateMdl MapMdl Write ((Lbo, ByteCount) # rs) =
     (case FatBuildZeroMdl IoAllocateMdl (if ByteCount > MAX_ZERO_MDL_SIZE then MAX_ZERO_MDL_SIZE else ByteCount) of
        None \<Rightarrow> Some []
      | Some MdlByteCount \<Rightarrow>
          Option.bind (if MapMdl MdlByteCount then FatZeroRun_loop Write Lbo ByteCount (min ByteCount MdlByteCount) else Some [])
            (\<lambda>ws. map_option (\<lambda>vs. ws @ vs) (FatZeroRuns IoAllocateMdl MapMdl Write rs)))"

section \<open>FatDeallocateDiskSpace\<close>

text \<open>
  The answer is the list of zeroing writes with the outcome of the routine, None when it
  does not end. \<open>Zero\<close> gives the three answers of the I/O system that zeroing depends on.
\<close>

type_synonym zero_io = "(ULONG \<Rightarrow> bool) \<times> (ULONG \<Rightarrow> bool) \<times> (LBO \<Rightarrow> ULONG \<Rightarrow> bool)"

definition FatDeallocateDiskSpace ::
  "zero_io \<Rightarrow> (LARGE_MCB \<Rightarrow> ULONG) \<Rightarrow> get_next \<Rightarrow> LARGE_MCB \<Rightarrow> bool \<Rightarrow> VCB
   \<Rightarrow> ((LBO \<times> ULONG) list \<times> (ntstatus + unit) \<times> VCB) option" where
  "FatDeallocateDiskSpace Zero NumberOfRuns GetNext Mcb ZeroOnDeallocate s =
     (let RunsInMcb = NumberOfRuns Mcb
      in if RunsInMcb = 0 then Some ([], Inr (), s)
         else Option.bind
                (if ZeroOnDeallocate
                 then (case Zero of (IoAllocateMdl, MapMdl, Write) \<Rightarrow>
                   FatZeroRuns IoAllocateMdl MapMdl Write
                     (map (\<lambda>i. snd (the (FatGetNextMcbEntry GetNext s Mcb (of_nat i)))) [0..<unat RunsInMcb]))
                 else Some [])
                (\<lambda>ws. Some (ws, FatDeallocateRuns (FatMcbRun GetNext Mcb) (unat RunsInMcb) s)))"

text \<open>Writes that cover \<open>n\<close> bytes from \<open>l\<close> on, one after the other.\<close>

fun tiles :: "LBO \<Rightarrow> nat \<Rightarrow> (LBO \<times> ULONG) list \<Rightarrow> bool" where
  "tiles l n [] \<longleftrightarrow> n = 0"
| "tiles l n ((l', k) # ws) \<longleftrightarrow> l' = l \<and> 0 < unat k \<and> unat k \<le> n \<and> tiles (l + ucast k) (n - unat k) ws"

lemma FatZeroRun_loop_ends:
  assumes "0 < unat M" "M \<le> B"
  shows "\<exists>ws. FatZeroRun_loop Write l B M = Some ws \<and> (\<forall>w\<in>set ws. snd w \<le> M)
    \<and> ((\<forall>l n. Write l n) \<longrightarrow> tiles l (unat B) ws)"
  using assms
proof (induction "unat B" arbitrary: l B M rule: less_induct)
  case less
  have B: "B \<noteq> 0" "unat M \<le> unat B" using less.prems by (auto simp: word_le_nat)
  show ?case
  proof (cases "Write l M")
    case False
    then show ?thesis by (subst FatZeroRun_loop.simps) auto
  next
    case True
    define B' where "B' = B - M"
    define M' where "M' = (if B' < M then B' else M)"
    have B': "unat B' = unat B - unat M" using less.prems(2) by (simp add: B'_def unat_sub_le)
    obtain ws where ws: "FatZeroRun_loop Write (l + ucast M) B' M' = Some ws" "\<forall>w\<in>set ws. snd w \<le> M'"
      "(\<forall>l n. Write l n) \<longrightarrow> tiles (l + ucast M) (unat B') ws"
    proof (cases "B' = 0")
      case True
      then have "FatZeroRun_loop Write (l + ucast M) B' M' = Some []" by (subst FatZeroRun_loop.simps) simp
      then show ?thesis using True by (intro that[of "[]"]) simp_all
    next
      case False
      have "unat B' < unat B" using B' less.prems(1) B(2) by simp
      moreover have "0 < unat M'" using False less.prems(1) by (simp add: M'_def unat_gt_0)
      moreover have "M' \<le> B'" by (simp add: M'_def not_less)
      ultimately show ?thesis using less.hyps[of B' M' "l + ucast M"] that by blast
    qed
    have "M' \<le> M" by (simp add: M'_def less_imp_le)
    then have small: "\<forall>w\<in>set ((l, M) # ws). snd w \<le> M" using ws(2) by auto
    have "FatZeroRun_loop Write l B M = Option.bind (FatZeroRun_loop Write (l + ucast M) B' M') (\<lambda>ws. Some ((l, M) # ws))"
      unfolding M'_def B'_def using B True by (simp add: FatZeroRun_loop.simps[of Write l B M])
    then have "FatZeroRun_loop Write l B M = Some ((l, M) # ws)" by (simp add: ws(1))
    moreover have "(\<forall>l n. Write l n) \<longrightarrow> tiles l (unat B) ((l, M) # ws)"
      using ws(3) less.prems(1) B(2) by (simp add: B')
    ultimately show ?thesis using small by blast
  qed
qed

lemma FatBuildZeroMdl_size: "FatBuildZeroMdl f L = Some n \<Longrightarrow> 0 < unat L \<Longrightarrow> 0 < unat n \<and> (n = L \<or> unat n < unat L)"
proof (induction f L rule: FatBuildZeroMdl.induct)
  case (1 f L)
  show ?case
  proof (cases "f L \<or> L \<le> PAGE_SIZE")
    case True
    then show ?thesis using "1.prems" by (subst (asm) FatBuildZeroMdl.simps) (auto split: if_splits)
  next
    case False
    let ?L = "if BlockAlignTruncate (L div 2) PAGE_SIZE < PAGE_SIZE then PAGE_SIZE else BlockAlignTruncate (L div 2) PAGE_SIZE"
    have "FatBuildZeroMdl f ?L = Some n" using "1.prems"(1) False by (subst (asm) FatBuildZeroMdl.simps) (auto split: if_splits)
    moreover have "PAGE_SIZE \<le> ?L" by (simp add: not_less)
    then have "0 < unat ?L" by (simp add: word_le_nat)
    ultimately have "0 < unat n \<and> (n = ?L \<or> unat n < unat ?L)" using "1.IH" False by blast
    moreover have "unat ?L < unat L" using False by (intro zero_mdl_smaller) simp
    ultimately show ?thesis by auto
  qed
qed

lemma tiles_size: "tiles l n ws \<Longrightarrow> sum_list (map (\<lambda>w. unat (snd w)) ws) = n"
  by (induction l n ws rule: tiles.induct) auto

text \<open>
  C35: the zeroing of freed space always comes to its end, whatever allocations, mappings and
  writes fail, with no write above one megabyte; and when none fails the writes cover every
  run from its first to its last byte, in order and without gap.
\<close>

theorem FatZeroRuns_covers:
  assumes "\<forall>r\<in>set rs. 0 < unat (snd r)"
  shows "\<exists>ws. FatZeroRuns IoAllocateMdl MapMdl Write rs = Some ws
    \<and> (\<forall>w\<in>set ws. snd w \<le> MAX_ZERO_MDL_SIZE)
    \<and> ((\<forall>n. IoAllocateMdl n) \<and> (\<forall>n. MapMdl n) \<and> (\<forall>l n. Write l n) \<longrightarrow>
        (\<exists>wss. ws = concat wss \<and> list_all2 (\<lambda>r ws. tiles (fst r) (unat (snd r)) ws) rs wss))"
  using assms
proof (induction rs)
  case Nil
  then show ?case by simp
next
  case (Cons r rs)
  obtain l B where r: "r = (l, B)" by force
  define L where "L = (if B > MAX_ZERO_MDL_SIZE then MAX_ZERO_MDL_SIZE else B)"
  have L: "0 < unat L" "L \<le> MAX_ZERO_MDL_SIZE" "L \<le> B" using Cons.prems by (auto simp: L_def r)
  obtain vs where vs: "FatZeroRuns IoAllocateMdl MapMdl Write rs = Some vs" "\<forall>w\<in>set vs. snd w \<le> MAX_ZERO_MDL_SIZE"
    "(\<forall>n. IoAllocateMdl n) \<and> (\<forall>n. MapMdl n) \<and> (\<forall>l n. Write l n) \<Longrightarrow>
        \<exists>wss. vs = concat wss \<and> list_all2 (\<lambda>r ws. tiles (fst r) (unat (snd r)) ws) rs wss"
  proof -
    have "\<forall>r\<in>set rs. 0 < unat (snd r)" using Cons.prems by simp
    from Cons.IH[OF this] that show ?thesis by blast
  qed
  show ?case
  proof (cases "FatBuildZeroMdl IoAllocateMdl L")
    case None
    then have "\<not> IoAllocateMdl L" by (subst (asm) FatBuildZeroMdl.simps) (auto split: if_splits)
    then show ?thesis using None by (auto simp: r L_def[symmetric])
  next
    case (Some n)
    have n: "0 < unat n" "n \<le> L" using FatBuildZeroMdl_size[OF Some L(1)] by (auto simp: word_le_nat)
    have m: "min B n = n" "n \<le> B" using n(2) L(3) by (auto simp: min_def)
    obtain ws where ws: "FatZeroRun_loop Write l B n = Some ws" "\<forall>w\<in>set ws. snd w \<le> n"
      "(\<forall>l n. Write l n) \<Longrightarrow> tiles l (unat B) ws"
      using FatZeroRun_loop_ends[OF n(1) m(2), of Write l] by blast
    define us where "us = (if MapMdl n then ws else [])"
    have z: "FatZeroRuns IoAllocateMdl MapMdl Write (r # rs) = Some (us @ vs)"
      using Some ws(1) vs(1) m by (simp add: r L_def[symmetric] us_def)
    have "\<forall>w\<in>set us. snd w \<le> MAX_ZERO_MDL_SIZE" using ws(2) n(2) L(2) by (fastforce simp: us_def)
    moreover have "\<exists>wss. us @ vs = concat wss \<and> list_all2 (\<lambda>r ws. tiles (fst r) (unat (snd r)) ws) (r # rs) wss"
      if all: "(\<forall>n. IoAllocateMdl n) \<and> (\<forall>n. MapMdl n) \<and> (\<forall>l n. Write l n)"
    proof -
      from vs(3)[OF all] obtain wss where "vs = concat wss" "list_all2 (\<lambda>r ws. tiles (fst r) (unat (snd r)) ws) rs wss" by blast
      moreover have "tiles l (unat B) us" using ws(3) all by (simp add: us_def)
      ultimately show ?thesis by (intro exI[of _ "us # wss"]) (simp add: r)
    qed
    ultimately show ?thesis using z vs(2) by (intro exI[of _ "us @ vs"]) auto
  qed
qed

theorem FatZeroRuns_covers_witness:
  "\<exists>ws. FatZeroRuns (\<lambda>_. True) (\<lambda>_. True) (\<lambda>_ _. True) [(0x4200, 0x300000), (0x900000, 512)] = Some ws
     \<and> (\<forall>w\<in>set ws. snd w \<le> MAX_ZERO_MDL_SIZE)"
  using FatZeroRuns_covers[of "[(0x4200, 0x300000), (0x900000, 512)]" "\<lambda>_. True" "\<lambda>_. True" "\<lambda>_ _. True"] by auto

text \<open>
  C18: freeing the disk space of an Mcb whose runs are allocated clusters of the volume, no
  cluster twice: on return exactly the clusters of the runs are free that were not before,
  and the volume's bitmap, the counts of its windows - the current one and the others - and
  its count of free clusters agree with the FAT again. When it raises, after a kernel call has,
  bitmap, window counts, free count and hint are those of before.
\<close>

theorem FatDeallocateDiskSpace_correct:
  assumes "alloc_ok s" and "runs_ok s (mcb_runs (FatMcbRun GetNext Mcb) s (unat (NumberOfRuns Mcb)))"
    and "FatDeallocateDiskSpace Zero NumberOfRuns GetNext Mcb ZeroOnDeallocate s = Some (ws, r, t)"
  shows "case r of
      Inr _ \<Rightarrow> alloc_ok t \<and> (\<forall>j<vcb_N s + 2. fat_entries t j =
          (if in_runs (mcb_runs (FatMcbRun GetNext Mcb) s (unat (NumberOfRuns Mcb))) j then FAT_CLUSTER_AVAILABLE
           else fat_entries s j))
    | Inl e \<Rightarrow> (\<exists>e'. Some e' \<in> set (KernelResults s))
        \<and> Windows t = Windows s \<and> FreeClusterBitMap t = FreeClusterBitMap s \<and> ClusterHint t = ClusterHint s
        \<and> AllocationSupport t = AllocationSupport s"
proof (cases "NumberOfRuns Mcb = 0")
  case True
  then have "r = Inr ()" "t = s" using assms(3) by (simp_all add: FatDeallocateDiskSpace_def)
  then show ?thesis using assms(1) True by simp
next
  case False
  then have "FatDeallocateRuns (FatMcbRun GetNext Mcb) (unat (NumberOfRuns Mcb)) s = (r, t)"
    using assms(3) by (auto simp: FatDeallocateDiskSpace_def Let_def bind_eq_Some_conv)
  from FatDeallocateRuns_outcome[OF assms(1) FatMcbRun_fixed assms(2) this]
  show ?thesis by (auto dest: fat_strip_fields split: sum.splits)
qed

text \<open>One run of twenty clusters, across the two windows of the volume.\<close>

definition one_run :: get_next where
  "one_run Mcb i = (if i = 0 then Some (0, 0x807E0, 160) else None)"

lemma one_run_clusters: "FatMcbRun one_run [] full32_vcb 0 = (65530, 20)"
proof -
  have "FatGetLboFromIndex full32_vcb 65530 = push_bit 9 0x807E0"
    by (simp add: FatGetLboFromIndex_def full32_vcb_def disk32_vcb_def)
  then have "FatGetIndexFromLbo full32_vcb (push_bit 9 0x807E0) = 65530"
    using FatGetIndexFromLbo_inverse[of 65530 full32_vcb] by (simp add: full32_vcb_def disk32_vcb_def)
  then show ?thesis
    by (simp add: FatMcbRun_def one_run_def FatGetNextMcbEntry_def MCB_SCALE_LOG2_def FatClusterCountOf_def
        full32_vcb_def disk32_vcb_def Let_def)
qed

theorem FatDeallocateDiskSpace_correct_witness:
  "\<exists>t. FatDeallocateDiskSpace (\<lambda>_. True, \<lambda>_. True, \<lambda>_ _. True) (\<lambda>_. 1) one_run [] False full32_vcb
      = Some ([], Inr (), t) \<and> alloc_ok t \<and> fat_entries t 65540 = 0"
proof -
  let ?Z = "(\<lambda>_. True, \<lambda>_. True, \<lambda>_ _. True)"
  obtain r t where rt: "FatDeallocateDiskSpace ?Z (\<lambda>_. 1) one_run [] False full32_vcb = Some ([], r, t)"
    by (simp add: FatDeallocateDiskSpace_def) (metis surj_pair)
  have m: "mcb_runs (FatMcbRun one_run []) full32_vcb (unat (1 :: ULONG)) = [(65530, 20)]"
    by (simp add: one_run_clusters)
  have "runs_ok full32_vcb [(65530, 20)]"
    using full32_entries by (simp add: runs_ok_def run_in_def disjoint_runs_def full32_vcb_def disk32_vcb_def)
  then have c: "case r of
      Inr _ \<Rightarrow> alloc_ok t \<and> (\<forall>j<vcb_N full32_vcb + 2. fat_entries t j =
          (if in_runs [(65530, 20)] j then FAT_CLUSTER_AVAILABLE else fat_entries full32_vcb j))
    | Inl e \<Rightarrow> (\<exists>e'. Some e' \<in> set (KernelResults full32_vcb))
        \<and> Windows t = Windows full32_vcb \<and> FreeClusterBitMap t = FreeClusterBitMap full32_vcb
        \<and> ClusterHint t = ClusterHint full32_vcb \<and> AllocationSupport t = AllocationSupport full32_vcb"
    using FatDeallocateDiskSpace_correct[OF full32_alloc_ok _ rt, unfolded m] by blast
  have "KernelResults full32_vcb = []" "65540 < vcb_N full32_vcb + 2" by (simp_all add: full32_vcb_def disk32_vcb_def)
  moreover have "in_runs [(65530, 20)] 65540" by (simp add: in_cluster_run_def)
  ultimately have "r = Inr () \<and> alloc_ok t \<and> fat_entries t 65540 = 0" using c by (cases r) (auto dest!: spec[of _ 65540])
  then show ?thesis using rt by auto
qed

end
