(* ===== verification/FatAllocate.thy ===== *)
theory FatAllocate
  imports FatZero
begin

text \<open>
  FatAllocateDiskSpace (allocsup.c): the size of a request, the hint and the change to its
  window, the allocation as one run, the loop over runs with its search, its change of
  window and its linking of runs, and the finally blocks that give space back.
  RtlFindClearBits and RtlFindLongestRunClear are parameters, as are the lookups in the Mcb.
\<close>

section \<open>The size of an allocation\<close>

text \<open>The byte count rounded up to clusters, and the number of clusters; it wraps to 0 for the maximal file.\<close>

definition FatRoundAllocation :: "VCB \<Rightarrow> ULONG \<Rightarrow> ULONG \<times> ULONG" where
  "FatRoundAllocation s ByteCount =
     (let LogOfBytesPerCluster = unat (LogOfBytesPerCluster (AllocationSupport s));
          BytesPerCluster = push_bit LogOfBytesPerCluster 1 :: ULONG;
          Rounded = (ByteCount + (BytesPerCluster - 1)) AND NOT (BytesPerCluster - 1)
      in if Rounded = 0 then (0xffffffff, push_bit (32 - LogOfBytesPerCluster) 1)
         else (Rounded, drop_bit LogOfBytesPerCluster Rounded))"

definition FatGiveFree :: "ULONG \<Rightarrow> VCB \<Rightarrow> VCB" where
  "FatGiveFree n s = s\<lparr>AllocationSupport := (AllocationSupport s)
     \<lparr>NumberOfFreeClusters := NumberOfFreeClusters (AllocationSupport s) + n\<rparr>\<rparr>"

definition FatTakeFree :: "ULONG \<Rightarrow> (VCB, unit) fat_op" where
  "FatTakeFree ClusterCount s =
     (if ClusterCount \<le> NumberOfFreeClusters (AllocationSupport s)
      then (Inr (), s\<lparr>AllocationSupport := (AllocationSupport s)
             \<lparr>NumberOfFreeClusters := NumberOfFreeClusters (AllocationSupport s) - ClusterCount\<rparr>\<rparr>)
      else (Inl STATUS_DISK_FULL, s))"

section \<open>The hint\<close>

text \<open>
  The hint relative to the current window, after the change to the window of the caller's
  hint, with the caller's hint as far as it counts (0 when it does not).
\<close>

definition FatAllocate_hint_window :: "(nat \<Rightarrow> bool) \<Rightarrow> nat \<Rightarrow> ULONG \<Rightarrow> (VCB, unit) fat_op" where
  "FatAllocate_hint_window Pool BucketNum ClusterCount s =
     (let Wait = IrpContextWait s
      in try_finally
           (seq (modify (\<lambda>s. s\<lparr>IrpContextWait := True\<rparr>)) (\<lambda>_.
            seq (FatExamineFatEntries Pool 0 0 False (Some BucketNum) None) (\<lambda>_. ret ())))
           (\<lambda>abnormal. modify (\<lambda>s.
              let s1 = (if \<not> Wait then s\<lparr>IrpContextWait := False\<rparr> else s)
              in if abnormal then FatGiveFree ClusterCount s1 else s1)) s)"

definition FatAllocate_hint :: "(nat \<Rightarrow> bool) \<Rightarrow> ULONG \<Rightarrow> ULONG \<Rightarrow> (VCB, ULONG \<times> ULONG) fat_op" where
  "FatAllocate_hint Pool AbsoluteClusterHint ClusterCount s =
     (if AbsoluteClusterHint \<noteq> 0 \<and> AbsoluteClusterHint < NumberOfClusters (AllocationSupport s) + 2
      then
        if NumberOfWindows s > 1
        then
          (let W = Windows s ! CurrentWindow s;
               BucketNum = unat (FatWindowOfCluster AbsoluteClusterHint)
           in seq (if (AbsoluteClusterHint < FirstCluster W \<or> AbsoluteClusterHint > LastCluster W)
                      \<and> BucketNum \<noteq> CurrentWindow s
                   then FatAllocate_hint_window Pool BucketNum ClusterCount else ret ())
                (\<lambda>_ s. (Inr (AbsoluteClusterHint - FirstCluster (Windows s ! CurrentWindow s) + 2, AbsoluteClusterHint), s)) s)
        else (Inr (AbsoluteClusterHint, AbsoluteClusterHint), s)
      else (Inr (if ClusterHint s = -1 then 2 else ClusterHint s, 0), s))"

section \<open>The locals\<close>

text \<open>
  The locals of FatAllocateDiskSpace its finally block reads, with the caller's Mcb and byte
  count: the state of the try block is the volume and these. \<open>AllocWindow\<close> is the index of
  the window \<open>Window\<close>.
\<close>

record ALLOCATE =
  AllocMcb :: LARGE_MCB
  AllocByteCount :: ULONG
  AllocWindow :: nat
  WindowRelativeHint :: ULONG
  RunIndex :: ULONG
  Cluster :: ULONG
  CurrentVbo :: ULONG
  PriorLastCluster :: ULONG
  BytesFound :: ULONG
  ClustersFound :: ULONG
  ClustersRemaining :: ULONG
  LockedBitMap :: bool
  SelectNextContigWindow :: bool

type_synonym 'a alloc_op = "(VCB \<times> ALLOCATE, 'a) fat_op"

definition on_vcb :: "(VCB, 'a) fat_op \<Rightarrow> 'a alloc_op" where
  "on_vcb m sl = (case m (fst sl) of (r, s) \<Rightarrow> (r, (s, snd sl)))"

definition locals :: "(VCB \<Rightarrow> ALLOCATE \<Rightarrow> ALLOCATE) \<Rightarrow> unit alloc_op" where
  "locals f sl = (Inr (), (fst sl, f (fst sl) (snd sl)))"

section \<open>One run of the right size\<close>

definition FatAllocate_contiguous :: "find_clear_bits \<Rightarrow> ULONG \<Rightarrow> ULONG \<Rightarrow> unit alloc_op" where
  "FatAllocate_contiguous RtlFindClearBits StartingCluster0 ClusterCount sl =
     (let (s, L) = sl;
          Window = CurrentWindow s;
          s1 = FatUpdateWindow Window (\<lambda>W. W\<lparr>ClustersFree := ClustersFree W - ClusterCount\<rparr>)
                 (FatReserveClusters RtlFindClearBits StartingCluster0 ClusterCount s);
          First = FirstCluster (Windows s ! Window);
          StartingCluster = StartingCluster0 + First - 2;
          L1 = L\<lparr>AllocMcb := FatAddMcbEntry s1 (AllocMcb L) 0 (FatGetLboFromIndex s1 StartingCluster) (AllocByteCount L)\<rparr>
      in try_finally (on_vcb (FatAllocateClusters StartingCluster ClusterCount))
           (\<lambda>abnormal. if \<not> abnormal then ret () else
              seq (locals (\<lambda>s L. L\<lparr>AllocMcb := FatRemoveMcbEntry s (AllocMcb L) 0 (AllocByteCount L)\<rparr>)) (\<lambda>_.
              on_vcb (modify (\<lambda>s.
                let s2 = (if Window = CurrentWindow s
                          then FatUnreserveClusters (StartingCluster - First + 2) ClusterCount s else s)
                in FatGiveFree ClusterCount
                     (FatUpdateWindow Window (\<lambda>W. W\<lparr>ClustersFree := ClustersFree W + ClusterCount\<rparr>) s2)))))
           (s1, L1))"

section \<open>Several runs\<close>

definition RtlAreBitsClear :: "bool list \<Rightarrow> ULONG \<Rightarrow> ULONG \<Rightarrow> bool" where
  "RtlAreBitsClear bm StartingIndex Length \<longleftrightarrow>
     0 < unat Length \<and> clear_run bm (unat StartingIndex) (unat Length)"

text \<open>\<open>RtlFindLongestRunClear\<close> answers the length of the longest run of clear bits and its start.\<close>

type_synonym find_longest = "bool list \<Rightarrow> ULONG \<times> ULONG"

definition FatAllocate_at_hint :: "bool \<Rightarrow> VCB \<Rightarrow> ALLOCATE \<Rightarrow> bool \<times> ALLOCATE" where
  "FatAllocate_at_hint ExactMatchRequired s L =
     (let Desired0 = of_nat (length (FreeClusterBitMap s)) - (WindowRelativeHint L - 2);
          Desired = (if Desired0 > ClustersRemaining L then ClustersRemaining L else Desired0)
      in if RtlAreBitsClear (FreeClusterBitMap s) (WindowRelativeHint L - 2) Desired
         then (False, L\<lparr>WindowRelativeHint := (if FatIsFat32 s then 2 else 0), RunIndex := WindowRelativeHint L - 2,
                        ClustersFound := Desired,
                        SelectNextContigWindow := FatIsFat32 s \<or> SelectNextContigWindow L\<rparr>)
         else if ExactMatchRequired then (True, L) else (False, L\<lparr>WindowRelativeHint := 0\<rparr>))"

definition FatAllocate_anywhere :: "find_clear_bits \<Rightarrow> find_longest \<Rightarrow> VCB \<Rightarrow> ALLOCATE \<Rightarrow> ALLOCATE" where
  "FatAllocate_anywhere RtlFindClearBits RtlFindLongestRunClear s L =
     (let bm = FreeClusterBitMap s;
          L1 = (if ClustersRemaining L \<le> ClustersFree (Windows s ! CurrentWindow s)
                then let i = RtlFindClearBits bm (ClustersRemaining L) 0
                     in if i \<noteq> -1 then L\<lparr>RunIndex := i, ClustersFound := ClustersRemaining L\<rparr> else L\<lparr>RunIndex := i\<rparr>
                else L);
          L2 = (if ClustersFound L1 = 0
                then let (n, i) = RtlFindLongestRunClear bm in L1\<lparr>RunIndex := i, ClustersFound := n\<rparr> else L1)
      in if ClustersFound L2 \<ge> ClustersRemaining L2 then L2\<lparr>ClustersFound := ClustersRemaining L2\<rparr>
         else if RunIndex L2 + ClustersFound L2 = of_nat (length bm) \<and> FatIsFat32 s
         then L2\<lparr>WindowRelativeHint := 2, SelectNextContigWindow := True\<rparr> else L2)"

text \<open>The search for the next run: whether the caller's request for an exact match has failed, and the locals.\<close>

definition FatAllocate_search :: "find_clear_bits \<Rightarrow> find_longest \<Rightarrow> bool \<Rightarrow> VCB \<Rightarrow> ALLOCATE \<Rightarrow> bool \<times> ALLOCATE" where
  "FatAllocate_search RtlFindClearBits RtlFindLongestRunClear ExactMatchRequired s L0 =
     (let L = L0\<lparr>ClustersFound := 0\<rparr>
      in if SelectNextContigWindow L then (False, L)
         else
           (let (leave, L1) = (if WindowRelativeHint L \<noteq> 0 then FatAllocate_at_hint ExactMatchRequired s L else (False, L))
            in if leave then (True, L1)
               else (False, if WindowRelativeHint L1 = 0 \<and> ClustersFound L1 = 0
                            then FatAllocate_anywhere RtlFindClearBits RtlFindLongestRunClear s L1 else L1)))"

text \<open>The window to go on in when the current one has nothing more: whether to give up, the window and the locals.\<close>

definition FatAllocate_next_window :: "bool \<Rightarrow> VCB \<Rightarrow> ALLOCATE \<Rightarrow> bool \<times> nat \<times> ALLOCATE" where
  "FatAllocate_next_window ExactMatchRequired s L =
     (if SelectNextContigWindow L
      then
        (let NextWindow = CurrentWindow s + 1
         in if NextWindow < unat (NumberOfWindows s) \<and> ClustersFree (Windows s ! NextWindow) > 0
            then (False, NextWindow, L\<lparr>SelectNextContigWindow := False\<rparr>)
            else if ExactMatchRequired then (True, 0, L)
            else (False, unat (FatSelectBestWindow s), L\<lparr>WindowRelativeHint := 0, SelectNextContigWindow := False\<rparr>))
      else (False, unat (FatSelectBestWindow s), L))"

definition FatAllocate_switch :: "(nat \<Rightarrow> bool) \<Rightarrow> bool \<Rightarrow> bool alloc_op" where
  "FatAllocate_switch Pool ExactMatchRequired sl =
     (let (s, L) = sl
      in if NumberOfWindows s = 1 then (Inl (FAT_BUG_CHECK 0 5 0), sl)
         else
           (let (leave, FaveWindow, L1) = FatAllocate_next_window ExactMatchRequired s L
            in if leave then (Inr True, (s, L1))
               else if ClustersFree (Windows s ! FaveWindow) = 0 then (Inl (FAT_BUG_CHECK 0 5 1), (s, L1))
               else
                 seq (on_vcb (modify (\<lambda>s. s\<lparr>IrpContextWait := True\<rparr>))) (\<lambda>_.
                 seq (on_vcb (FatExamineFatEntries Pool 0 0 False (Some FaveWindow) None)) (\<lambda>_.
                 seq (on_vcb (modify (\<lambda>t. if \<not> IrpContextWait s then t\<lparr>IrpContextWait := False\<rparr> else t))) (\<lambda>_.
                 ret False))) (s, L1)))"

definition FatAllocate_take :: "find_clear_bits \<Rightarrow> bool alloc_op" where
  "FatAllocate_take RtlFindClearBits sl =
     (let (s, L) = sl;
          Window = CurrentWindow s;
          s1 = FatUpdateWindow Window (\<lambda>W. W\<lparr>ClustersFree := ClustersFree W - ClustersFound L\<rparr>)
                 (FatReserveClusters RtlFindClearBits (RunIndex L + 2) (ClustersFound L) s);
          L1 = L\<lparr>AllocWindow := Window, Cluster := RunIndex L + FirstCluster (Windows s ! Window),
                 BytesFound := push_bit (unat (LogOfBytesPerCluster (AllocationSupport s))) (ClustersFound L),
                 LockedBitMap := False\<rparr>
      in seq (on_vcb KernelCall) (\<lambda>_.
         seq (locals (\<lambda>s L. L\<lparr>AllocMcb := FatAddMcbEntry s (AllocMcb L) (CurrentVbo L)
                                  (FatGetLboFromIndex s (Cluster L)) (BytesFound L)\<rparr>)) (\<lambda>_.
         seq (if PriorLastCluster L1 \<noteq> 0 then on_vcb (FatSetFatEntry (PriorLastCluster L1) (Cluster L1)) else ret ()) (\<lambda>_.
         seq (on_vcb (FatAllocateClusters (Cluster L1) (ClustersFound L1))) (\<lambda>_.
         seq (locals (\<lambda>s L. L\<lparr>CurrentVbo := CurrentVbo L + BytesFound L,
                               PriorLastCluster := Cluster L + ClustersFound L - 1,
                               ClustersRemaining := ClustersRemaining L - ClustersFound L\<rparr>)) (\<lambda>_.
         ret False))))) (s1, L1))"

text \<open>One round of the loop; it answers whether the try block is left.\<close>

definition FatAllocate_round :: "find_clear_bits \<Rightarrow> find_longest \<Rightarrow> (nat \<Rightarrow> bool) \<Rightarrow> bool \<Rightarrow> bool alloc_op" where
  "FatAllocate_round RtlFindClearBits RtlFindLongestRunClear Pool ExactMatchRequired sl =
     (let (s, L) = sl;
          (leave, L1) = FatAllocate_search RtlFindClearBits RtlFindLongestRunClear ExactMatchRequired s
                          (L\<lparr>LockedBitMap := True\<rparr>)
      in if leave then (Inr True, (s, L1))
         else if ClustersFound L1 = 0 then FatAllocate_switch Pool ExactMatchRequired (s, L1)
         else FatAllocate_take RtlFindClearBits (s, L1))"

text \<open>The loop: None when it does not end, otherwise a raise or whether the request was met.\<close>

partial_function (option) FatAllocate_loop ::
  "(VCB \<times> ALLOCATE \<Rightarrow> (ntstatus + bool) \<times> VCB \<times> ALLOCATE) \<Rightarrow> VCB \<times> ALLOCATE \<Rightarrow> ((ntstatus + bool) \<times> VCB \<times> ALLOCATE) option" where
  "FatAllocate_loop round sl =
     (if ClustersRemaining (snd sl) = 0 then Some (Inr True, sl)
      else case round sl of
             (Inl e, sl') \<Rightarrow> Some (Inl e, sl')
           | (Inr leave, sl') \<Rightarrow> if leave then Some (Inr False, sl') else FatAllocate_loop round sl')"

section \<open>Giving the space back\<close>

text \<open>Freeing without zeroing always returns, so that \<open>the\<close> takes the answer of FatDeallocateDiskSpace.\<close>

definition FatAllocate_giveback :: "(LARGE_MCB \<Rightarrow> ULONG) \<Rightarrow> get_next \<Rightarrow> unit alloc_op" where
  "FatAllocate_giveback NumberOfRuns GetNext sl =
     (let (s, L0) = sl;
          L = L0\<lparr>AllocByteCount := 0\<rparr>;
          Window = AllocWindow L;
          s1 = (if LockedBitMap L then s
                else FatGiveFree (ClustersFound L)
                  (FatUpdateWindow Window (\<lambda>W. W\<lparr>ClustersFree := ClustersFree W + ClustersFound L\<rparr>)
                    (if Window = CurrentWindow s
                     then FatUnreserveClusters ((Cluster L - FirstCluster (Windows s ! Window)) + 2) (ClustersFound L) s
                     else s)));
          L1 = (if LockedBitMap L then L
                else L\<lparr>AllocMcb := FatRemoveMcbEntry s1 (AllocMcb L) (CurrentVbo L) (BytesFound L)\<rparr>)
      in case the (FatDeallocateDiskSpace (\<lambda>_. False, \<lambda>_. False, \<lambda>_ _. False) NumberOfRuns GetNext (AllocMcb L1) False s1) of
           (_, r, s2) \<Rightarrow> (r, (s2, L1\<lparr>AllocMcb := FatRemoveMcbEntry s2 (AllocMcb L1) 0 0xFFFFFFFF\<rparr>)))"

text \<open>
  The finally block: what the try block has answered, whether the request was met, or raised.
  A bug check stops the machine and runs no finally block.
\<close>

definition FatAllocate_finally ::
  "(LARGE_MCB \<Rightarrow> ULONG) \<Rightarrow> get_next \<Rightarrow> ntstatus + bool \<Rightarrow> unit alloc_op" where
  "FatAllocate_finally NumberOfRuns GetNext r sl =
     (case r of
        Inr Result \<Rightarrow> if Result then (Inr (), sl) else FatAllocate_giveback NumberOfRuns GetNext sl
      | Inl (FAT_BUG_CHECK a b c) \<Rightarrow> (Inl (FAT_BUG_CHECK a b c), sl)
      | Inl e \<Rightarrow> seq (FatAllocate_giveback NumberOfRuns GetNext) (\<lambda>_. raise_status e) sl)"

definition FatAllocate_runs ::
  "find_clear_bits \<Rightarrow> find_longest \<Rightarrow> (nat \<Rightarrow> bool) \<Rightarrow> (LARGE_MCB \<Rightarrow> ULONG) \<Rightarrow> get_next \<Rightarrow> bool \<Rightarrow> ULONG
   \<Rightarrow> VCB \<times> ALLOCATE \<Rightarrow> ((ntstatus + unit) \<times> VCB \<times> ALLOCATE) option" where
  "FatAllocate_runs RtlFindClearBits RtlFindLongestRunClear Pool NumberOfRuns GetNext ExactMatchRequired ClusterCount sl =
     map_option (\<lambda>(r, sl'). FatAllocate_finally NumberOfRuns GetNext r sl')
       (if ExactMatchRequired \<and> NumberOfWindows (fst sl) = 1 then Some (Inr False, sl)
        else FatAllocate_loop (FatAllocate_round RtlFindClearBits RtlFindLongestRunClear Pool ExactMatchRequired)
               (fst sl, (snd sl)\<lparr>ClustersRemaining := ClusterCount\<rparr>))"

section \<open>FatAllocateDiskSpace\<close>

text \<open>The answer is the outcome with the byte count and the Mcb of the caller, None when the routine does not return.\<close>

definition FatAllocateDiskSpace ::
  "find_clear_bits \<Rightarrow> find_longest \<Rightarrow> (nat \<Rightarrow> bool) \<Rightarrow> (LARGE_MCB \<Rightarrow> ULONG) \<Rightarrow> get_next
   \<Rightarrow> ULONG \<Rightarrow> ULONG \<Rightarrow> bool \<Rightarrow> LARGE_MCB \<Rightarrow> VCB \<Rightarrow> ((ntstatus + unit) \<times> ULONG \<times> LARGE_MCB \<times> VCB) option" where
  "FatAllocateDiskSpace RtlFindClearBits RtlFindLongestRunClear Pool NumberOfRuns GetNext
     AbsoluteClusterHint0 ByteCount ExactMatchRequired Mcb s =
     (if ByteCount = 0 then Some (Inr (), ByteCount, Mcb, s)
      else
        (let (Rounded, ClusterCount) = FatRoundAllocation s ByteCount
         in case seq (FatTakeFree ClusterCount) (\<lambda>_. FatAllocate_hint Pool AbsoluteClusterHint0 ClusterCount) s of
              (Inl e, s1) \<Rightarrow> Some (Inl e, Rounded, Mcb, s1)
            | (Inr (Hint, AbsoluteClusterHint), s1) \<Rightarrow>
                (let L = \<lparr>AllocMcb = Mcb, AllocByteCount = Rounded, AllocWindow = CurrentWindow s1, WindowRelativeHint = Hint,
                          RunIndex = 0, Cluster = 0, CurrentVbo = 0, PriorLastCluster = 0, BytesFound = 0,
                          ClustersFound = 0, ClustersRemaining = 0, LockedBitMap = True, SelectNextContigWindow = False\<rparr>;
                     StartingCluster = FatFindFreeClusterRun RtlFindClearBits s1 ClusterCount Hint
                 in map_option (\<lambda>(r, t, L'). (r, AllocByteCount L', AllocMcb L', t))
                      (if StartingCluster \<noteq> 1 \<and> (AbsoluteClusterHint = 0 \<or> StartingCluster = Hint)
                       then Some (FatAllocate_contiguous RtlFindClearBits StartingCluster ClusterCount (s1, L))
                       else FatAllocate_runs RtlFindClearBits RtlFindLongestRunClear Pool NumberOfRuns GetNext
                              ExactMatchRequired ClusterCount (s1, L)))))"

end
