(* ===== verification/FatChain.thy ===== *)
theory FatChain
  imports FatAllocate
begin

text \<open>
  Taking a run of free clusters: what reserving it does to bitmap, counts and hint; chains
  as lists of clusters and the FAT that holds them; and the invariant \<open>holding\<close> that a taken
  and linked run extends.
\<close>

section \<open>Reserving a run of the current window\<close>

lemma give_simps [simp]:
  "Windows (FatGiveFree R s) = Windows s" "FreeClusterBitMap (FatGiveFree R s) = FreeClusterBitMap s"
  "CurrentWindow (FatGiveFree R s) = CurrentWindow s" "ClusterHint (FatGiveFree R s) = ClusterHint s"
  "NumberOfWindows (FatGiveFree R s) = NumberOfWindows s" "Bpb (FatGiveFree R s) = Bpb s"
  "VolumeFile (FatGiveFree R s) = VolumeFile s" "KernelResults (FatGiveFree R s) = KernelResults s"
  "vcb_bits (FatGiveFree R s) = vcb_bits s"
  "NumberOfClusters (AllocationSupport (FatGiveFree R s)) = NumberOfClusters (AllocationSupport s)"
  "NumberOfFreeClusters (AllocationSupport (FatGiveFree R s)) = NumberOfFreeClusters (AllocationSupport s) + R"
  "win_lo (FatGiveFree R s) = win_lo s" "win_hi (FatGiveFree R s) = win_hi s" "win_size (FatGiveFree R s) = win_size s"
  "windows_ok (FatGiveFree R s) = windows_ok s" "FatEntryOf (FatGiveFree R s) = FatEntryOf s"
  by (auto simp: FatGiveFree_def fun_eq_iff win_lo_def win_hi_def win_size_def windows_ok_def FatEntryOf_def)

lemma synced_bits:
  assumes "synced e s"
  defines "lo \<equiv> win_lo s (CurrentWindow s)" and "hi \<equiv> win_hi s (CurrentWindow s)"
  shows "FreeClusterBitMap s = map (\<lambda>j. e j \<noteq> 0) [lo..<hi]" "length (FreeClusterBitMap s) = hi - lo"
    "2 \<le> lo" "lo < hi" "hi \<le> vcb_N s + 2" "hi < 2 ^ 31" "windows_ok s" "CurrentWindow s < length (Windows s)"
    "unat (FirstCluster (Windows s ! CurrentWindow s)) = lo"
    "unat (ClustersFree (Windows s ! CurrentWindow s)) = free_in e lo hi"
proof -
  show ok: "windows_ok s" using assms(1) by (simp add: synced_def)
  show cw: "CurrentWindow s < length (Windows s)" using ok by (simp add: windows_ok_def)
  show "FreeClusterBitMap s = map (\<lambda>j. e j \<noteq> 0) [lo..<hi]" using assms(1) by (simp add: synced_def lo_def hi_def)
  then show "length (FreeClusterBitMap s) = hi - lo" by simp
  show "2 \<le> lo" by (simp add: lo_def win_lo_def)
  show lh: "lo < hi" "hi \<le> vcb_N s + 2" using win_lo_hi[OF ok cw] by (simp_all add: lo_def hi_def)
  then show "hi < 2 ^ 31" using win_N(1)[OF ok] by simp
  show "unat (FirstCluster (Windows s ! CurrentWindow s)) = lo" using win_of_window(1)[OF ok cw] by (simp add: lo_def)
  show "unat (ClustersFree (Windows s ! CurrentWindow s)) = free_in e lo hi"
    using assms(1) cw by (simp add: synced_def lo_def hi_def)
qed

lemma clear_run_window:
  assumes "synced e s" "clear_run (FreeClusterBitMap s) i n"
  shows "win_lo s (CurrentWindow s) + i + n \<le> win_hi s (CurrentWindow s)"
    "\<And>j. win_lo s (CurrentWindow s) + i \<le> j \<Longrightarrow> j < win_lo s (CurrentWindow s) + i + n \<Longrightarrow> e j = 0"
proof -
  note b = synced_bits[OF assms(1)]
  let ?lo = "win_lo s (CurrentWindow s)"
  have in_n: "i + n \<le> win_hi s (CurrentWindow s) - ?lo" using assms(2) unfolding clear_run_def b(2) by blast
  show "?lo + i + n \<le> win_hi s (CurrentWindow s)" using in_n b(4) by linarith
  fix j assume j: "?lo + i \<le> j" "j < ?lo + i + n"
  then have "j - ?lo - i < n" by linarith
  then have "\<not> FreeClusterBitMap s ! (i + (j - ?lo - i))" using assms(2) unfolding clear_run_def by blast
  moreover have "i + (j - ?lo - i) = j - ?lo" using j by simp
  moreover have "j - ?lo < win_hi s (CurrentWindow s) - ?lo" using in_n j by linarith
  ultimately show "e j = 0" using b(1) j by simp
qed

lemma free_in_taken:
  assumes "\<And>j. a \<le> j \<Longrightarrow> j < b \<Longrightarrow> e j = FAT_CLUSTER_AVAILABLE \<and> e' j \<noteq> FAT_CLUSTER_AVAILABLE"
    and "\<And>j. j < a \<or> b \<le> j \<Longrightarrow> e' j = e j"
  shows "free_in e x y = free_in e' x y + (min y b - max x a)"
  by (rule free_in_freed) (use assms in auto)

lemma reserve_hint:
  assumes F: "find_clear_ok F" and bm: "0 < length bm" "length bm < 2 ^ 31" and A: "unat A \<le> length bm + 2" "2 \<le> unat A"
    and h: "h = (let A' = if A - 2 \<ge> of_nat (length bm) then 2 else A
       in if RtlCheckBit bm (A' - 2) then (let h = F bm 1 (A' - 2) + 2 in if h = 1 then 2 else h) else A')"
  shows "2 \<le> unat h \<and> unat h < length bm + 2"
proof -
  define A' where "A' = (if A - 2 \<ge> of_nat (length bm) then 2 else A)"
  have u: "unat (of_nat (length bm) :: ULONG) = length bm" using bm by (intro unat_of_nat_small) simp
  have "unat (A - 2) = unat A - 2" using A(2) by (subst unat_sub_le) (simp_all add: word_le_nat)
  then have A': "2 \<le> unat A'" "unat A' < length bm + 2" using A bm by (auto simp: A'_def word_le_nat u)
  have f: "F bm 1 x + 2 = 1 \<or> 2 \<le> unat (F bm 1 x + 2) \<and> unat (F bm 1 x + 2) < length bm + 2" for x
    using find_clear_one[OF F, of bm x] bm by (auto split: if_splits)
  show ?thesis using A' f bm unfolding h A'_def[symmetric] Let_def by auto
qed

lemma FatReserve_synced:
  assumes F: "find_clear_ok F" and sy: "synced e (FatGiveFree R s)" and n: "0 < unat n" "unat n \<le> unat R"
    and run: "clear_run (FreeClusterBitMap s) (unat i) (unat n)"
    and a: "a = win_lo s (CurrentWindow s) + unat i"
    and s1: "s1 = FatUpdateWindow (CurrentWindow s) (\<lambda>W. W\<lparr>ClustersFree := ClustersFree W - n\<rparr>) (FatReserveClusters F (i + 2) n s)"
  shows "counts_frame s s1" "synced (\<lambda>j. if a \<le> j \<and> j < a + unat n then 1 else e j) (FatGiveFree (R - n) s1)"
    "AllocationSupport s1 = AllocationSupport s"
proof -
  define cw where "cw = CurrentWindow s"
  define lo hi where "lo = win_lo s cw" and "hi = win_hi s cw"
  note b = synced_bits[OF sy, simplified, folded cw_def, folded lo_def hi_def]
  note c = clear_run_window[OF sy, of "unat i" "unat n", simplified, OF run, folded cw_def, folded lo_def hi_def]
  have al: "a = lo + unat i" by (simp add: a lo_def cw_def)
  define e1 where "e1 = (\<lambda>j. if a \<le> j \<and> j < a + unat n then 1 else e j)"
  define bm where "bm = RtlSetBits (FreeClusterBitMap s) i n"
  define h where "h = ClusterHint (FatReserveClusters F (i + 2) n s)"
  define Ws where "Ws = (Windows s)[cw := (Windows s ! cw)\<lparr>ClustersFree := ClustersFree (Windows s ! cw) - n\<rparr>]"
  have s1': "s1 = s\<lparr>Windows := Ws, FreeClusterBitMap := bm, ClusterHint := h,
      AllocationSupport := (AllocationSupport s)\<lparr>NumberOfFreeClusters := NumberOfFreeClusters (AllocationSupport s)\<rparr>\<rparr>"
    unfolding s1 h_def Ws_def bm_def by (simp add: FatUpdateWindow_def FatReserveClusters_def Let_def cw_def)
  show "counts_frame s s1" unfolding s1' counts_frame_def by blast
  show "AllocationSupport s1 = AllocationSupport s" by (simp add: s1')
  have len: "length bm = hi - lo" using b(2) by (simp add: bm_def)
  have bm': "bm = map (\<lambda>j. e1 j \<noteq> 0) [lo..<hi]"
    unfolding bm_def b(1) using c(1) b(6) by (intro fill_window_bits[where x = a]) (auto simp: al e1_def)
  have hint: "2 \<le> unat h \<and> unat h < length bm + 2"
  proof (rule reserve_hint[OF F, of bm "i + 2 + n" h])
    have i2: "unat (i + 2) = unat i + 2" using c(1) b(6) by (subst unat_add_small) simp_all
    then have u: "unat (i + 2 + n) = unat i + 2 + unat n" using c(1) b(6) by (subst unat_add_small) simp_all
    show "0 < length bm" "length bm < 2 ^ 31" using b(4,6) by (simp_all add: len)
    show "unat (i + 2 + n) \<le> length bm + 2" "2 \<le> unat (i + 2 + n)" using c(1) u by (simp_all add: len)
  qed (simp add: h_def FatReserveClusters_def Let_def bm_def)
  have used: "e j = 0 \<and> e1 j \<noteq> 0" if "a \<le> j" "j < a + unat n" for j using c(2)[of j] that by (simp add: al e1_def)
  have oth: "e1 j = e j" if "j < a \<or> a + unat n \<le> j" for j using that by (auto simp: e1_def)
  have fr: "free_in e x y = free_in e1 x y + (min y (a + unat n) - max x a)" for x y
    using free_in_taken[of a "a + unat n" e e1 x y] used oth by blast
  have geo: "win_lo (FatGiveFree (R - n) s1) = win_lo s" "win_hi (FatGiveFree (R - n) s1) = win_hi s"
    by (auto simp: fun_eq_iff win_lo_def win_hi_def win_size_def s1' FatGiveFree_def)
  have fl: "FirstCluster (Ws ! v) = FirstCluster (Windows s ! v) \<and> LastCluster (Ws ! v) = LastCluster (Windows s ! v)" for v
    using b(8) by (cases "v = cw") (simp_all add: Ws_def)
  have "windows_ok s1" by (rule windows_ok_update[OF _ _ fl s1']) (use b(7) in \<open>simp_all add: Ws_def\<close>)
  then have okt: "windows_ok (FatGiveFree (R - n) s1)" by simp
  have run_in: "max lo a = a" "min hi (a + unat n) = a + unat n" using c(1) by (simp_all add: al)
  have k: "unat (ClustersFree (Windows s ! cw)) = free_in e1 lo hi + unat n" using b(10) fr[of lo hi] run_in by simp
  have kn: "unat (ClustersFree (Windows s ! cw) - n) = free_in e1 lo hi" using k by (subst unat_sub_le) (simp_all add: word_le_nat)
  have frees: "unat (ClustersFree (Ws ! v)) = free_in e1 (win_lo s v) (win_hi s v)" if v: "v < length (Windows s)" for v
  proof (cases "v = cw")
    case True
    then show ?thesis using kn v by (simp add: Ws_def lo_def hi_def)
  next
    case False
    have "min (win_hi s v) (a + unat n) - max (win_lo s v) a = 0"
    proof (cases "v < cw")
      case True
      then have "win_hi s v \<le> lo" by (simp add: win_disjoint lo_def)
      then show ?thesis by (simp add: al)
    next
      case False
      then have "hi \<le> win_lo s v" using \<open>v \<noteq> cw\<close> by (simp add: win_disjoint hi_def)
      then show ?thesis using c(1) by (simp add: al)
    qed
    then have "free_in e (win_lo s v) (win_hi s v) = free_in e1 (win_lo s v) (win_hi s v)" using fr by simp
    then show ?thesis using sy v False by (simp add: synced_def Ws_def)
  qed
  have total: "unat (NumberOfFreeClusters (AllocationSupport s) + (R - n)) = free_in e1 2 (vcb_N s + 2)"
  proof -
    have "unat (NumberOfFreeClusters (AllocationSupport s) + R) = free_in e 2 (vcb_N s + 2)" using sy by (simp add: synced_def)
    also have "\<dots> = free_in e1 2 (vcb_N s + 2) + unat n" using fr[of 2 "vcb_N s + 2"] c(1) b(3,5) by (simp add: al)
    finally have t: "unat (NumberOfFreeClusters (AllocationSupport s) + R) = free_in e1 2 (vcb_N s + 2) + unat n" .
    have "NumberOfFreeClusters (AllocationSupport s) + (R - n) = (NumberOfFreeClusters (AllocationSupport s) + R) - n" by simp
    then show ?thesis using t by (simp only:) (subst unat_sub_le, simp_all add: word_le_nat)
  qed
  have "synced e1 (FatGiveFree (R - n) s1)"
    unfolding synced_def geo using okt bm' frees total hint
    by (simp add: s1' lo_def hi_def cw_def Ws_def[symmetric]) (simp add: Ws_def)
  then show "synced (\<lambda>j. if a \<le> j \<and> j < a + unat n then 1 else e j) (FatGiveFree (R - n) s1)" by (simp add: e1_def)
qed

section \<open>Chains as lists of clusters\<close>

text \<open>The FAT once the clusters of \<open>cl\<close> are a chain: each names the next, the last one is the end of the file.\<close>

fun next_in :: "nat list \<Rightarrow> nat \<Rightarrow> ULONG" where
  "next_in (c # d # ds) j = (if j = c then of_nat d else next_in (d # ds) j)"
| "next_in cl j = FAT_CLUSTER_LAST"

definition chain_entries :: "UCHAR \<Rightarrow> nat list \<Rightarrow> (nat \<Rightarrow> ULONG) \<Rightarrow> nat \<Rightarrow> ULONG" where
  "chain_entries b cl e j = (if j \<in> set cl then take_bit (fat_vwidth b) (next_in cl j) else e j)"

lemma next_in_append:
  "distinct (xs @ ys) \<Longrightarrow> xs \<noteq> [] \<Longrightarrow> ys \<noteq> [] \<Longrightarrow> j \<in> set (xs @ ys) \<Longrightarrow>
   next_in (xs @ ys) j = (if j \<in> set ys then next_in ys j else if j = last xs then of_nat (hd ys) else next_in xs j)"
proof (induction xs)
  case (Cons c xs)
  show ?case
  proof (cases xs)
    case Nil
    then show ?thesis using Cons.prems by (cases ys) auto
  next
    case xs: (Cons d ds)
    then show ?thesis using Cons.IH Cons.prems by (cases "j = c") auto
  qed
qed simp

lemma next_in_run:
  "a \<le> j \<Longrightarrow> j < a + n \<Longrightarrow> next_in [a..<a + n] j = (if j + 1 = a + n then FAT_CLUSTER_LAST else of_nat (j + 1))"
proof (induction n arbitrary: a)
  case (Suc n)
  show ?case
  proof (cases n)
    case 0
    then show ?thesis using Suc.prems by simp
  next
    case (Suc m)
    have "[a..<a + Suc n] = a # Suc a # [Suc (Suc a)..<a + Suc n]" using Suc by (simp add: upt_conv_Cons)
    moreover have "[Suc a..<Suc a + n] = Suc a # [Suc (Suc a)..<a + Suc n]" using Suc by (simp add: upt_conv_Cons)
    ultimately have e: "next_in [a..<a + Suc n] j = (if j = a then of_nat (Suc a) else next_in [Suc a..<Suc a + n] j)" by simp
    show ?thesis
    proof (cases "j = a")
      case True
      then show ?thesis unfolding e using Suc by simp
    next
      case False
      then show ?thesis unfolding e using Suc.IH[of "Suc a"] Suc.prems by simp
    qed
  qed
qed simp

lemma next_in_cases: "next_in cl j = FAT_CLUSTER_LAST \<or> (\<exists>d\<in>set cl. next_in cl j = of_nat d)"
  by (induction cl j rule: next_in.induct) auto

definition links_ok :: "VCB \<Rightarrow> bool" where
  "links_ok s \<longleftrightarrow> vcb_N s + 1 < 2 ^ fat_vwidth (vcb_bits s) - 16"

lemma vwidth_cases: "fat_vwidth b = 12 \<or> fat_vwidth b = 28 \<or> fat_vwidth b = 16"
  by (simp add: fat_vwidth_def)

lemma last_value: "unat (take_bit (fat_vwidth b) FAT_CLUSTER_LAST) = 2 ^ fat_vwidth b - 1"
  by (rule unat_take_last) (use vwidth_cases[of b] in auto)

lemma link_small:
  assumes "links_ok s" "d < vcb_N s + 2"
  shows "unat (of_nat d :: ULONG) = d" "take_bit (fat_vwidth (vcb_bits s)) (of_nat d) = (of_nat d :: ULONG)"
    "d < 2 ^ fat_vwidth (vcb_bits s) - 16"
proof -
  show d: "d < 2 ^ fat_vwidth (vcb_bits s) - 16" using assms by (simp add: links_ok_def)
  have "d < 2 ^ 28" using d vwidth_cases[of "vcb_bits s"] by auto
  then show u: "unat (of_nat d :: ULONG) = d" by (intro unat_of_nat_small) simp
  have "d < 2 ^ fat_vwidth (vcb_bits s)" using d by (rule less_le_trans[OF _ diff_le_self])
  then show "take_bit (fat_vwidth (vcb_bits s)) (of_nat d) = (of_nat d :: ULONG)" by (intro take_bit_small) (simp add: u)
qed

lemma next_in_used:
  assumes l: "links_ok s" and cl: "\<forall>x\<in>set cl. 2 \<le> x \<and> x < vcb_N s + 2"
  shows "take_bit (fat_vwidth (vcb_bits s)) (next_in cl j) \<noteq> FAT_CLUSTER_AVAILABLE"
proof -
  from next_in_cases[of cl j] show ?thesis
  proof (elim disjE bexE)
    assume n: "next_in cl j = FAT_CLUSTER_LAST"
    have "unat (take_bit (fat_vwidth (vcb_bits s)) FAT_CLUSTER_LAST) \<noteq> 0"
      unfolding last_value using vwidth_cases[of "vcb_bits s"] by auto
    then show ?thesis unfolding n by (metis unat_0)
  next
    fix d assume d: "d \<in> set cl" "next_in cl j = of_nat d"
    then have "2 \<le> d" "d < vcb_N s + 2" using cl by auto
    with link_small(1,2)[OF l this(2)] show ?thesis unfolding d(2) by (metis unat_0 not_numeral_le_zero)
  qed
qed

lemma chain_of_list:
  assumes "\<forall>j\<in>set cl. fat_entries s j = take_bit (fat_vwidth (vcb_bits s)) (next_in cl j)"
    and "distinct cl" "cl \<noteq> []" "\<forall>j\<in>set cl. 2 \<le> j \<and> j < vcb_N s + 2" "links_ok s" "vcb_bits s \<in> {12, 16, 32}"
  shows "fat_chain s (length cl) (of_nat (hd cl)) = Some (map of_nat cl)"
  using assms(1-4)
proof (induction cl)
  case (Cons c cl)
  note iv = interpret_value[OF assms(6)]
  show ?case
  proof (cases cl)
    case Nil
    have e: "FatEntryOf s (of_nat c) = take_bit (fat_vwidth (vcb_bits s)) FAT_CLUSTER_LAST" using Cons.prems(1) Nil by simp
    have "(2::nat) ^ fat_vwidth (vcb_bits s) - 1 < 2 ^ fat_vwidth (vcb_bits s)" by simp
    then have "FatInterpretClusterType s (FatEntryOf s (of_nat c)) = FatClusterLast"
      unfolding e by (intro iv(2)) (simp_all only: last_value)
    then show ?thesis using Nil by simp
  next
    case (Cons d ds)
    have "d < vcb_N s + 2" "2 \<le> d" using Cons.prems(4) Cons by auto
    note d = link_small[OF assms(5) this(1)] this(2)
    have e: "FatEntryOf s (of_nat c) = of_nat d" using Cons.prems(1) Cons d(2) by simp
    have "d < 2 ^ fat_vwidth (vcb_bits s)" using d(3) by (rule less_le_trans[OF _ diff_le_self])
    moreover have "(of_nat d :: ULONG) \<noteq> 0" using d(1,4) by (metis unat_0 not_numeral_le_zero)
    ultimately have t: "FatInterpretClusterType s (of_nat d) = FatClusterNext"
      by (intro iv(1)) (simp_all only: d(1,3) not_False_eq_True)
    have "fat_chain s (length cl) (of_nat (hd cl)) = Some (map of_nat cl)"
    proof (rule Cons.IH)
      show "\<forall>j\<in>set cl. fat_entries s j = take_bit (fat_vwidth (vcb_bits s)) (next_in cl j)"
        using Cons.prems(1,2) Cons by auto
    qed (use Cons.prems Cons in auto)
    then show ?thesis using e t Cons by simp
  qed
qed simp


section \<open>Holding clusters\<close>

text \<open>
  The volume \<open>s\<close> has the clusters of \<open>cl\<close> as a chain and everything else as \<open>s0\<close> had it; the
  counts are those of the FAT, once the \<open>R\<close> clusters set aside are given back.
\<close>

definition alloc_frame :: "VCB \<Rightarrow> VCB \<Rightarrow> bool" where
  "alloc_frame s0 s \<longleftrightarrow> Bpb s = Bpb s0 \<and> NumberOfWindows s = NumberOfWindows s0
     \<and> (AllocationSupport s)\<lparr>NumberOfFreeClusters := 0\<rparr> = (AllocationSupport s0)\<lparr>NumberOfFreeClusters := 0\<rparr>
     \<and> set (KernelResults s) \<subseteq> set (KernelResults s0)"

definition chain_in :: "VCB \<Rightarrow> nat list \<Rightarrow> VCB \<Rightarrow> bool" where
  "chain_in s0 cl s \<longleftrightarrow> distinct cl \<and> (\<forall>x\<in>set cl. 2 \<le> x \<and> x < vcb_N s0 + 2 \<and> fat_entries s0 x = FAT_CLUSTER_AVAILABLE)
     \<and> (\<forall>j. 2 \<le> j \<and> j < vcb_N s0 + 2 \<longrightarrow> fat_entries s j = chain_entries (vcb_bits s0) cl (fat_entries s0) j)"

definition holding :: "VCB \<Rightarrow> nat list \<Rightarrow> ULONG \<Rightarrow> VCB \<Rightarrow> bool" where
  "holding s0 cl R s \<longleftrightarrow> vcb_ok s \<and> alloc_frame s0 s \<and> chain_in s0 cl s \<and> synced (fat_entries s) (FatGiveFree R s)
     \<and> R \<le> NumberOfFreeClusters (AllocationSupport s) + R"

lemma alloc_frameD:
  assumes "alloc_frame s0 s"
  shows "Bpb s = Bpb s0" "NumberOfWindows s = NumberOfWindows s0" "vcb_N s = vcb_N s0" "vcb_bits s = vcb_bits s0"
    "set (KernelResults s) \<subseteq> set (KernelResults s0)" "MCB_SCALE_LOG2 s = MCB_SCALE_LOG2 s0"
    "LogOfBytesPerCluster (AllocationSupport s) = LogOfBytesPerCluster (AllocationSupport s0)"
    "FatGetLboFromIndex s = FatGetLboFromIndex s0" "links_ok s = links_ok s0" "win_size s = win_size s0"
    "win_lo s = win_lo s0" "win_hi s = win_hi s0" "McbSectors s = McbSectors s0"
proof -
  have A: "(AllocationSupport s)\<lparr>NumberOfFreeClusters := 0\<rparr> = (AllocationSupport s0)\<lparr>NumberOfFreeClusters := 0\<rparr>"
    using assms by (simp add: alloc_frame_def)
  show n: "vcb_N s = vcb_N s0" "vcb_bits s = vcb_bits s0"
    using arg_cong[OF A, of NumberOfClusters] arg_cong[OF A, of FatIndexBitSize] by simp_all
  show m: "MCB_SCALE_LOG2 s = MCB_SCALE_LOG2 s0" and c: "LogOfBytesPerCluster (AllocationSupport s) = LogOfBytesPerCluster (AllocationSupport s0)"
    using arg_cong[OF A, of LogOfBytesPerSector] arg_cong[OF A, of LogOfBytesPerCluster] by (simp_all add: MCB_SCALE_LOG2_def)
  have "FileAreaLbo (AllocationSupport s) = FileAreaLbo (AllocationSupport s0)" using arg_cong[OF A, of FileAreaLbo] by simp
  then show "FatGetLboFromIndex s = FatGetLboFromIndex s0" using c by (simp add: fun_eq_iff FatGetLboFromIndex_def)
  show "links_ok s = links_ok s0" using n by (simp add: links_ok_def)
  show "win_size s = win_size s0" "win_lo s = win_lo s0" "win_hi s = win_hi s0"
    using n by (auto simp: fun_eq_iff win_size_def win_lo_def win_hi_def)
  show "McbSectors s = McbSectors s0" using m by (simp add: fun_eq_iff McbSectors_def)
  show "Bpb s = Bpb s0" "NumberOfWindows s = NumberOfWindows s0" "set (KernelResults s) \<subseteq> set (KernelResults s0)"
    using assms by (simp_all add: alloc_frame_def)
qed

lemma alloc_frame_refl: "alloc_frame s s" by (simp add: alloc_frame_def)

lemma alloc_frame_trans: "alloc_frame s t \<Longrightarrow> alloc_frame t u \<Longrightarrow> alloc_frame s u"
  unfolding alloc_frame_def by auto

lemma alloc_frame_counts: "counts_frame s t \<Longrightarrow> alloc_frame s t"
  unfolding alloc_frame_def using counts_frameD[of s t] by simp

lemma alloc_frame_strip:
  assumes "fat_strip t = fat_strip s" "set (KernelResults t) \<subseteq> set (KernelResults s)"
  shows "alloc_frame s t"
  using assms(2) unfolding alloc_frame_def fat_strip_fields(1-3)[OF assms(1)] by simp

lemma give_strip: "fat_strip t = fat_strip s \<Longrightarrow> fat_strip (FatGiveFree R t) = fat_strip (FatGiveFree R s)"
proof -
  assume e: "fat_strip t = fat_strip s"
  have c: "fat_strip (x\<lparr>AllocationSupport := A\<rparr>) = (fat_strip x)\<lparr>AllocationSupport := A\<rparr>" for x A by (simp add: fat_strip_def)
  show ?thesis unfolding FatGiveFree_def c e fat_strip_fields(2)[OF e] ..
qed

lemma FatSetFatEntry_entries:
  assumes ok: "vcb_ok s" and i: "2 \<le> i" "i < vcb_N s + 2" and v: "unat v < vcb_N s + 2"
    and run: "FatSetFatEntry (of_nat i) v s = (Inr (), t)" and j: "2 \<le> j" "j < vcb_N s + 2"
  shows "fat_entries t j = (if j = i then take_bit (fat_vwidth (vcb_bits s)) v else fat_entries s j)"
proof -
  have u: "unat (of_nat i :: ULONG) = i" "unat (of_nat j :: ULONG) = j" using fat_entries_index[OF ok] i j by simp_all
  have ij: "index_ok s (of_nat i)" "index_ok s (of_nat j)" "(of_nat i :: ULONG) \<noteq> FAT_DIRTY_BIT_INDEX"
    using i j u by (auto simp: index_ok_def word_unat_eq_iff)
  have "take_bit 28 v = v" using v vcb_N_28[OF ok] by (intro take_bit_small) simp
  then have "v AND mask 28 = v" by (simp flip: take_bit_eq_mask)
  then have vm: "v AND NOT FAT32_ENTRY_MASK = 0"
    unfolding fat32_mask by (simp add: word_eq_bits bit_simps) blast
  have "set_outcome s (fat_set (vcb_bits s) (vcb_R s) (VolumeFile s) (of_nat i) v)
        (store_calls (vcb_bits s) (MCB_SCALE_LOG2 s) (vcb_R s) (of_nat i)) False True (Inr ()) t"
    using FatSetFatEntry_cluster[OF ok ij(3) run] ij(1) by blast
  from FatEntryOf_after_set[OF ok ij(1,2) vm this] u show ?thesis by (auto simp: word_unat_eq_iff)
qed

lemma FatSetFatEntry_strip: "FatSetFatEntry i v s = (r, t) \<Longrightarrow> fat_strip t = fat_strip s"
  by (rule stripD[OF strip.keeps_FatSetFatEntry])


lemma run_value_next:
  assumes "a \<le> j" "j < a + n" "unat (of_nat j :: ULONG) = j"
  shows "run_value True True (a + n - 1) (of_nat j) = next_in [a..<a + n] j"
  using assms by (auto simp: run_value_def next_in_run)

lemma chain_in_link:
  assumes ch: "chain_in s0 cl s" and l: "links_ok s0" and n: "0 < n" "2 \<le> a" "a + n \<le> vcb_N s0 + 2"
    and free: "\<And>j. a \<le> j \<Longrightarrow> j < a + n \<Longrightarrow> fat_entries s j = FAT_CLUSTER_AVAILABLE"
    and e1: "\<And>j. 2 \<le> j \<Longrightarrow> j < vcb_N s0 + 2 \<Longrightarrow> fat_entries s1 j =
      (if cl \<noteq> [] \<and> j = last cl then take_bit (fat_vwidth (vcb_bits s0)) (of_nat a) else fat_entries s j)"
    and e2: "\<And>j. 2 \<le> j \<Longrightarrow> j < vcb_N s0 + 2 \<Longrightarrow> fat_entries t j =
      (if a \<le> j \<and> j < a + n then take_bit (fat_vwidth (vcb_bits s0)) (next_in [a..<a + n] j) else fat_entries s1 j)"
  shows "chain_in s0 (cl @ [a..<a + n]) t"
    and "\<And>j. 2 \<le> j \<Longrightarrow> j < vcb_N s0 + 2 \<Longrightarrow>
      (fat_entries t j = FAT_CLUSTER_AVAILABLE) = ((if a \<le> j \<and> j < a + n then 1 else fat_entries s j) = FAT_CLUSTER_AVAILABLE)"
proof -
  have cl: "distinct cl" "\<And>x. x \<in> set cl \<Longrightarrow> 2 \<le> x \<and> x < vcb_N s0 + 2 \<and> fat_entries s0 x = 0"
    "\<And>j. 2 \<le> j \<Longrightarrow> j < vcb_N s0 + 2 \<Longrightarrow> fat_entries s j = chain_entries (vcb_bits s0) cl (fat_entries s0) j"
    using ch by (auto simp: chain_in_def)
  have used: "fat_entries s x \<noteq> 0" if "x \<in> set cl" for x
    using cl(2,3) that next_in_used[OF l, of cl x] by (auto simp: chain_entries_def)
  then have dj: "x \<notin> set cl" if "a \<le> x" "x < a + n" for x using free that by blast
  have f0: "fat_entries s0 j = 0" if "a \<le> j" "j < a + n" for j
    using cl(3)[of j] free[OF that] dj[OF that] that n by (simp add: chain_entries_def)
  have d: "distinct (cl @ [a..<a + n])" using cl(1) dj by (auto dest: dj)
  have ne: "[a..<a + n] \<noteq> []" "hd [a..<a + n] = a" using n by (simp_all add: hd_upt)
  have new: "fat_entries t j = chain_entries (vcb_bits s0) (cl @ [a..<a + n]) (fat_entries s0) j"
    if j: "2 \<le> j" "j < vcb_N s0 + 2" for j
  proof (cases "cl = []")
    case True
    then show ?thesis using e1[OF j] e2[OF j] cl(3)[OF j] by (simp add: chain_entries_def)
  next
    case False
    show ?thesis
    proof (cases "j \<in> set (cl @ [a..<a + n])")
      case True
      note nx = next_in_append[OF d False ne(1) True]
      show ?thesis
      proof (cases "a \<le> j \<and> j < a + n")
        case run: True
        then show ?thesis using nx e2[OF j] by (simp add: chain_entries_def)
      next
        case notrun: False
        then have "j \<in> set cl" using True by auto
        then show ?thesis using nx notrun False e1[OF j] e2[OF j] cl(3)[OF j] by (auto simp: chain_entries_def ne(2))
      qed
    next
      case F: False
      then show ?thesis using e1[OF j] e2[OF j] cl(3)[OF j] last_in_set[OF False] by (auto simp: chain_entries_def)
    qed
  qed
  show "chain_in s0 (cl @ [a..<a + n]) t"
    unfolding chain_in_def using d cl(2) f0 new n by auto
  have all: "\<forall>x\<in>set (cl @ [a..<a + n]). 2 \<le> x \<and> x < vcb_N s0 + 2" using cl(2) n by auto
  show "(fat_entries t j = 0) = ((if a \<le> j \<and> j < a + n then 1 else fat_entries s j) = 0)"
    if j: "2 \<le> j" "j < vcb_N s0 + 2" for j
  proof (cases "j \<in> set (cl @ [a..<a + n])")
    case True
    then show ?thesis using new[OF j] next_in_used[OF l all, of j] used[of j] by (auto simp: chain_entries_def)
  next
    case False
    then show ?thesis using new[OF j] cl(3)[OF j] by (auto simp: chain_entries_def)
  qed
qed

lemma holding_link:
  assumes F: "find_clear_ok F" and l: "links_ok s0" and h: "holding s0 cl R s" and n: "0 < unat n" "unat n \<le> unat R"
    and run: "clear_run (FreeClusterBitMap s) (unat i) (unat n)"
    and c: "c = i + FirstCluster (Windows s ! CurrentWindow s)"
    and s1: "s1 = FatUpdateWindow (CurrentWindow s) (\<lambda>W. W\<lparr>ClustersFree := ClustersFree W - n\<rparr>) (FatReserveClusters F (i + 2) n s)"
    and s2: "fat_strip s2 = fat_strip s1" "VolumeFile s2 = VolumeFile s1" "set (KernelResults s2) \<subseteq> set (KernelResults s1)"
    and s3: "(if P \<noteq> 0 then FatSetFatEntry P c else ret ()) s2 = (Inr (), s3)" "P = (if cl = [] then 0 else of_nat (last cl))"
    and t: "FatAllocateClusters c n s3 = (Inr (), t)"
  shows "holding s0 (cl @ [unat c..<unat c + unat n]) (R - n) t" "AllocationSupport t = AllocationSupport s"
    "2 \<le> unat c" "unat c + unat n \<le> vcb_N s0 + 2" "CurrentWindow t = CurrentWindow s" "length (FreeClusterBitMap t) = length (FreeClusterBitMap s)"
proof -
  have vok: "vcb_ok s" and fr: "alloc_frame s0 s" and ch: "chain_in s0 cl s" and sy: "synced (fat_entries s) (FatGiveFree R s)"
    using h by (simp_all add: holding_def)
  define lo where "lo = win_lo s (CurrentWindow s)"
  note b = synced_bits[OF sy, simplified, folded lo_def]
  note cr = clear_run_window[OF sy, of "unat i" "unat n", simplified, OF run, folded lo_def]
  have uc: "unat c = lo + unat i" using b(9) cr(1) b(6) unfolding c by (subst unat_add_small) simp_all
  note re = FatReserve_synced[OF F sy n run uc[unfolded lo_def] s1]
  note cf = counts_frameD[OF re(1)]
  have N: "vcb_N s = vcb_N s0" "vcb_bits s = vcb_bits s0" using alloc_frameD[OF fr] by simp_all
  note ff2 = fat_strip_fields[OF s2(1)]
  have ok2: "vcb_ok s2" using vok by (simp add: ff2(10) cf(11))
  have A2: "AllocationSupport s2 = AllocationSupport s" by (simp add: ff2(2) re(3))
  have e2: "fat_entries s2 = fat_entries s" by (simp add: fun_eq_iff FatEntryOf_def A2 ff2(1) cf(1,2) s2(2))
  have cc: "2 \<le> unat c" "unat c + unat n \<le> vcb_N s0 + 2" using uc b(3,5) cr(1) N by simp_all
  then show "2 \<le> unat c" "unat c + unat n \<le> vcb_N s0 + 2" .
  have k3: "keeps (\<lambda>t. fat_strip t = S) (if P \<noteq> 0 then FatSetFatEntry P c else ret ())" for S
    by (intro keeps_intros strip.keeps_FatSetFatEntry)
  have k3': "keeps (\<lambda>t. set (KernelResults t) \<subseteq> A) (if P \<noteq> 0 then FatSetFatEntry P c else ret ())" for A
    by (intro keeps_intros kernel.keeps_FatSetFatEntry)
  have st3: "fat_strip s3 = fat_strip s2" by (rule stripD[OF k3 s3(1)])
  have kr3: "set (KernelResults s3) \<subseteq> set (KernelResults s2)" by (rule keepsD[OF k3' _ s3(1)]) simp
  note ff3 = fat_strip_fields[OF st3]
  have P: "2 \<le> last cl" "last cl < vcb_N s0 + 2" if "cl \<noteq> []" using ch last_in_set[OF that] by (auto simp: chain_in_def)
  have P0: "P \<noteq> 0" if "cl \<noteq> []"
  proof -
    have "unat (of_nat (last cl) :: ULONG) = last cl" using link_small(1)[OF l P(2)] that by simp
    then show ?thesis using s3(2) that P(1) by (metis unat_0 not_numeral_le_zero)
  qed
  have ents3: "fat_entries s3 j =
      (if cl \<noteq> [] \<and> j = last cl then take_bit (fat_vwidth (vcb_bits s0)) (of_nat (unat c)) else fat_entries s j)"
    if j: "2 \<le> j" "j < vcb_N s0 + 2" for j
  proof (cases "cl = []")
    case True
    then show ?thesis using s3 fun_cong[OF e2, of j] by simp
  next
    case False
    have "FatSetFatEntry (of_nat (last cl)) c s2 = (Inr (), s3)" using s3 P0[OF False] False by simp
    from FatSetFatEntry_entries[OF ok2 _ _ _ this, of j] show ?thesis
      using P[OF False] cc n j False N fun_cong[OF e2, of j] by (simp add: A2)
  qed
  have "FatClusters True (fst (c, n)) (snd (c, n)) s3 = (Inr (), t)" using t by (simp add: FatFree_eq)
  note cl = this
  have st: "fat_strip t = fat_strip s3" and kr: "set (KernelResults t) \<subseteq> set (KernelResults s3)"
    by (rule FatClusters_strip[OF cl], rule FatClusters_results[OF cl])
  have ok3: "vcb_ok s3" using ok2 by (simp add: ff3(10))
  have ents: "fat_entries t j =
      (if unat c \<le> j \<and> j < unat c + unat n then take_bit (fat_vwidth (vcb_bits s0)) (next_in [unat c..<unat c + unat n] j)
       else fat_entries s3 j)" if j: "2 \<le> j" "j < vcb_N s0 + 2" for j
  proof -
    have "run_in s3 (c, n)" using cc n N by (simp add: run_in_def ff3(2) A2)
    from FatClusters_entries[OF ok3 this cl, of j] show ?thesis
      using j N link_small(1)[OF l j(2)] run_value_next[of "unat c" j "unat n"]
      by (auto simp: run_entries_def in_cluster_run_def ff3(2) A2)
  qed
  have free: "fat_entries s j = 0" if "unat c \<le> j" "j < unat c + unat n" for j using cr(2)[of j] that uc by simp
  note link = chain_in_link[OF ch l n(1) cc free ents3 ents]
  have "counts_frame s s1" by (rule re(1))
  have fr': "alloc_frame s0 t"
    by (intro alloc_frame_trans[OF fr] alloc_frame_trans[OF alloc_frame_counts[OF re(1)]]
        alloc_frame_trans[OF alloc_frame_strip[OF s2(1,3)]] alloc_frame_trans[OF alloc_frame_strip[OF st3 kr3]]
        alloc_frame_strip[OF st kr])
  have st1: "fat_strip t = fat_strip s1" using st st3 s2(1) by simp
  note ft = fat_strip_fields[OF st1]
  show At: "AllocationSupport t = AllocationSupport s" by (simp add: ft(2) re(3))
  have "synced (\<lambda>j. if unat c \<le> j \<and> j < unat c + unat n then 1 else fat_entries s j) (FatGiveFree (R - n) t)"
    unfolding fat_strip_fields(13)[OF give_strip[OF st1]] by (rule re(2))
  then have "synced (fat_entries t) (FatGiveFree (R - n) t)"
    by (rule synced_cong[THEN iffD1, rotated]) (use link(2) N in \<open>simp add: At\<close>)
  moreover have "vcb_ok t" using vok by (simp add: ft(10) cf(11))
  moreover have "R - n \<le> NumberOfFreeClusters (AllocationSupport t) + (R - n)"
  proof -
    have r: "R \<le> NumberOfFreeClusters (AllocationSupport s) + R" using h by (simp add: holding_def)
    have nR: "n \<le> R" using n by (simp add: word_le_nat)
    have e: "NumberOfFreeClusters (AllocationSupport s) + (R - n) = (NumberOfFreeClusters (AllocationSupport s) + R) - n" by simp
    show ?thesis unfolding At e word_le_nat unat_sub_le[OF nR] unat_sub_le[OF order_trans[OF nR r]]
      using r by (simp add: word_le_nat)
  qed
  ultimately show "holding s0 (cl @ [unat c..<unat c + unat n]) (R - n) t"
    using fr' link(1) by (simp add: holding_def)
  show "CurrentWindow t = CurrentWindow s" by (simp add: ft(5) cf(4))
  show "length (FreeClusterBitMap t) = length (FreeClusterBitMap s)"
    by (simp add: ft(6) s1 FatUpdateWindow_def FatReserveClusters_def Let_def)
qed

end
