(* ===== verification/FatRounds.thy ===== *)
theory FatRounds
  imports FatChain
begin

text \<open>
  The loop of FatAllocateDiskSpace, round by round: a search answers a clear run or why there
  is none, a change of window keeps what has been taken, a round that goes on keeps the
  invariant of the loop and lowers its measure.
\<close>

section \<open>The search for a run\<close>

text \<open>What the documentation of \<open>RtlFindLongestRunClear\<close> promises: a longest run of clear bits, or the length 0.\<close>

definition find_longest_ok :: "find_longest \<Rightarrow> bool" where
  "find_longest_ok RtlFindLongestRunClear \<longleftrightarrow>
     (\<forall>bm. length bm < 2 ^ 32 - 1 \<longrightarrow>
        (let (n, i) = RtlFindLongestRunClear bm
         in (0 < n \<longrightarrow> clear_run bm (unat i) (unat n)) \<and> (\<forall>k m. clear_run bm k m \<longrightarrow> m \<le> unat n)))"

lemma find_longestD:
  assumes "find_longest_ok G" "length bm < 2 ^ 32 - 1" "G bm = (n, i)"
  shows "n \<noteq> 0 \<Longrightarrow> clear_run bm (unat i) (unat n)" "n = 0 \<Longrightarrow> False \<notin> set bm"
proof -
  have o: "0 < n \<longrightarrow> clear_run bm (unat i) (unat n)" "\<And>k m. clear_run bm k m \<Longrightarrow> m \<le> unat n"
    using assms unfolding find_longest_ok_def by (auto split: prod.splits)
  show "n \<noteq> 0 \<Longrightarrow> clear_run bm (unat i) (unat n)" using o(1) by (simp add: word_neq_0_conv)
  show "False \<notin> set bm" if "n = 0"
  proof
    assume "False \<in> set bm"
    then obtain k where "k < length bm" "bm ! k = False" by (auto simp: in_set_conv_nth)
    then have "clear_run bm k 1" by (simp add: clear_run_def)
    from o(2)[OF this] that show False by simp
  qed
qed

text \<open>What a search answers: a clear run of at most the clusters that remain, or nothing and why.\<close>

definition found_ok :: "VCB \<Rightarrow> ALLOCATE \<Rightarrow> ALLOCATE \<Rightarrow> bool" where
  "found_ok s L L1 \<longleftrightarrow>
     L1 = L\<lparr>WindowRelativeHint := WindowRelativeHint L1, RunIndex := RunIndex L1, ClustersFound := ClustersFound L1,
            SelectNextContigWindow := SelectNextContigWindow L1\<rparr>
   \<and> ClustersFound L1 \<le> ClustersRemaining L
   \<and> (ClustersFound L1 \<noteq> 0 \<longrightarrow> clear_run (FreeClusterBitMap s) (unat (RunIndex L1)) (unat (ClustersFound L1)))
   \<and> (WindowRelativeHint L1 = 0 \<or> 2 \<le> unat (WindowRelativeHint L1) \<and> unat (WindowRelativeHint L1) < length (FreeClusterBitMap s) + 2)
   \<and> (SelectNextContigWindow L1 \<longrightarrow> WindowRelativeHint L1 = 2 \<and> FatIsFat32 s)
   \<and> (ClustersFound L1 = 0 \<longrightarrow> (SelectNextContigWindow L \<or> False \<notin> set (FreeClusterBitMap s))
        \<and> (\<not> SelectNextContigWindow L1 \<longrightarrow> WindowRelativeHint L1 = 0))"

definition hint_in :: "VCB \<Rightarrow> ALLOCATE \<Rightarrow> bool" where
  "hint_in s L \<longleftrightarrow> (WindowRelativeHint L = 0 \<or> 2 \<le> unat (WindowRelativeHint L)
        \<and> unat (WindowRelativeHint L) < length (FreeClusterBitMap s) + 2)
     \<and> (SelectNextContigWindow L \<longrightarrow> WindowRelativeHint L = 2 \<and> FatIsFat32 s)"

lemma clear_run_le: "clear_run bm i n \<Longrightarrow> m \<le> n \<Longrightarrow> clear_run bm i m"
  by (auto simp: clear_run_def)

lemma FatAllocate_at_hint_found:
  assumes len: "0 < length (FreeClusterBitMap s)" "length (FreeClusterBitMap s) < 2 ^ 31"
    and h: "hint_in s L" "WindowRelativeHint L \<noteq> 0" and R: "ClustersRemaining L \<noteq> 0" and L: "ClustersFound L = 0" "\<not> SelectNextContigWindow L"
    and r: "FatAllocate_at_hint Exact s L = (leave, L1)"
  shows "leave \<and> Exact \<and> L1 = L \<or>
    \<not> leave \<and> ((ClustersFound L1 = 0 \<and> L1 = L\<lparr>WindowRelativeHint := 0\<rparr>) \<or> (ClustersFound L1 \<noteq> 0 \<and> found_ok s L L1))"
proof -
  define D0 :: ULONG where "D0 = of_nat (length (FreeClusterBitMap s)) - (WindowRelativeHint L - 2)"
  define D where "D = (if D0 > ClustersRemaining L then ClustersRemaining L else D0)"
  have "WindowRelativeHint L = 0 \<or> 2 \<le> unat (WindowRelativeHint L) \<and> unat (WindowRelativeHint L) < length (FreeClusterBitMap s) + 2"
    using h(1) by (simp add: hint_in_def)
  then have wh: "2 \<le> unat (WindowRelativeHint L)" "unat (WindowRelativeHint L) < length (FreeClusterBitMap s) + 2"
    using h(2) by auto
  have u: "unat (of_nat (length (FreeClusterBitMap s)) :: ULONG) = length (FreeClusterBitMap s)" using len by (intro unat_of_nat_small) simp
  have w2: "unat (WindowRelativeHint L - 2) = unat (WindowRelativeHint L) - 2" using wh by (subst unat_sub_le) (simp_all add: word_le_nat)
  have "unat D0 = length (FreeClusterBitMap s) - (unat (WindowRelativeHint L) - 2)"
    unfolding D0_def using wh by (subst unat_sub_le) (simp_all add: word_le_nat u w2)
  then have "0 < unat D0" using wh by simp
  then have "D0 \<noteq> 0" by auto
  then have D: "D \<noteq> 0" "D \<le> ClustersRemaining L" using R by (auto simp: D_def)
  have r': "(if RtlAreBitsClear (FreeClusterBitMap s) (WindowRelativeHint L - 2) D
         then (False, L\<lparr>WindowRelativeHint := (if FatIsFat32 s then 2 else 0), RunIndex := WindowRelativeHint L - 2,
                        ClustersFound := D, SelectNextContigWindow := FatIsFat32 s \<or> SelectNextContigWindow L\<rparr>)
         else if Exact then (True, L) else (False, L\<lparr>WindowRelativeHint := 0\<rparr>)) = (leave, L1)"
    using r unfolding FatAllocate_at_hint_def Let_def D_def D0_def .
  show ?thesis
  proof (cases "RtlAreBitsClear (FreeClusterBitMap s) (WindowRelativeHint L - 2) D")
    case True
    then have e: "\<not> leave" "L1 = L\<lparr>WindowRelativeHint := (if FatIsFat32 s then 2 else 0), RunIndex := WindowRelativeHint L - 2,
                        ClustersFound := D, SelectNextContigWindow := FatIsFat32 s\<rparr>" using r' L(2) by auto
    have c: "clear_run (FreeClusterBitMap s) (unat (WindowRelativeHint L - 2)) (unat D)"
      using True by (simp add: RtlAreBitsClear_def)
    show ?thesis unfolding e(2) found_ok_def using e(1) D c len by simp
  next
    case False
    then show ?thesis using r' L(1) by (auto split: if_splits)
  qed
qed

lemma FatAllocate_anywhere_found:
  assumes F: "find_clear_ok F" and G: "find_longest_ok G"
    and len: "0 < length (FreeClusterBitMap s)" "length (FreeClusterBitMap s) < 2 ^ 31"
    and R: "ClustersRemaining L \<noteq> 0" and L: "ClustersFound L = 0" "\<not> SelectNextContigWindow L" "WindowRelativeHint L = 0"
  shows "found_ok s L (FatAllocate_anywhere F G s L)"
proof -
  let ?bm = "FreeClusterBitMap s"
  define L1 where "L1 = (if ClustersRemaining L \<le> ClustersFree (Windows s ! CurrentWindow s)
                then let i = F ?bm (ClustersRemaining L) 0
                     in if i \<noteq> -1 then L\<lparr>RunIndex := i, ClustersFound := ClustersRemaining L\<rparr> else L\<lparr>RunIndex := i\<rparr>
                else L)"
  define L2 where "L2 = (if ClustersFound L1 = 0
                then let (n, i) = G ?bm in L1\<lparr>RunIndex := i, ClustersFound := n\<rparr> else L1)"
  have eq: "FatAllocate_anywhere F G s L = (if ClustersFound L2 \<ge> ClustersRemaining L2 then L2\<lparr>ClustersFound := ClustersRemaining L2\<rparr>
         else if RunIndex L2 + ClustersFound L2 = of_nat (length ?bm) \<and> FatIsFat32 s
         then L2\<lparr>WindowRelativeHint := 2, SelectNextContigWindow := True\<rparr> else L2)"
    unfolding FatAllocate_anywhere_def L2_def L1_def Let_def by (rule refl)
  have L1: "L1 = L\<lparr>RunIndex := RunIndex L1, ClustersFound := ClustersFound L1\<rparr>"
    by (simp add: L1_def Let_def)
  have c1: "clear_run ?bm (unat (RunIndex L1)) (unat (ClustersFound L1))" if "ClustersFound L1 \<noteq> 0"
  proof -
    have "ClustersRemaining L > 0" "length ?bm < 2 ^ 32 - 1" using R len by (simp_all add: word_neq_0_conv)
    from F[unfolded find_clear_ok_def, rule_format, OF conjI[OF this], of 0] that show ?thesis
      using L(1) by (auto simp: L1_def Let_def split: if_splits)
  qed
  obtain n i where g: "G ?bm = (n, i)" by force
  have L2: "L2 = L\<lparr>RunIndex := RunIndex L2, ClustersFound := ClustersFound L2\<rparr>"
    unfolding L2_def g by (subst (1 2 3 4) L1) (simp add: Let_def)
  have "length ?bm < 2 ^ 32 - 1" using len by simp
  note gg = find_longestD[OF G this g]
  have c2: "ClustersFound L2 \<noteq> 0 \<Longrightarrow> clear_run ?bm (unat (RunIndex L2)) (unat (ClustersFound L2))"
    and n2: "ClustersFound L2 = 0 \<Longrightarrow> False \<notin> set ?bm"
    using c1 gg by (auto simp: L2_def g split: if_splits)
  define i n where "i = RunIndex L2" and "n = ClustersFound L2"
  have L2': "L2 = L\<lparr>RunIndex := i, ClustersFound := n\<rparr>" using L2 by (simp add: i_def n_def)
  have res: "found_ok s L (if n \<ge> ClustersRemaining L then L\<lparr>RunIndex := i, ClustersFound := ClustersRemaining L\<rparr>
         else if i + n = of_nat (length ?bm) \<and> FatIsFat32 s
         then L\<lparr>RunIndex := i, ClustersFound := n, WindowRelativeHint := 2, SelectNextContigWindow := True\<rparr>
         else L\<lparr>RunIndex := i, ClustersFound := n\<rparr>)"
  proof (cases "n \<ge> ClustersRemaining L")
    case True
    then have "n \<noteq> 0" using R by auto
    then have "clear_run ?bm (unat i) (unat (ClustersRemaining L))"
      using c2 True by (auto simp: i_def n_def word_le_nat intro: clear_run_le)
    then show ?thesis using True L R by (simp add: found_ok_def)
  next
    case False
    then have nr: "n \<le> ClustersRemaining L" by simp
    have c: "n \<noteq> 0 \<Longrightarrow> clear_run ?bm (unat i) (unat n)" "n = 0 \<Longrightarrow> False \<notin> set ?bm" using c2 n2 by (simp_all add: i_def n_def)
    show ?thesis using False nr c L len by (auto simp: found_ok_def)
  qed
  show ?thesis unfolding eq L2' using res by (simp cong: if_cong)
qed

lemma FatAllocate_search_found:
  assumes F: "find_clear_ok F" and G: "find_longest_ok G"
    and len: "0 < length (FreeClusterBitMap s)" "length (FreeClusterBitMap s) < 2 ^ 31"
    and R: "ClustersRemaining L \<noteq> 0" and h: "hint_in s L"
    and r: "FatAllocate_search F G Exact s L = (leave, L1)"
  shows "(leave \<longrightarrow> Exact \<and> L1 = L\<lparr>ClustersFound := 0\<rparr>) \<and> (\<not> leave \<longrightarrow> found_ok s L L1 \<and> (SelectNextContigWindow L \<longrightarrow> ClustersFound L1 = 0))"
proof -
  define L0 where "L0 = L\<lparr>ClustersFound := 0\<rparr>"
  have L0: "ClustersFound L0 = 0" "ClustersRemaining L0 \<noteq> 0" "hint_in s L0" "WindowRelativeHint L0 = WindowRelativeHint L"
    "SelectNextContigWindow L0 = SelectNextContigWindow L"
    using R h by (simp_all add: L0_def hint_in_def)
  have tr: "found_ok s L x" if "found_ok s L0 x" for x
    using that unfolding found_ok_def L0_def by simp
  have tr2: "found_ok s L0 x" if "found_ok s (L0\<lparr>WindowRelativeHint := 0\<rparr>) x" for x
    using that unfolding found_ok_def by simp
  show ?thesis
  proof (cases "SelectNextContigWindow L")
    case True
    then have e: "\<not> leave" "L1 = L0" using r by (simp_all add: FatAllocate_search_def L0_def Let_def)
    have "found_ok s L0 L0" using L0 h True unfolding found_ok_def hint_in_def by simp
    then show ?thesis using e tr L0 by simp
  next
    case sel: False
    show ?thesis
    proof (cases "WindowRelativeHint L = 0")
      case True
      then have e: "\<not> leave" "L1 = FatAllocate_anywhere F G s L0"
        using r sel L0 by (simp_all add: FatAllocate_search_def L0_def[symmetric])
      show ?thesis using tr[OF FatAllocate_anywhere_found[OF F G len, of L0]] L0 True sel e by simp
    next
      case False
      obtain lv L2 where ah: "FatAllocate_at_hint Exact s L0 = (lv, L2)" by force
      have r': "(if lv then (True, L2) else (False, if WindowRelativeHint L2 = 0 \<and> ClustersFound L2 = 0
                            then FatAllocate_anywhere F G s L2 else L2)) = (leave, L1)"
        using r sel L0 False by (simp add: FatAllocate_search_def L0_def[symmetric] ah)
      have sel0: "\<not> SelectNextContigWindow L0" "WindowRelativeHint L0 \<noteq> 0" using sel False L0 by simp_all
      from FatAllocate_at_hint_found[OF len L0(3) sel0(2) L0(2,1) sel0(1) ah] show ?thesis
      proof (elim disjE conjE)
        assume "lv" "Exact" "L2 = L0"
        then show ?thesis using r' by (simp add: L0_def)
      next
        assume a: "\<not> lv" "ClustersFound L2 = 0" "L2 = L0\<lparr>WindowRelativeHint := 0\<rparr>"
        then have "L1 = FatAllocate_anywhere F G s L2" "\<not> leave" using r' by auto
        then show ?thesis
          using tr[OF tr2, of L1] FatAllocate_anywhere_found[OF F G len, of L2] L0 sel a(2,3) by simp
      next
        assume "\<not> lv" "ClustersFound L2 \<noteq> 0" "found_ok s L0 L2"
        then show ?thesis using r' tr sel by auto
      qed
    qed
  qed
qed

section \<open>The change of window\<close>

lemma holding_wait [simp]: "holding s0 cl R (s\<lparr>IrpContextWait := b\<rparr>) = holding s0 cl R s"
  by (simp add: holding_def alloc_frame_def chain_in_def FatEntryOf_def synced_def windows_ok_def FatGiveFree_def vcb_ok_def
      win_lo_def win_hi_def win_size_def)

lemma many_windows:
  assumes "windows_ok s" "NumberOfWindows s \<noteq> 1"
  shows "vcb_bits s = 32" "NumberOfWindows s > 1"
proof -
  have nw: "unat (NumberOfWindows s) = (vcb_N s + win_size s - 1) div win_size s" "0 < unat (NumberOfWindows s)" "0 < vcb_N s"
    using assms(1) by (auto simp: windows_ok_def)
  have n1: "unat (NumberOfWindows s) \<noteq> 1" using assms(2) by (metis unat_1 word_unat_eq_iff)
  then show "NumberOfWindows s > 1" using nw(2) by (simp add: word_less_nat)
  show "vcb_bits s = 32"
  proof (rule ccontr)
    assume "vcb_bits s \<noteq> 32"
    then have "unat (NumberOfWindows s) = (vcb_N s + vcb_N s - 1) div vcb_N s" using nw(1) by (simp add: win_size_def)
    also have "\<dots> = 1" using nw(3) by (intro div_nat_eqI) simp_all
    finally show False using n1 by simp
  qed
qed

lemma window_switch:
  assumes h: "holding s0 cl R s" and nw: "NumberOfWindows s \<noteq> 1" and w: "w < length (Windows s)"
    and run: "FatExamineFatEntries Pool 0 0 False (Some w) None s = (r, t)"
  shows "\<And>e. r = Inl e \<Longrightarrow> Some e \<in> set (KernelResults s)"
    and "\<And>x. r = Inr x \<Longrightarrow> holding s0 cl R t \<and> CurrentWindow t = w \<and> Windows t = Windows s
      \<and> AllocationSupport t = AllocationSupport s \<and> set (KernelResults t) \<subseteq> set (KernelResults s)"
proof -
  have vok: "vcb_ok s" and fr: "alloc_frame s0 s" and ch: "chain_in s0 cl s" and sy: "synced (fat_entries s) (FatGiveFree R s)"
    using h by (simp_all add: holding_def)
  have ok: "windows_ok s" using synced_bits(7)[OF sy] by simp
  note m = many_windows[OF ok nw]
  note ww = win_of_window[OF ok w] and lh = win_lo_hi[OF ok w]
  have W: "win_size s = 65536" using m(1) by (simp add: win_size_def)
  have lo: "win_lo s w = 65536 * w + 2" by (simp add: win_lo_def W)
  have "(65536 * w + 2) mod 32 = 2" by presburger
  then have so: "scan_start_ok s (win_lo s w)" using m(1) by (simp add: scan_start_ok_def lo)
  have rg: "window_range s w = [win_lo s w..<win_hi s w]" using ww lh by (simp add: window_range_def)
  have c: "FirstCluster (Windows s ! w) \<le> LastCluster (Windows s ! w)" "unat (LastCluster (Windows s ! w)) \<le> vcb_N s + 1"
    "scan_start_ok s (unat (FirstCluster (Windows s ! w)))"
    using ww(1,2) lh so by (auto simp: word_le_nat)
  note o = switch_outcome[OF vok w c run]
  show "\<And>e. r = Inl e \<Longrightarrow> Some e \<in> set (KernelResults s)" using o by auto
  fix x assume r: "r = Inr x"
  have kr: "set (KernelResults t) \<subseteq> set (KernelResults s)"
    using FatExamineFatEntries_out[of False None "Some w" s Pool 0 0] run by simp
  have o': "FreeClusterBitMap t = map (\<lambda>j. fat_entries s j \<noteq> 0) [win_lo s w..<win_hi s w]"
    "CurrentWindow t = w" "ClusterHint t = -1" "Windows t = Windows s"
    "NumberOfFreeClusters (AllocationSupport t) = NumberOfFreeClusters (AllocationSupport s)"
    "VolumeFile t = VolumeFile s" "Bpb t = Bpb s"
    using o m unfolding r rg by simp_all
  have sf: "scan_frame (s\<lparr>FreeClusterBitMap := FreeClusterBitMap t, CurrentWindow := w, ClusterHint := -1\<rparr>) t"
    using o unfolding r sum.case by blast
  have A0: "(AllocationSupport t)\<lparr>NumberOfFreeClusters := 0\<rparr> = (AllocationSupport s)\<lparr>NumberOfFreeClusters := 0\<rparr>"
    using sf unfolding scan_frame_def by (drule_tac arg_cong[where f = AllocationSupport]) (simp add: scan_strip_def)
  have A: "AllocationSupport t = AllocationSupport s"
    using A0 o'(5) by (cases "AllocationSupport t"; cases "AllocationSupport s") simp
  have NW: "NumberOfWindows t = NumberOfWindows s" using scan_frameD(4)[OF sf] by simp
  have e: "FatEntryOf t = FatEntryOf s" by (simp add: fun_eq_iff FatEntryOf_def A o'(6,7))
  have geo: "win_lo t = win_lo s" "win_hi t = win_hi s" "win_size t = win_size s"
    by (auto simp: fun_eq_iff win_lo_def win_hi_def win_size_def A)
  have okt: "windows_ok t" using ok w unfolding windows_ok_def geo o'(2,4) A NW by blast
  have "synced (fat_entries t) (FatGiveFree R t)"
    using sy okt unfolding synced_def e give_simps geo o'(2,3,4) A o'(1) by blast
  moreover have "vcb_ok t" using vok by (simp add: vcb_ok_def A o'(7))
  moreover have "alloc_frame s0 t" using fr kr unfolding alloc_frame_def A NW o'(7) by blast
  moreover have "chain_in s0 cl t" using ch unfolding chain_in_def e .
  ultimately show "holding s0 cl R t \<and> CurrentWindow t = w \<and> Windows t = Windows s
      \<and> AllocationSupport t = AllocationSupport s \<and> set (KernelResults t) \<subseteq> set (KernelResults s)"
    using h o'(2,4) A kr by (simp add: holding_def)
qed

text \<open>While clusters are free, the window chosen has free clusters.\<close>

lemma fold_max_ge: "f \<in> set fs \<Longrightarrow> f \<le> fold max fs (m :: nat)" "m \<le> fold max fs m"
proof -
  have "fold max fs m = Max (set (m # fs))" by (simp only: Max.set_eq_fold)
  then show "f \<in> set fs \<Longrightarrow> f \<le> fold max fs m" "m \<le> fold max fs m" by simp_all
qed

lemma best_window_pos:
  assumes "f \<in> set fs" "0 < f"
  shows "best_window fs < length fs" "0 < fs ! best_window fs"
proof -
  have m: "fold max fs 0 \<in> set fs"
  proof -
    have "fold max fs 0 = Max (set (0 # fs))" by (simp only: Max.set_eq_fold)
    also have "\<dots> \<in> set (0 # fs)" by (rule Max_in) simp_all
    finally show ?thesis using fold_max_ge(1)[OF assms(1), of 0] assms(2) by auto
  qed
  have "best_window fs < length fs \<and> 0 < fs ! best_window fs"
  proof (cases "first_index (\<lambda>f. 0x8000 \<le> f \<and> f \<noteq> 0x10000) fs")
    case (Some i)
    then show ?thesis using first_index_Some[OF Some] by (auto simp: best_window_def)
  next
    case none: None
    show ?thesis
    proof (cases "first_index (\<lambda>f. f = 0x10000) fs")
      case (Some i)
      then show ?thesis using none first_index_Some[OF Some] by (simp add: best_window_def)
    next
      case None
      obtain k where k: "first_index (\<lambda>f. f = fold max fs 0) fs = Some k"
        using m first_index_None[of "\<lambda>f. f = fold max fs 0" fs] by auto
      have "0 < fold max fs 0" using fold_max_ge(1)[OF assms(1), of 0] assms(2) by simp
      then show ?thesis using none None first_index_Some[OF k] k by (simp add: best_window_def)
    qed
  qed
  then show "best_window fs < length fs" "0 < fs ! best_window fs" by blast+
qed

lemma best_window_free:
  assumes sy: "synced e s" and nw: "NumberOfWindows s \<noteq> 1" and free: "NumberOfFreeClusters (AllocationSupport s) \<noteq> 0"
  shows "unat (FatSelectBestWindow s) < length (Windows s)" "ClustersFree (Windows s ! unat (FatSelectBestWindow s)) \<noteq> 0"
proof -
  have ok: "windows_ok s" using sy by (simp add: synced_def)
  have W: "win_size s = 65536" using many_windows(1)[OF ok nw] by (simp add: win_size_def)
  have fr: "unat (ClustersFree (Windows s ! v)) = free_in e (win_lo s v) (win_hi s v)" if "v < length (Windows s)" for v
    using sy that by (simp add: synced_def)
  have "unat (NumberOfFreeClusters (AllocationSupport s)) = free_in e 2 (vcb_N s + 2)" using sy by (simp add: synced_def)
  moreover have "unat (NumberOfFreeClusters (AllocationSupport s)) \<noteq> 0" using free by (metis unat_0 word_unat_eq_iff)
  ultimately have "0 < free_in e 2 (vcb_N s + 2)" by simp
  then have "{j. 2 \<le> j \<and> j < vcb_N s + 2 \<and> e j = 0} \<noteq> {}" unfolding free_in_card by (auto simp: card_gt_0_iff)
  then obtain j where j: "2 \<le> j" "j < vcb_N s + 2" "e j = 0" by blast
  define v where "v = (j - 2) div win_size s"
  note v = win_index[OF ok j(1,2), folded v_def]
  have "j \<in> {j. win_lo s v \<le> j \<and> j < win_hi s v \<and> e j = 0}" using v j by simp
  moreover have "finite {j. win_lo s v \<le> j \<and> j < win_hi s v \<and> e j = 0}" by simp
  ultimately have "0 < free_in e (win_lo s v) (win_hi s v)" unfolding free_in_card by (auto simp: card_gt_0_iff)
  then have p: "0 < unat (ClustersFree (Windows s ! v))" using fr v(1) by simp
  have len: "0 < length (Windows s)" "length (Windows s) < 2 ^ 32" "unat (NumberOfWindows s) = length (Windows s)"
    using ok v(1) unat_lt32[of "NumberOfWindows s"] by (auto simp: windows_ok_def)
  have le: "\<forall>W\<in>set (Windows s). ClustersFree W \<le> MAX_CLUSTER_BITMAP_SIZE"
  proof
    fix X assume "X \<in> set (Windows s)"
    then obtain k where k: "k < length (Windows s)" "X = Windows s ! k" by (auto simp: in_set_conv_nth)
    have "free_in e (win_lo s k) (win_hi s k) \<le> win_hi s k - win_lo s k" by (rule free_in_le)
    also have "\<dots> \<le> 65536" by (simp add: win_hi_def win_lo_def W)
    finally show "ClustersFree X \<le> MAX_CLUSTER_BITMAP_SIZE"
      using fr[OF k(1)] k(2) by (simp add: word_le_nat)
  qed
  let ?fs = "frees (Windows s)"
  have "unat (ClustersFree (Windows s ! v)) \<in> set ?fs" using v(1) by (auto intro!: image_eqI nth_mem)
  note b = best_window_pos[OF this p]
  have "unat (FatSelectBestWindow s) = best_window ?fs"
    unfolding FatSelectBestWindow_eq[OF len le] using b(1) len(2) by (intro unat_of_nat_small) simp
  then show "unat (FatSelectBestWindow s) < length (Windows s)" "ClustersFree (Windows s ! unat (FatSelectBestWindow s)) \<noteq> 0"
    using b by (simp_all add: unat_gt_0 flip: word_neq_0_conv)
qed

section \<open>One round\<close>

definition run_clusters :: "(ULONG \<times> ULONG) list \<Rightarrow> nat list" where
  "run_clusters rs = concat (map (\<lambda>r. [unat (fst r)..<unat (fst r) + unat (snd r)]) rs)"

lemma run_clusters_simps [simp]: "run_clusters [] = []"
  "run_clusters (rs @ [(c, n)]) = run_clusters rs @ [unat c..<unat c + unat n]"
  by (simp_all add: run_clusters_def)

text \<open>The Mcb after runs have been added to it one after the other, with the next Vbo.\<close>

definition alloc_add :: "VCB \<Rightarrow> ULONG \<times> ULONG \<Rightarrow> LARGE_MCB \<times> ULONG \<Rightarrow> LARGE_MCB \<times> ULONG" where
  "alloc_add s r = (\<lambda>(M, v). let b = push_bit (unat (LogOfBytesPerCluster (AllocationSupport s))) (snd r)
     in (FatAddMcbEntry s M v (FatGetLboFromIndex s (fst r)) b, v + b))"

text \<open>
  The invariant of the loop: the runs \<open>rs\<close> have been taken, linked and entered in the Mcb \<open>M\<close>,
  and with the clusters that remain they make up the \<open>C\<close> clusters of the request.
\<close>

definition alloc_inv :: "VCB \<Rightarrow> LARGE_MCB \<Rightarrow> nat \<Rightarrow> (ULONG \<times> ULONG) list \<Rightarrow> VCB \<times> ALLOCATE \<Rightarrow> bool" where
  "alloc_inv s0 M C rs sl \<longleftrightarrow> (case sl of (s, L) \<Rightarrow>
     holding s0 (run_clusters rs) (ClustersRemaining L) s
   \<and> length (run_clusters rs) + unat (ClustersRemaining L) = C
   \<and> PriorLastCluster L = (if run_clusters rs = [] then 0 else of_nat (last (run_clusters rs)))
   \<and> fold (alloc_add s0) rs (M, 0) = (AllocMcb L, CurrentVbo L)
   \<and> hint_in s L)"

lemma add_mcb_frame: "alloc_frame s0 s \<Longrightarrow> FatAddMcbEntry s = FatAddMcbEntry s0"
  using alloc_frameD(6,13)[of s0 s] by (simp add: fun_eq_iff FatAddMcbEntry_def)

lemma FatSetFatEntry_raises:
  assumes "vcb_ok s" "index_ok s i" "i \<noteq> FAT_DIRTY_BIT_INDEX" "FatSetFatEntry i v s = (Inl e, t)"
  shows "Some e \<in> set (KernelResults s)"
proof -
  have "set_outcome s (fat_set (vcb_bits s) (vcb_R s) (VolumeFile s) i v)
        (store_calls (vcb_bits s) (MCB_SCALE_LOG2 s) (vcb_R s) i) False True (Inl e) t"
    using FatSetFatEntry_cluster[OF assms(1,3,4)] assms(2) by blast
  from set_outcome_frame(18)[OF this refl] show ?thesis .
qed

lemma KernelCall_frame: "KernelCall s = (r, t) \<Longrightarrow> fat_strip t = fat_strip s \<and> VolumeFile t = VolumeFile s
    \<and> set (KernelResults t) \<subseteq> set (KernelResults s) \<and> (\<forall>e. r = Inl e \<longrightarrow> Some e \<in> set (KernelResults s))"
  by (auto simp: KernelCall_eq fat_strip_def dest: set_tl kres_Inl)

definition take_calls :: "ULONG \<Rightarrow> ULONG \<Rightarrow> ULONG \<Rightarrow> (VCB, unit) fat_op" where
  "take_calls P c n = seq KernelCall (\<lambda>_. seq (if P \<noteq> 0 then FatSetFatEntry P c else ret ()) (\<lambda>_. FatAllocateClusters c n))"

lemma take_calls_outcome:
  assumes F: "find_clear_ok F" and l: "links_ok s0" and h: "holding s0 cl R s" and n: "0 < unat n" "unat n \<le> unat R"
    and run: "clear_run (FreeClusterBitMap s) (unat i) (unat n)"
    and c: "c = i + FirstCluster (Windows s ! CurrentWindow s)"
    and s1: "s1 = FatUpdateWindow (CurrentWindow s) (\<lambda>W. W\<lparr>ClustersFree := ClustersFree W - n\<rparr>) (FatReserveClusters F (i + 2) n s)"
    and P: "P = (if cl = [] then 0 else of_nat (last cl))"
    and res: "take_calls P c n s1 = (r, t)"
  shows "\<And>e. r = Inl e \<Longrightarrow> \<exists>e'. Some e' \<in> set (KernelResults s)"
    and "r = Inr () \<Longrightarrow> holding s0 (cl @ [unat c..<unat c + unat n]) (R - n) t \<and> 2 \<le> unat c
      \<and> length (FreeClusterBitMap t) = length (FreeClusterBitMap s) \<and> vcb_bits t = vcb_bits s"
proof -
  have vok: "vcb_ok s" and fr: "alloc_frame s0 s" and ch: "chain_in s0 cl s" and sy: "synced (fat_entries s) (FatGiveFree R s)"
    using h by (simp_all add: holding_def)
  have N: "vcb_N s = vcb_N s0" "vcb_bits s = vcb_bits s0" using alloc_frameD[OF fr] by simp_all
  define lo where "lo = win_lo s (CurrentWindow s)"
  note b = synced_bits[OF sy, simplified, folded lo_def]
  note cr = clear_run_window[OF sy, of "unat i" "unat n", simplified, OF run, folded lo_def]
  have uc: "unat c = lo + unat i" using b(9) cr(1) b(6) unfolding c by (subst unat_add_small) simp_all
  have cc: "2 \<le> unat c" "unat c + unat n \<le> vcb_N s0 + 2" using uc b(3,5) cr(1) N by simp_all
  note re = FatReserve_synced[OF F sy n run uc[unfolded lo_def] s1]
  note cf = counts_frameD[OF re(1)]
  obtain k s2 where k: "KernelCall s1 = (k, s2)" by force
  note kf = KernelCall_frame[OF k]
  obtain r3 s3 where 3: "(if P \<noteq> 0 then FatSetFatEntry P c else ret ()) s2 = (r3, s3)" by force
  have ff2: "fat_strip s2 = fat_strip s1" using kf by blast
  note ff2 = fat_strip_fields[OF ff2]
  have ok2: "vcb_ok s2" using vok by (simp add: ff2(10) cf(11))
  have A2: "AllocationSupport s2 = AllocationSupport s" by (simp add: ff2(2) re(3))
  have k3: "keeps (\<lambda>t. fat_strip t = S) (if P \<noteq> 0 then FatSetFatEntry P c else ret ())" for S
    by (intro keeps_intros strip.keeps_FatSetFatEntry)
  have k3': "keeps (\<lambda>t. set (KernelResults t) \<subseteq> A) (if P \<noteq> 0 then FatSetFatEntry P c else ret ())" for A
    by (intro keeps_intros kernel.keeps_FatSetFatEntry)
  have st3: "fat_strip s3 = fat_strip s2" by (rule stripD[OF k3 3])
  have kr3: "set (KernelResults s3) \<subseteq> set (KernelResults s2)" by (rule keepsD[OF k3' _ 3]) simp
  note ff3 = fat_strip_fields[OF st3]
  have ok3: "vcb_ok s3" using ok2 by (simp add: ff3(10))
  have KRs: "set (KernelResults s2) \<subseteq> set (KernelResults s)" using kf cf(3) by simp
  have raise3: "\<exists>e'. Some e' \<in> set (KernelResults s)" if "r3 = Inl e" for e
  proof -
    have P0: "P \<noteq> 0" using 3 that by (auto split: if_splits)
    then have ne: "cl \<noteq> []" using P by auto
    have "2 \<le> last cl" "last cl < vcb_N s0 + 2" using ch last_in_set[OF ne] by (auto simp: chain_in_def)
    moreover from link_small(1)[OF l this(2)] have "unat P = last cl" using P ne by simp
    ultimately have "index_ok s2 P" "P \<noteq> FAT_DIRTY_BIT_INDEX"
      by (auto simp: index_ok_def A2 N(1))
    moreover have "FatSetFatEntry P c s2 = (Inl e, s3)" using 3 P0 that by simp
    ultimately have "Some e \<in> set (KernelResults s2)" by (rule FatSetFatEntry_raises[OF ok2])
    then show ?thesis using KRs by blast
  qed
  have ri: "run_in s3 (c, n)" using cc n N by (simp add: run_in_def ff3(2) A2)
  have res': "seq KernelCall (\<lambda>_. seq (if P \<noteq> 0 then FatSetFatEntry P c else ret ()) (\<lambda>_. FatAllocateClusters c n)) s1 = (r, t)"
    using res by (simp add: take_calls_def)
  show "\<exists>e'. Some e' \<in> set (KernelResults s)" if e: "r = Inl e" for e
    using res'[unfolded e seq_eq_Inl k 3]
  proof (elim disjE exE conjE)
    fix x sa xa sb
    assume a: "(k, s2) = (Inr x, sa)" and b: "(if P \<noteq> 0 then FatSetFatEntry P c else ret ()) sa = (Inr xa, sb)"
      and cl: "FatAllocateClusters c n sb = (Inl e, t)"
    then have "FatClusters True (fst (c, n)) (snd (c, n)) s3 = (Inl e, t)" using 3 by (simp add: FatFree_eq)
    from FatClusters_kernel[OF ok3 ri this] kr3 KRs show ?thesis by blast
  qed (use raise3 kf cf(3) 3 in auto)
  assume r: "r = Inr ()"
  from res'[unfolded r seq_eq_Inr] k 3 have cl: "FatAllocateClusters c n s3 = (Inr (), t)" and r3: "r3 = Inr ()" by auto
  have kf': "fat_strip s2 = fat_strip s1" "VolumeFile s2 = VolumeFile s1" "set (KernelResults s2) \<subseteq> set (KernelResults s1)"
    using kf by blast+
  note hl = holding_link[OF F l h n run c s1 kf' 3[unfolded r3] P cl]
  show "holding s0 (cl @ [unat c..<unat c + unat n]) (R - n) t \<and> 2 \<le> unat c
      \<and> length (FreeClusterBitMap t) = length (FreeClusterBitMap s) \<and> vcb_bits t = vcb_bits s"
    using hl by simp
qed

lemma seq_on_vcb: "seq (on_vcb m) k (s, L) = (case m s of (Inl e, t) \<Rightarrow> (Inl e, (t, L)) | (Inr x, t) \<Rightarrow> k x (t, L))"
  by (simp add: seq_def on_vcb_def split: prod.splits sum.splits)

lemma seq_locals: "seq (locals f) k (s, L) = k () (s, f s L)"
  by (simp add: seq_def locals_def)

lemma if_on_vcb: "(if b then on_vcb m else ret ()) = on_vcb (if b then m else ret ())"
  by (simp add: fun_eq_iff on_vcb_def ret_def)

lemma FatAllocate_take_eq:
  assumes "w = CurrentWindow s" "c = RunIndex L + FirstCluster (Windows s ! w)" "n = ClustersFound L"
    and "b = push_bit (unat (LogOfBytesPerCluster (AllocationSupport s))) n"
    and "s1 = FatUpdateWindow w (\<lambda>W. W\<lparr>ClustersFree := ClustersFree W - n\<rparr>) (FatReserveClusters F (RunIndex L + 2) n s)"
  defines "L1 \<equiv> L\<lparr>AllocWindow := w, Cluster := c, BytesFound := b, LockedBitMap := False\<rparr>"
  shows "FatAllocate_take F (s, L) =
    (case KernelCall s1 of (Inl e, s2) \<Rightarrow> (Inl e, (s2, L1)) | (Inr _, s2) \<Rightarrow>
       (let L2 = L1\<lparr>AllocMcb := FatAddMcbEntry s2 (AllocMcb L) (CurrentVbo L) (FatGetLboFromIndex s2 c) b\<rparr>
        in case (if PriorLastCluster L \<noteq> 0 then FatSetFatEntry (PriorLastCluster L) c else ret ()) s2 of
             (Inl e, s3) \<Rightarrow> (Inl e, (s3, L2))
           | (Inr _, s3) \<Rightarrow>
               (case FatAllocateClusters c n s3 of
                  (Inl e, s4) \<Rightarrow> (Inl e, (s4, L2))
                | (Inr _, s4) \<Rightarrow> (Inr False, (s4, L2\<lparr>CurrentVbo := CurrentVbo L + b, PriorLastCluster := c + n - 1,
                      ClustersRemaining := ClustersRemaining L - n\<rparr>)))))"
  unfolding FatAllocate_take_def Let_def prod.case seq_on_vcb if_on_vcb L1_def assms(1-5)
  by (simp add: seq_on_vcb seq_locals if_on_vcb Let_def split: prod.splits sum.splits)

lemma FatAllocate_take_outcome:
  assumes F: "find_clear_ok F" and l: "links_ok s0" and inv: "alloc_inv s0 M C rs (s, L)"
    and n: "ClustersFound L \<noteq> 0" "ClustersFound L \<le> ClustersRemaining L"
    and run: "clear_run (FreeClusterBitMap s) (unat (RunIndex L)) (unat (ClustersFound L))"
    and res: "FatAllocate_take F (s, L) = (r, (t, L'))"
  shows "(\<exists>e. r = Inl e) \<and> (\<exists>e'. Some e' \<in> set (KernelResults s)) \<or>
    r = Inr False \<and> (\<exists>q. alloc_inv s0 M C (rs @ [q]) (t, L')) \<and> ClustersRemaining L' = ClustersRemaining L - ClustersFound L
      \<and> AllocByteCount L' = AllocByteCount L \<and> SelectNextContigWindow L' = SelectNextContigWindow L"
proof -
  let ?cl = "run_clusters rs" and ?n = "ClustersFound L"
  have h: "holding s0 ?cl (ClustersRemaining L) s" and len: "length ?cl + unat (ClustersRemaining L) = C"
    and P: "PriorLastCluster L = (if ?cl = [] then 0 else of_nat (last ?cl))"
    and mcb: "fold (alloc_add s0) rs (M, 0) = (AllocMcb L, CurrentVbo L)" and hint: "hint_in s L"
    using inv by (simp_all add: alloc_inv_def)
  have n': "0 < unat ?n" "unat ?n \<le> unat (ClustersRemaining L)" using n by (simp_all add: word_le_nat unat_gt_0)
  define w where "w = CurrentWindow s"
  define c where "c = RunIndex L + FirstCluster (Windows s ! w)"
  define b where "b = push_bit (unat (LogOfBytesPerCluster (AllocationSupport s))) ?n"
  define s1 where "s1 = FatUpdateWindow w (\<lambda>W. W\<lparr>ClustersFree := ClustersFree W - ?n\<rparr>) (FatReserveClusters F (RunIndex L + 2) ?n s)"
  obtain r' t' where tc: "take_calls (PriorLastCluster L) c ?n s1 = (r', t')" by force
  note o = take_calls_outcome[OF F l h n' run c_def[unfolded w_def] s1_def[unfolded w_def] P tc]
  have fr: "alloc_frame s0 s" using h by (simp add: holding_def)
  have cf: "alloc_frame s s1"
  proof -
    have "synced (fat_entries s) (FatGiveFree (ClustersRemaining L) s)" using h by (simp add: holding_def)
    from FatReserve_synced(1)[OF F this n' run refl s1_def[unfolded w_def]] show ?thesis by (rule alloc_frame_counts)
  qed
  obtain k s2 where k: "KernelCall s1 = (k, s2)" by force
  obtain r3 s3 where 3: "(if PriorLastCluster L \<noteq> 0 then FatSetFatEntry (PriorLastCluster L) c else ret ()) s2 = (r3, s3)" by force
  obtain r4 s4 where 4: "FatAllocateClusters c ?n s3 = (r4, s4)" by force
  have fr2: "alloc_frame s0 s2" using KernelCall_frame[OF k] alloc_frame_strip alloc_frame_trans[OF alloc_frame_trans[OF fr cf]] by blast
  note eq = FatAllocate_take_eq[OF w_def c_def refl b_def s1_def, unfolded k Let_def]
  have tc': "seq KernelCall (\<lambda>_. seq (if PriorLastCluster L \<noteq> 0 then FatSetFatEntry (PriorLastCluster L) c else ret ())
      (\<lambda>_. FatAllocateClusters c ?n)) s1 = (r', t')" using tc by (simp add: take_calls_def)
  show ?thesis
  proof (cases "\<exists>e. r' = Inl e")
    case True
    then have "\<exists>e. r = Inl e" using res eq tc' k 3 4
      by (cases k; cases r3; cases r4) (auto simp: seq_def)
    then show ?thesis using True o(1) by blast
  next
    case False
    then have r': "r' = Inr ()" by (cases r') auto
    have ok: "k = Inr ()" "r3 = Inr ()" "r4 = Inr ()" "s4 = t'"
      using tc'[unfolded r' seq_eq_Inr] k 3 4 by auto
    have e: "r = Inr False" "t = t'" "L' = L\<lparr>AllocWindow := w, Cluster := c, BytesFound := b, LockedBitMap := False,
        AllocMcb := FatAddMcbEntry s2 (AllocMcb L) (CurrentVbo L) (FatGetLboFromIndex s2 c) b,
        CurrentVbo := CurrentVbo L + b, PriorLastCluster := c + ?n - 1, ClustersRemaining := ClustersRemaining L - ?n\<rparr>"
      using res eq 3 4 unfolding ok by auto
    note h' = o(2)[OF r']
    have R: "unat (ClustersRemaining L - ?n) = unat (ClustersRemaining L) - unat ?n" using n(2) by (rule unat_sub_le)
    have last: "c + ?n - 1 = of_nat (last (run_clusters (rs @ [(c, ?n)])))"
      using n' by (simp add: of_nat_diff)
    have "alloc_inv s0 M C (rs @ [(c, ?n)]) (t, L')"
      unfolding alloc_inv_def prod.case
    proof (intro conjI)
      show "holding s0 (run_clusters (rs @ [(c, ?n)])) (ClustersRemaining L') t" using h' e by simp
      show "length (run_clusters (rs @ [(c, ?n)])) + unat (ClustersRemaining L') = C" using len n' e R by simp
      show "PriorLastCluster L' = (if run_clusters (rs @ [(c, ?n)]) = [] then 0 else of_nat (last (run_clusters (rs @ [(c, ?n)]))))"
        using n' e last by simp
      show "fold (alloc_add s0) (rs @ [(c, ?n)]) (M, 0) = (AllocMcb L', CurrentVbo L')"
        using mcb e alloc_frameD(7)[OF fr] alloc_frameD(8)[OF fr2] add_mcb_frame[OF fr2] by (simp add: alloc_add_def b_def Let_def)
      show "hint_in t L'" using hint e h' by (simp add: hint_in_def FatIsFat32_def)
    qed
    then show ?thesis using e by auto
  qed
qed

text \<open>Every round that goes on lowers this measure: clusters are taken, or the window is left for one with free clusters.\<close>

definition alloc_measure :: "VCB \<times> ALLOCATE \<Rightarrow> nat" where
  "alloc_measure sl = (case sl of (s, L) \<Rightarrow> 2 * unat (ClustersRemaining L)
     + (if SelectNextContigWindow L \<or> ClustersFree (Windows s ! CurrentWindow s) = 0 then 1 else 0))"

lemma no_free_bits:
  assumes sy: "synced e s" and none: "False \<notin> set (FreeClusterBitMap s)"
  shows "ClustersFree (Windows s ! CurrentWindow s) = 0"
    and "NumberOfWindows s = 1 \<Longrightarrow> NumberOfFreeClusters (AllocationSupport s) = 0"
proof -
  note b = synced_bits[OF sy]
  have "free_in e (win_lo s (CurrentWindow s)) (win_hi s (CurrentWindow s)) = 0"
    using none unfolding b(1) free_in_def by (force simp: filter_empty_conv)
  then show z: "ClustersFree (Windows s ! CurrentWindow s) = 0" using b(10) by (metis unat_0 word_unat_eq_iff)
  assume 1: "NumberOfWindows s = 1"
  have nw: "unat (NumberOfWindows s) = (vcb_N s + win_size s - 1) div win_size s" "0 < vcb_N s" "CurrentWindow s < unat (NumberOfWindows s)"
    using b(7) by (auto simp: windows_ok_def)
  then have cw: "CurrentWindow s = 0" "(vcb_N s + win_size s - 1) div win_size s = 1" using 1 by simp_all
  have W: "0 < win_size s" using nw(2) by (rule win_size_pos)
  have "vcb_N s \<le> win_size s"
  proof (rule ccontr)
    assume "\<not> vcb_N s \<le> win_size s"
    then have "2 * win_size s \<le> vcb_N s + win_size s - 1" using W by linarith
    then have "2 \<le> (vcb_N s + win_size s - 1) div win_size s" using W by (simp add: less_eq_div_iff_mult_less_eq)
    then show False using cw(2) by simp
  qed
  then have "win_lo s 0 = 2" "win_hi s 0 = vcb_N s + 2" by (simp_all add: win_lo_def win_hi_def)
  then have "free_in e 2 (vcb_N s + 2) = 0" using b(10) z cw(1) by simp
  then have "unat (NumberOfFreeClusters (AllocationSupport s)) = 0" using sy by (simp add: synced_def)
  then show "NumberOfFreeClusters (AllocationSupport s) = 0" by (metis unat_0 word_unat_eq_iff)
qed

lemma seq3_switch:
  "seq (on_vcb (modify f)) (\<lambda>_. seq (on_vcb m) (\<lambda>_. seq (on_vcb (modify g)) (\<lambda>_. ret False))) (s, L)
   = (case m (f s) of (Inl e, t) \<Rightarrow> (Inl e, (t, L)) | (Inr x, t) \<Rightarrow> (Inr False, (g t, L)))"
  by (auto simp: seq_def on_vcb_def modify_def ret_def split: prod.splits sum.splits)

lemma FatAllocate_switch_outcome:
  assumes inv: "alloc_inv s0 M C rs (s, L)" and R: "ClustersRemaining L \<noteq> 0" and nw: "NumberOfWindows s \<noteq> 1"
    and hint: "SelectNextContigWindow L \<or> WindowRelativeHint L = 0"
    and res: "FatAllocate_switch Pool Exact (s, L) = (r, (t, L'))"
  shows "(\<exists>e. r = Inl e) \<and> (\<exists>e'. Some e' \<in> set (KernelResults s)) \<or> r = Inr True \<and> Exact
    \<or> r = Inr False \<and> alloc_inv s0 M C rs (t, L') \<and> ClustersRemaining L' = ClustersRemaining L
      \<and> AllocByteCount L' = AllocByteCount L \<and> \<not> SelectNextContigWindow L' \<and> ClustersFree (Windows t ! CurrentWindow t) \<noteq> 0"
proof -
  let ?cl = "run_clusters rs" and ?R = "ClustersRemaining L"
  have h: "holding s0 ?cl ?R s" and len: "length ?cl + unat ?R = C"
    and P: "PriorLastCluster L = (if ?cl = [] then 0 else of_nat (last ?cl))"
    and mcb: "fold (alloc_add s0) rs (M, 0) = (AllocMcb L, CurrentVbo L)" and hi: "hint_in s L"
    using inv by (simp_all add: alloc_inv_def)
  have sy: "synced (fat_entries s) (FatGiveFree ?R s)" and le: "?R \<le> NumberOfFreeClusters (AllocationSupport s) + ?R"
    using h by (simp_all add: holding_def)
  have free: "NumberOfFreeClusters (AllocationSupport s) + ?R \<noteq> 0" using le R by auto
  have bw: "unat (FatSelectBestWindow s) < length (Windows s)" "ClustersFree (Windows s ! unat (FatSelectBestWindow s)) \<noteq> 0"
    using best_window_free[OF sy] nw free by (simp_all add: FatSelectBestWindow_def)
  have nwl: "unat (NumberOfWindows s) = length (Windows s)" using synced_bits(7)[OF sy] by (simp add: windows_ok_def)
  obtain lv w L1 where nx: "FatAllocate_next_window Exact s L = (lv, w, L1)" by (metis prod_cases3)
  have c: "lv \<and> Exact \<or> \<not> lv \<and> w < length (Windows s) \<and> ClustersFree (Windows s ! w) \<noteq> 0 \<and> \<not> SelectNextContigWindow L1
      \<and> (WindowRelativeHint L1 = 0 \<or> WindowRelativeHint L1 = 2)
      \<and> L1 = L\<lparr>WindowRelativeHint := WindowRelativeHint L1, SelectNextContigWindow := SelectNextContigWindow L1\<rparr>"
    using nx bw hint hi nwl by (auto simp: FatAllocate_next_window_def Let_def hint_in_def word_neq_0_conv split: if_splits)
  show ?thesis
  proof (cases lv)
    case True
    then have "r = Inr True" using res nw nx by (simp add: FatAllocate_switch_def)
    then show ?thesis using True c by blast
  next
    case False
    then have w: "w < length (Windows s)" "ClustersFree (Windows s ! w) \<noteq> 0" "\<not> SelectNextContigWindow L1"
      "WindowRelativeHint L1 = 0 \<or> WindowRelativeHint L1 = 2"
      "L1 = L\<lparr>WindowRelativeHint := WindowRelativeHint L1, SelectNextContigWindow := SelectNextContigWindow L1\<rparr>"
      using c by blast+
    obtain r1 t1 where e: "FatExamineFatEntries Pool 0 0 False (Some w) None (s\<lparr>IrpContextWait := True\<rparr>) = (r1, t1)" by force
    have h1: "holding s0 ?cl ?R (s\<lparr>IrpContextWait := True\<rparr>)" using h by simp
    note sw = window_switch[OF h1 _ _ e, simplified, OF nw w(1)]
    have res': "(case (r1, t1) of (Inl e, t) \<Rightarrow> (Inl e, (t, L1)) | (Inr x, t) \<Rightarrow> (Inr False,
        (if \<not> IrpContextWait s then t\<lparr>IrpContextWait := False\<rparr> else t, L1))) = (r, (t, L'))"
      using res nw nx False w(2) by (simp add: FatAllocate_switch_def seq3_switch e)
    show ?thesis
    proof (cases r1)
      case (Inl e)
      then show ?thesis using res' sw(1) by auto
    next
      case (Inr x)
      then have r: "r = Inr False" "L' = L1" "t = (if \<not> IrpContextWait s then t1\<lparr>IrpContextWait := False\<rparr> else t1)"
        using res' by auto
      note s1 = sw(2)[OF Inr]
      have t: "holding s0 ?cl ?R t" "CurrentWindow t = w" "Windows t = Windows s" using s1 r(3) by auto
      have "0 < length (FreeClusterBitMap t)" using synced_bits(2,4)[of "fat_entries t" "FatGiveFree ?R t"] t(1) by (simp add: holding_def)
      then have "hint_in t L1" using w(3,4) by (auto simp: hint_in_def)
      moreover have "ClustersRemaining L1 = ?R" "PriorLastCluster L1 = PriorLastCluster L" "AllocMcb L1 = AllocMcb L"
        "CurrentVbo L1 = CurrentVbo L" "AllocByteCount L1 = AllocByteCount L"
        by (subst w(5), simp)+
      ultimately show ?thesis using r t w len P mcb by (simp add: alloc_inv_def)
    qed
  qed
qed

lemma FatAllocate_round_outcome:
  assumes F: "find_clear_ok F" and G: "find_longest_ok G" and l: "links_ok s0"
    and inv: "alloc_inv s0 M C rs (s, L)" and R: "ClustersRemaining L \<noteq> 0"
    and res: "FatAllocate_round F G Pool Exact (s, L) = (r, (t, L'))"
  shows "(\<exists>e. r = Inl e) \<and> ((\<exists>e'. Some e' \<in> set (KernelResults s)) \<or> NumberOfWindows s = 1 \<and> FatIsFat32 s) \<or> r = Inr True \<and> Exact
    \<or> r = Inr False \<and> (\<exists>rs'. alloc_inv s0 M C rs' (t, L')) \<and> AllocByteCount L' = AllocByteCount L
      \<and> alloc_measure (t, L') < alloc_measure (s, L)"
proof -
  let ?cl = "run_clusters rs" and ?R = "ClustersRemaining L"
  have h: "holding s0 ?cl ?R s" and hi: "hint_in s L" using inv by (simp_all add: alloc_inv_def)
  have sy: "synced (fat_entries s) (FatGiveFree ?R s)" and le: "?R \<le> NumberOfFreeClusters (AllocationSupport s) + ?R"
    using h by (simp_all add: holding_def)
  have bm: "0 < length (FreeClusterBitMap s)" "length (FreeClusterBitMap s) < 2 ^ 31"
    using synced_bits(2,4,6)[OF sy] by simp_all
  define L0 where "L0 = L\<lparr>LockedBitMap := True\<rparr>"
  have L0: "ClustersRemaining L0 = ?R" "hint_in s L0" "SelectNextContigWindow L0 = SelectNextContigWindow L"
    "AllocByteCount L0 = AllocByteCount L"
    using hi by (simp_all add: L0_def hint_in_def)
  obtain lv L1 where se: "FatAllocate_search F G Exact s L0 = (lv, L1)" by force
  have f: "(lv \<longrightarrow> Exact) \<and> (\<not> lv \<longrightarrow> found_ok s L0 L1 \<and> (SelectNextContigWindow L0 \<longrightarrow> ClustersFound L1 = 0))"
    using FatAllocate_search_found[OF F G bm _ L0(2) se] R L0(1) by auto
  have r: "(if lv then (Inr True, (s, L1)) else if ClustersFound L1 = 0 then FatAllocate_switch Pool Exact (s, L1)
      else FatAllocate_take F (s, L1)) = (r, (t, L'))"
    using res by (simp add: FatAllocate_round_def L0_def[symmetric] se)
  show ?thesis
  proof (cases lv)
    case True
    then show ?thesis using r f by auto
  next
    case False
    then have fo: "found_ok s L0 L1" and sel: "SelectNextContigWindow L \<Longrightarrow> ClustersFound L1 = 0" using f L0 by auto
    have L1: "L1 = L0\<lparr>WindowRelativeHint := WindowRelativeHint L1, RunIndex := RunIndex L1, ClustersFound := ClustersFound L1,
            SelectNextContigWindow := SelectNextContigWindow L1\<rparr>" and le1: "ClustersFound L1 \<le> ?R"
      using fo L0(1) by (simp_all add: found_ok_def)
    have "hint_in s L1" using fo by (simp add: found_ok_def hint_in_def)
    moreover have L1s: "ClustersRemaining L1 = ?R" "PriorLastCluster L1 = PriorLastCluster L" "AllocMcb L1 = AllocMcb L"
        "CurrentVbo L1 = CurrentVbo L" "AllocByteCount L1 = AllocByteCount L"
      by (subst L1, simp add: L0_def)+
    ultimately have inv1: "alloc_inv s0 M C rs (s, L1)" using inv by (simp add: alloc_inv_def)
    show ?thesis
    proof (cases "ClustersFound L1 = 0")
      case True
      then have why: "SelectNextContigWindow L \<or> False \<notin> set (FreeClusterBitMap s)"
        "SelectNextContigWindow L1 \<or> WindowRelativeHint L1 = 0"
        using fo L0(3) by (auto simp: found_ok_def)
      show ?thesis
      proof (cases "NumberOfWindows s = 1")
        case one: True
        have "\<exists>e. r = Inl e" using r True False one by (auto simp: FatAllocate_switch_def)
        moreover have "NumberOfFreeClusters (AllocationSupport s) + ?R \<noteq> 0" using le R by auto
        then have "False \<in> set (FreeClusterBitMap s)" using no_free_bits(2)[OF sy] one by auto
        then have "FatIsFat32 s" using why(1) hi by (auto simp: hint_in_def)
        ultimately show ?thesis using one by blast
      next
        case many: False
        have sw: "FatAllocate_switch Pool Exact (s, L1) = (r, (t, L'))" using r True False by simp
        have "SelectNextContigWindow L \<or> ClustersFree (Windows s ! CurrentWindow s) = 0"
          using why(1) no_free_bits(1)[OF sy] by auto
        then show ?thesis using FatAllocate_switch_outcome[OF inv1 _ many why(2) sw] R L1s
          by (auto simp: alloc_measure_def)
      qed
    next
      case found: False
      then have cr: "clear_run (FreeClusterBitMap s) (unat (RunIndex L1)) (unat (ClustersFound L1))" using fo by (simp add: found_ok_def)
      have tk: "FatAllocate_take F (s, L1) = (r, (t, L'))" using r found False by simp
      have le1': "ClustersFound L1 \<le> ClustersRemaining L1" using le1 L1s by simp
      have m: "unat (?R - ClustersFound L1) = unat ?R - unat (ClustersFound L1)" using le1 by (rule unat_sub_le)
      have "unat (ClustersFound L1) \<noteq> 0" using found by (metis unat_0 word_unat_eq_iff)
      moreover have "unat (ClustersFound L1) \<le> unat ?R" using le1 by (simp add: word_le_nat)
      ultimately have lt: "2 * unat (?R - ClustersFound L1) + 1 < 2 * unat ?R" unfolding m by linarith
      from FatAllocate_take_outcome[OF F l inv1 found le1' cr tk] show ?thesis
        using L1s lt by (auto simp: alloc_measure_def)
    qed
  qed
qed

end
