(* ===== verification/FatAllocated.thy ===== *)
theory FatAllocated
  imports FatRounds
begin

text \<open>
  FatAllocateDiskSpace as a whole: it ends, what it has taken is a chain of free clusters of
  the right length, it succeeds when enough clusters are free, and three cases in which it
  does not: a full disk, an exact request that is not met, a FAT32 volume of one window.
\<close>

section \<open>The loop\<close>

lemma alloc_loop_outcome:
  assumes F: "find_clear_ok F" and G: "find_longest_ok G" and l: "links_ok s0"
    and inv: "alloc_inv s0 M C rs sl"
  shows "\<exists>r sl'. FatAllocate_loop (FatAllocate_round F G Pool Exact) sl = Some (r, sl') \<and>
    (case r of
       Inr met \<Rightarrow> if met then (\<exists>rs'. alloc_inv s0 M C rs' sl') \<and> ClustersRemaining (snd sl') = 0 \<and> AllocByteCount (snd sl') = AllocByteCount (snd sl)
         else Exact
     | Inl e \<Rightarrow> (\<exists>e'. Some e' \<in> set (KernelResults s0)) \<or> NumberOfWindows s0 = 1 \<and> FatIsFat32 s0)"
  using inv
proof (induction "alloc_measure sl" arbitrary: sl rs rule: less_induct)
  case (less sl)
  obtain s L where sl: "sl = (s, L)" by force
  have fr: "alloc_frame s0 s" using less.prems by (simp add: sl alloc_inv_def holding_def)
  note ff = alloc_frameD(2,4,5)[OF fr]
  show ?case
  proof (cases "ClustersRemaining L = 0")
    case True
    then have "FatAllocate_loop (FatAllocate_round F G Pool Exact) sl = Some (Inr True, sl)"
      by (subst FatAllocate_loop.simps) (simp add: sl)
    then show ?thesis using less.prems True by (auto simp: sl)
  next
    case False
    obtain r t L' where rd: "FatAllocate_round F G Pool Exact (s, L) = (r, (t, L'))" by (metis prod_cases3)
    have eq: "FatAllocate_loop (FatAllocate_round F G Pool Exact) sl =
      (case r of Inl e \<Rightarrow> Some (Inl e, (t, L')) | Inr leave \<Rightarrow> if leave then Some (Inr False, (t, L'))
        else FatAllocate_loop (FatAllocate_round F G Pool Exact) (t, L'))"
      by (subst FatAllocate_loop.simps) (simp add: sl rd False split: sum.split)
    from FatAllocate_round_outcome[OF F G l less.prems[unfolded sl] False rd] show ?thesis
    proof (elim disjE conjE exE)
      fix rs' assume a: "r = Inr False" "AllocByteCount L' = AllocByteCount L" "alloc_measure (t, L') < alloc_measure (s, L)"
        "alloc_inv s0 M C rs' (t, L')"
      have e: "FatAllocate_loop (FatAllocate_round F G Pool Exact) sl = FatAllocate_loop (FatAllocate_round F G Pool Exact) (t, L')"
        using eq a(1) by simp
      have b: "AllocByteCount (snd sl) = AllocByteCount (snd (t, L'))" using a(2) by (simp add: sl)
      show ?thesis unfolding e b by (rule less.hyps[OF a(3)[folded sl] a(4)])
    next
      fix e e' assume "r = Inl e" "Some e' \<in> set (KernelResults s)"
      then show ?thesis using eq ff(3) by auto
    next
      fix e assume "r = Inl e" "NumberOfWindows s = 1" "FatIsFat32 s"
      then show ?thesis using eq ff(1,2) by (auto simp: FatIsFat32_def)
    qed (use eq in auto)
  qed
qed

section \<open>The hint\<close>

lemma FatTakeFree_holding:
  assumes ok: "alloc_ok s" and C: "C \<le> NumberOfFreeClusters (AllocationSupport s)" and t: "FatTakeFree C s = (r, t)"
  shows "r = Inr () \<and> holding s [] C t"
proof -
  have t': "r = Inr ()" "t = s\<lparr>AllocationSupport := (AllocationSupport s)
             \<lparr>NumberOfFreeClusters := NumberOfFreeClusters (AllocationSupport s) - C\<rparr>\<rparr>"
    using t C by (auto simp: FatTakeFree_def)
  have g: "FatGiveFree C t = s" by (simp add: FatGiveFree_def t'(2))
  have e: "FatEntryOf t = FatEntryOf s" by (simp add: fun_eq_iff FatEntryOf_def t'(2))
  have "alloc_frame s t" by (simp add: alloc_frame_def t'(2))
  moreover have "chain_in s [] t" by (simp add: chain_in_def e chain_entries_def)
  moreover have "synced (fat_entries t) (FatGiveFree C t)" using ok unfolding g e by (simp add: alloc_ok_def)
  moreover have "vcb_ok t" using ok by (simp add: alloc_ok_def vcb_ok_def fat_fits_def t'(2))
  ultimately show ?thesis using t'(1) C by (simp add: holding_def t'(2))
qed

lemma FatAllocate_hint_window_outcome:
  assumes h: "holding s0 [] C s" and w: "w < length (Windows s)" "NumberOfWindows s \<noteq> 1"
    and res: "FatAllocate_hint_window Pool w C s = (r, t)"
  shows "(\<exists>e. r = Inl e) \<and> (\<exists>e'. Some e' \<in> set (KernelResults s))
    \<or> r = Inr () \<and> holding s0 [] C t \<and> CurrentWindow t = w \<and> Windows t = Windows s"
proof -
  obtain r1 t1 where e: "FatExamineFatEntries Pool 0 0 False (Some w) None (s\<lparr>IrpContextWait := True\<rparr>) = (r1, t1)" by force
  have h1: "holding s0 [] C (s\<lparr>IrpContextWait := True\<rparr>)" using h by simp
  note sw = window_switch[OF h1 _ _ e, simplified, OF w(2,1)]
  show ?thesis
  proof (cases r1)
    case (Inl e')
    then have "\<exists>e. r = Inl e" using res e
      by (auto simp: FatAllocate_hint_window_def Let_def try_finally_def seq_def modify_def split: if_splits)
    then show ?thesis using sw(1)[OF Inl] by blast
  next
    case (Inr x)
    have "r = Inr () \<and> t = (if \<not> IrpContextWait s then t1\<lparr>IrpContextWait := False\<rparr> else t1)"
      using res e Inr by (auto simp: FatAllocate_hint_window_def Let_def try_finally_def seq_def modify_def ret_def split: if_splits)
    then show ?thesis using sw(2)[OF Inr] by auto
  qed
qed

lemma FatAllocate_hint_outcome:
  assumes h: "holding s0 [] C s" and H: "H \<noteq> 1" and res: "FatAllocate_hint Pool H C s = (r, t)"
  shows "(\<exists>e. r = Inl e) \<and> (\<exists>e'. Some e' \<in> set (KernelResults s))
    \<or> (\<exists>Hint A. r = Inr (Hint, A) \<and> holding s0 [] C t \<and> 2 \<le> unat Hint \<and> unat Hint < length (FreeClusterBitMap t) + 2)"
proof -
  have sy: "synced (fat_entries s) (FatGiveFree C s)" using h by (simp add: holding_def)
  note b = synced_bits[OF sy, simplified]
  have N: "vcb_N s + 2 < 2 ^ 31" using b(7) by (simp add: windows_ok_def)
  have in_range: "2 \<le> unat H" "unat H < vcb_N s + 2" if "H \<noteq> 0" "H < NumberOfClusters (AllocationSupport s) + 2"
  proof -
    have "unat H \<noteq> 0" "unat H \<noteq> 1" using that(1) H by (metis unat_0 unat_1 word_unat_eq_iff)+
    then show "2 \<le> unat H" by linarith
    have "unat (NumberOfClusters (AllocationSupport s) + 2) = vcb_N s + 2" using N by (subst unat_add_small) simp_all
    then show "unat H < vcb_N s + 2" using that(2) by (simp add: word_less_nat)
  qed
  consider (none) "H = 0 \<or> \<not> H < NumberOfClusters (AllocationSupport s) + 2"
    | (one) "H \<noteq> 0" "H < NumberOfClusters (AllocationSupport s) + 2" "\<not> NumberOfWindows s > 1"
    | (many) "H \<noteq> 0" "H < NumberOfClusters (AllocationSupport s) + 2" "NumberOfWindows s > 1"
    by blast
  then show ?thesis
  proof cases
    case none
    then have "r = Inr (if ClusterHint s = -1 then 2 else ClusterHint s, 0)" "t = s" using res by (auto simp: FatAllocate_hint_def)
    moreover have "2 \<le> unat (if ClusterHint s = -1 then 2 else ClusterHint s)
      \<and> unat (if ClusterHint s = -1 then 2 else ClusterHint s) < length (FreeClusterBitMap s) + 2"
    proof -
      have "ClusterHint s = -1 \<or> 2 \<le> unat (ClusterHint s) \<and> unat (ClusterHint s) < length (FreeClusterBitMap s) + 2"
        using sy unfolding synced_def give_simps by blast
      moreover have "0 < length (FreeClusterBitMap s)" using b(2,4) by simp
      ultimately show ?thesis by auto
    qed
    ultimately show ?thesis using h by blast
  next
    case one
    then have e: "r = Inr (H, H)" "t = s" using res by (auto simp: FatAllocate_hint_def)
    have lw: "unat (NumberOfWindows s) = length (Windows s)" using b(7) unfolding windows_ok_def by blast
    moreover have "\<not> 1 < unat (NumberOfWindows s)" using one(3) by (simp add: word_less_nat)
    ultimately have l1: "length (Windows s) = 1" using b(8) by linarith
    note Hu = in_range[OF one(1,2)]
    have "(unat H - 2) div win_size s < 1" using win_index(1)[OF b(7) Hu] unfolding l1 .
    then have d: "(unat H - 2) div win_size s = 0" by simp
    have cw: "CurrentWindow s = 0" using b(8) l1 by simp
    have "unat H < win_hi s 0" "win_lo s 0 = 2" using win_index(3)[OF b(7) Hu] d by (simp_all add: win_lo_def)
    then have "unat H < length (FreeClusterBitMap s) + 2" using b(2) cw by simp
    then show ?thesis using e h Hu by blast
  next
    case many
    note Hu = in_range[OF many(1,2)]
    have nw: "NumberOfWindows s \<noteq> 1" using many(3) by auto
    note m = many_windows[OF b(7) nw]
    define v where "v = unat (FatWindowOfCluster H)"
    have v: "v < length (Windows s)" "win_lo s v \<le> unat H" "unat H < win_hi s v"
    proof -
      have "unat (H - 2) = unat H - 2" using Hu(1) by (subst unat_sub_le) (simp_all add: word_le_nat)
      then have "v = (unat H - 2) div win_size s" by (simp add: v_def FatWindowOfCluster_def unat_div win_size_def m(1))
      then show "v < length (Windows s)" "win_lo s v \<le> unat H" "unat H < win_hi s v" using win_index[OF b(7) Hu] by simp_all
    qed
    define out where "out = ((H < FirstCluster (Windows s ! CurrentWindow s) \<or> H > LastCluster (Windows s ! CurrentWindow s)) \<and> v \<noteq> CurrentWindow s)"
    obtain r1 t1 where 1: "(if out then FatAllocate_hint_window Pool v C else ret ()) s = (r1, t1)" by force
    have res': "(case r1 of Inl e \<Rightarrow> (Inl e, t1)
        | Inr _ \<Rightarrow> (Inr (H - FirstCluster (Windows t1 ! CurrentWindow t1) + 2, H), t1)) = (r, t)"
      using res many 1 by (simp add: FatAllocate_hint_def Let_def v_def[symmetric] out_def[symmetric] seq_def split: sum.splits)
    have o: "(\<exists>e. r1 = Inl e) \<and> (\<exists>e'. Some e' \<in> set (KernelResults s))
      \<or> r1 = Inr () \<and> holding s0 [] C t1 \<and> Windows t1 = Windows s \<and> CurrentWindow t1 = (if out then v else CurrentWindow s)"
      using 1 FatAllocate_hint_window_outcome[OF h v(1) nw, of Pool r1 t1] h by (cases out) (auto simp: ret_def)
    then show ?thesis
    proof (elim disjE conjE)
      assume a: "r1 = Inr ()" "holding s0 [] C t1" "Windows t1 = Windows s" "CurrentWindow t1 = (if out then v else CurrentWindow s)"
      have rt: "r = Inr (H - FirstCluster (Windows t1 ! CurrentWindow t1) + 2, H)" "t = t1" using res' a(1) by auto
      define w where "w = CurrentWindow t1"
      have sy1: "synced (fat_entries t1) (FatGiveFree C t1)" using a(2) by (simp add: holding_def)
      note c = synced_bits[OF sy1, simplified, folded w_def]
      have geo: "win_lo t1 = win_lo s" "win_hi t1 = win_hi s"
        using a(2) h alloc_frameD(11,12)[of s0] by (simp_all add: holding_def)
      have inw: "win_lo s w \<le> unat H \<and> unat H < win_hi s w"
      proof (cases out)
        case True
        then show ?thesis using v a(4) by (simp add: w_def)
      next
        case False
        have "v = CurrentWindow s \<or> FirstCluster (Windows s ! CurrentWindow s) \<le> H \<and> H \<le> LastCluster (Windows s ! CurrentWindow s)"
          using False by (auto simp: out_def)
        then show ?thesis
        proof
          assume "v = CurrentWindow s"
          then show ?thesis using v False a(4) by (simp add: w_def)
        next
          assume "FirstCluster (Windows s ! CurrentWindow s) \<le> H \<and> H \<le> LastCluster (Windows s ! CurrentWindow s)"
          then show ?thesis using win_of_window[OF b(7,8)] False a(4) by (simp add: w_def word_le_nat) linarith
        qed
      qed
      have "unat (H - FirstCluster (Windows t1 ! w)) = unat H - win_lo s w"
        using inw c(9) geo by (subst unat_sub_le) (simp_all add: word_le_nat)
      moreover have "unat H < 2 ^ 31" using Hu N by simp
      ultimately have u: "unat (H - FirstCluster (Windows t1 ! w) + 2) = unat H - win_lo s w + 2" by (subst unat_add_small) simp_all
      have "unat H - win_lo s w + 2 < length (FreeClusterBitMap t1) + 2" using inw c(2) geo by simp linarith
      then show ?thesis using rt a(2) u by (intro disjI2 exI) (auto simp: w_def)
    qed (use res' in auto)
  qed
qed

section \<open>The number of clusters\<close>

lemma unat_and_not_mask: "unat (x AND NOT (mask l) :: ULONG) = unat x div 2 ^ l * 2 ^ l"
proof -
  have "x AND NOT (mask l) = push_bit l (drop_bit l x)" by (rule bit_word_eqI) (auto simp: bit_simps)
  moreover have "unat (drop_bit l x) = unat x div 2 ^ l" by (rule unat_drop_bit_div)
  moreover have "unat x div 2 ^ l * 2 ^ l < 2 ^ 32" using unat_lt32[of x] by (rule le_less_trans[OF div_times_less_eq_dividend])
  ultimately show ?thesis by (simp only: unat_push_bit_mult) simp
qed

lemma FatRoundAllocation_eq:
  assumes l: "l = unat (LogOfBytesPerCluster (AllocationSupport s))" "l < 32" and B: "ByteCount \<noteq> 0"
    and r: "FatRoundAllocation s ByteCount = (Rounded, C)"
  shows "unat C = (unat ByteCount + 2 ^ l - 1) div 2 ^ l" "Rounded \<noteq> 0" "C \<noteq> 0"
    "Rounded = (if unat ByteCount + 2 ^ l \<le> 2 ^ 32 then of_nat (unat C * 2 ^ l) else 0xffffffff)"
proof -
  let ?B = "unat ByteCount"
  have B0: "0 < ?B" using B by (simp add: unat_gt_0)
  have B32: "?B < 2 ^ 32" by (rule unat_lt32)
  have l32: "(2::nat) ^ l < 2 ^ 32" using l(2) by (intro power_strict_increasing) simp_all
  define P where "P = (push_bit l 1 :: ULONG)"
  have P: "unat P = 2 ^ l" unfolding P_def unat_push_bit_mult using l32 by simp
  have m: "P - 1 = mask l" by (simp add: P_def mask_eq_exp_minus_1 push_bit_eq_mult)
  have um: "unat (mask l :: ULONG) = 2 ^ l - 1"
    unfolding m[symmetric] by (subst unat_sub_le) (simp_all add: P word_le_nat)
  define R where "R = (ByteCount + (P - 1)) AND NOT (P - 1)"
  have r': "(if R = 0 then (0xffffffff, push_bit (32 - l) 1) else (R, drop_bit l R)) = (Rounded, C)"
    using r unfolding FatRoundAllocation_def Let_def l(1)[symmetric] R_def P_def .
  have uR: "unat R = unat (ByteCount + mask l) div 2 ^ l * 2 ^ l" unfolding R_def m by (rule unat_and_not_mask)
  show *: "unat C = (?B + 2 ^ l - 1) div 2 ^ l" and "Rounded \<noteq> 0"
    "Rounded = (if ?B + 2 ^ l \<le> 2 ^ 32 then of_nat (unat C * 2 ^ l) else 0xffffffff)"
  proof -
    have "unat C = (?B + 2 ^ l - 1) div 2 ^ l \<and> Rounded \<noteq> 0
      \<and> Rounded = (if ?B + 2 ^ l \<le> 2 ^ 32 then of_nat (unat C * 2 ^ l) else 0xffffffff)"
    proof (cases "?B + 2 ^ l \<le> 2 ^ 32")
      case True
      then have "unat (ByteCount + mask l) = ?B + 2 ^ l - 1" using um B0 by (subst unat_add_small) simp_all
      then have u: "unat R = (?B + 2 ^ l - 1) div 2 ^ l * 2 ^ l" using uR by simp
      have "1 \<le> (?B + 2 ^ l - 1) div 2 ^ l" using B0 by (simp add: less_eq_div_iff_mult_less_eq)
      then have "unat R \<noteq> 0" using u by simp
      then have "R \<noteq> 0" by auto
      then have e: "Rounded = R" "C = drop_bit l R" using r' by auto
      have "unat C = unat R div 2 ^ l" unfolding e by (rule unat_drop_bit_div)
      then have c: "unat C = (?B + 2 ^ l - 1) div 2 ^ l" by (simp add: u)
      have "Rounded = of_nat (unat R)" by (simp add: e)
      then show ?thesis using True c u \<open>R \<noteq> 0\<close> e(1) by simp
    next
      case False
      have "unat (ByteCount + mask l) = ?B + (2 ^ l - 1) - 2 ^ 32"
        using False B32 l32 unfolding unat_word_ariths um by (simp add: mod_if)
      then have "unat (ByteCount + mask l) < 2 ^ l" using B32 False by linarith
      then have "unat R = 0" using uR by simp
      then have "R = 0" by (metis unat_0 word_unat_eq_iff)
      then have e: "Rounded = 0xffffffff" "C = push_bit (32 - l) 1" using r' by auto
      have l0: "0 < l" using False B32 by (cases l) auto
      then have "(2::nat) ^ (32 - l) < 2 ^ 32" by (intro power_strict_increasing) simp_all
      then have c: "unat C = 2 ^ (32 - l)" unfolding e unat_push_bit_mult by simp
      have p: "2 ^ (32 - l) * 2 ^ l = (2::nat) ^ 32" using l(2) by (simp flip: power_add)
      have "(?B + 2 ^ l - 1) div 2 ^ l = 2 ^ (32 - l)"
        using False B32 p by (intro div_nat_eqI) (simp_all add: algebra_simps)
      then show ?thesis using c e(1) False by simp
    qed
    then show "unat C = (?B + 2 ^ l - 1) div 2 ^ l" "Rounded \<noteq> 0"
      "Rounded = (if ?B + 2 ^ l \<le> 2 ^ 32 then of_nat (unat C * 2 ^ l) else 0xffffffff)" by blast+
  qed
  have "1 \<le> (?B + 2 ^ l - 1) div 2 ^ l" using B0 by (simp add: less_eq_div_iff_mult_less_eq)
  then show "C \<noteq> 0" using * by auto
qed


section \<open>One run of the right size\<close>

lemma find_run_clear:
  assumes F: "find_clear_ok F" and len: "length (FreeClusterBitMap s) < 2 ^ 31" and n: "n \<noteq> 0"
    and h: "2 \<le> unat h" "unat h < length (FreeClusterBitMap s) + 2"
    and S: "FatFindFreeClusterRun F s n h = S" "S \<noteq> 1"
  shows "clear_run (FreeClusterBitMap s) (unat (S - 2)) (unat n)"
proof (cases "n = 1 \<and> FatIsClusterFree s h")
  case True
  have "unat (h - 2) = unat h - 2" using h by (subst unat_sub_le) (simp_all add: word_le_nat)
  then show ?thesis using True S h by (auto simp: FatFindFreeClusterRun_def FatIsClusterFree_def RtlCheckBit_def clear_run_def)
next
  case False
  then have e: "S = F (FreeClusterBitMap s) n (h - 2) + 2" using S by (auto simp: FatFindFreeClusterRun_def)
  have "0 < n" "length (FreeClusterBitMap s) < 2 ^ 32 - 1" using n len by (simp_all add: word_neq_0_conv)
  moreover have "F (FreeClusterBitMap s) n (h - 2) \<noteq> -1" using S(2) e by auto
  ultimately show ?thesis using F[unfolded find_clear_ok_def, rule_format, of n "FreeClusterBitMap s" "h - 2"] e by (simp add: Let_def)
qed

lemma FatAllocate_contiguous_outcome:
  assumes F: "find_clear_ok F" and l: "links_ok s0" and h: "holding s0 [] C s" and n: "C \<noteq> 0"
    and run: "clear_run (FreeClusterBitMap s) (unat (S - 2)) (unat C)"
    and res: "FatAllocate_contiguous F S C (s, L) = (r, (t, L'))"
  shows "(\<exists>e. r = Inl e) \<and> (\<exists>e'. Some e' \<in> set (KernelResults s)) \<or>
    r = Inr () \<and> (\<exists>c. holding s0 (run_clusters [(c, C)]) 0 t \<and> length (run_clusters [(c, C)]) = unat C
      \<and> AllocMcb L' = FatAddMcbEntry s0 (AllocMcb L) 0 (FatGetLboFromIndex s0 c) (AllocByteCount L)) \<and> AllocByteCount L' = AllocByteCount L"
proof -
  define w where "w = CurrentWindow s"
  define c where "c = S - 2 + FirstCluster (Windows s ! w)"
  define s1 where "s1 = FatUpdateWindow w (\<lambda>W. W\<lparr>ClustersFree := ClustersFree W - C\<rparr>) (FatReserveClusters F S C s)"
  have S: "S = (S - 2) + 2" by simp
  have s1': "s1 = FatUpdateWindow (CurrentWindow s) (\<lambda>W. W\<lparr>ClustersFree := ClustersFree W - C\<rparr>) (FatReserveClusters F (S - 2 + 2) C s)"
    unfolding s1_def w_def by simp
  have n': "0 < unat C" "unat C \<le> unat C" using n by (simp_all add: unat_gt_0)
  have vok: "vcb_ok s" and fr: "alloc_frame s0 s" and sy: "synced (fat_entries s) (FatGiveFree C s)" using h by (simp_all add: holding_def)
  note cr = clear_run_window[OF sy, of "unat (S - 2)" "unat C", simplified, OF run]
  note b = synced_bits[OF sy, simplified]
  have uc: "unat c = win_lo s w + unat (S - 2)" using b(9) cr(1) b(6) unfolding c_def w_def by (subst unat_add_small) simp_all
  note re = FatReserve_synced[OF F sy n' run uc[unfolded w_def] s1']
  note cf = counts_frameD[OF re(1)]
  have fr1: "alloc_frame s0 s1" by (rule alloc_frame_trans[OF fr alloc_frame_counts[OF re(1)]])
  have ce: "S + FirstCluster (Windows s ! w) - 2 = c" by (simp add: c_def)
  define L1 where "L1 = L\<lparr>AllocMcb := FatAddMcbEntry s0 (AllocMcb L) 0 (FatGetLboFromIndex s0 c) (AllocByteCount L)\<rparr>"
  obtain r2 t2 where 2: "FatAllocateClusters c C s1 = (r2, t2)" by force
  define fin where "fin = (\<lambda>abnormal. if \<not> abnormal then ret () else
              seq (locals (\<lambda>s L. L\<lparr>AllocMcb := FatRemoveMcbEntry s (AllocMcb L) 0 (AllocByteCount L)\<rparr>)) (\<lambda>_.
              on_vcb (modify (\<lambda>s'.
                let s2 = (if w = CurrentWindow s'
                          then FatUnreserveClusters (c - FirstCluster (Windows s ! w) + 2) C s' else s')
                in FatGiveFree C (FatUpdateWindow w (\<lambda>W. W\<lparr>ClustersFree := ClustersFree W + C\<rparr>) s2)))))"
  have res': "try_finally (on_vcb (FatAllocateClusters c C)) fin (s1, L1) = (r, (t, L'))"
    using res add_mcb_frame[OF fr1] alloc_frameD(8)[OF fr1]
    unfolding FatAllocate_contiguous_def Let_def prod.case w_def[symmetric] s1_def[symmetric] ce fin_def L1_def by simp
  show ?thesis
  proof (cases r2)
    case (Inl e)
    have "\<exists>e. r = Inl e" using res' 2 Inl unfolding try_finally_def on_vcb_def by (auto split: prod.splits sum.splits)
    moreover have "run_in s1 (c, C)"
      using uc cr(1) b(3,5) n' cf(8) by (simp add: run_in_def w_def)
    with FatClusters_kernel[of s1 "(c, C)" True e t2] vok 2 Inl cf(3,11) have "\<exists>e'. Some e' \<in> set (KernelResults s)"
      by (simp add: FatFree_eq)
    ultimately show ?thesis by blast
  next
    case (Inr x)
    have rt: "r = Inr ()" "t = t2" "L' = L1"
      using res' 2 Inr unfolding try_finally_def on_vcb_def fin_def ret_def by simp_all
    have "holding s0 ([] @ [unat c..<unat c + unat C]) (C - C) t2"
      by (rule holding_link(1)[OF F l h n' run _ s1' refl refl order_refl, of c 0])
        (use 2 Inr in \<open>simp_all add: c_def w_def ret_def\<close>)
    then have "holding s0 (run_clusters [(c, C)]) 0 t \<and> length (run_clusters [(c, C)]) = unat C" using rt by (simp add: run_clusters_def)
    then show ?thesis using rt by (auto simp: L1_def)
  qed
qed

section \<open>FatAllocateDiskSpace\<close>

text \<open>
  What an allocation of \<open>C\<close> clusters leaves: a chain of \<open>C\<close> clusters that were free, every
  other entry as it was, the invariant, and the runs of the chain entered in the Mcb from Vbo
  0 on (a single run with the byte count the caller gets).
\<close>

definition allocated :: "VCB \<Rightarrow> LARGE_MCB \<Rightarrow> nat \<Rightarrow> ULONG \<Rightarrow> LARGE_MCB \<Rightarrow> VCB \<Rightarrow> bool" where
  "allocated s Mcb C Bytes Mcb' t \<longleftrightarrow>
     (\<exists>rs. let cl = run_clusters rs in
        length cl = C \<and> distinct cl
      \<and> (\<forall>x\<in>set cl. 2 \<le> x \<and> x < vcb_N s + 2 \<and> fat_entries s x = FAT_CLUSTER_AVAILABLE)
      \<and> fat_chain t C (of_nat (hd cl)) = Some (map of_nat cl)
      \<and> (\<forall>j. 2 \<le> j \<and> j < vcb_N s + 2 \<and> j \<notin> set cl \<longrightarrow> fat_entries t j = fat_entries s j)
      \<and> alloc_ok t
      \<and> (Mcb' = fst (fold (alloc_add s) rs (Mcb, 0))
         \<or> (\<exists>r. rs = [r] \<and> Mcb' = FatAddMcbEntry s Mcb 0 (FatGetLboFromIndex s (fst r)) Bytes)))"

lemma holding_allocated:
  assumes h: "holding s (run_clusters rs) 0 t" and l: "links_ok s" and C: "length (run_clusters rs) = C" "0 < C"
    and M: "Mcb' = fst (fold (alloc_add s) rs (Mcb, 0))
         \<or> (\<exists>r. rs = [r] \<and> Mcb' = FatAddMcbEntry s Mcb 0 (FatGetLboFromIndex s (fst r)) Bytes)"
  shows "allocated s Mcb C Bytes Mcb' t"
proof -
  let ?cl = "run_clusters rs"
  have v: "vcb_ok t" and fr: "alloc_frame s t" and ch: "chain_in s ?cl t" and sy: "synced (fat_entries t) (FatGiveFree 0 t)"
    using h by (simp_all add: holding_def)
  have "FatGiveFree 0 t = t" by (simp add: FatGiveFree_def)
  then have ok: "alloc_ok t" using v sy by (simp add: alloc_ok_def)
  note N = alloc_frameD(3,4,9)[OF fr]
  have cl: "distinct ?cl" "\<forall>x\<in>set ?cl. 2 \<le> x \<and> x < vcb_N s + 2 \<and> fat_entries s x = 0"
    "\<And>j. 2 \<le> j \<Longrightarrow> j < vcb_N s + 2 \<Longrightarrow> fat_entries t j = chain_entries (vcb_bits s) ?cl (fat_entries s) j"
    using ch by (auto simp: chain_in_def)
  have "fat_chain t (length ?cl) (of_nat (hd ?cl)) = Some (map of_nat ?cl)"
  proof (rule chain_of_list[OF _ cl(1)])
    show "\<forall>j\<in>set ?cl. fat_entries t j = take_bit (fat_vwidth (vcb_bits t)) (next_in ?cl j)"
      using cl(2,3) N by (auto simp: chain_entries_def)
    show "?cl \<noteq> []" using C by auto
    show "vcb_bits t \<in> {12, 16, 32}" using v by (simp add: vcb_ok_def fat_fits_def)
  qed (use cl(2) N l in auto)
  moreover have "\<forall>j. 2 \<le> j \<and> j < vcb_N s + 2 \<and> j \<notin> set ?cl \<longrightarrow> fat_entries t j = fat_entries s j"
    using cl(3) by (simp add: chain_entries_def)
  ultimately show ?thesis unfolding allocated_def Let_def using cl(1,2) C ok M by blast
qed

lemma FatAllocateDiskSpace_outcome:
  assumes F: "find_clear_ok F" and G: "find_longest_ok G" and ok: "alloc_ok s" and l: "links_ok s"
    and lg: "unat (LogOfBytesPerCluster (AllocationSupport s)) < 32"
    and H: "H \<noteq> 1" and B: "ByteCount \<noteq> 0" and rd: "FatRoundAllocation s ByteCount = (Rounded, C)"
    and C: "C \<le> NumberOfFreeClusters (AllocationSupport s)"
  shows "\<exists>r Bytes Mcb' t. FatAllocateDiskSpace F G Pool NumberOfRuns GetNext H ByteCount Exact Mcb s = Some (r, Bytes, Mcb', t)
    \<and> (r = Inr () \<and> Bytes = Rounded \<and> allocated s Mcb (unat C) Rounded Mcb' t
       \<or> (r = Inr () \<longrightarrow> Bytes = 0)
         \<and> ((\<exists>e'. Some e' \<in> set (KernelResults s)) \<or> Exact \<or> NumberOfWindows s = 1 \<and> FatIsFat32 s))"
proof -
  note ra = FatRoundAllocation_eq[OF refl lg B rd]
  have C0: "0 < unat C" using ra(3) by (simp add: unat_gt_0)
  obtain r0 s0 where tf: "FatTakeFree C s = (r0, s0)" by force
  have h0: "r0 = Inr ()" "holding s [] C s0" using FatTakeFree_holding[OF ok C tf] by simp_all
  obtain r1 s1 where hi: "FatAllocate_hint Pool H C s0 = (r1, s1)" by force
  have fr0: "alloc_frame s s0" using h0(2) by (simp add: holding_def)
  have eq0: "seq (FatTakeFree C) (\<lambda>_. FatAllocate_hint Pool H C) s = (r1, s1)" by (simp add: seq_def tf h0(1) hi)
  from FatAllocate_hint_outcome[OF h0(2) H hi] show ?thesis
  proof (elim disjE conjE exE)
    fix e e' assume "r1 = Inl e" "Some e' \<in> set (KernelResults s0)"
    then show ?thesis using B rd eq0 alloc_frameD(5)[OF fr0] by (auto simp: FatAllocateDiskSpace_def)
  next
    fix Hint A assume r1: "r1 = Inr (Hint, A)" and h1: "holding s [] C s1" and hb: "2 \<le> unat Hint" "unat Hint < length (FreeClusterBitMap s1) + 2"
    have fr1: "alloc_frame s s1" and sy1: "synced (fat_entries s1) (FatGiveFree C s1)" using h1 by (simp_all add: holding_def)
    have KR: "set (KernelResults s1) \<subseteq> set (KernelResults s)" by (rule alloc_frameD(5)[OF fr1])
    have len: "length (FreeClusterBitMap s1) < 2 ^ 31" using synced_bits(2,6)[OF sy1] by simp
    define L where "L = \<lparr>AllocMcb = Mcb, AllocByteCount = Rounded, AllocWindow = CurrentWindow s1, WindowRelativeHint = Hint,
                          RunIndex = 0, Cluster = 0, CurrentVbo = 0, PriorLastCluster = 0, BytesFound = 0,
                          ClustersFound = 0, ClustersRemaining = 0, LockedBitMap = True, SelectNextContigWindow = False\<rparr>"
    define S where "S = FatFindFreeClusterRun F s1 C Hint"
    have eq: "FatAllocateDiskSpace F G Pool NumberOfRuns GetNext H ByteCount Exact Mcb s =
      map_option (\<lambda>(r, t, L'). (r, AllocByteCount L', AllocMcb L', t))
                      (if S \<noteq> 1 \<and> (A = 0 \<or> S = Hint)
                       then Some (FatAllocate_contiguous F S C (s1, L))
                       else FatAllocate_runs F G Pool NumberOfRuns GetNext Exact C (s1, L))"
      using B rd eq0 r1 by (simp add: FatAllocateDiskSpace_def Let_def L_def S_def)
    show ?thesis
    proof (cases "S \<noteq> 1 \<and> (A = 0 \<or> S = Hint)")
      case True
      obtain r t L' where ct: "FatAllocate_contiguous F S C (s1, L) = (r, (t, L'))" by (metis prod_cases3)
      have e: "FatAllocateDiskSpace F G Pool NumberOfRuns GetNext H ByteCount Exact Mcb s = Some (r, AllocByteCount L', AllocMcb L', t)"
        using eq True ct by simp
      have cr: "clear_run (FreeClusterBitMap s1) (unat (S - 2)) (unat C)"
        by (rule find_run_clear[OF F len ra(3) hb]) (use True in \<open>simp_all add: S_def\<close>)
      from FatAllocate_contiguous_outcome[OF F l h1 ra(3) cr ct] show ?thesis
      proof (elim disjE conjE exE)
        fix e e' assume "r = Inl e" "Some e' \<in> set (KernelResults s1)"
        then show ?thesis using e KR by auto
      next
        fix c assume a: "r = Inr ()" "holding s (run_clusters [(c, C)]) 0 t" "length (run_clusters [(c, C)]) = unat C"
          "AllocMcb L' = FatAddMcbEntry s (AllocMcb L) 0 (FatGetLboFromIndex s c) (AllocByteCount L)" "AllocByteCount L' = AllocByteCount L"
        have "allocated s Mcb (unat C) Rounded (AllocMcb L') t"
          by (rule holding_allocated[OF a(2) l a(3) C0]) (simp add: a(4) L_def)
        then show ?thesis using e a(1,5) by (auto simp: L_def)
      qed
    next
      case False
      show ?thesis
      proof (cases "Exact \<and> NumberOfWindows s1 = 1")
        case one: True
        obtain r t L' where gb: "FatAllocate_giveback NumberOfRuns GetNext (s1, L) = (r, (t, L'))" by (metis prod_cases3)
        have "AllocByteCount L' = 0" using gb by (auto simp: FatAllocate_giveback_def Let_def split: prod.splits)
        then show ?thesis using eq False one gb by (auto simp: FatAllocate_runs_def FatAllocate_finally_def)
      next
        case loop: False
        define L1 where "L1 = L\<lparr>ClustersRemaining := C\<rparr>"
        have inv: "alloc_inv s Mcb (unat C) [] (s1, L1)"
          using h1 hb by (simp add: alloc_inv_def L1_def L_def hint_in_def)
        obtain r2 sl where lp: "FatAllocate_loop (FatAllocate_round F G Pool Exact) (s1, L1) = Some (r2, sl)"
          and o: "case r2 of Inr met \<Rightarrow> if met then (\<exists>rs'. alloc_inv s Mcb (unat C) rs' sl) \<and> ClustersRemaining (snd sl) = 0
              \<and> AllocByteCount (snd sl) = AllocByteCount L1 else Exact
            | Inl e \<Rightarrow> (\<exists>e'. Some e' \<in> set (KernelResults s)) \<or> NumberOfWindows s = 1 \<and> FatIsFat32 s"
          using alloc_loop_outcome[OF F G l inv, of Pool Exact, unfolded snd_conv] by blast
        obtain s2 L2 where sl: "sl = (s2, L2)" by force
        define x where "x = FatAllocate_finally NumberOfRuns GetNext r2 sl"
        have e: "FatAllocateDiskSpace F G Pool NumberOfRuns GetNext H ByteCount Exact Mcb s =
            Some (fst x, AllocByteCount (snd (snd x)), AllocMcb (snd (snd x)), fst (snd x))"
        proof -
          have "FatAllocate_runs F G Pool NumberOfRuns GetNext Exact C (s1, L) = Some x"
            unfolding FatAllocate_runs_def fst_conv snd_conv if_not_P[OF loop] L1_def[symmetric] lp x_def by simp
          then show ?thesis unfolding eq if_not_P[OF False] by (simp split: prod.split)
        qed
        have gb0: "AllocByteCount (snd (snd (FatAllocate_giveback NumberOfRuns GetNext sl'))) = 0" for sl'
          by (cases sl') (auto simp: FatAllocate_giveback_def Let_def split: prod.splits)
        show ?thesis
        proof (cases r2)
          case (Inl e2)
          have "\<exists>e. fst x = Inl e" unfolding x_def Inl FatAllocate_finally_def
            by (cases e2) (auto simp: seq_def split: prod.splits sum.splits)
          then show ?thesis using e o Inl by auto
        next
          case (Inr met)
          show ?thesis
          proof (cases "met")
            case True
            then obtain rs where rs: "alloc_inv s Mcb (unat C) rs (s2, L2)" "ClustersRemaining L2 = 0" "AllocByteCount L2 = Rounded"
              using o Inr sl by (auto simp: L1_def L_def)
            have x: "x = (Inr (), (s2, L2))" using True Inr by (simp add: x_def sl FatAllocate_finally_def)
            have "AllocMcb L2 = fst (fold (alloc_add s) rs (Mcb, 0))" using rs(1) by (simp add: alloc_inv_def)
            then have "allocated s Mcb (unat C) Rounded (AllocMcb L2) s2"
              by (intro holding_allocated[OF _ l _ C0, of rs]) (use rs in \<open>simp_all add: alloc_inv_def\<close>)
            then show ?thesis using e x rs(3) by auto
          next
            case False
            then show ?thesis using e o Inr gb0[of sl] by (auto simp: x_def FatAllocate_finally_def)
          qed
        qed
      qed
    qed
  qed
qed

section \<open>The properties\<close>

text \<open>
  the clusters an allocation asks for are the byte count divided by the bytes of a
  cluster, rounded up, and the byte count the caller gets back is that many clusters, or
  0xffffffff when this is 4 GB.
\<close>

theorem FatRoundAllocation_covers:
  assumes "l = unat (LogOfBytesPerCluster (AllocationSupport s))" and "l < 32" and "ByteCount \<noteq> 0"
    and "FatRoundAllocation s ByteCount = (Rounded, ClusterCount)"
  shows "unat ClusterCount = (unat ByteCount + 2 ^ l - 1) div 2 ^ l
    \<and> unat Rounded = min (unat ClusterCount * 2 ^ l) (2 ^ 32 - 1)"
proof -
  note r = FatRoundAllocation_eq[OF assms]
  have P: "0 < (2::nat) ^ l" by simp
  have e: "unat ClusterCount * 2 ^ l \<le> unat ByteCount + 2 ^ l - 1" unfolding r(1) by (rule div_times_less_eq_dividend)
  have B: "unat ByteCount < 2 ^ 32" by (rule unat_lt32)
  have "(2::nat) ^ l dvd 2 ^ 32" using assms(2) by (intro le_imp_power_dvd) simp
  show ?thesis
  proof (cases "unat ByteCount + 2 ^ l \<le> 2 ^ 32")
    case True
    then have *: "unat ClusterCount * 2 ^ l < 2 ^ 32" using e P by linarith
    then have "unat (of_nat (unat ClusterCount * 2 ^ l) :: ULONG) = unat ClusterCount * 2 ^ l" by (intro unat_of_nat_small) simp
    moreover have "Rounded = of_nat (unat ClusterCount * 2 ^ l)" using True r(4) by (simp only: if_True)
    ultimately have "unat Rounded = unat ClusterCount * 2 ^ l" by (simp only:)
    then show ?thesis using r(1) * by simp
  next
    case False
    have BC: "unat ByteCount \<le> unat ClusterCount * 2 ^ l"
    proof -
      have "unat ByteCount + 2 ^ l - 1 < Suc (unat ClusterCount) * 2 ^ l" unfolding r(1)
        using P by (metis dividend_less_div_times mult.commute mult_Suc)
      then show ?thesis by simp
    qed
    obtain k where k: "(2::nat) ^ 32 = 2 ^ l * k" using \<open>2 ^ l dvd 2 ^ 32\<close> by (rule dvdE)
    have "2 ^ l * k < unat ClusterCount * 2 ^ l + 2 ^ l" using False BC unfolding k by linarith
    also have "\<dots> = 2 ^ l * (unat ClusterCount + 1)" by (simp add: algebra_simps)
    finally have "k < unat ClusterCount + 1" by (rule mult_less_cancel1[THEN iffD1, THEN conjunct2])
    then have "k \<le> unat ClusterCount" by simp
    then have "2 ^ 32 \<le> unat ClusterCount * 2 ^ l" unfolding k by (subst mult.commute) (rule mult_le_mono1)
    then show ?thesis using r(1,4) False by simp
  qed
qed

theorem FatRoundAllocation_covers_witness:
  "unat (snd (FatRoundAllocation floppy_vcb 1000)) = 2"
proof -
  obtain R C where "FatRoundAllocation floppy_vcb 1000 = (R, C)" by force
  from FatRoundAllocation_covers[OF refl _ _ this] this show ?thesis by (simp add: floppy_vcb_def)
qed

text \<open>
  C1: an allocation that returns with space takes as many clusters as the byte count needs:
  they were free, they are now one chain in the FAT, of that length and in the order of the
  runs entered in the Mcb, every other entry is as it was, and the bitmap, the counts of free
  clusters of the windows and of the volume and the hint agree with the FAT again.
\<close>

theorem FatAllocateDiskSpace_correct:
  assumes "find_clear_ok RtlFindClearBits" and "find_longest_ok RtlFindLongestRunClear"
    and "alloc_ok s" and "links_ok s" and "unat (LogOfBytesPerCluster (AllocationSupport s)) < 32"
    and "Hint \<noteq> 1" and "ByteCount \<noteq> 0" and "FatRoundAllocation s ByteCount = (Rounded, ClusterCount)"
    and "FatAllocateDiskSpace RtlFindClearBits RtlFindLongestRunClear Pool NumberOfRuns GetNext Hint ByteCount Exact Mcb s
      = Some (Inr (), Bytes, Mcb', t)" and "Bytes \<noteq> 0"
  shows "Bytes = Rounded \<and> allocated s Mcb (unat ClusterCount) Rounded Mcb' t"
proof (cases "ClusterCount \<le> NumberOfFreeClusters (AllocationSupport s)")
  case True
  from FatAllocateDiskSpace_outcome[OF assms(1-8) True, of Pool NumberOfRuns GetNext Exact Mcb] assms(9,10)
  show ?thesis by auto
next
  case False
  then show ?thesis using assms(7,8,9) by (simp add: FatAllocateDiskSpace_def seq_def FatTakeFree_def)
qed

text \<open>
  C2: on a volume whose invariant holds, when as many clusters are free as the byte count
  needs and no kernel call raises, an allocation that need not be exact ends and succeeds,
  unless the volume is FAT32 with a single window (it may then stop the machine, see below).
\<close>

theorem FatAllocateDiskSpace_succeeds:
  assumes "find_clear_ok RtlFindClearBits" and "find_longest_ok RtlFindLongestRunClear"
    and "alloc_ok s" and "links_ok s" and "unat (LogOfBytesPerCluster (AllocationSupport s)) < 32"
    and "Hint \<noteq> 1" and "ByteCount \<noteq> 0" and "FatRoundAllocation s ByteCount = (Rounded, ClusterCount)"
    and "ClusterCount \<le> NumberOfFreeClusters (AllocationSupport s)"
    and "KernelResults s = []" and "\<not> (NumberOfWindows s = 1 \<and> FatIsFat32 s)"
  shows "\<exists>Mcb' t. FatAllocateDiskSpace RtlFindClearBits RtlFindLongestRunClear Pool NumberOfRuns GetNext Hint ByteCount False Mcb s
      = Some (Inr (), Rounded, Mcb', t) \<and> allocated s Mcb (unat ClusterCount) Rounded Mcb' t"
  using FatAllocateDiskSpace_outcome[OF assms(1-9), of Pool NumberOfRuns GetNext False Mcb] assms(10,11) by auto

text \<open>A search for the longest run as its documentation has it.\<close>

definition longest_fit :: find_longest where
  "longest_fit bm =
     (case first_index (\<lambda>k. \<exists>i\<in>set [0..<length bm]. clear_run bm i (length bm - k)) [0..<length bm] of
        None \<Rightarrow> (0, 0)
      | Some k \<Rightarrow> (of_nat (length bm - k),
          case first_index (\<lambda>i. clear_run bm i (length bm - k)) [0..<length bm] of None \<Rightarrow> 0 | Some i \<Rightarrow> of_nat i))"

lemma longest_fit_ok: "find_longest_ok longest_fit"
proof (unfold find_longest_ok_def, intro allI impI)
  fix bm :: "bool list" assume len: "length bm < 2 ^ 32 - 1"
  let ?P = "\<lambda>k. \<exists>i\<in>set [0..<length bm]. clear_run bm i (length bm - k)"
  show "let (n, i) = longest_fit bm
        in (0 < n \<longrightarrow> clear_run bm (unat i) (unat n)) \<and> (\<forall>k m. clear_run bm k m \<longrightarrow> m \<le> unat n)"
  proof (cases "first_index ?P [0..<length bm]")
    case None
    have "m = 0" if "clear_run bm j m" for j m
    proof (rule ccontr)
      assume "m \<noteq> 0"
      then have j: "j < length bm" "length bm - m < length bm" "length bm - (length bm - m) = m"
        using that by (auto simp: clear_run_def)
      moreover have "\<forall>x<length bm. \<forall>i<length bm. \<not> clear_run bm i (length bm - x)" using None by (auto simp: first_index_None)
      ultimately show False using that by metis
    qed
    then show ?thesis using None by (auto simp: longest_fit_def)
  next
    case (Some k)
    have kl: "k < length bm" using first_index_Some[OF Some] by simp
    have P: "?P ([0..<length bm] ! k)" using first_index_Some[OF Some] by blast
    have no: "\<not> ?P j" if "j < k" for j
    proof -
      have "\<not> ?P ([0..<length bm] ! j)" using first_index_Some[OF Some] that by blast
      then show ?thesis using that kl by simp
    qed
    obtain i where i: "i < length bm" "clear_run bm i (length bm - k)" using P kl by auto
    obtain i' where i': "first_index (\<lambda>i. clear_run bm i (length bm - k)) [0..<length bm] = Some i'"
      using i first_index_None[of "\<lambda>i. clear_run bm i (length bm - k)" "[0..<length bm]"] by fastforce
    have c: "i' < length bm" "clear_run bm i' (length bm - k)" using first_index_Some[OF i'] by auto
    have "m \<le> length bm - k" if "clear_run bm j m" for j m
    proof (rule ccontr)
      assume m: "\<not> m \<le> length bm - k"
      then have j: "j < length bm" "length bm - m < k" "length bm - (length bm - m) = m"
        using that kl by (auto simp: clear_run_def)
      then have "?P (length bm - m)" using that by (auto intro!: bexI[of _ j])
      then show False using no[OF j(2)] by blast
    qed
    moreover have "unat (of_nat (length bm - k) :: ULONG) = length bm - k" "unat (of_nat i' :: ULONG) = i'"
      using len c(1) by (auto intro!: unat_of_nat_small)
    ultimately show ?thesis using Some i' c(2) by (simp add: longest_fit_def Let_def)
  qed
qed

lemma u2: "unat (2 :: ULONG) = 2"
  by simp

lemma floppy_request: "unat (LogOfBytesPerCluster (AllocationSupport floppy_vcb)) < 32" "KernelResults floppy_vcb = []"
  "links_ok floppy_vcb" "NumberOfWindows floppy_vcb = 1" "\<not> FatIsFat32 floppy_vcb"
  "\<exists>R. FatRoundAllocation floppy_vcb 1000 = (R, 2) \<and> R \<noteq> 0"
proof -
  show l: "unat (LogOfBytesPerCluster (AllocationSupport floppy_vcb)) < 32" "KernelResults floppy_vcb = []"
    "links_ok floppy_vcb" "NumberOfWindows floppy_vcb = 1" "\<not> FatIsFat32 floppy_vcb"
    by (simp_all add: floppy_vcb_def links_ok_def fat_vwidth_def FatIsFat32_def)
  obtain R C where r: "FatRoundAllocation floppy_vcb 1000 = (R, C)" by force
  note e = FatRoundAllocation_eq[OF refl l(1) _ r]
  have "unat C = 2" using e(1) by (simp add: floppy_vcb_def)
  then have "C = 2" by (simp add: word_unat_eq_iff)
  then show "\<exists>R. FatRoundAllocation floppy_vcb 1000 = (R, 2) \<and> R \<noteq> 0" using r e(2) by auto
qed

theorem FatAllocateDiskSpace_succeeds_witness:
  "\<exists>B M t. FatAllocateDiskSpace first_fit longest_fit (\<lambda>_. True) (\<lambda>_. 0) (\<lambda>_ _. None) 0 1000 False [] floppy_vcb
      = Some (Inr (), B, M, t) \<and> allocated floppy_vcb [] 2 B M t"
proof -
  obtain R where R: "FatRoundAllocation floppy_vcb 1000 = (R, 2)" using floppy_request(6) by blast
  have C: "2 \<le> NumberOfFreeClusters (AllocationSupport floppy_vcb)" by (simp add: floppy_vcb_def)
  have h: "(0 :: ULONG) \<noteq> 1" "(1000 :: ULONG) \<noteq> 0" "\<not> (NumberOfWindows floppy_vcb = 1 \<and> FatIsFat32 floppy_vcb)"
    using floppy_request(5) by simp_all
  from FatAllocateDiskSpace_succeeds[OF first_fit_ok longest_fit_ok floppy_alloc_ok floppy_request(3,1) h(1,2) R C floppy_request(2) h(3),
      of "\<lambda>_. True" "\<lambda>_. 0" "\<lambda>_ _. None" "[]"]
  show ?thesis by (simp only: u2) blast
qed

theorem FatAllocateDiskSpace_correct_witness:
  "\<exists>B M t cl. FatAllocateDiskSpace first_fit longest_fit (\<lambda>_. True) (\<lambda>_. 0) (\<lambda>_ _. None) 0 1000 False [] floppy_vcb
      = Some (Inr (), B, M, t) \<and> length cl = 2 \<and> fat_chain t 2 (of_nat (hd cl)) = Some (map of_nat cl) \<and> alloc_ok t"
proof -
  obtain R where R: "FatRoundAllocation floppy_vcb 1000 = (R, 2)" "R \<noteq> 0" using floppy_request(6) by blast
  have C: "2 \<le> NumberOfFreeClusters (AllocationSupport floppy_vcb)" by (simp add: floppy_vcb_def)
  have h: "(0 :: ULONG) \<noteq> 1" "(1000 :: ULONG) \<noteq> 0" by simp_all
  obtain B M t where run: "FatAllocateDiskSpace first_fit longest_fit (\<lambda>_. True) (\<lambda>_. 0) (\<lambda>_ _. None) 0 1000 False [] floppy_vcb
      = Some (Inr (), B, M, t)" "B = R"
    using FatAllocateDiskSpace_outcome[OF first_fit_ok longest_fit_ok floppy_alloc_ok floppy_request(3,1) h R(1) C,
        of "\<lambda>_. True" "\<lambda>_. 0" "\<lambda>_ _. None" False "[]"] floppy_request(2,5) by auto
  from FatAllocateDiskSpace_correct[OF first_fit_ok longest_fit_ok floppy_alloc_ok floppy_request(3,1) h R(1) run(1)] R(2) run(2)
  have "allocated floppy_vcb [] 2 R M t" by (simp only: u2 simp_thms)
  then show ?thesis using run(1) by (auto simp: allocated_def Let_def)
qed

text \<open>
  C38: when fewer clusters are free than the byte count needs, the allocation raises
  STATUS_DISK_FULL and leaves the volume and the Mcb as they are.
\<close>

theorem FatAllocateDiskSpace_disk_full:
  assumes "ByteCount \<noteq> 0" and "FatRoundAllocation s ByteCount = (Rounded, ClusterCount)"
    and "NumberOfFreeClusters (AllocationSupport s) < ClusterCount"
  shows "FatAllocateDiskSpace F G Pool NumberOfRuns GetNext Hint ByteCount Exact Mcb s
      = Some (Inl STATUS_DISK_FULL, Rounded, Mcb, s)"
proof -
  have "(ClusterCount \<le> NumberOfFreeClusters (AllocationSupport s)) = False" using assms(3) by (simp add: not_le)
  then show ?thesis using assms(1,2) by (simp add: FatAllocateDiskSpace_def seq_def FatTakeFree_def)
qed

theorem FatAllocateDiskSpace_disk_full_witness:
  "\<exists>R. FatAllocateDiskSpace first_fit longest_fit (\<lambda>_. True) (\<lambda>_. 0) (\<lambda>_ _. None) 0 1 False [] full32_vcb
      = Some (Inl STATUS_DISK_FULL, R, [], full32_vcb)"
proof -
  obtain R C where r: "FatRoundAllocation full32_vcb 1 = (R, C)" by force
  have "C \<noteq> 0" using FatRoundAllocation_eq(3)[OF refl _ _ r] by (simp add: full32_vcb_def disk32_vcb_def)
  then have "NumberOfFreeClusters (AllocationSupport full32_vcb) < C" by (simp add: full32_vcb_def word_neq_0_conv)
  from FatAllocateDiskSpace_disk_full[OF _ r this] show ?thesis by simp
qed

text \<open>
  C37: an exact request that the single window of a volume cannot meet at the hint returns
  with the byte count 0, and the clusters set aside for it stay off the count of free
  clusters of the volume: nothing gives them back.
\<close>

theorem FatAllocateDiskSpace_exact_leaks:
  assumes "ByteCount \<noteq> 0" and "FatRoundAllocation s ByteCount = (Rounded, ClusterCount)"
    and "ClusterCount \<le> NumberOfFreeClusters (AllocationSupport s)" and "NumberOfWindows s = 1"
    and "Hint \<noteq> 0" and "Hint < NumberOfClusters (AllocationSupport s) + 2"
    and "FatFindFreeClusterRun RtlFindClearBits s ClusterCount Hint \<noteq> Hint" and "NumberOfRuns Mcb = 0"
  shows "\<exists>Mcb'. FatAllocateDiskSpace RtlFindClearBits G Pool NumberOfRuns GetNext Hint ByteCount True Mcb s
      = Some (Inr (), 0, Mcb', s\<lparr>AllocationSupport := (AllocationSupport s)
          \<lparr>NumberOfFreeClusters := NumberOfFreeClusters (AllocationSupport s) - ClusterCount\<rparr>\<rparr>)"
proof -
  let ?s1 = "s\<lparr>AllocationSupport := (AllocationSupport s)
          \<lparr>NumberOfFreeClusters := NumberOfFreeClusters (AllocationSupport s) - ClusterCount\<rparr>\<rparr>"
  have "FatFindFreeClusterRun RtlFindClearBits ?s1 ClusterCount Hint = FatFindFreeClusterRun RtlFindClearBits s ClusterCount Hint"
    by (simp add: FatFindFreeClusterRun_def FatIsClusterFree_def)
  then have f: "\<not> (FatFindFreeClusterRun RtlFindClearBits ?s1 ClusterCount Hint \<noteq> 1 \<and>
      (Hint = 0 \<or> FatFindFreeClusterRun RtlFindClearBits ?s1 ClusterCount Hint = Hint))" using assms(5,7) by simp
  have h: "seq (FatTakeFree ClusterCount) (\<lambda>_. FatAllocate_hint Pool Hint ClusterCount) s = (Inr (Hint, Hint), ?s1)"
    using assms(3-6) by (simp add: seq_def FatTakeFree_def FatAllocate_hint_def)
  have g: "AllocMcb L = Mcb \<Longrightarrow> LockedBitMap L \<Longrightarrow> \<exists>L'. FatAllocate_runs RtlFindClearBits G Pool NumberOfRuns GetNext True ClusterCount (?s1, L)
      = Some (Inr (), (?s1, L')) \<and> AllocByteCount L' = 0" for L
    using assms(4,8) by (simp add: FatAllocate_runs_def FatAllocate_finally_def FatAllocate_giveback_def FatDeallocateDiskSpace_def Let_def)
  show ?thesis
    unfolding FatAllocateDiskSpace_def assms(2) h prod.case sum.case Let_def if_not_P[OF assms(1)] if_not_P[OF f]
    by (rule exE[OF g[of "\<lparr>AllocMcb = Mcb, AllocByteCount = Rounded, AllocWindow = CurrentWindow ?s1, WindowRelativeHint = Hint,
                          RunIndex = 0, Cluster = 0, CurrentVbo = 0, PriorLastCluster = 0, BytesFound = 0,
                          ClustersFound = 0, ClustersRemaining = 0, LockedBitMap = True, SelectNextContigWindow = False\<rparr>"]]) auto
qed

theorem FatAllocateDiskSpace_exact_leaks_witness:
  "\<exists>M t. FatAllocateDiskSpace first_fit longest_fit (\<lambda>_. True) (\<lambda>_. 0) (\<lambda>_ _. None) 100 1000 True [] floppy_vcb
      = Some (Inr (), 0, M, t) \<and> NumberOfFreeClusters (AllocationSupport t) = 2845 \<and> FreeClusterBitMap t = FreeClusterBitMap floppy_vcb"
proof -
  obtain R where R: "FatRoundAllocation floppy_vcb 1000 = (R, 2)" using floppy_request(6) by blast
  have bm: "FreeClusterBitMap floppy_vcb = replicate 2847 False" by (simp add: floppy_vcb_def)
  have "clear_run (replicate 2847 False) 0 2" by (simp add: clear_run_def)
  then have "first_index (\<lambda>i. clear_run (replicate 2847 False) i 2) (0 # [Suc 0..<2847]) = Some 0"
    by (simp only: first_index.simps if_True)
  moreover have "[0..<2847] = 0 # [Suc 0..<2847::nat]" by (rule upt_conv_Cons) simp
  ultimately have "first_fit (replicate 2847 False) 2 x = 0" for x unfolding first_fit_def length_replicate u2 by simp
  then have "FatFindFreeClusterRun first_fit floppy_vcb 2 100 \<noteq> 100" by (simp add: FatFindFreeClusterRun_def bm)
  from FatAllocateDiskSpace_exact_leaks[OF _ R _ floppy_request(4) _ _ this, of "\<lambda>_. 0" "[]" longest_fit "\<lambda>_. True" "\<lambda>_ _. None"]
  show ?thesis by (auto simp: floppy_vcb_def)
qed

lemma one_window_range:
  assumes sy: "synced e s" and nw: "NumberOfWindows s = 1"
  shows "win_lo s (CurrentWindow s) = 2" "win_hi s (CurrentWindow s) = vcb_N s + 2"
proof -
  note b = synced_bits[OF sy]
  have lw: "length (Windows s) = 1" using b(7) nw unfolding windows_ok_def by (metis unat_1)
  then have cw: "CurrentWindow s = 0" using b(8) by simp
  then show "win_lo s (CurrentWindow s) = 2" by (simp add: win_lo_def)
  have N: "0 < vcb_N s" "length (Windows s) = (vcb_N s + win_size s - 1) div win_size s" using b(7) by (simp_all add: windows_ok_def)
  have W: "0 < win_size s" using N(1) by (rule win_size_pos)
  have "vcb_N s \<le> win_size s"
  proof (rule ccontr)
    assume "\<not> vcb_N s \<le> win_size s"
    then have "2 * win_size s \<le> vcb_N s + win_size s - 1" using W by linarith
    then have "2 \<le> (vcb_N s + win_size s - 1) div win_size s" using W by (simp add: less_eq_div_iff_mult_less_eq)
    then show False using N(2) lw by simp
  qed
  then show "win_hi s (CurrentWindow s) = vcb_N s + 2" unfolding cw by (simp add: win_hi_def)
qed

lemma FatAllocate_two_rounds:
  assumes "F2 = FatAllocate_loop (FatAllocate_round F G Pool Exact)"
    and "ClustersRemaining L \<noteq> 0" "FatAllocate_round F G Pool Exact (s, L) = (Inr False, (t, L'))"
    and "ClustersRemaining L' \<noteq> 0" "FatAllocate_round F G Pool Exact (t, L') = (Inl e, sl)"
  shows "F2 (s, L) = Some (Inl e, sl)"
  using assms by (simp add: FatAllocate_loop.simps)

lemma FatAllocateDiskSpace_one_window_outcome:
  assumes F: "find_clear_ok F" and ok: "alloc_ok s" and l: "links_ok s"
    and fat: "FatIsFat32 s" and nw: "NumberOfWindows s = 1" and K: "KernelResults s = []"
    and B: "ByteCount \<noteq> 0" and rd: "FatRoundAllocation s ByteCount = (Rounded, C)"
    and C: "C \<le> NumberOfFreeClusters (AllocationSupport s)"
    and H: "2 \<le> unat H" "unat H < vcb_N s + 2" and S: "FatFindFreeClusterRun F s C H \<noteq> H"
    and free: "\<And>j. unat H \<le> j \<Longrightarrow> j < vcb_N s + 2 \<Longrightarrow> fat_entries s j = FAT_CLUSTER_AVAILABLE"
    and few: "vcb_N s + 2 - unat H < unat C"
  shows "\<exists>Bytes Mcb' t. FatAllocateDiskSpace F G Pool NumberOfRuns GetNext H ByteCount False Mcb s
      = Some (Inl (FAT_BUG_CHECK 0 5 0), Bytes, Mcb', t)"
proof -
  define s1 where "s1 = s\<lparr>AllocationSupport := (AllocationSupport s)
          \<lparr>NumberOfFreeClusters := NumberOfFreeClusters (AllocationSupport s) - C\<rparr>\<rparr>"
  have tf: "FatTakeFree C s = (Inr (), s1)" using C by (simp add: FatTakeFree_def s1_def)
  have h1: "holding s [] C s1" using FatTakeFree_holding[OF ok C tf] by simp
  have sy: "synced (fat_entries s) s" using ok by (simp add: alloc_ok_def)
  have N: "vcb_N s + 2 < 2 ^ 31" using synced_bits(7)[OF sy] by (simp add: windows_ok_def)
  have uN: "unat (NumberOfClusters (AllocationSupport s) + 2) = vcb_N s + 2" using N by (subst unat_add_small) simp_all
  have H0: "H \<noteq> 0" "H < NumberOfClusters (AllocationSupport s) + 2" "\<not> NumberOfWindows s > 1"
    using H uN nw by (auto simp: word_less_nat)
  have hi: "seq (FatTakeFree C) (\<lambda>_. FatAllocate_hint Pool H C) s = (Inr (H, H), s1)"
    using H0 by (simp add: seq_def tf FatAllocate_hint_def) (simp add: s1_def)
  have bm: "FreeClusterBitMap s1 = map (\<lambda>j. fat_entries s j \<noteq> 0) [2..<vcb_N s + 2]"
    using synced_bits(1)[OF sy] one_window_range[OF sy nw] by (simp add: s1_def)
  have blen: "length (FreeClusterBitMap s1) = vcb_N s" unfolding bm length_map length_upt by (rule diff_add_inverse2)
  have "FatFindFreeClusterRun F s1 C H = FatFindFreeClusterRun F s C H"
    by (simp add: FatFindFreeClusterRun_def FatIsClusterFree_def s1_def)
  then have f: "\<not> (FatFindFreeClusterRun F s1 C H \<noteq> 1 \<and> (H = 0 \<or> FatFindFreeClusterRun F s1 C H = H))" using S H0(1) by simp
  define L where "L = \<lparr>AllocMcb = Mcb, AllocByteCount = Rounded, AllocWindow = CurrentWindow s1, WindowRelativeHint = H,
                          RunIndex = 0, Cluster = 0, CurrentVbo = 0, PriorLastCluster = 0, BytesFound = 0,
                          ClustersFound = 0, ClustersRemaining = C, LockedBitMap = True, SelectNextContigWindow = False\<rparr>"
  define D :: ULONG where "D = of_nat (length (FreeClusterBitMap s1)) - (H - 2)"
  have uH: "unat (H - 2) = unat H - 2" using H by (subst unat_sub_le) (simp_all add: word_le_nat)
  have ul: "unat (of_nat (length (FreeClusterBitMap s1)) :: ULONG) = vcb_N s" using N blen by (simp add: unat_of_nat_small)
  have "unat H - 2 \<le> vcb_N s" using H by linarith
  then have uD: "unat D = vcb_N s - (unat H - 2)" unfolding D_def by (subst unat_sub_le) (simp_all add: word_le_nat uH ul)
  have D0: "D \<noteq> 0" "\<not> D > C" "C - D \<noteq> 0"
  proof -
    have "0 < unat D" "unat D < unat C" using uD H few by linarith+
    then show "D \<noteq> 0" "\<not> D > C" "C - D \<noteq> 0" by (auto simp: word_less_nat)
  qed
  have cr: "clear_run (FreeClusterBitMap s1) (unat (H - 2)) (unat D)"
  proof -
    have "\<not> FreeClusterBitMap s1 ! (unat H - 2 + k)" if k: "k < vcb_N s - (unat H - 2)" for k
    proof -
      have "FreeClusterBitMap s1 ! (unat H - 2 + k) = (fat_entries s ([2..<vcb_N s + 2] ! (unat H - 2 + k)) \<noteq> 0)"
        unfolding bm using k by (intro nth_map, unfold length_upt) linarith
      also have "[2..<vcb_N s + 2] ! (unat H - 2 + k) = unat H + k" using k H by (subst nth_upt) linarith+
      also have "fat_entries s (unat H + k) = 0" by (rule free) (use k H in linarith)+
      finally show ?thesis by simp
    qed
    moreover have "unat H - 2 + (vcb_N s - (unat H - 2)) \<le> vcb_N s" using H by linarith
    ultimately show ?thesis unfolding clear_run_def uH uD blen by blast
  qed
  define L2 where "L2 = L\<lparr>WindowRelativeHint := 2, RunIndex := H - 2, ClustersFound := D, SelectNextContigWindow := True\<rparr>"
  have fat1: "FatIsFat32 s1" using fat by (simp add: FatIsFat32_def s1_def)
  have ar: "RtlAreBitsClear (FreeClusterBitMap s1) (H - 2) D" using cr D0 by (simp add: RtlAreBitsClear_def unat_gt_0)
  have ah: "FatAllocate_at_hint False s1 L = (False, L2)"
    unfolding FatAllocate_at_hint_def Let_def using D0(2) ar fat1 by (simp add: L_def D_def[symmetric] L2_def)
  have LL: "L\<lparr>LockedBitMap := True, ClustersFound := 0\<rparr> = L" "WindowRelativeHint L \<noteq> 0" "\<not> SelectNextContigWindow L"
    "ClustersFound L2 \<noteq> 0" using H0(1) D0(1) by (simp_all add: L_def L2_def)
  have se: "FatAllocate_search F G False s1 (L\<lparr>LockedBitMap := True\<rparr>) = (False, L2)"
    using LL ah by (simp add: FatAllocate_search_def)
  obtain r t L' where rd1: "FatAllocate_take F (s1, L2) = (r, (t, L'))" by (metis prod_cases3)
  have r1: "FatAllocate_round F G Pool False (s1, L) = (r, (t, L'))"
    using se LL rd1 by (simp add: FatAllocate_round_def)
  have inv: "alloc_inv s Mcb (unat C) [] (s1, L2)"
    using h1 fat1 blen H by (simp add: alloc_inv_def L2_def L_def hint_in_def)
  have K1: "KernelResults s1 = []" using K by (simp add: s1_def)
  have n: "ClustersFound L2 \<noteq> 0" "ClustersFound L2 \<le> ClustersRemaining L2"
    "clear_run (FreeClusterBitMap s1) (unat (RunIndex L2)) (unat (ClustersFound L2))"
    using D0 cr by (simp_all add: L2_def L_def)
  have tk: "r = Inr False" "\<exists>q. alloc_inv s Mcb (unat C) ([] @ [q]) (t, L')" "ClustersRemaining L' = C - D" "SelectNextContigWindow L'"
    using FatAllocate_take_outcome[OF F l inv n rd1] K1 by (auto simp: L2_def L_def)
  have nwt: "NumberOfWindows t = 1" using tk(2) nw alloc_frameD(2)[of s t] by (auto simp: alloc_inv_def holding_def)
  obtain sl where r2: "FatAllocate_round F G Pool False (t, L') = (Inl (FAT_BUG_CHECK 0 5 0), sl)"
    using tk(4) nwt by (simp add: FatAllocate_round_def FatAllocate_search_def Let_def FatAllocate_switch_def)
  have lp: "FatAllocate_loop (FatAllocate_round F G Pool False) (s1, L) = Some (Inl (FAT_BUG_CHECK 0 5 0), sl)"
    by (rule FatAllocate_two_rounds[OF refl _ r1[unfolded tk(1)] _ r2]) (use D0 few in \<open>auto simp: L_def tk(3)\<close>)
  have runs: "FatAllocate_runs F G Pool NumberOfRuns GetNext False C (s1, L\<lparr>ClustersRemaining := 0\<rparr>)
      = Some (Inl (FAT_BUG_CHECK 0 5 0), sl)"
  proof -
    have "L\<lparr>ClustersRemaining := 0, ClustersRemaining := C\<rparr> = L" by (simp add: L_def)
    then show ?thesis using lp by (simp add: FatAllocate_runs_def FatAllocate_finally_def)
  qed
  have "FatAllocateDiskSpace F G Pool NumberOfRuns GetNext H ByteCount False Mcb s =
      map_option (\<lambda>(r, t, L'). (r, AllocByteCount L', AllocMcb L', t))
        (FatAllocate_runs F G Pool NumberOfRuns GetNext False C (s1, L\<lparr>ClustersRemaining := 0\<rparr>))"
    unfolding FatAllocateDiskSpace_def rd hi prod.case sum.case Let_def if_not_P[OF B] if_not_P[OF f] by (simp add: L_def)
  then show ?thesis unfolding runs by (cases sl) auto
qed

text \<open>
  C36: on a FAT32 volume with a single window, when the free clusters from the hint to the
  end of the volume are too few and no run of the size lies at the hint, the allocation takes
  that run, wants the next window for the rest, and stops the machine for want of a window,
  though as many clusters as it needs are free.
\<close>

theorem FatAllocateDiskSpace_one_window_stops:
  assumes "find_clear_ok RtlFindClearBits" and "alloc_ok s" and "links_ok s"
    and "FatIsFat32 s" and "NumberOfWindows s = 1" and "KernelResults s = []"
    and "ByteCount \<noteq> 0" and "FatRoundAllocation s ByteCount = (Rounded, ClusterCount)"
    and "ClusterCount \<le> NumberOfFreeClusters (AllocationSupport s)"
    and "2 \<le> unat Hint" and "unat Hint < vcb_N s + 2" and "FatFindFreeClusterRun RtlFindClearBits s ClusterCount Hint \<noteq> Hint"
    and "\<And>j. unat Hint \<le> j \<Longrightarrow> j < vcb_N s + 2 \<Longrightarrow> fat_entries s j = FAT_CLUSTER_AVAILABLE"
    and "vcb_N s + 2 - unat Hint < unat ClusterCount"
  shows "\<exists>Bytes Mcb' t. FatAllocateDiskSpace RtlFindClearBits G Pool NumberOfRuns GetNext Hint ByteCount False Mcb s
      = Some (Inl (FAT_BUG_CHECK 0 5 0), Bytes, Mcb', t)"
  using assms by (rule FatAllocateDiskSpace_one_window_outcome)

text \<open>A FAT32 volume of 65530 clusters, all free: one window.\<close>

definition small32_vcb :: VCB where
  "small32_vcb = disk32_vcb\<lparr>AllocationSupport := (AllocationSupport disk32_vcb)
       \<lparr>NumberOfClusters := 65530, NumberOfFreeClusters := 65530\<rparr>,
     NumberOfWindows := 1, Windows := [\<lparr> FirstCluster = 2, LastCluster = 65531, ClustersFree = 65530 \<rparr>],
     FreeClusterBitMap := replicate 65530 False, VolumeFile := (\<lambda>_. 0)\<rparr>"

lemma small32_entries: "FatEntryOf small32_vcb i = 0"
  by (simp add: FatEntryOf_def fat_get_def fat_get32_def small32_vcb_def disk32_vcb_def get32_def get16_def)

lemma small32_alloc_ok: "alloc_ok small32_vcb"
proof -
  have f: "free_in (\<lambda>j. 0) a b = b - a" for a b by (simp add: free_in_def)
  have w: "windows_ok small32_vcb" by (simp add: windows_ok_def small32_vcb_def disk32_vcb_def win_size_def win_lo_def win_hi_def)
  have "synced (fat_entries small32_vcb) small32_vcb"
    unfolding synced_def small32_entries f using w
    by (simp add: small32_vcb_def disk32_vcb_def win_size_def win_lo_def win_hi_def map_replicate_const del: upt_rec_numeral)
  moreover have "vcb_ok small32_vcb" using disk32_ok
    by (simp add: vcb_ok_def fat_fits_def small32_vcb_def disk32_vcb_def FatReservedBytes_def FatBytesPerFat_def IsBpbFat32_def)
  ultimately show ?thesis by (simp add: alloc_ok_def)
qed

theorem FatAllocateDiskSpace_one_window_stops_witness:
  "\<exists>B M t. FatAllocateDiskSpace first_fit longest_fit (\<lambda>_. True) (\<lambda>_. 0) (\<lambda>_ _. None) 65500 409600 False [] small32_vcb
      = Some (Inl (FAT_BUG_CHECK 0 5 0), B, M, t)"
proof -
  obtain R C where r: "FatRoundAllocation small32_vcb 409600 = (R, C)" by force
  have lg: "unat (LogOfBytesPerCluster (AllocationSupport small32_vcb)) = 12" by (simp add: small32_vcb_def disk32_vcb_def)
  have uC: "unat C = 100" using FatRoundAllocation_eq(1)[OF refl _ _ r] by (simp add: lg)
  then have C: "C = 100" by (simp add: word_unat_eq_iff)
  have bm: "FreeClusterBitMap small32_vcb = replicate 65530 False" by (simp add: small32_vcb_def)
  have "clear_run (replicate 65530 False) 0 100" by (simp add: clear_run_def)
  then have "first_index (\<lambda>i. clear_run (replicate 65530 False) i 100) (0 # [Suc 0..<65530]) = Some 0"
    by (simp only: first_index.simps if_True)
  moreover have "[0..<65530] = 0 # [Suc 0..<65530::nat]" by (rule upt_conv_Cons) simp
  ultimately have "first_fit (replicate 65530 False) C x = 0" for x unfolding first_fit_def length_replicate uC by simp
  then have S: "FatFindFreeClusterRun first_fit small32_vcb C 65500 \<noteq> 65500" by (simp add: FatFindFreeClusterRun_def bm C)
  have k: "links_ok small32_vcb" "FatIsFat32 small32_vcb" "NumberOfWindows small32_vcb = 1" "KernelResults small32_vcb = []"
    "NumberOfFreeClusters (AllocationSupport small32_vcb) = 65530" "vcb_N small32_vcb = 65530"
    by (simp_all add: links_ok_def FatIsFat32_def small32_vcb_def disk32_vcb_def fat_vwidth_def)
  show ?thesis
    by (rule FatAllocateDiskSpace_one_window_stops[OF first_fit_ok small32_alloc_ok k(1-4) _ r _ _ _ S])
      (simp_all add: k C small32_entries)
qed

end
