(* ===== verification/FatTime.thy ===== *)
theory FatTime
  imports FatPrelude "HOL-Library.Signed_Division"
begin

text \<open>
  Times (timesup.c): the time stamps of a directory entry, and their conversion from and to the
  64-bit times of the system. The calendar and the time zone are those of the kernel: four
  calls, whose documented behaviour \<open>clock_ok\<close> states.
\<close>

section \<open>Data\<close>

text \<open>The bit fields of a packed date and time, and the fields the kernel splits a time into.\<close>

record FAT_TIME =
  DoubleSeconds :: "5 word"
  TimeMinute :: "6 word"
  TimeHour :: "5 word"

record FAT_DATE =
  DateDay :: "5 word"
  DateMonth :: "4 word"
  DateYear :: "7 word"

record FAT_TIME_STAMP =
  Time :: FAT_TIME
  Date :: FAT_DATE

record TIME_FIELDS =
  Year :: int
  Month :: int
  Day :: int
  Hour :: int
  Minute :: int
  Second :: int
  Milliseconds :: int

definition AlmostTwoSeconds :: int where
  "AlmostTwoSeconds = 2*1000*1000*10 - 1"

text \<open>The calls of the kernel. A time is a number of ticks of 100 nanoseconds since 1601.\<close>

record NT_CLOCK =
  ExSystemTimeToLocalTime :: "int \<Rightarrow> int"
  ExLocalTimeToSystemTime :: "int \<Rightarrow> int"
  RtlTimeToTimeFields :: "int \<Rightarrow> TIME_FIELDS"
  RtlTimeFieldsToTime :: "TIME_FIELDS \<Rightarrow> int option"

section \<open>Conversions\<close>

text \<open>
  The result is the boolean with the time stamp and the tens of milliseconds, where the code
  sets them, and the time as the routine leaves it behind its pointer. RtlTimeFieldsToTime
  leaves the time as it was when it refuses the fields.
\<close>

definition FatNtTimeToFatTime :: "NT_CLOCK \<Rightarrow> int \<Rightarrow> bool \<Rightarrow> (FAT_TIME_STAMP \<times> UCHAR) option \<times> int" where
  "FatNtTimeToFatTime clock NtTime Rounding =
     (let NtTime = (if Rounding then NtTime + AlmostTwoSeconds else NtTime);
          NtTime = ExSystemTimeToLocalTime clock NtTime;
          F = RtlTimeToTimeFields clock NtTime
      in if Year F < 1980 \<or> Year F > 1980 + 127
         then (None, ExLocalTimeToSystemTime clock NtTime)
         else
           (let FatTime = \<lparr>Time = \<lparr>DoubleSeconds = word_of_int (Second F sdiv 2),
                                     TimeMinute = word_of_int (Minute F),
                                     TimeHour = word_of_int (Hour F)\<rparr>,
                            Date = \<lparr>DateDay = word_of_int (Day F),
                                     DateMonth = word_of_int (Month F),
                                     DateYear = word_of_int (Year F - 1980)\<rparr>\<rparr>;
                TenMsecs = (if \<not> Rounding then word_of_int (Milliseconds F sdiv 10 + (Second F smod 2) * 100) else 0);
                F = (if Rounding
                     then F\<lparr>Milliseconds := 0, Second := Second F - Second F smod 2\<rparr>
                     else F\<lparr>Milliseconds := Milliseconds F - Milliseconds F smod 10\<rparr>);
                NtTime = (case RtlTimeFieldsToTime clock F of Some t \<Rightarrow> t | None \<Rightarrow> NtTime)
            in (Some (FatTime, TenMsecs), ExLocalTimeToSystemTime clock NtTime)))"

definition FatFatDateToNtTime :: "NT_CLOCK \<Rightarrow> FAT_DATE \<Rightarrow> int" where
  "FatFatDateToNtTime clock FatDate =
     (case RtlTimeFieldsToTime clock
             \<lparr>Year = uint (DateYear FatDate) + 1980, Month = uint (DateMonth FatDate), Day = uint (DateDay FatDate),
              Hour = 0, Minute = 0, Second = 0, Milliseconds = 0\<rparr> of
        None \<Rightarrow> 0
      | Some t \<Rightarrow> ExLocalTimeToSystemTime clock t)"

definition FatTimeFields :: "FAT_TIME_STAMP \<Rightarrow> UCHAR \<Rightarrow> TIME_FIELDS" where
  "FatTimeFields FatTime TenMilliSeconds =
     (let F = \<lparr>Year = uint (DateYear (Date FatTime)) + 1980, Month = uint (DateMonth (Date FatTime)),
               Day = uint (DateDay (Date FatTime)), Hour = uint (TimeHour (Time FatTime)),
               Minute = uint (TimeMinute (Time FatTime)), Second = uint (DoubleSeconds (Time FatTime)) * 2,
               Milliseconds = 0\<rparr>;
          F = (if TenMilliSeconds \<noteq> 0
               then F\<lparr>Second := Second F + uint (TenMilliSeconds div 100), Milliseconds := uint (TenMilliSeconds mod 100) * 10\<rparr>
               else F)
      in if Second F > 59 then F\<lparr>Second := 0\<rparr> else F)"

definition FatFatTimeToNtTime :: "NT_CLOCK \<Rightarrow> FAT_TIME_STAMP \<Rightarrow> UCHAR \<Rightarrow> int" where
  "FatFatTimeToNtTime clock FatTime TenMilliSeconds =
     (case RtlTimeFieldsToTime clock (FatTimeFields FatTime TenMilliSeconds) of
        None \<Rightarrow> 0
      | Some t \<Rightarrow> ExLocalTimeToSystemTime clock t)"

text \<open>The current time is converted without the check of the year.\<close>

definition FatGetCurrentFatTime :: "NT_CLOCK \<Rightarrow> int \<Rightarrow> FAT_TIME_STAMP" where
  "FatGetCurrentFatTime clock SystemTime =
     (let F = RtlTimeToTimeFields clock (ExSystemTimeToLocalTime clock SystemTime + AlmostTwoSeconds)
      in \<lparr>Time = \<lparr>DoubleSeconds = word_of_int (Second F sdiv 2),
                   TimeMinute = word_of_int (Minute F),
                   TimeHour = word_of_int (Hour F)\<rparr>,
          Date = \<lparr>DateDay = word_of_int (Day F),
                   DateMonth = word_of_int (Month F),
                   DateYear = word_of_int (Year F - 1980)\<rparr>\<rparr>)"

section \<open>The kernel's calendar\<close>

text \<open>
  What the calls promise: local time is system time less a bias; the fields of a time are in
  their ranges; seconds and milliseconds are those of the tick count, and the other fields do
  not change within a minute; and the fields give the time back, down to the millisecond.
\<close>

definition fields_ok :: "TIME_FIELDS \<Rightarrow> bool" where
  "fields_ok F \<longleftrightarrow> 1601 \<le> Year F \<and> Month F \<in> {1..12} \<and> Day F \<in> {1..31} \<and> Hour F \<in> {0..23} \<and> Minute F \<in> {0..59}"

definition clock_ok :: "NT_CLOCK \<Rightarrow> int \<Rightarrow> bool" where
  "clock_ok clock bias \<longleftrightarrow>
     (\<forall>t. ExSystemTimeToLocalTime clock t = t - bias) \<and>
     (\<forall>t. ExLocalTimeToSystemTime clock t = t + bias) \<and>
     (\<forall>t\<ge>0. fields_ok (RtlTimeToTimeFields clock t) \<and>
        Second (RtlTimeToTimeFields clock t) = t div 10000000 mod 60 \<and>
        Milliseconds (RtlTimeToTimeFields clock t) = t div 10000 mod 1000 \<and>
        RtlTimeFieldsToTime clock (RtlTimeToTimeFields clock t) = Some (t - t mod 10000)) \<and>
     (\<forall>t\<ge>0. \<forall>u\<ge>0. t div 600000000 = u div 600000000 \<longrightarrow>
        RtlTimeToTimeFields clock u =
        (RtlTimeToTimeFields clock t)\<lparr>Second := u div 10000000 mod 60, Milliseconds := u div 10000 mod 1000\<rparr>)"

lemma clockD:
  assumes "clock_ok clock bias"
  shows "ExSystemTimeToLocalTime clock t = t - bias" "ExLocalTimeToSystemTime clock t = t + bias"
    and "0 \<le> t \<Longrightarrow> fields_ok (RtlTimeToTimeFields clock t)"
    and "0 \<le> t \<Longrightarrow> Second (RtlTimeToTimeFields clock t) = t div 10000000 mod 60"
    and "0 \<le> t \<Longrightarrow> Milliseconds (RtlTimeToTimeFields clock t) = t div 10000 mod 1000"
    and "0 \<le> t \<Longrightarrow> RtlTimeFieldsToTime clock (RtlTimeToTimeFields clock t) = Some (t - t mod 10000)"
    and "0 \<le> t \<Longrightarrow> 0 \<le> u \<Longrightarrow> t div 600000000 = u div 600000000 \<Longrightarrow>
        RtlTimeToTimeFields clock u =
        (RtlTimeToTimeFields clock t)\<lparr>Second := u div 10000000 mod 60, Milliseconds := u div 10000 mod 1000\<rparr>"
  using assms unfolding clock_ok_def by blast+

text \<open>Cutting a time to a step that divides a minute keeps its minute.\<close>

lemma cut_minute:
  fixes t k :: int
  assumes "0 \<le> t" "0 < k" "k dvd 600000000"
  shows "(t - t mod k) div 600000000 = t div 600000000" "0 \<le> t - t mod k"
proof -
  obtain m where m: "600000000 = k * m" using assms(3) by (elim dvdE)
  have "0 < k * m" unfolding m[symmetric] by simp
  then have "0 < m" using assms(2) by (simp add: zero_less_mult_iff)
  have "(t - t mod k) div (k * m) = t div (k * m)"
    using assms(2) \<open>0 < m\<close> by (simp add: zdiv_zmult2_eq minus_mod_eq_mult_div)
  then show "(t - t mod k) div 600000000 = t div 600000000" unfolding m .
  show "0 \<le> t - t mod k" using assms(1,2) by (simp add: minus_mod_eq_mult_div pos_imp_zdiv_nonneg_iff)
qed

text \<open>So the kernel's fields of the cut time are the fields of the time, cut.\<close>

lemma cut_fields:
  assumes c: "clock_ok clock bias" and t: "0 \<le> t" and k: "0 < k" "k dvd 600000000"
  shows "RtlTimeToTimeFields clock (t - t mod k) =
      (RtlTimeToTimeFields clock t)\<lparr>Second := (t - t mod k) div 10000000 mod 60, Milliseconds := (t - t mod k) div 10000 mod 1000\<rparr>"
  by (rule clockD(7)[OF c t cut_minute(2)[OF t k]]) (simp add: cut_minute(1)[OF t k])

lemma cut_two_seconds:
  fixes t :: int
  shows "(t - t mod 20000000) div 10000000 mod 60 = t div 10000000 mod 60 - t div 10000000 mod 60 mod 2"
    "(t - t mod 20000000) div 10000 mod 1000 = 0" "(t - t mod 20000000) mod 10000 = 0"
proof -
  define q where "q = t div 20000000"
  have e: "t - t mod 20000000 = 20000000 * q" by (simp add: q_def minus_mod_eq_mult_div)
  have ten: "20000000 * q div 10000000 = 2 * q" by simp
  have ten2: "20000000 * q = 10000 * (1000 * (2 * q))" by simp
  have q: "t div 10000000 div 2 = q" using zdiv_zmult2_eq[of 2 t 10000000] by (simp add: q_def)
  have m: "2 * q mod 60 = 2 * (q mod 30)" using mult_mod_right[of 2 q 30] by simp
  have "t div 10000000 mod 60 = 2 * (q mod 30) + t div 10000000 mod 2"
    using zmod_zmult2_eq[of 30 "t div 10000000" 2] q by simp
  then have "2 * q mod 60 = t div 10000000 mod 60 - t div 10000000 mod 60 mod 2" unfolding m by simp
  then show "(t - t mod 20000000) div 10000000 mod 60 = t div 10000000 mod 60 - t div 10000000 mod 60 mod 2"
    unfolding e by (simp only: nonzero_mult_div_cancel_left ten)
  show "(t - t mod 20000000) div 10000 mod 1000 = 0" "(t - t mod 20000000) mod 10000 = 0" unfolding e ten2 by simp_all
qed

lemma cut_ten_msec:
  fixes t :: int
  shows "(t - t mod 100000) div 10000000 mod 60 = t div 10000000 mod 60"
    "(t - t mod 100000) div 10000 mod 1000 = t div 10000 mod 1000 - t div 10000 mod 1000 mod 10" "(t - t mod 100000) mod 10000 = 0"
proof -
  define q where "q = t div 100000"
  have e: "t - t mod 100000 = 100000 * q" by (simp add: q_def minus_mod_eq_mult_div)
  have q: "t div 10000 div 10 = q" "t div 10000000 = q div 100"
    using zdiv_zmult2_eq[of 10 t 10000] zdiv_zmult2_eq[of 100 t 100000] by (simp_all add: q_def)
  have m: "10 * q mod 1000 = 10 * (q mod 100)" using mult_mod_right[of 10 q 100] by simp
  have "t div 10000 mod 1000 = 10 * (q mod 100) + t div 10000 mod 10"
    using zmod_zmult2_eq[of 100 "t div 10000" 10] q(1) by simp
  then have "t div 10000 mod 1000 - t div 10000 mod 1000 mod 10 = 10 * (q mod 100)" by simp
  then show "(t - t mod 100000) div 10000 mod 1000 = t div 10000 mod 1000 - t div 10000 mod 1000 mod 10"
    unfolding e using m by simp
  show "(t - t mod 100000) div 10000000 mod 60 = t div 10000000 mod 60" unfolding e q(2)
    using zdiv_zmult2_eq[of 100 "100000 * q" 100000] by simp
  show "(t - t mod 100000) mod 10000 = 0" unfolding e by simp
qed

section \<open>Stamps and fields\<close>

text \<open>The time stamp of fields within the years of the format gives the fields back, cut to two seconds.\<close>

definition stamp_of :: "TIME_FIELDS \<Rightarrow> FAT_TIME_STAMP" where
  "stamp_of F =
     \<lparr>Time = \<lparr>DoubleSeconds = word_of_int (Second F sdiv 2), TimeMinute = word_of_int (Minute F), TimeHour = word_of_int (Hour F)\<rparr>,
      Date = \<lparr>DateDay = word_of_int (Day F), DateMonth = word_of_int (Month F), DateYear = word_of_int (Year F - 1980)\<rparr>\<rparr>"

lemma sdiv2: "0 \<le> (s::int) \<Longrightarrow> s sdiv 2 = s div 2" "0 \<le> (s::int) \<Longrightarrow> s smod 2 = s mod 2"
    "0 \<le> (s::int) \<Longrightarrow> s sdiv 10 = s div 10" "0 \<le> (s::int) \<Longrightarrow> s smod 10 = s mod 10"
  by (auto simp: signed_divide_int_def signed_modulo_int_def sgn_if)

lemma stamp_fields:
  assumes F: "fields_ok F" "1980 \<le> Year F" "Year F \<le> 2107" and s: "0 \<le> Second F" "Second F < 60"
    and m: "0 \<le> ms" "ms < 1000"
  shows "FatTimeFields (stamp_of F) (word_of_int (ms div 10 + Second F mod 2 * 100)) = F\<lparr>Milliseconds := ms - ms mod 10\<rparr>"
    and "FatTimeFields (stamp_of F) 0 = F\<lparr>Second := Second F - Second F mod 2, Milliseconds := 0\<rparr>"
proof -
  have small: "uint (word_of_int v :: 'a::len word) = v" if "0 \<le> v" "v < 2 ^ LENGTH('a)" for v
    using that by (simp add: unsigned_of_int take_bit_int_eq_self)
  define v where "v = ms div 10 + Second F mod 2 * 100"
  have v: "0 \<le> v" "v < 200" using m by (auto simp: v_def)
  have w: "uint (word_of_int v :: UCHAR) = v" by (rule small) (use v in simp_all)
  have "v div 100 = Second F mod 2" "v mod 100 = ms div 10" using m by (auto simp: v_def)
  then have d: "uint ((word_of_int v :: UCHAR) div 100) = Second F mod 2" "uint ((word_of_int v :: UCHAR) mod 100) = ms div 10"
    using w by (simp_all add: uint_div uint_mod)
  have y: "uint (word_of_int (Year F - 1980) :: 7 word) = Year F - 1980" by (rule small) (use F in simp_all)
  have f: "uint (DateYear (Date (stamp_of F))) + 1980 = Year F" "uint (DateMonth (Date (stamp_of F))) = Month F"
    "uint (DateDay (Date (stamp_of F))) = Day F" "uint (TimeHour (Time (stamp_of F))) = Hour F"
    "uint (TimeMinute (Time (stamp_of F))) = Minute F" "uint (DoubleSeconds (Time (stamp_of F))) * 2 = Second F - Second F mod 2"
    using F s y by (simp_all add: stamp_of_def fields_ok_def sdiv2 small minus_mod_eq_div_mult del: of_int_diff)
  have any: "FatTimeFields (stamp_of F) w = F\<lparr>Second := Second F - Second F mod 2 + uint (w div 100), Milliseconds := uint (w mod 100) * 10\<rparr>"
    if "Second F - Second F mod 2 + uint (w div 100) \<le> 59" for w
    using that by (intro TIME_FIELDS.equality) (cases "w = 0"; simp add: FatTimeFields_def f Let_def)+
  show "FatTimeFields (stamp_of F) 0 = F\<lparr>Second := Second F - Second F mod 2, Milliseconds := 0\<rparr>"
    using any[of 0] s by simp
  have "FatTimeFields (stamp_of F) (word_of_int v) = F\<lparr>Second := Second F, Milliseconds := ms div 10 * 10\<rparr>"
    using any[of "word_of_int v", unfolded d] s by simp
  then show "FatTimeFields (stamp_of F) (word_of_int (ms div 10 + Second F mod 2 * 100)) = F\<lparr>Milliseconds := ms - ms mod 10\<rparr>"
    unfolding v_def minus_mod_eq_div_mult by (cases F) simp
qed

text \<open>The step a conversion cuts to, and the fields of the cut time.\<close>

abbreviation time_step :: "bool \<Rightarrow> int" where
  "time_step r \<equiv> (if r then 20000000 else 100000)"

lemma rounded_fields:
  assumes c: "clock_ok clock bias" and L: "0 \<le> L" and F: "F = RtlTimeToTimeFields clock L"
  shows "RtlTimeToTimeFields clock (L - L mod time_step r) =
      (if r then F\<lparr>Milliseconds := 0, Second := Second F - Second F mod 2\<rparr>
       else F\<lparr>Milliseconds := Milliseconds F - Milliseconds F mod 10\<rparr>)"
    and "RtlTimeFieldsToTime clock (RtlTimeToTimeFields clock (L - L mod time_step r)) = Some (L - L mod time_step r)"
proof -
  have s: "Second F = L div 10000000 mod 60" "Milliseconds F = L div 10000 mod 1000"
    unfolding F using clockD(4,5)[OF c L] by simp_all
  show "RtlTimeToTimeFields clock (L - L mod time_step r) =
      (if r then F\<lparr>Milliseconds := 0, Second := Second F - Second F mod 2\<rparr>
       else F\<lparr>Milliseconds := Milliseconds F - Milliseconds F mod 10\<rparr>)"
    using cut_fields[OF c L, of 20000000] cut_fields[OF c L, of 100000]
    unfolding cut_two_seconds cut_ten_msec s[symmetric] F[symmetric] by (cases F; cases r) simp_all
  have "(L - L mod time_step r) mod 10000 = 0" using cut_two_seconds(3) cut_ten_msec(3) by simp
  moreover have "0 \<le> L - L mod time_step r"
    using cut_minute(2)[OF L, of 20000000] cut_minute(2)[OF L, of 100000] by simp
  ultimately show "RtlTimeFieldsToTime clock (RtlTimeToTimeFields clock (L - L mod time_step r)) = Some (L - L mod time_step r)"
    using clockD(6)[OF c] by simp
qed

lemma FatNtTimeToFatTime_outcome:
  assumes c: "clock_ok clock bias" and L: "L = (if r then t + AlmostTwoSeconds else t) - bias" "0 \<le> L"
    and F: "F = RtlTimeToTimeFields clock L"
  shows "FatNtTimeToFatTime clock t r =
     (if Year F < 1980 \<or> Year F > 2107 then (None, L + bias)
      else (Some (stamp_of F, if r then 0 else word_of_int (Milliseconds F div 10 + Second F mod 2 * 100)), L - L mod time_step r + bias))"
proof -
  note cl = clockD(1,2)[OF c]
  have l: "ExSystemTimeToLocalTime clock (if r then t + AlmostTwoSeconds else t) = L" unfolding L(1) cl by simp
  have p: "0 \<le> Second F" "0 \<le> Milliseconds F" unfolding F using clockD(4,5)[OF c L(2)] by simp_all
  note rf = rounded_fields[OF c L(2) F]
  show ?thesis
    using rf[of r] unfolding FatNtTimeToFatTime_def Let_def l F[symmetric] clockD(2)[OF c] stamp_of_def sdiv2(1,2)[OF p(1)] sdiv2(3,4)[OF p(2)]
    by (cases r) simp_all
qed

text \<open>
  The current time is the one the other conversion makes, as long as the year fits; a date
  alone is read as its midnight.
\<close>

lemma FatGetCurrentFatTime_outcome:
  assumes c: "clock_ok clock bias" and t: "0 \<le> t - bias" and e: "FatNtTimeToFatTime clock t True = (Some (FatTime, ms), t')"
  shows "FatGetCurrentFatTime clock t = FatTime"
  using FatNtTimeToFatTime_outcome[OF c, of "t + AlmostTwoSeconds - bias" True t] t e clockD(4)[OF c, of "t + AlmostTwoSeconds - bias"]
  by (simp add: FatGetCurrentFatTime_def stamp_of_def Let_def clockD(1)[OF c] sdiv2 AlmostTwoSeconds_def add_diff_eq diff_add_eq split: if_splits)

lemma FatFatDateToNtTime_midnight:
  "FatFatDateToNtTime clock FatDate =
     FatFatTimeToNtTime clock \<lparr>Time = \<lparr>DoubleSeconds = 0, TimeMinute = 0, TimeHour = 0\<rparr>, Date = FatDate\<rparr> 0"
  by (simp add: FatFatDateToNtTime_def FatFatTimeToNtTime_def FatTimeFields_def Let_def)

section \<open>A calendar to evaluate with\<close>

text \<open>Twelve months of 31 days, no bias.\<close>

definition flat_fields :: "int \<Rightarrow> TIME_FIELDS" where
  "flat_fields t =
     (let m = t div 600000000; d = m div 60 div 24
      in \<lparr>Year = 1601 + d div 31 div 12, Month = 1 + d div 31 mod 12, Day = 1 + d mod 31, Hour = m div 60 mod 24,
          Minute = m mod 60, Second = t div 10000000 mod 60, Milliseconds = t div 10000 mod 1000\<rparr>)"

definition flat_time :: "TIME_FIELDS \<Rightarrow> int option" where
  "flat_time F =
     Some (((((((Year F - 1601) * 12 + Month F - 1) * 31 + Day F - 1) * 24 + Hour F) * 60 + Minute F) * 60 + Second F) * 10000000
           + Milliseconds F * 10000)"

definition flat_clock :: NT_CLOCK where
  "flat_clock = \<lparr>ExSystemTimeToLocalTime = (\<lambda>t. t - 0), ExLocalTimeToSystemTime = (\<lambda>t. t + 0),
     RtlTimeToTimeFields = flat_fields, RtlTimeFieldsToTime = flat_time\<rparr>"

lemma mixed_radix:
  fixes T :: int
  assumes "T = 10000 * u" "u = 1000 * s + ms" "s = 60 * n + se" "n = 60 * h + mi" "h = 24 * d + ho" "d = 31 * o' + da" "o' = 12 * y + mo"
  shows "((((((1601 + y - 1601) * 12 + (1 + mo) - 1) * 31 + (1 + da) - 1) * 24 + ho) * 60 + mi) * 60 + se) * 10000000 + ms * 10000 = T"
  using assms by simp

lemma flat_clock_ok: "clock_ok flat_clock 0"
proof -
  have m: "t div 10000000 div 60 = t div 600000000" "t div 10000 div 1000 = t div 10000000" for t :: int
    using zdiv_zmult2_eq[of 60 t 10000000] zdiv_zmult2_eq[of 1000 t 10000] by simp_all
  have inv: "flat_time (flat_fields t) = Some (t - t mod 10000)" for t
  proof -
    define u where "u = t div 10000"
    define s where "s = u div 1000"
    define n where "n = s div 60"
    define d where "d = n div 60 div 24"
    have e: "t - t mod 10000 = 10000 * u" "u = 1000 * s + u mod 1000" "s = 60 * n + s mod 60" "n = 60 * (n div 60) + n mod 60"
      "n div 60 = 24 * d + n div 60 mod 24" "d = 31 * (d div 31) + d mod 31" "d div 31 = 12 * (d div 31 div 12) + d div 31 mod 12"
      by (simp_all only: u_def s_def n_def d_def minus_mod_eq_mult_div mult_div_mod_eq)
    show ?thesis unfolding flat_time_def flat_fields_def Let_def m[symmetric] u_def[symmetric] s_def[symmetric] n_def[symmetric] d_def[symmetric] TIME_FIELDS.select_convs option.inject
      by (rule mixed_radix[OF e])
  qed
  have b: "x mod 12 \<le> 11" "x mod 31 \<le> 30" "x mod 24 \<le> 23" "x mod 60 \<le> 59" for x :: int
    using pos_mod_bound[of 12 x] pos_mod_bound[of 31 x] pos_mod_bound[of 24 x] pos_mod_bound[of 60 x] by simp_all
  have ok: "fields_ok (flat_fields t)" if "0 \<le> t" for t
    using that b by (simp add: fields_ok_def flat_fields_def Let_def pos_imp_zdiv_nonneg_iff)
  have mm: "flat_fields u = (flat_fields t)\<lparr>Second := u div 10000000 mod 60, Milliseconds := u div 10000 mod 1000\<rparr>"
    if "t div 600000000 = u div 600000000" for t u
    by (simp only: flat_fields_def Let_def TIME_FIELDS.update_convs that)
  have sel: "Second (flat_fields t) = t div 10000000 mod 60" "Milliseconds (flat_fields t) = t div 10000 mod 1000" for t
    by (simp_all only: flat_fields_def Let_def TIME_FIELDS.select_convs)
  show ?thesis
    unfolding clock_ok_def flat_clock_def NT_CLOCK.select_convs using ok inv sel mm by blast
qed

section \<open>The round trip\<close>

text \<open>
  C39: A time the FAT format can hold, stored in a directory entry and read again, is the time
  the conversion left for the caller to keep: the next multiple of two seconds of the local
  time when it rounds, the last multiple of 10 milliseconds when it does not; and converting
  that time once more gives the same entry and leaves it as it is.
\<close>

theorem FatFatTimeToNtTime_FatNtTimeToFatTime:
  assumes c: "clock_ok clock bias" and t: "0 \<le> t - bias"
    and e: "FatNtTimeToFatTime clock t Rounding = (Some (FatTime, TenMsecs), t')"
  shows "FatFatTimeToNtTime clock FatTime TenMsecs = t' \<and>
         (if Rounding then t \<le> t' \<and> t' < t + 20000000 \<and> (t' - bias) mod 20000000 = 0
          else t' \<le> t \<and> t < t' + 100000 \<and> (t' - bias) mod 100000 = 0) \<and>
         FatNtTimeToFatTime clock t' False = (Some (FatTime, TenMsecs), t')"
proof -
  define L where "L = (if Rounding then t + AlmostTwoSeconds else t) - bias"
  have L: "0 \<le> L" using t by (simp add: L_def AlmostTwoSeconds_def)
  define F where "F = RtlTimeToTimeFields clock L"
  define M where "M = L - L mod time_step Rounding"
  note out = FatNtTimeToFatTime_outcome[OF c L_def L F_def, unfolded e]
  have y: "1980 \<le> Year F" "Year F \<le> 2107" and st: "FatTime = stamp_of F"
    and ms: "TenMsecs = (if Rounding then 0 else word_of_int (Milliseconds F div 10 + Second F mod 2 * 100))" and t': "t' = M + bias"
    using out unfolding M_def by (simp_all split: if_splits)
  have M: "0 \<le> M" using cut_minute(2)[OF L, of "time_step Rounding"] by (simp add: M_def)
  define G where "G = RtlTimeToTimeFields clock M"
  have G: "G = (if Rounding then F\<lparr>Milliseconds := 0, Second := Second F - Second F mod 2\<rparr>
       else F\<lparr>Milliseconds := Milliseconds F - Milliseconds F mod 10\<rparr>)" "RtlTimeFieldsToTime clock G = Some M"
    unfolding G_def M_def by (rule rounded_fields[OF c L F_def])+
  have s: "0 \<le> Second F" "Second F < 60" "0 \<le> Milliseconds F" "Milliseconds F < 1000"
    unfolding F_def using clockD(4,5)[OF c L] by simp_all
  have "FatTimeFields FatTime TenMsecs = G"
    using stamp_fields[OF clockD(3)[OF c L, folded F_def] y s] unfolding st ms G(1) by (cases F; cases Rounding) simp_all
  then have 1: "FatFatTimeToNtTime clock FatTime TenMsecs = t'"
    using G(2) by (simp add: FatFatTimeToNtTime_def t' clockD(2)[OF c])
  have 2: "if Rounding then t \<le> t' \<and> t' < t + 20000000 \<and> (t' - bias) mod 20000000 = 0
          else t' \<le> t \<and> t < t' + 100000 \<and> (t' - bias) mod 100000 = 0"
  proof -
    have z: "M mod time_step Rounding = 0" unfolding M_def by (simp add: minus_mod_eq_mult_div)
    have "M \<le> L" "L < M + time_step Rounding" unfolding M_def by (cases Rounding; simp)+
    then show ?thesis unfolding t' using z by (cases Rounding) (simp_all add: L_def AlmostTwoSeconds_def)
  qed
  have "(100000::int) dvd time_step Rounding" "time_step Rounding dvd M"
    by (simp, simp only: M_def minus_mod_eq_mult_div dvd_triv_left)
  then have m: "M mod 100000 = 0" by (metis dvd_trans mod_eq_0_iff_dvd)
  have cut: "(x - x mod 2) div 2 = x div 2" "0 \<le> x \<Longrightarrow> 0 \<le> x - x mod 2" "(x - x mod 2) mod 2 = 0" "(x - x mod 10) div 10 = x div 10" for x :: int
    by presburger+
  have sg: "Second G = (if Rounding then Second F - Second F mod 2 else Second F)"
    "Milliseconds G = (if Rounding then 0 else Milliseconds F - Milliseconds F mod 10)"
    and same: "Year G = Year F" "Month G = Month F" "Day G = Day F" "Hour G = Hour F" "Minute G = Minute F"
    by (simp_all add: G(1))
  have half: "Second G sdiv 2 = Second F sdiv 2"
    unfolding sg(1) sdiv2(1)[OF s(1)] using sdiv2(1)[OF cut(2)[OF s(1)]] cut(1) sdiv2(1)[OF s(1)] by (cases Rounding) (simp_all only: if_True if_False)
  have "Milliseconds G div 10 + Second G mod 2 * 100 = (if Rounding then 0 else Milliseconds F div 10 + Second F mod 2 * 100)"
    unfolding sg using cut(3,4) by (cases Rounding) (simp_all only: if_True if_False div_0 mult_zero_left add_0)
  then have "word_of_int (Milliseconds G div 10 + Second G mod 2 * 100) = TenMsecs"
    unfolding ms by (cases Rounding) (simp_all only: if_True if_False of_int_0)
  then have g: "stamp_of G = FatTime" "word_of_int (Milliseconds G div 10 + Second G mod 2 * 100) = TenMsecs" "Year G = Year F"
    unfolding st stamp_of_def half same by simp_all
  have o: "FatNtTimeToFatTime clock t' False =
     (if Year G < 1980 \<or> Year G > 2107 then (None, M + bias)
      else (Some (stamp_of G, if False then 0 else word_of_int (Milliseconds G div 10 + Second G mod 2 * 100)), M - M mod time_step False + bias))"
    by (rule FatNtTimeToFatTime_outcome[OF c _ M G_def]) (simp add: t')
  have "FatNtTimeToFatTime clock t' False = (Some (FatTime, TenMsecs), t')"
    unfolding o g if_False m using y by (auto simp: t')
  with 1 2 show ?thesis by blast
qed

theorem FatFatTimeToNtTime_FatNtTimeToFatTime_witness:
  "FatFatTimeToNtTime flat_clock (stamp_of (flat_fields 140000000020000000)) 0 = 140000000020000000"
proof -
  have "FatNtTimeToFatTime flat_clock 140000000000123456 True = (Some (stamp_of (flat_fields 140000000020000000), 0), 140000000020000000)"
    by (simp add: FatNtTimeToFatTime_def stamp_of_def flat_clock_def Let_def flat_time_def flat_fields_def AlmostTwoSeconds_def)
  from FatFatTimeToNtTime_FatNtTimeToFatTime[OF flat_clock_ok _ this] show ?thesis by simp
qed

end
