(* ===== verification/FatShortName.thy ===== *)
theory FatShortName
  imports FatTime
begin

unbundle bit_operations_syntax

text \<open>
  Short names (namesup.c): the 8.3 form of a name in a directory entry and the string it stands
  for, the two bits that keep a name in lower case without a long name, and the test that
  decides when those bits are enough.
\<close>

section \<open>Directory entries\<close>

text \<open>The 32 bytes of an entry. The extended attributes share their place with the high half of the first cluster.\<close>

record DIRENT =
  FileName :: "UCHAR list"
  Attributes :: UCHAR
  NtByte :: UCHAR
  CreationMSec :: UCHAR
  CreationTime :: FAT_TIME_STAMP
  LastAccessDate :: FAT_DATE
  ExtendedAttributes :: USHORT
  LastWriteTime :: FAT_TIME_STAMP
  FirstClusterOfFile :: USHORT
  FileSize :: ULONG

abbreviation UCHAR_SP :: UCHAR where "UCHAR_SP \<equiv> 0x20"
abbreviation UCHAR_DOT :: UCHAR where "UCHAR_DOT \<equiv> 0x2e"
abbreviation FAT_DIRENT_REALLY_0E5 :: UCHAR where "FAT_DIRENT_REALLY_0E5 \<equiv> 0x05"
abbreviation FAT_DIRENT_NT_BYTE_8_LOWER_CASE :: UCHAR where "FAT_DIRENT_NT_BYTE_8_LOWER_CASE \<equiv> 0x08"
abbreviation FAT_DIRENT_NT_BYTE_3_LOWER_CASE :: UCHAR where "FAT_DIRENT_NT_BYTE_3_LOWER_CASE \<equiv> 0x10"

section \<open>From a string to 8.3\<close>

text \<open>The first loop copies up to the dot and answers where it stopped.\<close>

function FatCopyBase :: "UCHAR list \<Rightarrow> nat \<Rightarrow> UCHAR list \<Rightarrow> nat \<times> UCHAR list" where
  "FatCopyBase InputString i Output =
     (if i < length InputString \<and> InputString ! i \<noteq> UCHAR_DOT \<and> i < 11
      then FatCopyBase InputString (Suc i) (Output[i := InputString ! i])
      else (i, Output))"
  by auto
termination by (relation "measure (\<lambda>(s, i, out). length s - i)") auto

text \<open>
  The second copies what follows the dot behind the eighth byte, to the end of the string:
  None where it would store behind the eleven bytes of the name.
\<close>

function FatCopyExtension :: "UCHAR list \<Rightarrow> nat \<Rightarrow> nat \<Rightarrow> UCHAR list \<Rightarrow> UCHAR list option" where
  "FatCopyExtension InputString i j Output =
     (if i < length InputString
      then if j < 11 then FatCopyExtension InputString (Suc i) (Suc j) (Output[j := InputString ! i]) else None
      else Some Output)"
  by auto
termination by (relation "measure (\<lambda>(s, i, j, out). length s - i)") auto

declare FatCopyBase.simps [simp del] FatCopyExtension.simps [simp del]

definition FatStringTo8dot3 :: "UCHAR list \<Rightarrow> UCHAR list option" where
  "FatStringTo8dot3 InputString =
     (let (i, Output) = FatCopyBase InputString 0 (replicate 11 UCHAR_SP)
      in case (if i < length InputString then FatCopyExtension InputString (i + 1) 8 Output else Some Output) of
           None \<Rightarrow> None
         | Some Output \<Rightarrow> Some (if Output ! 0 = 0xe5 then Output[0 := FAT_DIRENT_REALLY_0E5] else Output))"

section \<open>From 8.3 to a string\<close>

text \<open>The length of a part of the name without its trailing blanks.\<close>

fun FatPartLength :: "UCHAR list \<Rightarrow> nat \<Rightarrow> nat" where
  "FatPartLength Part 0 = 0"
| "FatPartLength Part (Suc n) = (if Part ! n \<noteq> UCHAR_SP then Suc n else FatPartLength Part n)"

text \<open>The letters become small ones, but for both bytes of a double-byte character.\<close>

fun FatLowerCase :: "(UCHAR \<Rightarrow> bool) \<Rightarrow> UCHAR list \<Rightarrow> UCHAR list" where
  "FatLowerCase FsRtlIsLeadDbcsCharacter [] = []"
| "FatLowerCase FsRtlIsLeadDbcsCharacter (c # cs) =
     (if FsRtlIsLeadDbcsCharacter c
      then c # (case cs of [] \<Rightarrow> [] | d # ds \<Rightarrow> d # FatLowerCase FsRtlIsLeadDbcsCharacter ds)
      else (if 0x41 \<le> sint c \<and> sint c \<le> 0x5a then c + 0x20 else c) # FatLowerCase FsRtlIsLeadDbcsCharacter cs)"

definition Fat8dot3ToString :: "bool \<Rightarrow> (UCHAR \<Rightarrow> bool) \<Rightarrow> DIRENT \<Rightarrow> bool \<Rightarrow> UCHAR list" where
  "Fat8dot3ToString ChicagoMode FsRtlIsLeadDbcsCharacter Dirent RestoreCase =
     (let BaseLength = FatPartLength (FileName Dirent) 8;
          ExtensionLength = FatPartLength (drop 8 (FileName Dirent)) 3;
          Base = take BaseLength (FileName Dirent);
          Base = (if BaseLength \<noteq> 0 \<and> Base ! 0 = FAT_DIRENT_REALLY_0E5 then Base[0 := 0xe5] else Base);
          Base = (if ChicagoMode \<and> RestoreCase \<and> NtByte Dirent AND FAT_DIRENT_NT_BYTE_8_LOWER_CASE \<noteq> 0
                  then FatLowerCase FsRtlIsLeadDbcsCharacter Base else Base);
          Extension = take ExtensionLength (drop 8 (FileName Dirent));
          Extension = (if ChicagoMode \<and> RestoreCase \<and> NtByte Dirent AND FAT_DIRENT_NT_BYTE_3_LOWER_CASE \<noteq> 0
                       then FatLowerCase FsRtlIsLeadDbcsCharacter Extension else Extension)
      in if ExtensionLength \<noteq> 0 then Base @ UCHAR_DOT # Extension else Base)"

section \<open>The case of a name\<close>

text \<open>The counters are bytes; the boolean of the loop tells whether it ran to the end of the name.\<close>

record NAME_CASE =
  Uppers :: UCHAR
  Lowers :: UCHAR
  CreateLfn :: bool
  AllLowerComponent :: bool
  AllLowerExtension :: bool
  ExtensionPresent :: bool

fun FatEvaluate_loop :: "bool \<Rightarrow> USHORT list \<Rightarrow> NAME_CASE \<Rightarrow> NAME_CASE \<times> bool" where
  "FatEvaluate_loop CodePageInvariant [] s = (s, True)"
| "FatEvaluate_loop CodePageInvariant (c # cs) s =
     (if \<not> (0x41 \<le> c \<and> c \<le> 0x5a) \<and> \<not> (0x61 \<le> c \<and> c \<le> 0x7a) \<and> 0x80 \<le> c \<and> CodePageInvariant
      then (s, False)
      else
        (let s = (if 0x41 \<le> c \<and> c \<le> 0x5a then s\<lparr>Uppers := Uppers s + 1\<rparr>
                  else if 0x61 \<le> c \<and> c \<le> 0x7a then s\<lparr>Lowers := Lowers s + 1\<rparr>
                  else s);
             s = (if c = 0x2e
                  then s\<lparr>CreateLfn := Lowers s \<noteq> 0 \<and> Uppers s \<noteq> 0,
                         AllLowerComponent := \<not> (Lowers s \<noteq> 0 \<and> Uppers s \<noteq> 0) \<and> Lowers s \<noteq> 0,
                         ExtensionPresent := True,
                         Uppers := 0,
                         Lowers := 0\<rparr>
                  else s)
         in FatEvaluate_loop CodePageInvariant cs s))"

definition FatEvaluateNameCase :: "bool \<Rightarrow> USHORT list \<Rightarrow> NAME_CASE" where
  "FatEvaluateNameCase CodePageInvariant UnicodeName =
     (let (s, complete) = FatEvaluate_loop CodePageInvariant UnicodeName
            \<lparr>Uppers = 0, Lowers = 0, CreateLfn = False, AllLowerComponent = False, AllLowerExtension = False, ExtensionPresent = False\<rparr>;
          s = s\<lparr>CreateLfn := CreateLfn s \<or> \<not> complete \<or> (Lowers s \<noteq> 0 \<and> Uppers s \<noteq> 0)\<rparr>
      in if ExtensionPresent s
         then s\<lparr>AllLowerComponent := \<not> CreateLfn s \<and> AllLowerComponent s,
                AllLowerExtension := \<not> CreateLfn s \<and> Lowers s \<noteq> 0\<rparr>
         else s\<lparr>AllLowerComponent := \<not> CreateLfn s \<and> Lowers s \<noteq> 0,
                AllLowerExtension := False\<rparr>)"

definition FatSpaceInName :: "USHORT list \<Rightarrow> bool" where
  "FatSpaceInName UnicodeName = list_ex (\<lambda>c. c = 0x20) UnicodeName"

text \<open>RtlDowncaseUnicodeString works on each of the characters of the part it is given.\<close>

definition FatUnicodeRestoreShortNameCase :: "(USHORT \<Rightarrow> USHORT) \<Rightarrow> USHORT list \<Rightarrow> bool \<Rightarrow> bool \<Rightarrow> USHORT list" where
  "FatUnicodeRestoreShortNameCase RtlDowncase ShortNameWithCase LowerCase8 LowerCase3 =
     (let i = length (takeWhile (\<lambda>c. c \<noteq> 0x2e) ShortNameWithCase);
          Name = (if LowerCase8 then map RtlDowncase (take i ShortNameWithCase) @ drop i ShortNameWithCase else ShortNameWithCase);
          i = i + 1
      in if LowerCase3 \<and> i < length ShortNameWithCase then take i Name @ map RtlDowncase (drop i Name) else Name)"

section \<open>The 8.3 form\<close>

text \<open>A part of a name, padded with blanks to its width.\<close>

definition blanks :: "nat \<Rightarrow> UCHAR list \<Rightarrow> UCHAR list" where
  "blanks n xs = xs @ replicate (n - length xs) UCHAR_SP"

lemma length_blanks [simp]: "length xs \<le> n \<Longrightarrow> length (blanks n xs) = n"
  by (simp add: blanks_def)

definition base_of :: "UCHAR list \<Rightarrow> UCHAR list" where
  "base_of s = takeWhile (\<lambda>c. c \<noteq> UCHAR_DOT) (take 11 s)"

definition extension_of :: "UCHAR list \<Rightarrow> UCHAR list" where
  "extension_of s = drop (Suc (length (base_of s))) s"

lemma base_of_take: "base_of s = take (length (base_of s)) s" "length (base_of s) \<le> length s" "length (base_of s) \<le> 11"
proof -
  have l: "length (base_of s) \<le> length (take 11 s)" unfolding base_of_def by (rule length_takeWhile_le)
  then show "length (base_of s) \<le> length s" "length (base_of s) \<le> 11" by simp_all
  show "base_of s = take (length (base_of s)) s"
    using takeWhile_eq_take[of "\<lambda>c. c \<noteq> UCHAR_DOT" "take 11 s"] l by (simp add: base_of_def[symmetric] min_def split: if_splits)
qed

lemma FatCopyBase_run:
  assumes "i \<le> length (base_of s)"
  shows "FatCopyBase s i (blanks 11 (take i s)) = (length (base_of s), blanks 11 (base_of s))"
  using assms
proof (induction "length (base_of s) - i" arbitrary: i)
  case 0
  then have i: "i = length (base_of s)" by simp
  have nd: "\<not> (i < length s \<and> s ! i \<noteq> UCHAR_DOT \<and> i < 11)"
    using nth_length_takeWhile[of "\<lambda>c. c \<noteq> UCHAR_DOT" "take 11 s"] unfolding i base_of_def by (metis length_take min_less_iff_conj nth_take)
  then show ?case
    unfolding FatCopyBase.simps[of s i "blanks 11 (take i s)"] if_not_P[OF nd] using base_of_take(1)[of s, symmetric] i by simp
next
  case (Suc n)
  then have i: "i < length (base_of s)" by simp
  then have l: "i < length s" "i < 11" using base_of_take(2,3)[of s] by simp_all
  have "s ! i = base_of s ! i" using i base_of_take(1)[of s] by (metis nth_take)
  then have d: "s ! i \<noteq> UCHAR_DOT" using nth_mem[OF i] set_takeWhileD unfolding base_of_def by metis
  have "(blanks 11 (take i s))[i := s ! i] = blanks 11 (take (Suc i) s)"
    using l by (simp add: blanks_def take_Suc_conv_app_nth list_update_append Suc_diff_Suc[symmetric] del: Suc_diff_Suc)
  then show ?case using Suc.hyps(1)[of "Suc i"] Suc.hyps(2) i l d by (subst FatCopyBase.simps) simp
qed

lemma FatCopyExtension_run:
  "length out = 11 \<Longrightarrow> j \<le> 11 \<Longrightarrow>
   FatCopyExtension s i j out =
     (if j + length (drop i s) \<le> 11 then Some (take j out @ drop i s @ drop (j + length (drop i s)) out) else None)"
proof (induction s i j out rule: FatCopyExtension.induct)
  case (1 s i j out)
  show ?case
  proof (cases "i < length s \<and> j < 11")
    case True
    then have d: "drop i s = s ! i # drop (Suc i) s" by (simp add: Cons_nth_drop_Suc)
    have t: "take (Suc j) (out[j := s ! i]) = take j out @ [s ! i]" using True 1(2) by (simp add: take_Suc_conv_app_nth)
    have u: "drop (Suc j + length (drop (Suc i) s)) (out[j := s ! i]) = drop (Suc j + length (drop (Suc i) s)) out"
      by (rule drop_update_cancel) simp
    have "FatCopyExtension s (Suc i) (Suc j) (out[j := s ! i]) =
        (if Suc j + length (drop (Suc i) s) \<le> 11 then Some ((take j out @ [s ! i]) @ drop (Suc i) s @ drop (Suc j + length (drop (Suc i) s)) out) else None)"
      using 1(1) True 1(2) unfolding t u by simp
    then show ?thesis using True by (subst FatCopyExtension.simps) (simp only: if_True simp_thms d list.size append.assoc append.simps add_Suc_right add_Suc add_0_right)
  next
    case False
    then show ?thesis using 1(2,3) by (subst FatCopyExtension.simps) auto
  qed
qed

definition layout :: "UCHAR list \<Rightarrow> UCHAR list" where
  "layout s = take 8 (blanks 11 (base_of s)) @ extension_of s @ drop (8 + length (extension_of s)) (blanks 11 (base_of s))"

text \<open>The first byte of an entry: the mark of a deleted entry is stored as another byte.\<close>

definition store_e5 :: "UCHAR list \<Rightarrow> UCHAR list" where
  "store_e5 out = (if out ! 0 = 0xe5 then out[0 := FAT_DIRENT_REALLY_0E5] else out)"

definition read_e5 :: "UCHAR list \<Rightarrow> UCHAR list" where
  "read_e5 xs = (if xs \<noteq> [] \<and> xs ! 0 = FAT_DIRENT_REALLY_0E5 then xs[0 := 0xe5] else xs)"

lemma length_base [simp]: "length (blanks 11 (base_of s)) = 11"
  using base_of_take(3) by simp

lemma FatStringTo8dot3_layout:
  "FatStringTo8dot3 s = (if length (extension_of s) \<le> 3 then Some (store_e5 (layout s)) else None)"
proof -
  have b: "FatCopyBase s 0 (replicate 11 UCHAR_SP) = (length (base_of s), blanks 11 (base_of s))"
    using FatCopyBase_run[of 0 s] by (simp add: blanks_def)
  have "(if length (base_of s) < length s then FatCopyExtension s (length (base_of s) + 1) 8 (blanks 11 (base_of s)) else Some (blanks 11 (base_of s))) =
     (if length (extension_of s) \<le> 3 then Some (layout s) else None)"
  proof (cases "length (base_of s) < length s")
    case True
    then show ?thesis
      using FatCopyExtension_run[of "blanks 11 (base_of s)" 8 s "length (base_of s) + 1"]
      by (auto simp: layout_def extension_of_def)
  next
    case False
    then show ?thesis by (simp add: layout_def extension_of_def)
  qed
  then show ?thesis unfolding FatStringTo8dot3_def b Let_def prod.case by (simp add: store_e5_def)
qed

lemma length_layout: "length (extension_of s) \<le> 3 \<Longrightarrow> length (layout s) = 11"
  by (simp add: layout_def)

text \<open>
  A short name: a part of one to eight bytes, and behind a dot another of at most three that
  is not empty; neither ends in a blank, the first part has no dot.
\<close>

definition short_name :: "UCHAR list \<Rightarrow> UCHAR list \<Rightarrow> bool" where
  "short_name b e \<longleftrightarrow> b \<noteq> [] \<and> length b \<le> 8 \<and> length e \<le> 3 \<and> UCHAR_DOT \<notin> set b \<and> last b \<noteq> UCHAR_SP \<and> (e \<noteq> [] \<longrightarrow> last e \<noteq> UCHAR_SP)"

definition name_string :: "UCHAR list \<Rightarrow> UCHAR list \<Rightarrow> UCHAR list" where
  "name_string b e = (if e = [] then b else b @ UCHAR_DOT # e)"

lemma name_string_parts:
  assumes "short_name b e"
  shows "base_of (name_string b e) = b" "extension_of (name_string b e) = e"
    "layout (name_string b e) = blanks 8 b @ blanks 3 e"
proof -
  have t: "takeWhile (\<lambda>c. c \<noteq> UCHAR_DOT) b = b" using assms by (auto simp: takeWhile_eq_all_conv short_name_def)
  have "takeWhile (\<lambda>c. c \<noteq> UCHAR_DOT) (b @ UCHAR_DOT # xs) = b" for xs
    using t takeWhile_tail[of "\<lambda>c. c \<noteq> UCHAR_DOT" UCHAR_DOT b xs] by simp
  moreover have "take 11 (b @ UCHAR_DOT # e) = b @ UCHAR_DOT # take (10 - length b) e" "take 11 b = b"
    using assms by (simp_all add: short_name_def take_Cons' )
  ultimately show b: "base_of (name_string b e) = b" using t unfolding base_of_def name_string_def by simp
  show e: "extension_of (name_string b e) = e" unfolding extension_of_def b by (simp add: name_string_def)
  show "layout (name_string b e) = blanks 8 b @ blanks 3 e"
    unfolding layout_def b e using assms by (simp add: short_name_def blanks_def replicate_add[symmetric])
qed

lemma FatPartLength_blanks:
  "length xs \<le> n \<Longrightarrow> xs = [] \<or> last xs \<noteq> UCHAR_SP \<Longrightarrow> FatPartLength (blanks n xs @ ys) n = length xs"
proof (induction n arbitrary: ys)
  case (Suc n)
  show ?case
  proof (cases "length xs = Suc n")
    case True
    then have "xs ! n \<noteq> UCHAR_SP" using Suc.prems(2) using last_conv_nth[of xs] True by (cases "xs = []") auto
    then show ?thesis using True by (simp add: blanks_def nth_append)
  next
    case False
    then have l: "length xs \<le> n" using Suc.prems(1) by simp
    have e: "blanks (Suc n) xs @ ys = blanks n xs @ UCHAR_SP # ys"
      using l by (simp add: blanks_def Suc_diff_le replicate_append_same)
    have "(blanks n xs @ UCHAR_SP # ys) ! n = UCHAR_SP" using l by (simp add: nth_append)
    then show ?thesis unfolding e using Suc.IH[of "UCHAR_SP # ys"] l Suc.prems(2) by simp
  qed
qed simp

text \<open>The string of an 8.3 name, its parts read by themselves.\<close>

lemma Fat8dot3ToString_parts:
  assumes f: "FileName d = blanks 8 b @ blanks 3 e" and b: "length b \<le> 8" "b = [] \<or> last b \<noteq> UCHAR_SP"
    and e: "length e \<le> 3" "e = [] \<or> last e \<noteq> UCHAR_SP"
  shows "Fat8dot3ToString chicago lead d r = name_string
     (if chicago \<and> r \<and> NtByte d AND FAT_DIRENT_NT_BYTE_8_LOWER_CASE \<noteq> 0 then FatLowerCase lead (read_e5 b) else read_e5 b)
     (if chicago \<and> r \<and> NtByte d AND FAT_DIRENT_NT_BYTE_3_LOWER_CASE \<noteq> 0 then FatLowerCase lead e else e)"
proof -
  have pb: "FatPartLength (FileName d) 8 = length b" unfolding f by (rule FatPartLength_blanks[OF b])
  have d8: "drop 8 (FileName d) = blanks 3 e @ []" unfolding f using b(1) by simp
  have pe: "FatPartLength (drop 8 (FileName d)) 3 = length e" unfolding d8 by (rule FatPartLength_blanks[OF e])
  have tb: "take (length b) (FileName d) = b" unfolding f by (simp add: blanks_def)
  have te: "take (length e) (drop 8 (FileName d)) = e" unfolding d8 by (simp add: blanks_def)
  have ne: "FatLowerCase lead e = [] \<longleftrightarrow> e = []" by (cases e) auto
  show ?thesis
    unfolding Fat8dot3ToString_def Let_def pb pe tb te name_string_def read_e5_def[symmetric]
    using ne by (simp add: read_e5_def)
qed

lemma blanks_update: "xs \<noteq> [] \<Longrightarrow> (blanks n xs)[0 := v] = blanks n (xs[0 := v])" "xs \<noteq> [] \<Longrightarrow> blanks n xs ! 0 = xs ! 0"
  by (cases xs; simp add: blanks_def)+

lemma store_e5_parts:
  assumes "b \<noteq> []"
  shows "store_e5 (blanks n b @ ys) = blanks n (store_e5 b) @ ys"
  using assms by (cases b) (simp_all add: store_e5_def blanks_def)

lemma e5_part:
  assumes "b \<noteq> []"
  shows "store_e5 b \<noteq> []" "length (store_e5 b) = length b" "b ! 0 \<noteq> FAT_DIRENT_REALLY_0E5 \<Longrightarrow> read_e5 (store_e5 b) = b"
    "last b \<noteq> UCHAR_SP \<Longrightarrow> last (store_e5 b) \<noteq> UCHAR_SP"
  using assms by (cases b; auto simp: store_e5_def read_e5_def)+

lemma short_name_entry:
  assumes n: "short_name b e"
  shows "FatStringTo8dot3 (name_string b e) = Some (blanks 8 (store_e5 b) @ blanks 3 e)"
proof -
  have "b \<noteq> []" "length e \<le> 3" using n by (simp_all add: short_name_def)
  then show ?thesis unfolding FatStringTo8dot3_layout name_string_parts[OF n] by (simp add: store_e5_parts)
qed

lemma short_name_read:
  assumes n: "short_name b e" "b ! 0 \<noteq> FAT_DIRENT_REALLY_0E5" and f: "FatStringTo8dot3 (name_string b e) = Some (FileName d)"
  shows "Fat8dot3ToString chicago lead d r = name_string
     (if chicago \<and> r \<and> NtByte d AND FAT_DIRENT_NT_BYTE_8_LOWER_CASE \<noteq> 0 then FatLowerCase lead b else b)
     (if chicago \<and> r \<and> NtByte d AND FAT_DIRENT_NT_BYTE_3_LOWER_CASE \<noteq> 0 then FatLowerCase lead e else e)"
proof -
  have b: "b \<noteq> []" using n by (simp add: short_name_def)
  have "FileName d = blanks 8 (store_e5 b) @ blanks 3 e" using f short_name_entry[OF n(1)] by simp
  from Fat8dot3ToString_parts[OF this, of chicago lead r] show ?thesis
    using n e5_part[OF b] unfolding short_name_def by auto
qed

section \<open>The eleven bytes\<close>

lemma set_layout: "set (layout s) \<subseteq> insert UCHAR_SP (set s)"
proof -
  have b: "set (base_of s) \<subseteq> set s" by (metis base_of_take(1) set_take_subset)
  have e: "set (extension_of s) \<subseteq> set s" by (auto simp: extension_of_def dest: in_set_dropD)
  have "set (blanks 11 (base_of s)) \<subseteq> insert UCHAR_SP (set s)" using b by (auto simp: blanks_def)
  then show ?thesis using e unfolding layout_def by (auto dest!: in_set_takeD in_set_dropD)
qed

text \<open>
  C40: The form of what FatStringTo8dot3 answers: eleven bytes, each a byte of the name, a
  blank or the stand-in for 0xe5, of which the first never reads as the mark of a deleted
  entry; the conversion fails exactly for the names whose extension has more than three bytes.
\<close>

theorem FatStringTo8dot3_type:
  "case FatStringTo8dot3 s of
     None \<Rightarrow> 3 < length (extension_of s)
   | Some f \<Rightarrow> length (extension_of s) \<le> 3 \<and> length f = 11 \<and> f ! 0 \<noteq> 0xe5 \<and> set f \<subseteq> {UCHAR_SP, FAT_DIRENT_REALLY_0E5} \<union> set s"
proof (cases "length (extension_of s) \<le> 3")
  case True
  note l = length_layout[OF True]
  then have "layout s \<noteq> []" by auto
  then have "store_e5 (layout s) ! 0 \<noteq> 0xe5" by (simp add: store_e5_def)
  moreover have "set (store_e5 (layout s)) \<subseteq> insert FAT_DIRENT_REALLY_0E5 (set (layout s))"
    by (auto simp: store_e5_def dest!: set_update_subset_insert[THEN subsetD])
  ultimately show ?thesis using True l set_layout[of s] by (auto simp: FatStringTo8dot3_layout store_e5_def)
qed (simp add: FatStringTo8dot3_layout)

end
