(* ===== verification/FatNameCase.thy ===== *)
theory FatNameCase
  imports FatShortName
begin

text \<open>
  The case of short names: what FatEvaluateNameCase answers for a name of two parts, and that
  the two bits of an entry bring back a name it found not to need a long one.
\<close>

section \<open>Counting letters\<close>

definition upper :: "USHORT \<Rightarrow> bool" where "upper c \<longleftrightarrow> 0x41 \<le> c \<and> c \<le> 0x5a"
definition lower :: "USHORT \<Rightarrow> bool" where "lower c \<longleftrightarrow> 0x61 \<le> c \<and> c \<le> 0x7a"

definition mixed :: "USHORT list \<Rightarrow> bool" where
  "mixed xs \<longleftrightarrow> list_ex upper xs \<and> list_ex lower xs"

definition counted :: "USHORT list \<Rightarrow> NAME_CASE \<Rightarrow> NAME_CASE" where
  "counted xs s = s\<lparr>Uppers := Uppers s + of_nat (length (filter upper xs)), Lowers := Lowers s + of_nat (length (filter lower xs))\<rparr>"

lemma counted_simps:
  "counted [] s = s"
  "counted (c # cs) s = counted cs (if upper c then s\<lparr>Uppers := Uppers s + 1\<rparr> else if lower c then s\<lparr>Lowers := Lowers s + 1\<rparr> else s)"
proof -
  have "\<not> (upper c \<and> lower c)" by (auto simp: upper_def lower_def word_le_nat_alt)
  then show "counted (c # cs) s = counted cs (if upper c then s\<lparr>Uppers := Uppers s + 1\<rparr> else if lower c then s\<lparr>Lowers := Lowers s + 1\<rparr> else s)"
    by (auto simp: counted_def add.assoc)
qed (simp add: counted_def)

definition stops :: "bool \<Rightarrow> USHORT \<Rightarrow> bool" where
  "stops CodePageInvariant c \<longleftrightarrow> 0x80 \<le> c \<and> CodePageInvariant"

lemma stops_not_letter: "0x80 \<le> (c::USHORT) \<Longrightarrow> \<not> upper c \<and> \<not> lower c"
  by (auto simp: upper_def lower_def word_le_nat_alt)

text \<open>A part without dots is counted, or stops the scan.\<close>

lemma FatEvaluate_loop_part:
  "0x2e \<notin> set xs \<Longrightarrow> \<not> list_ex (stops cpi) xs \<Longrightarrow> FatEvaluate_loop cpi (xs @ ys) s = FatEvaluate_loop cpi ys (counted xs s)"
proof (induction xs arbitrary: s)
  case (Cons c xs)
  then show ?case using stops_not_letter[of c]
    by (simp add: counted_simps upper_def[symmetric] lower_def[symmetric] stops_def[symmetric] Let_def)
qed (simp add: counted_simps)

lemma FatEvaluate_loop_stops: "list_ex (stops cpi) xs \<Longrightarrow> \<not> snd (FatEvaluate_loop cpi (xs @ ys) s)"
proof (induction xs arbitrary: s)
  case (Cons c xs)
  then show ?case using stops_not_letter[of c]
    by (auto simp: Let_def stops_def upper_def lower_def)
qed simp

lemma counted_zero:
  assumes "length xs < 256" "Uppers s = 0" "Lowers s = 0"
  shows "Uppers (counted xs s) = 0 \<longleftrightarrow> \<not> list_ex upper xs" "Lowers (counted xs s) = 0 \<longleftrightarrow> \<not> list_ex lower xs"
proof -
  have "(of_nat n :: UCHAR) = 0 \<longleftrightarrow> n = 0" if "n < 256" for n
    using that by (simp add: word_unat_eq_iff unat_of_nat)
  moreover have "length (filter P xs) < 256" for P using assms(1) length_filter_le[of P xs] by linarith
  ultimately show "Uppers (counted xs s) = 0 \<longleftrightarrow> \<not> list_ex upper xs" "Lowers (counted xs s) = 0 \<longleftrightarrow> \<not> list_ex lower xs"
    using assms(2,3) by (auto simp: counted_def filter_empty_conv list_ex_iff)
qed

lemma counted_rest: "CreateLfn (counted xs s) = CreateLfn s" "AllLowerComponent (counted xs s) = AllLowerComponent s"
    "ExtensionPresent (counted xs s) = ExtensionPresent s"
  by (simp_all add: counted_def)

section \<open>The answer\<close>

definition unicode_name :: "USHORT list \<Rightarrow> USHORT list \<Rightarrow> USHORT list" where
  "unicode_name b e = (if e = [] then b else b @ 0x2e # e)"

definition needs_long :: "bool \<Rightarrow> USHORT list \<Rightarrow> USHORT list \<Rightarrow> bool" where
  "needs_long CodePageInvariant b e \<longleftrightarrow> list_ex (stops CodePageInvariant) (b @ e) \<or> mixed b \<or> mixed e"

lemma FatEvaluateNameCase_outcome:
  assumes "0x2e \<notin> set b" "0x2e \<notin> set e" "length b < 256" "length e < 256"
    and r_def: "r = FatEvaluateNameCase cpi (unicode_name b e)"
  shows "CreateLfn r = needs_long cpi b e"
    "AllLowerComponent r = (\<not> needs_long cpi b e \<and> list_ex lower b)"
    "AllLowerExtension r = (\<not> needs_long cpi b e \<and> list_ex lower e)"
proof -
  let ?s0 = "\<lparr>Uppers = 0, Lowers = 0, CreateLfn = False, AllLowerComponent = False, AllLowerExtension = False, ExtensionPresent = False\<rparr>"
  note cz = counted_zero[OF assms(3), of ?s0]
  consider (stop) "list_ex (stops cpi) (b @ e)" | (base) "\<not> list_ex (stops cpi) (b @ e)" "e = []" | (both) "\<not> list_ex (stops cpi) (b @ e)" "e \<noteq> []" by blast
  then have "CreateLfn r = needs_long cpi b e \<and> AllLowerComponent r = (\<not> needs_long cpi b e \<and> list_ex lower b) \<and>
      AllLowerExtension r = (\<not> needs_long cpi b e \<and> list_ex lower e)"
  proof cases
    case stop
    then have "list_ex (stops cpi) (unicode_name b e)" by (auto simp: unicode_name_def)
    from FatEvaluate_loop_stops[OF this, of "[]" ?s0]
    have "\<not> snd (FatEvaluate_loop cpi (unicode_name b e) ?s0)" by simp
    then show ?thesis using stop unfolding r_def FatEvaluateNameCase_def needs_long_def by (auto simp: Let_def split: prod.splits)
  next
    case base
    then have "FatEvaluate_loop cpi (unicode_name b e) ?s0 = (counted b ?s0, True)"
      using FatEvaluate_loop_part[OF assms(1), of cpi "[]" ?s0] by (simp add: unicode_name_def)
    then show ?thesis using base cz by (simp add: r_def FatEvaluateNameCase_def needs_long_def Let_def counted_rest mixed_def) blast
  next
    case both
    define s1 where "s1 = (counted b ?s0)\<lparr>CreateLfn := mixed b, AllLowerComponent := \<not> mixed b \<and> list_ex lower b, ExtensionPresent := True, Uppers := 0, Lowers := 0\<rparr>"
    have nb: "\<not> list_ex (stops cpi) b" "\<not> list_ex (stops cpi) e" using both by auto
    have "FatEvaluate_loop cpi (unicode_name b e) ?s0 = FatEvaluate_loop cpi (0x2e # e) (counted b ?s0)"
      using FatEvaluate_loop_part[OF assms(1) nb(1), of "0x2e # e" ?s0] both by (simp add: unicode_name_def)
    also have "\<dots> = FatEvaluate_loop cpi e s1"
      using cz by (simp add: s1_def mixed_def Let_def conj_commute)
    also have "\<dots> = (counted e s1, True)" using FatEvaluate_loop_part[OF assms(2) nb(2), of "[]" s1] by simp
    finally have l: "FatEvaluate_loop cpi (unicode_name b e) ?s0 = (counted e s1, True)" .
    show ?thesis
      using both counted_zero[OF assms(4), of s1]
      by (simp add: r_def FatEvaluateNameCase_def needs_long_def l Let_def counted_rest) (auto simp: s1_def mixed_def)
  qed
  then show "CreateLfn r = needs_long cpi b e" "AllLowerComponent r = (\<not> needs_long cpi b e \<and> list_ex lower b)"
    "AllLowerExtension r = (\<not> needs_long cpi b e \<and> list_ex lower e)" by simp_all
qed

section \<open>The case comes back\<close>

text \<open>
  What the code relies on in the code page: below 0x80 the OEM upper case of a character is
  the ASCII one, and no byte leads a double-byte character.
\<close>

definition oem_upper :: "USHORT \<Rightarrow> UCHAR" where
  "oem_upper c = (if lower c then ucast c - 0x20 else ucast c)"

definition code_page_ok :: "(USHORT \<Rightarrow> UCHAR) \<Rightarrow> (UCHAR \<Rightarrow> bool) \<Rightarrow> bool" where
  "code_page_ok upcase lead \<longleftrightarrow> list_all (\<lambda>n. upcase (of_nat n) = oem_upper (of_nat n) \<and> \<not> lead (of_nat n)) [0..<128]"

lemma ascii_of_nat: "(c::USHORT) < 0x80 \<Longrightarrow> \<exists>n<128. c = of_nat n"
  by (rule exI[of _ "unat c"]) (simp add: word_less_nat_alt)

lemma sint_ascii: "unat (w::UCHAR) < 128 \<Longrightarrow> sint w = int (unat w)"
proof -
  assume "unat w < 128"
  then have "int (unat w) < int 128" by (simp only: of_nat_less_iff)
  then have u: "uint w < 128" by simp
  have "sint w = signed_take_bit 7 (uint w)" by (simp add: sint_uint)
  also have "\<dots> = uint w" by (rule signed_take_bit_int_eq_self[OF order_trans[OF _ uint_ge_0]]) (use u in simp_all)
  finally show ?thesis by simp
qed

lemma ascii_letters:
  fixes c :: USHORT
  assumes "c < 0x80"
  shows "unat (oem_upper c) < 128"
    "if lower c
     then 0x41 \<le> sint (oem_upper c) \<and> sint (oem_upper c) \<le> 0x5a \<and> oem_upper c + 0x20 = ucast c
     else oem_upper c = ucast c \<and> (0x41 \<le> sint (ucast c :: UCHAR) \<and> sint (ucast c :: UCHAR) \<le> 0x5a \<longleftrightarrow> upper c)"
proof -
  define n where "n = unat c"
  have n: "n < 128" using assms by (simp add: n_def word_less_nat_alt)
  have u: "unat (ucast c :: UCHAR) = n" using n by (simp add: unsigned_ucast_eq take_bit_nat_eq_self n_def)
  have l: "lower c \<longleftrightarrow> 97 \<le> n \<and> n \<le> 122" "upper c \<longleftrightarrow> 65 \<le> n \<and> n \<le> 90"
    by (simp_all add: lower_def upper_def n_def word_le_nat_alt)
  have o: "unat (oem_upper c) = (if lower c then n - 32 else n)"
  proof (cases "lower c")
    case True
    then have "(0x20 :: UCHAR) \<le> ucast c" using l u by (simp add: word_le_nat_alt)
    then show ?thesis using True u by (simp add: oem_upper_def unat_sub)
  qed (simp add: oem_upper_def u)
  show s: "unat (oem_upper c) < 128" using o n by (simp split: if_splits)
  show "if lower c
     then 0x41 \<le> sint (oem_upper c) \<and> sint (oem_upper c) \<le> 0x5a \<and> oem_upper c + 0x20 = ucast c
     else oem_upper c = ucast c \<and> (0x41 \<le> sint (ucast c :: UCHAR) \<and> sint (ucast c :: UCHAR) \<le> 0x5a \<longleftrightarrow> upper c)"
    unfolding sint_ascii[OF s] sint_ascii[OF n[folded u]] o u using l by (auto simp: oem_upper_def)
qed

lemma FatLowerCase_map:
  "\<forall>c\<in>set xs. \<not> lead c \<Longrightarrow> FatLowerCase lead xs = map (\<lambda>c. if 0x41 \<le> sint c \<and> sint c \<le> 0x5a then c + 0x20 else c) xs"
  by (induction xs) auto

lemma case_kept:
  assumes cp: "code_page_ok upcase lead" and xs: "\<forall>c\<in>set xs. c < 0x80" and m: "\<not> mixed xs"
  shows "(if list_ex lower xs then FatLowerCase lead (map upcase xs) else map upcase xs) = map ucast xs"
proof -
  have 1: "upcase c = oem_upper c \<and> \<not> lead (oem_upper c) \<and>
      (if lower c then 0x41 \<le> sint (oem_upper c) \<and> sint (oem_upper c) \<le> 0x5a \<and> oem_upper c + 0x20 = ucast c
       else oem_upper c = ucast c \<and> (0x41 \<le> sint (ucast c :: UCHAR) \<and> sint (ucast c :: UCHAR) \<le> 0x5a \<longleftrightarrow> upper c))" if x: "c \<in> set xs" for c
  proof -
    obtain n where n: "n < 128" "c = of_nat n" using ascii_of_nat[of c] xs x by blast
    have a: "upcase (of_nat k) = oem_upper (of_nat k) \<and> \<not> lead (of_nat k)" if "k < 128" for k
      using cp that unfolding code_page_ok_def list_all_iff by (metis atLeastLessThan_iff set_upt zero_le)
    have c: "c < 0x80" using xs x by blast
    have "upcase c = oem_upper c" using a[OF n(1)] n(2) by simp
    moreover have "\<not> lead (oem_upper c)" using a[OF ascii_letters(1)[OF c]] by simp
    ultimately show ?thesis using ascii_letters(2)[OF c] by blast
  qed
  show ?thesis
  proof (cases "list_ex lower xs")
    case False
    then have "upcase c = ucast c" if "c \<in> set xs" for c using 1[OF that] that by (auto simp: list_ex_iff split: if_splits)
    then show ?thesis using False by simp
  next
    case True
    then have "\<not> list_ex upper xs" using m by (simp add: mixed_def)
    then have nu: "\<not> upper c" if "c \<in> set xs" for c using that by (simp add: list_ex_iff)
    have "FatLowerCase lead (map upcase xs) = map (\<lambda>c. if 0x41 \<le> sint c \<and> sint c \<le> 0x5a then c + 0x20 else c) (map upcase xs)"
      by (rule FatLowerCase_map) (use 1 in auto)
    also have "\<dots> = map ucast xs" unfolding map_map
    proof (rule map_cong[OF refl])
      fix c assume c: "c \<in> set xs"
      show "((\<lambda>c. if 0x41 \<le> sint c \<and> sint c \<le> 0x5a then c + 0x20 else c) \<circ> upcase) c = ucast c"
        using 1[OF c] nu[OF c] by (cases "lower c") (simp_all only: o_apply if_True if_False simp_thms)
    qed
    finally have "FatLowerCase lead (map upcase xs) = map ucast xs" .
    then show ?thesis using True by simp
  qed
qed

end
