(* ===== verification/FatDirent.thy ===== *)
theory FatDirent
  imports FatNameCase
begin

text \<open>
  Entries in a directory (dirsup.c): the bytes of an entry and of the entries in front of it
  that hold a long name, and how they are constructed.
\<close>

section \<open>Bytes of an entry\<close>

text \<open>A directory is the contents of its stream: bytes by offset.\<close>

definition bytes_at :: "mem \<Rightarrow> nat \<Rightarrow> nat \<Rightarrow> UCHAR list" where
  "bytes_at D a n = map D [a..<a + n]"

definition put_bytes :: "mem \<Rightarrow> nat \<Rightarrow> UCHAR list \<Rightarrow> mem" where
  "put_bytes D a xs = (\<lambda>b. if a \<le> b \<and> b < a + length xs then xs ! (b - a) else D b)"

definition le16 :: "USHORT \<Rightarrow> UCHAR list" where
  "le16 v = [ucast v, ucast (drop_bit 8 v)]"

definition from_le16 :: "UCHAR \<Rightarrow> UCHAR \<Rightarrow> USHORT" where
  "from_le16 a b = ucast a OR push_bit 8 (ucast b)"

text \<open>The bit fields fill a word from its low end.\<close>

definition time_word :: "FAT_TIME \<Rightarrow> USHORT" where
  "time_word t = ucast (DoubleSeconds t) OR push_bit 5 (ucast (TimeMinute t)) OR push_bit 11 (ucast (TimeHour t))"

definition word_time :: "USHORT \<Rightarrow> FAT_TIME" where
  "word_time w = \<lparr>DoubleSeconds = ucast w, TimeMinute = ucast (drop_bit 5 w), TimeHour = ucast (drop_bit 11 w)\<rparr>"

definition date_word :: "FAT_DATE \<Rightarrow> USHORT" where
  "date_word d = ucast (DateDay d) OR push_bit 5 (ucast (DateMonth d)) OR push_bit 9 (ucast (DateYear d))"

definition word_date :: "USHORT \<Rightarrow> FAT_DATE" where
  "word_date w = \<lparr>DateDay = ucast w, DateMonth = ucast (drop_bit 5 w), DateYear = ucast (drop_bit 9 w)\<rparr>"

definition dirent_bytes :: "DIRENT \<Rightarrow> UCHAR list" where
  "dirent_bytes d =
     FileName d @ [Attributes d, NtByte d, CreationMSec d] @
     le16 (time_word (Time (CreationTime d))) @ le16 (date_word (Date (CreationTime d))) @
     le16 (date_word (LastAccessDate d)) @ le16 (ExtendedAttributes d) @
     le16 (time_word (Time (LastWriteTime d))) @ le16 (date_word (Date (LastWriteTime d))) @
     le16 (FirstClusterOfFile d) @ le16 (ucast (FileSize d)) @ le16 (ucast (drop_bit 16 (FileSize d)))"

definition dirent_at :: "mem \<Rightarrow> nat \<Rightarrow> DIRENT" where
  "dirent_at D a =
     \<lparr>FileName = bytes_at D a 11,
      Attributes = D (a + 11),
      NtByte = D (a + 12),
      CreationMSec = D (a + 13),
      CreationTime = \<lparr>Time = word_time (get16 D (a + 14)), Date = word_date (get16 D (a + 16))\<rparr>,
      LastAccessDate = word_date (get16 D (a + 18)),
      ExtendedAttributes = get16 D (a + 20),
      LastWriteTime = \<lparr>Time = word_time (get16 D (a + 22)), Date = word_date (get16 D (a + 24))\<rparr>,
      FirstClusterOfFile = get16 D (a + 26),
      FileSize = get32 D (a + 28)\<rparr>"

text \<open>An entry of a long name: thirteen characters of it, in three places.\<close>

record LFN_DIRENT =
  LfnOrdinal :: UCHAR
  Name1 :: "USHORT list"
  LfnAttributes :: UCHAR
  LfnType :: UCHAR
  LfnChecksum :: UCHAR
  Name2 :: "USHORT list"
  MustBeZero :: USHORT
  Name3 :: "USHORT list"

definition lfn_bytes :: "LFN_DIRENT \<Rightarrow> UCHAR list" where
  "lfn_bytes l =
     LfnOrdinal l # concat (map le16 (Name1 l)) @ [LfnAttributes l, LfnType l, LfnChecksum l] @
     concat (map le16 (Name2 l)) @ le16 (MustBeZero l) @ concat (map le16 (Name3 l))"

definition wchars_at :: "mem \<Rightarrow> nat \<Rightarrow> nat \<Rightarrow> USHORT list" where
  "wchars_at D a n = map (\<lambda>k. get16 D (a + 2 * k)) [0..<n]"

definition lfn_dirent_at :: "mem \<Rightarrow> nat \<Rightarrow> LFN_DIRENT" where
  "lfn_dirent_at D a =
     \<lparr>LfnOrdinal = D a, Name1 = wchars_at D (a + 1) 5, LfnAttributes = D (a + 11), LfnType = D (a + 12),
      LfnChecksum = D (a + 13), Name2 = wchars_at D (a + 14) 6, MustBeZero = get16 D (a + 26), Name3 = wchars_at D (a + 28) 2\<rparr>"

section \<open>Construction\<close>

abbreviation FAT_LAST_LONG_ENTRY :: UCHAR where "FAT_LAST_LONG_ENTRY \<equiv> 0x40"
abbreviation FAT_DIRENT_ATTR_VOLUME_ID :: UCHAR where "FAT_DIRENT_ATTR_VOLUME_ID \<equiv> 0x08"
abbreviation FAT_DIRENT_ATTR_LFN :: UCHAR where "FAT_DIRENT_ATTR_LFN \<equiv> 0x0f"

definition FAT_LFN_DIRENTS_NEEDED :: "USHORT list \<Rightarrow> nat" where
  "FAT_LFN_DIRENTS_NEEDED Name = (length Name + 12) div 13"

definition checksum_step :: "UCHAR \<Rightarrow> UCHAR \<Rightarrow> UCHAR" where
  "checksum_step Checksum b = (if Checksum AND 1 \<noteq> 0 then 0x80 else 0) + drop_bit 1 Checksum + b"

definition FatComputeLfnChecksum :: "DIRENT \<Rightarrow> UCHAR" where
  "FatComputeLfnChecksum Dirent = foldl checksum_step (FileName Dirent ! 0) (map (\<lambda>i. FileName Dirent ! i) [1..<11])"

text \<open>The thirteen characters of an entry; those of the last one are padded.\<close>

definition FatLfnBuffer :: "USHORT list \<Rightarrow> nat \<Rightarrow> nat \<Rightarrow> USHORT list" where
  "FatLfnBuffer Lfn DirentsInLfn Ordinal =
     (let Buffer = drop ((Ordinal - 1) * 13) Lfn; RemainderChars = length Lfn mod 13
      in if Ordinal = DirentsInLfn \<and> RemainderChars \<noteq> 0
         then take RemainderChars Buffer @ 0 # replicate (12 - RemainderChars) 0xffff
         else take 13 Buffer)"

definition FatLfnDirent :: "USHORT list \<Rightarrow> UCHAR \<Rightarrow> nat \<Rightarrow> nat \<Rightarrow> LFN_DIRENT" where
  "FatLfnDirent Lfn DirentChecksum DirentsInLfn Ordinal =
     (let Buffer = FatLfnBuffer Lfn DirentsInLfn Ordinal
      in \<lparr>LfnOrdinal = (if Ordinal = DirentsInLfn then of_nat Ordinal OR FAT_LAST_LONG_ENTRY else of_nat Ordinal),
          Name1 = take 5 Buffer,
          LfnAttributes = FAT_DIRENT_ATTR_LFN,
          LfnType = 0,
          LfnChecksum = DirentChecksum,
          Name2 = take 6 (drop 5 Buffer),
          MustBeZero = 0,
          Name3 = take 2 (drop 11 Buffer)\<rparr>)"

text \<open>The entries of the long name, in front of the entry at \<open>a\<close>, the last part first.\<close>

fun FatConstructLfn :: "USHORT list \<Rightarrow> UCHAR \<Rightarrow> nat \<Rightarrow> nat \<Rightarrow> nat \<Rightarrow> mem \<Rightarrow> mem" where
  "FatConstructLfn Lfn DirentChecksum DirentsInLfn a 0 D = D"
| "FatConstructLfn Lfn DirentChecksum DirentsInLfn a (Suc n) D =
     FatConstructLfn Lfn DirentChecksum DirentsInLfn a n
       (put_bytes D (a - 32 * Suc n) (lfn_bytes (FatLfnDirent Lfn DirentChecksum DirentsInLfn (Suc n))))"

definition zero_stamp :: FAT_TIME_STAMP where
  "zero_stamp = \<lparr>Time = \<lparr>DoubleSeconds = 0, TimeMinute = 0, TimeHour = 0\<rparr>, Date = \<lparr>DateDay = 0, DateMonth = 0, DateYear = 0\<rparr>\<rparr>"

definition zero_dirent :: DIRENT where
  "zero_dirent = \<lparr>FileName = replicate 11 0, Attributes = 0, NtByte = 0, CreationMSec = 0, CreationTime = zero_stamp,
     LastAccessDate = Date zero_stamp, ExtendedAttributes = 0, LastWriteTime = zero_stamp, FirstClusterOfFile = 0, FileSize = 0\<rparr>"

definition FatStampDirent :: "NT_CLOCK \<Rightarrow> int \<Rightarrow> bool \<Rightarrow> bool \<Rightarrow> int option \<Rightarrow> DIRENT \<Rightarrow> DIRENT" where
  "FatStampDirent clock SystemTime ChicagoMode ZeroAndSetTimeFields SetCreationTime d =
     (if ZeroAndSetTimeFields \<or> SetCreationTime \<noteq> None
      then
        (let d = (if ChicagoMode
                  then (case (case SetCreationTime of Some t \<Rightarrow> fst (FatNtTimeToFatTime clock t False) | None \<Rightarrow> None) of
                          Some (stamp, ms) \<Rightarrow> d\<lparr>CreationTime := stamp, CreationMSec := ms\<rparr>
                        | None \<Rightarrow>
                            (case fst (FatNtTimeToFatTime clock SystemTime False) of
                               Some (stamp, ms) \<Rightarrow> d\<lparr>CreationTime := stamp, CreationMSec := ms\<rparr>
                             | None \<Rightarrow> d\<lparr>CreationTime := zero_stamp, CreationMSec := 0\<rparr>))
                  else d)
         in if ZeroAndSetTimeFields
            then (let d = (case fst (FatNtTimeToFatTime clock SystemTime True) of
                             Some (stamp, ms) \<Rightarrow> d\<lparr>LastWriteTime := stamp\<rparr>
                           | None \<Rightarrow> d\<lparr>LastWriteTime := zero_stamp\<rparr>)
                  in if ChicagoMode then d\<lparr>LastAccessDate := Date (LastWriteTime d)\<rparr> else d)
            else d)
      else d)"

text \<open>None where the name does not fit the eleven bytes.\<close>

definition FatConstructDirent ::
    "NT_CLOCK \<Rightarrow> int \<Rightarrow> bool \<Rightarrow> mem \<Rightarrow> nat \<Rightarrow> UCHAR list \<Rightarrow> bool \<Rightarrow> bool \<Rightarrow> USHORT list option \<Rightarrow> USHORT \<Rightarrow> bool \<Rightarrow> int option \<Rightarrow> mem option" where
  "FatConstructDirent clock SystemTime ChicagoMode D a Name ComponentReallyLowercase ExtensionReallyLowercase Lfn Attrs ZeroAndSetTimeFields SetCreationTime =
     (case FatStringTo8dot3 Name of
        None \<Rightarrow> None
      | Some name \<Rightarrow>
          (let d = (if ZeroAndSetTimeFields then zero_dirent else dirent_at D a);
               d = d\<lparr>FileName := name\<rparr>;
               d = FatStampDirent clock SystemTime ChicagoMode ZeroAndSetTimeFields SetCreationTime d;
               d = d\<lparr>Attributes := ucast Attrs,
                     NtByte := (if ComponentReallyLowercase then FAT_DIRENT_NT_BYTE_8_LOWER_CASE else 0) OR
                               (if ExtensionReallyLowercase then FAT_DIRENT_NT_BYTE_3_LOWER_CASE else 0)\<rparr>;
               D = put_bytes D a (dirent_bytes d)
           in case Lfn of
                None \<Rightarrow> Some D
              | Some lfn \<Rightarrow>
                  (let n = unat (of_nat (FAT_LFN_DIRENTS_NEEDED lfn) :: UCHAR)
                   in Some (FatConstructLfn lfn (FatComputeLfnChecksum d) n a n D))))"

text \<open>The entry of a volume label: None where the label is longer than a name.\<close>

definition FatConstructLabelDirent :: "NT_CLOCK \<Rightarrow> int \<Rightarrow> mem \<Rightarrow> nat \<Rightarrow> UCHAR list \<Rightarrow> mem option" where
  "FatConstructLabelDirent clock SystemTime D a Label =
     (if length Label \<le> 11
      then Some (put_bytes D a (dirent_bytes
             (zero_dirent\<lparr>FileName := Label @ replicate (11 - length Label) UCHAR_SP,
                          LastWriteTime := FatGetCurrentFatTime clock SystemTime,
                          Attributes := FAT_DIRENT_ATTR_VOLUME_ID,
                          ExtendedAttributes := 0,
                          FileSize := 0\<rparr>)))
      else None)"

section \<open>Reading what was stored\<close>

lemma put_bytes_in: "k < length xs \<Longrightarrow> put_bytes D a xs (a + k) = xs ! k"
  by (simp add: put_bytes_def)

lemma put_bytes_out: "b < a \<or> a + length xs \<le> b \<Longrightarrow> put_bytes D a xs b = D b"
  by (auto simp: put_bytes_def)

lemma get16_bytes: "k + 1 < length xs \<Longrightarrow> get16 (put_bytes D a xs) (a + k) = from_le16 (xs ! k) (xs ! (k + 1))"
  using put_bytes_in[of k xs D a] put_bytes_in[of "k + 1" xs D a] by (simp add: get16_def from_le16_def add.assoc)

lemma from_le16: "from_le16 (ucast v) (ucast (drop_bit 8 v)) = v"
  unfolding from_le16_def by (rule bit_word_eqI) (auto simp: bit_simps)

lemma word_time_word: "word_time (time_word t) = t"
proof -
  have "ucast (time_word t) = DoubleSeconds t" unfolding time_word_def by (rule bit_word_eqI) (auto simp: bit_simps)
  moreover have "ucast (drop_bit 5 (time_word t)) = TimeMinute t"
    unfolding time_word_def by (rule bit_word_eqI) (auto simp: bit_simps dest: bit_imp_le_length)
  moreover have "ucast (drop_bit 11 (time_word t)) = TimeHour t"
    unfolding time_word_def by (rule bit_word_eqI) (auto simp: bit_simps dest: bit_imp_le_length)
  ultimately show ?thesis by (simp add: word_time_def)
qed

lemma word_date_word: "word_date (date_word d) = d"
proof -
  have "ucast (date_word d) = DateDay d" unfolding date_word_def by (rule bit_word_eqI) (auto simp: bit_simps)
  moreover have "ucast (drop_bit 5 (date_word d)) = DateMonth d"
    unfolding date_word_def by (rule bit_word_eqI) (auto simp: bit_simps dest: bit_imp_le_length)
  moreover have "ucast (drop_bit 9 (date_word d)) = DateYear d"
    unfolding date_word_def by (rule bit_word_eqI) (auto simp: bit_simps dest: bit_imp_le_length)
  ultimately show ?thesis by (simp add: word_date_def)
qed

lemma length_dirent_bytes [simp]: "length (FileName d) = 11 \<Longrightarrow> length (dirent_bytes d) = 32"
  by (simp add: dirent_bytes_def le16_def)

lemma length_concat_le16: "length (concat (map le16 xs)) = 2 * length xs"
  by (induction xs) (simp_all add: le16_def)

lemma length_lfn_bytes [simp]: "length (Name1 l) = 5 \<Longrightarrow> length (Name2 l) = 6 \<Longrightarrow> length (Name3 l) = 2 \<Longrightarrow> length (lfn_bytes l) = 32"
  by (simp add: lfn_bytes_def length_concat_le16 le16_def)

lemma put_bytes_byte: "k < length xs \<Longrightarrow> put_bytes D a xs (a + k) = xs ! k"
  by (rule put_bytes_in)

lemma dirent_at_put:
  assumes n: "length (FileName d) = 11"
  shows "dirent_at (put_bytes D a (dirent_bytes d)) a = d"
proof -
  let ?D = "put_bytes D a (dirent_bytes d)"
  have l: "length (dirent_bytes d) = 32" using n by simp
  have fn: "bytes_at ?D a 11 = FileName d"
  proof (rule nth_equalityI)
    fix i assume i: "i < length (bytes_at ?D a 11)"
    then show "bytes_at ?D a 11 ! i = FileName d ! i"
      using put_bytes_in[of i "dirent_bytes d" D a] n by (simp add: bytes_at_def l) (simp add: dirent_bytes_def nth_append)
  qed (simp add: bytes_at_def n)
  have tail: "dirent_bytes d ! (11 + k) = drop 11 (dirent_bytes d) ! k" for k using l by simp
  have t: "drop 11 (dirent_bytes d) = [Attributes d, NtByte d, CreationMSec d] @
     le16 (time_word (Time (CreationTime d))) @ le16 (date_word (Date (CreationTime d))) @
     le16 (date_word (LastAccessDate d)) @ le16 (ExtendedAttributes d) @
     le16 (time_word (Time (LastWriteTime d))) @ le16 (date_word (Date (LastWriteTime d))) @
     le16 (FirstClusterOfFile d) @ le16 (ucast (FileSize d)) @ le16 (ucast (drop_bit 16 (FileSize d)))"
    using n by (simp add: dirent_bytes_def)
  have byte: "?D (a + (11 + k)) = drop 11 (dirent_bytes d) ! k" if "k < 21" for k
    using put_bytes_in[of "11 + k" "dirent_bytes d" D a] that unfolding l tail by simp
  have half: "get16 ?D (a + (11 + k)) = from_le16 (drop 11 (dirent_bytes d) ! k) (drop 11 (dirent_bytes d) ! (k + 1))" if k: "k < 20" for k
  proof -
    have e: "a + (11 + k) + 1 = a + (11 + (k + 1))" by simp
    have "?D (a + (11 + k)) = drop 11 (dirent_bytes d) ! k" "?D (a + (11 + (k + 1))) = drop 11 (dirent_bytes d) ! (k + 1)"
      by (rule byte; use k in simp)+
    then show ?thesis unfolding get16_def e from_le16_def by simp
  qed
  have b: "?D (a + 11) = Attributes d" "?D (a + 12) = NtByte d" "?D (a + 13) = CreationMSec d"
    using byte[of 0] byte[of 1] byte[of 2] by (simp_all add: t)
  have h: "get16 ?D (a + 14) = time_word (Time (CreationTime d))" "get16 ?D (a + 16) = date_word (Date (CreationTime d))"
    "get16 ?D (a + 18) = date_word (LastAccessDate d)" "get16 ?D (a + 20) = ExtendedAttributes d"
    "get16 ?D (a + 22) = time_word (Time (LastWriteTime d))" "get16 ?D (a + 24) = date_word (Date (LastWriteTime d))"
    "get16 ?D (a + 26) = FirstClusterOfFile d" "get16 ?D (a + 28) = ucast (FileSize d)" "get16 ?D (a + 30) = ucast (drop_bit 16 (FileSize d))"
    using half[of 3] half[of 5] half[of 7] half[of 9] half[of 11] half[of 13] half[of 15] half[of 17] half[of 19]
    by (simp_all add: t le16_def from_le16)
  have e: "a + 28 + 2 = a + 30" by simp
  have "get32 ?D (a + 28) = ucast (get16 ?D (a + 28)) OR push_bit 16 (ucast (get16 ?D (a + 30)))"
    unfolding get32_def e by (rule refl)
  also have "\<dots> = FileSize d" unfolding h by (rule bit_word_eqI) (auto simp: bit_simps)
  finally show ?thesis unfolding dirent_at_def fn b h word_time_word word_date_word by simp
qed

lemma nth_concat_le16:
  "k < length xs \<Longrightarrow> from_le16 (concat (map le16 xs) ! (2 * k)) (concat (map le16 xs) ! Suc (2 * k)) = xs ! k"
proof (induction xs arbitrary: k)
  case (Cons x xs)
  then show ?case by (cases k) (simp_all add: le16_def from_le16)
qed simp

lemma wchars_at_put:
  assumes "bytes = xs @ concat (map le16 ws) @ ys" "length xs = o'"
  shows "wchars_at (put_bytes D a bytes) (a + o') (length ws) = ws"
proof (rule nth_equalityI)
  fix k assume "k < length (wchars_at (put_bytes D a bytes) (a + o') (length ws))"
  then have k: "k < length ws" by (simp add: wchars_at_def)
  have "get16 (put_bytes D a bytes) (a + (o' + 2 * k)) = from_le16 (bytes ! (o' + 2 * k)) (bytes ! (o' + 2 * k + 1))"
    using k assms by (intro get16_bytes) (simp add: length_concat_le16)
  also have "\<dots> = ws ! k" using k assms nth_concat_le16[OF k] by (simp add: nth_append length_concat_le16)
  finally show "wchars_at (put_bytes D a bytes) (a + o') (length ws) ! k = ws ! k" using k by (simp add: wchars_at_def add.assoc)
qed (simp add: wchars_at_def)

lemma lfn_dirent_at_put:
  assumes "length (Name1 l) = 5" "length (Name2 l) = 6" "length (Name3 l) = 2"
  shows "lfn_dirent_at (put_bytes D a (lfn_bytes l)) a = l"
proof -
  let ?D = "put_bytes D a (lfn_bytes l)"
  note len = length_lfn_bytes[OF assms]
  have n: "wchars_at ?D (a + 1) 5 = Name1 l" "wchars_at ?D (a + 14) 6 = Name2 l" "wchars_at ?D (a + 28) 2 = Name3 l"
    using wchars_at_put[of "lfn_bytes l" "[LfnOrdinal l]" "Name1 l" _ 1 D a]
      wchars_at_put[of "lfn_bytes l" "LfnOrdinal l # concat (map le16 (Name1 l)) @ [LfnAttributes l, LfnType l, LfnChecksum l]" "Name2 l" _ 14 D a]
      wchars_at_put[of "lfn_bytes l" "LfnOrdinal l # concat (map le16 (Name1 l)) @ [LfnAttributes l, LfnType l, LfnChecksum l] @
         concat (map le16 (Name2 l)) @ le16 (MustBeZero l)" "Name3 l" "[]" 28 D a]
    by (simp_all add: lfn_bytes_def length_concat_le16 assms le16_def)
  have b: "?D a = LfnOrdinal l" "?D (a + 11) = LfnAttributes l" "?D (a + 12) = LfnType l" "?D (a + 13) = LfnChecksum l"
    using put_bytes_in[of 0 "lfn_bytes l" D a] put_bytes_in[of 11 "lfn_bytes l" D a] put_bytes_in[of 12 "lfn_bytes l" D a] put_bytes_in[of 13 "lfn_bytes l" D a] assms
    unfolding len by (simp_all add: lfn_bytes_def nth_append length_concat_le16)
  have "get16 ?D (a + 26) = from_le16 (lfn_bytes l ! 26) (lfn_bytes l ! 27)"
    using get16_bytes[of 26 "lfn_bytes l" D a] unfolding len by simp
  also have "\<dots> = MustBeZero l" using assms by (simp add: lfn_bytes_def nth_append length_concat_le16 le16_def from_le16)
  finally show ?thesis unfolding lfn_dirent_at_def n b by simp
qed

end
