(* ===== verification/FatLocate.thy ===== *)
theory FatLocate
  imports FatDirent
begin

unbundle bit_operations_syntax

text \<open>
  Searching a directory (dirsup.c): the walk over the entries that collects the entries of a
  long name as it goes and compares short and long names, and the searches that are calls of
  it or simpler walks. The entry in hand is the offset of the entry; that a page of the
  directory is pinned is a boolean, and a page that cannot be read raises.
\<close>

section \<open>Data\<close>

abbreviation CCB_FLAG_MATCH_ALL :: ULONG where "CCB_FLAG_MATCH_ALL \<equiv> 0x0001"
abbreviation CCB_FLAG_SKIP_SHORT_NAME_COMPARE :: ULONG where "CCB_FLAG_SKIP_SHORT_NAME_COMPARE \<equiv> 0x0002"
abbreviation CCB_FLAG_QUERY_TEMPLATE_MIXED :: ULONG where "CCB_FLAG_QUERY_TEMPLATE_MIXED \<equiv> 0x1000"
abbreviation CCB_FLAG_MATCH_VOLUME_ID :: ULONG where "CCB_FLAG_MATCH_VOLUME_ID \<equiv> 0x4000"
abbreviation FAT_DIRENT_NEVER_USED :: UCHAR where "FAT_DIRENT_NEVER_USED \<equiv> 0x00"
abbreviation FAT_DIRENT_DELETED :: UCHAR where "FAT_DIRENT_DELETED \<equiv> 0xe5"
abbreviation FAT_DIRENT_ATTR_ARCHIVE :: UCHAR where "FAT_DIRENT_ATTR_ARCHIVE \<equiv> 0x20"
abbreviation MAX_LFN_DIRENTS :: UCHAR where "MAX_LFN_DIRENTS \<equiv> 20"

text \<open>What a search uses of the context of a handle, of a directory, and of the system's string routines.\<close>

record CCB =
  CcbFlags :: ULONG
  ContainsWildCards :: bool
  OemQueryConstant :: "UCHAR list"
  OemQueryWild :: "UCHAR list"
  UnicodeQueryTemplate :: "USHORT list"

record DIRECTORY =
  DirectoryFile :: mem
  AllocationSize :: nat
  DirectoryFault :: "nat \<Rightarrow> ntstatus option"

record NAME_CALLS =
  FsRtlIsLeadDbcsCharacter :: "UCHAR \<Rightarrow> bool"
  FsRtlIsDbcsInExpression :: "UCHAR list \<Rightarrow> UCHAR list \<Rightarrow> bool"
  FsRtlIsNameInExpression :: "USHORT list \<Rightarrow> USHORT list \<Rightarrow> bool"
  FsRtlAreNamesEqual :: "USHORT list \<Rightarrow> USHORT list \<Rightarrow> bool \<Rightarrow> bool"
  RtlUpcaseUnicodeString :: "USHORT list \<Rightarrow> USHORT list"

text \<open>
  The long name in progress. Its buffer always has room, being as long as the longest name
  of twenty entries when the ordinal of the last one asks for it.
\<close>

record LFN_SEARCH =
  LfnInProgress :: bool
  SearchChecksum :: UCHAR
  LfnSize :: nat
  LfnIndex :: nat
  SearchOrdinal :: UCHAR
  LfnByteOffset :: nat
  LongBuffer :: "nat \<Rightarrow> USHORT"

text \<open>The entry a search answers: where it is, whether its short name matched, and its long name.\<close>

record LOCATED =
  LocatedOffset :: nat
  LocatedByShortName :: bool
  LocatedLongName :: "USHORT list"

section \<open>Entries of a long name\<close>

definition put_wchars :: "(nat \<Rightarrow> USHORT) \<Rightarrow> nat \<Rightarrow> USHORT list \<Rightarrow> nat \<Rightarrow> USHORT" where
  "put_wchars Buffer i ws = (\<lambda>k. if i \<le> k \<and> k < i + length ws then ws ! (k - i) else Buffer k)"

definition lfn_name :: "LFN_DIRENT \<Rightarrow> USHORT list" where
  "lfn_name Lfn = Name1 Lfn @ Name2 Lfn @ Name3 Lfn"

definition FatLfn_continue :: "LFN_DIRENT \<Rightarrow> nat \<Rightarrow> LFN_SEARCH \<Rightarrow> LFN_SEARCH" where
  "FatLfn_continue Lfn ByteOffset s =
     (if LfnInProgress s
      then if LfnOrdinal Lfn AND FAT_LAST_LONG_ENTRY \<noteq> 0 \<or> LfnOrdinal Lfn = 0 \<or>
              int (unat (LfnOrdinal Lfn)) \<noteq> int (unat (SearchOrdinal s)) - 1 \<or>
              LfnChecksum Lfn \<noteq> SearchChecksum s \<or> MustBeZero Lfn \<noteq> 0
           then s\<lparr>LfnInProgress := False\<rparr>
           else s\<lparr>LfnIndex := LfnIndex s - 13,
                  LongBuffer := put_wchars (LongBuffer s) (LfnIndex s - 13) (lfn_name Lfn),
                  SearchOrdinal := LfnOrdinal Lfn,
                  LfnByteOffset := ByteOffset\<rparr>
      else s)"

text \<open>The characters behind the end of the name: where the loop stops, whether it met the end, and the size.\<close>

fun FatLfn_tail :: "(nat \<Rightarrow> USHORT) \<Rightarrow> nat \<Rightarrow> nat \<Rightarrow> bool \<Rightarrow> nat \<Rightarrow> nat \<times> bool \<times> nat" where
  "FatLfn_tail Buffer 0 LfnIndex' CheckTail LfnSize' = (LfnIndex', CheckTail, LfnSize')"
| "FatLfn_tail Buffer (Suc n) LfnIndex' CheckTail LfnSize' =
     (if \<not> CheckTail
      then if Buffer LfnIndex' = 0x0000 then FatLfn_tail Buffer n (LfnIndex' + 1) True LfnIndex'
           else FatLfn_tail Buffer n (LfnIndex' + 1) False LfnSize'
      else if Buffer LfnIndex' \<noteq> 0xffff then (LfnIndex', CheckTail, LfnSize')
           else FatLfn_tail Buffer n (LfnIndex' + 1) True LfnSize')"

definition FatLfn_last :: "LFN_DIRENT \<Rightarrow> nat \<Rightarrow> LFN_SEARCH \<Rightarrow> ntstatus + LFN_SEARCH" where
  "FatLfn_last Lfn ByteOffset s =
     (if \<not> LfnInProgress s \<and> LfnOrdinal Lfn AND FAT_LAST_LONG_ENTRY \<noteq> 0 \<and>
         LfnOrdinal Lfn AND NOT FAT_LAST_LONG_ENTRY \<le> MAX_LFN_DIRENTS \<and> MustBeZero Lfn = 0
      then
        (let Ordinal = LfnOrdinal Lfn AND NOT FAT_LAST_LONG_ENTRY
         in if Ordinal = 0 then Inl STATUS_FILE_CORRUPT_ERROR
            else
              (let Index = (unat Ordinal - 1) * 13;
                   Buffer = put_wchars (LongBuffer s) Index (lfn_name Lfn);
                   (Index, CheckTail, Size) = FatLfn_tail Buffer 13 Index False (LfnSize s);
                   s = s\<lparr>SearchOrdinal := Ordinal, LongBuffer := Buffer, LfnIndex := Index, LfnSize := Size\<rparr>
               in if Index = unat Ordinal * 13
                  then Inr (s\<lparr>LfnSize := (if \<not> CheckTail then Index else Size),
                              LfnIndex := Index - 13,
                              LfnInProgress := True,
                              SearchChecksum := LfnChecksum Lfn,
                              LfnByteOffset := ByteOffset\<rparr>)
                  else Inr s))
      else Inr s)"

section \<open>Matching\<close>

definition FatMatchShort :: "NAME_CALLS \<Rightarrow> bool \<Rightarrow> CCB \<Rightarrow> DIRENT \<Rightarrow> bool" where
  "FatMatchShort calls ChicagoMode Ccb Dirent =
     (if ContainsWildCards Ccb
      then
        (let Name = Fat8dot3ToString ChicagoMode (FsRtlIsLeadDbcsCharacter calls) Dirent False;
             Name = (if length Name = 2 \<and> Name ! 0 = UCHAR_DOT \<and> Name ! 1 = UCHAR_DOT \<and> length (OemQueryWild Ccb) > 1
                     then take 1 Name else Name)
         in FsRtlIsDbcsInExpression calls (OemQueryWild Ccb) Name)
      else Attributes Dirent AND FAT_DIRENT_ATTR_VOLUME_ID = 0 \<and> OemQueryConstant Ccb = FileName Dirent)"

definition FatMatchLong :: "NAME_CALLS \<Rightarrow> CCB \<Rightarrow> USHORT list \<Rightarrow> bool" where
  "FatMatchLong calls Ccb LongFileName =
     ((ContainsWildCards Ccb \<or> length (UnicodeQueryTemplate Ccb) = length LongFileName) \<and>
      (let UpcasedLfn = RtlUpcaseUnicodeString calls LongFileName
       in if ContainsWildCards Ccb
          then FsRtlIsNameInExpression calls (UnicodeQueryTemplate Ccb) UpcasedLfn
          else FsRtlAreNamesEqual calls (UnicodeQueryTemplate Ccb) UpcasedLfn (CcbFlags Ccb AND CCB_FLAG_QUERY_TEMPLATE_MIXED \<noteq> 0)))"

section \<open>The walk\<close>

text \<open>FatReadDirent reads the page of the entry when it steps onto a new page or has none.\<close>

definition FatReadDirent :: "DIRECTORY \<Rightarrow> nat \<Rightarrow> bool \<Rightarrow> ntstatus + DIRENT option" where
  "FatReadDirent Dcb Vbo Bcb =
     (if AllocationSize Dcb \<le> Vbo then Inr None
      else if Vbo mod 4096 = 0 \<or> \<not> Bcb
      then (case DirectoryFault Dcb (Vbo - Vbo mod 4096) of Some e \<Rightarrow> Inl e | None \<Rightarrow> Inr (Some (dirent_at (DirectoryFile Dcb) Vbo)))
      else Inr (Some (dirent_at (DirectoryFile Dcb) Vbo)))"

text \<open>
  One round of the loop: the answer of the search, or the long name in progress with which
  the next entry is looked at.
\<close>

definition FatLocate_round ::
    "NAME_CALLS \<Rightarrow> bool \<Rightarrow> CCB \<Rightarrow> bool \<Rightarrow> LFN_DIRENT \<Rightarrow> DIRENT \<Rightarrow> nat \<Rightarrow> LFN_SEARCH \<Rightarrow> (ntstatus + LOCATED option) + LFN_SEARCH" where
  "FatLocate_round calls ChicagoMode Ccb WantLfn Lfn Dirent ByteOffset s =
     (if FileName Dirent ! 0 = FAT_DIRENT_NEVER_USED then Inl (Inr None)
      else if FileName Dirent ! 0 = FAT_DIRENT_DELETED then Inr (s\<lparr>LfnInProgress := False\<rparr>)
      else if ChicagoMode \<and> WantLfn \<and> Attributes Dirent = FAT_DIRENT_ATTR_LFN
      then (case FatLfn_last Lfn ByteOffset (FatLfn_continue Lfn ByteOffset s) of Inl e \<Rightarrow> Inl (Inl e) | Inr s \<Rightarrow> Inr s)
      else if Attributes Dirent AND FAT_DIRENT_ATTR_VOLUME_ID \<noteq> 0
      then if CcbFlags Ccb AND CCB_FLAG_MATCH_VOLUME_ID \<noteq> 0
           then Inl (Inr (Some \<lparr>LocatedOffset = ByteOffset, LocatedByShortName = False, LocatedLongName = []\<rparr>))
           else Inr s
      else
        (let FoundValidLfn = LfnInProgress s \<and> ByteOffset = LfnByteOffset s + 32 \<and> LfnIndex s = 0 \<and>
                             FatComputeLfnChecksum Dirent = SearchChecksum s;
             LongFileName = (if FoundValidLfn then map (LongBuffer s) [0..<LfnSize s] else [])
         in if CcbFlags Ccb AND CCB_FLAG_MATCH_ALL \<noteq> 0
            then Inl (Inr (Some \<lparr>LocatedOffset = ByteOffset, LocatedByShortName = False, LocatedLongName = LongFileName\<rparr>))
            else if CcbFlags Ccb AND CCB_FLAG_SKIP_SHORT_NAME_COMPARE = 0 \<and> FatMatchShort calls ChicagoMode Ccb Dirent
            then Inl (Inr (Some \<lparr>LocatedOffset = ByteOffset, LocatedByShortName = True, LocatedLongName = LongFileName\<rparr>))
            else if FoundValidLfn \<and> FatMatchLong calls Ccb LongFileName
            then Inl (Inr (Some \<lparr>LocatedOffset = ByteOffset, LocatedByShortName = False, LocatedLongName = LongFileName\<rparr>))
            else Inr s))"

function FatLocate_loop :: "NAME_CALLS \<Rightarrow> bool \<Rightarrow> CCB \<Rightarrow> bool \<Rightarrow> DIRECTORY \<Rightarrow> bool \<Rightarrow> nat \<Rightarrow> LFN_SEARCH \<Rightarrow> ntstatus + LOCATED option" where
  "FatLocate_loop calls ChicagoMode Ccb WantLfn Dcb Bcb ByteOffset s =
     (case FatReadDirent Dcb ByteOffset Bcb of
        Inl e \<Rightarrow> Inl e
      | Inr None \<Rightarrow> Inr None
      | Inr (Some Dirent) \<Rightarrow>
          (case FatLocate_round calls ChicagoMode Ccb WantLfn (lfn_dirent_at (DirectoryFile Dcb) ByteOffset) Dirent ByteOffset s of
             Inl r \<Rightarrow> r
           | Inr s \<Rightarrow> FatLocate_loop calls ChicagoMode Ccb WantLfn Dcb True (ByteOffset + 32) s))"
  by auto
termination
  by (relation "measure (\<lambda>(calls, c, ccb, w, Dcb, b, off, s). AllocationSize Dcb - off)")
    (auto simp: FatReadDirent_def split: if_splits)

declare FatLocate_loop.simps [simp del]

text \<open>
  The search starts at the next entry at or behind the offset; a page pinned from the entry of
  a search before is kept when the offset is in it.
\<close>

definition FatLocateDirent :: "NAME_CALLS \<Rightarrow> bool \<Rightarrow> CCB \<Rightarrow> bool \<Rightarrow> DIRECTORY \<Rightarrow> nat option \<Rightarrow> nat \<Rightarrow> ntstatus + LOCATED option" where
  "FatLocateDirent calls ChicagoMode Ccb WantLfn ParentDirectory ByteOffset OffsetToStartSearchFrom =
     FatLocate_loop calls ChicagoMode Ccb WantLfn ParentDirectory
       (case ByteOffset of None \<Rightarrow> False | Some old \<Rightarrow> OffsetToStartSearchFrom div 4096 = old div 4096)
       ((OffsetToStartSearchFrom + 31) div 32 * 32)
       \<lparr>LfnInProgress = False, SearchChecksum = 0, LfnSize = 0, LfnIndex = 0, SearchOrdinal = 0, LfnByteOffset = 0, LongBuffer = (\<lambda>_. 0)\<rparr>"

section \<open>Other searches\<close>

text \<open>None where the name does not fit the eleven bytes of the template.\<close>

definition FatLocateSimpleOemDirent :: "NAME_CALLS \<Rightarrow> bool \<Rightarrow> DIRECTORY \<Rightarrow> UCHAR list \<Rightarrow> (ntstatus + LOCATED option) option" where
  "FatLocateSimpleOemDirent calls ChicagoMode ParentDirectory Name =
     (case FatStringTo8dot3 Name of
        None \<Rightarrow> None
      | Some Constant \<Rightarrow>
          Some (FatLocateDirent calls ChicagoMode
            \<lparr>CcbFlags = 0, ContainsWildCards = False, OemQueryConstant = Constant, OemQueryWild = [], UnicodeQueryTemplate = []\<rparr>
            False ParentDirectory None 0))"

definition FatLfnDirentExists :: "NAME_CALLS \<Rightarrow> bool \<Rightarrow> DIRECTORY \<Rightarrow> USHORT list \<Rightarrow> ntstatus + bool" where
  "FatLfnDirentExists calls ChicagoMode Dcb Lfn =
     (case FatLocateDirent calls ChicagoMode
             \<lparr>CcbFlags = CCB_FLAG_SKIP_SHORT_NAME_COMPARE OR CCB_FLAG_QUERY_TEMPLATE_MIXED, ContainsWildCards = False,
              OemQueryConstant = [], OemQueryWild = [], UnicodeQueryTemplate = Lfn\<rparr>
             True Dcb None 0 of
        Inl e \<Rightarrow> Inl e
      | Inr r \<Rightarrow> Inr (r \<noteq> None))"

function FatLocateVolumeLabel_loop :: "DIRECTORY \<Rightarrow> bool \<Rightarrow> nat \<Rightarrow> ntstatus + nat option" where
  "FatLocateVolumeLabel_loop RootDcb Bcb ByteOffset =
     (case FatReadDirent RootDcb ByteOffset Bcb of
        Inl e \<Rightarrow> Inl e
      | Inr None \<Rightarrow> Inr None
      | Inr (Some Dirent) \<Rightarrow>
          if FileName Dirent ! 0 = FAT_DIRENT_NEVER_USED then Inr None
          else if Attributes Dirent AND NOT FAT_DIRENT_ATTR_ARCHIVE = FAT_DIRENT_ATTR_VOLUME_ID \<and> FileName Dirent ! 0 \<noteq> FAT_DIRENT_DELETED
          then Inr (Some ByteOffset)
          else FatLocateVolumeLabel_loop RootDcb True (ByteOffset + 32))"
  by auto
termination
  by (relation "measure (\<lambda>(Dcb, b, off). AllocationSize Dcb - off)") (auto simp: FatReadDirent_def split: if_splits)

definition FatLocateVolumeLabel :: "DIRECTORY \<Rightarrow> ntstatus + nat option" where
  "FatLocateVolumeLabel RootDcb = FatLocateVolumeLabel_loop RootDcb False 0"

function FatIsDirectoryEmpty_loop :: "DIRECTORY \<Rightarrow> bool \<Rightarrow> nat \<Rightarrow> ntstatus + bool" where
  "FatIsDirectoryEmpty_loop Dcb Bcb ByteOffset =
     (case FatReadDirent Dcb ByteOffset Bcb of
        Inl e \<Rightarrow> Inl e
      | Inr None \<Rightarrow> Inr True
      | Inr (Some Dirent) \<Rightarrow>
          if FileName Dirent ! 0 = FAT_DIRENT_NEVER_USED then Inr True
          else if FileName Dirent ! 0 \<noteq> FAT_DIRENT_DELETED \<and> Attributes Dirent \<noteq> FAT_DIRENT_ATTR_LFN then Inr False
          else FatIsDirectoryEmpty_loop Dcb True (ByteOffset + 32))"
  by auto
termination
  by (relation "measure (\<lambda>(Dcb, b, off). AllocationSize Dcb - off)") (auto simp: FatReadDirent_def split: if_splits)

definition FatIsDirectoryEmpty :: "DIRECTORY \<Rightarrow> bool \<Rightarrow> ntstatus + bool" where
  "FatIsDirectoryEmpty Dcb IsRootDcb = FatIsDirectoryEmpty_loop Dcb False (if IsRootDcb then 0 else 2 * 32)"

declare FatLocateVolumeLabel_loop.simps [simp del] FatIsDirectoryEmpty_loop.simps [simp del]

section \<open>Names of files\<close>

text \<open>
  The Unicode name of a file: its long name, or its short one in its own case. A file whose
  entry is not where its Fcb says, or has no long name though the Fcb says so, is invalid.
\<close>

definition FatGetUnicodeNameFromFcb ::
    "NAME_CALLS \<Rightarrow> (UCHAR list \<Rightarrow> USHORT list) \<Rightarrow> bool \<Rightarrow> DIRECTORY \<Rightarrow> UCHAR list \<Rightarrow> nat \<Rightarrow> nat \<Rightarrow> (ntstatus + USHORT list) option" where
  "FatGetUnicodeNameFromFcb calls RtlOemStringToCountedUnicodeString ChicagoMode ParentDcb ShortName LfnOffsetWithinDirectory DirentOffsetWithinDirectory =
     (case FatStringTo8dot3 ShortName of
        None \<Rightarrow> None
      | Some Constant \<Rightarrow>
          Some (case FatLocateDirent calls ChicagoMode
                     \<lparr>CcbFlags = 0, ContainsWildCards = False, OemQueryConstant = Constant, OemQueryWild = [], UnicodeQueryTemplate = []\<rparr>
                     True ParentDcb None LfnOffsetWithinDirectory of
                  Inl e \<Rightarrow> Inl e
                | Inr None \<Rightarrow> Inl STATUS_FILE_INVALID
                | Inr (Some found) \<Rightarrow>
                    if LocatedOffset found \<noteq> DirentOffsetWithinDirectory then Inl STATUS_FILE_INVALID
                    else if LocatedLongName found = []
                    then if LfnOffsetWithinDirectory \<noteq> DirentOffsetWithinDirectory then Inl STATUS_FILE_INVALID
                         else Inr (RtlOemStringToCountedUnicodeString
                                (Fat8dot3ToString ChicagoMode (FsRtlIsLeadDbcsCharacter calls)
                                   (dirent_at (DirectoryFile ParentDcb) (LocatedOffset found)) True))
                    else Inr (LocatedLongName found)))"

text \<open>
  The choice of a short name: the upcased name itself when it is a legal one without blanks,
  or the first of the candidates that no entry of the directory has. \<open>legal\<close> stands for the
  test of an 8.3 name, \<open>generate\<close> for RtlGenerate8dot3Name with its context, \<open>to_oem\<close> for the
  conversion of a candidate. The result is the short name with whether it was generated.
\<close>

partial_function (option) FatSelect_loop ::
    "NAME_CALLS \<Rightarrow> bool \<Rightarrow> ('c \<Rightarrow> USHORT list \<times> 'c) \<Rightarrow> (USHORT list \<Rightarrow> UCHAR list) \<Rightarrow> DIRECTORY \<Rightarrow> USHORT list option \<Rightarrow> 'c \<Rightarrow> (ntstatus + UCHAR list) option" where
  "FatSelect_loop calls ChicagoMode generate to_oem Parent Suggested Context =
     (case (case Suggested of Some name \<Rightarrow> (name, Context) | None \<Rightarrow> generate Context) of
        (ShortUnicodeName, Context) \<Rightarrow>
          (case FatLocateSimpleOemDirent calls ChicagoMode Parent (to_oem ShortUnicodeName) of
             None \<Rightarrow> None
           | Some (Inl e) \<Rightarrow> Some (Inl e)
           | Some (Inr None) \<Rightarrow> Some (Inr (to_oem ShortUnicodeName))
           | Some (Inr (Some found)) \<Rightarrow> FatSelect_loop calls ChicagoMode generate to_oem Parent None Context))"

definition FatSelectNames ::
    "NAME_CALLS \<Rightarrow> bool \<Rightarrow> bool \<Rightarrow> (UCHAR list \<Rightarrow> bool) \<Rightarrow> (USHORT list \<Rightarrow> 'c \<Rightarrow> USHORT list \<times> 'c) \<Rightarrow> 'c \<Rightarrow> (USHORT list \<Rightarrow> UCHAR list) \<Rightarrow>
     DIRECTORY \<Rightarrow> UCHAR list \<Rightarrow> USHORT list \<Rightarrow> USHORT list option \<Rightarrow> (ntstatus + UCHAR list \<times> NAME_CASE) option" where
  "FatSelectNames calls ChicagoMode CodePageInvariant legal generate Context0 to_oem Parent OemName UnicodeName SuggestedShortName =
     (if OemName = [] \<or> \<not> legal OemName \<or> FatSpaceInName UnicodeName
      then (case FatSelect_loop calls ChicagoMode (generate UnicodeName) to_oem Parent SuggestedShortName Context0 of
              None \<Rightarrow> None
            | Some (Inl e) \<Rightarrow> Some (Inl e)
            | Some (Inr ShortName) \<Rightarrow>
                Some (Inr (ShortName, \<lparr>Uppers = 0, Lowers = 0, CreateLfn = True, AllLowerComponent = False, AllLowerExtension = False, ExtensionPresent = False\<rparr>)))
      else Some (Inr (OemName, FatEvaluateNameCase CodePageInvariant UnicodeName)))"

end
