(* ===== verification/FatSearch.thy ===== *)
theory FatSearch
  imports FatLocate
begin

unbundle bit_operations_syntax

text \<open>
  What the searches of a directory answer: the search for a short name against a search of
  the list of entries, and the choice of a short name that no entry has.
\<close>

section \<open>The entries of a directory\<close>

definition offsets :: "DIRECTORY \<Rightarrow> nat list" where
  "offsets Dcb = map ((*) 32) [0..<(AllocationSize Dcb + 31) div 32]"

text \<open>The entries up to the end mark, and those that are files or directories.\<close>

definition entries :: "DIRECTORY \<Rightarrow> nat list" where
  "entries Dcb = takeWhile (\<lambda>a. FileName (dirent_at (DirectoryFile Dcb) a) ! 0 \<noteq> FAT_DIRENT_NEVER_USED) (offsets Dcb)"

definition in_use :: "DIRENT \<Rightarrow> bool" where
  "in_use d \<longleftrightarrow> FileName d ! 0 \<noteq> FAT_DIRENT_DELETED \<and> Attributes d AND FAT_DIRENT_ATTR_VOLUME_ID = 0"

definition readable :: "DIRECTORY \<Rightarrow> bool" where
  "readable Dcb \<longleftrightarrow> DirectoryFault Dcb = (\<lambda>_. None)"

lemma FatReadDirent_readable:
  "readable Dcb \<Longrightarrow> FatReadDirent Dcb a b = Inr (if a < AllocationSize Dcb then Some (dirent_at (DirectoryFile Dcb) a) else None)"
  by (simp add: FatReadDirent_def readable_def)

abbreviation short_query :: "UCHAR list \<Rightarrow> CCB" where
  "short_query name \<equiv> \<lparr>CcbFlags = 0, ContainsWildCards = False, OemQueryConstant = name, OemQueryWild = [], UnicodeQueryTemplate = []\<rparr>"

lemma FatLocate_round_short:
  "\<not> LfnInProgress s \<Longrightarrow>
   FatLocate_round calls c (short_query name) False Lfn d a s =
     (if FileName d ! 0 = FAT_DIRENT_NEVER_USED then Inl (Inr None)
      else if in_use d \<and> FileName d = name then Inl (Inr (Some \<lparr>LocatedOffset = a, LocatedByShortName = True, LocatedLongName = []\<rparr>))
      else Inr s)"
  by (cases s) (auto simp: FatLocate_round_def in_use_def FatMatchShort_def Let_def)

lemma FatLocate_loop_short:
  assumes r: "readable Dcb" and s: "\<not> LfnInProgress s"
  shows "FatLocate_loop calls c (short_query name) False Dcb b (32 * k) s =
     Inr (map_option (\<lambda>a. \<lparr>LocatedOffset = a, LocatedByShortName = True, LocatedLongName = []\<rparr>)
       (List.find (\<lambda>a. in_use (dirent_at (DirectoryFile Dcb) a) \<and> FileName (dirent_at (DirectoryFile Dcb) a) = name)
         (takeWhile (\<lambda>a. FileName (dirent_at (DirectoryFile Dcb) a) ! 0 \<noteq> FAT_DIRENT_NEVER_USED)
           (map ((*) 32) [k..<(AllocationSize Dcb + 31) div 32]))))"
proof (induction "(AllocationSize Dcb + 31) div 32 - k" arbitrary: k b)
  case 0
  then have "AllocationSize Dcb \<le> 32 * k" by linarith
  then show ?case using 0 by (subst FatLocate_loop.simps) (simp add: FatReadDirent_readable[OF r])
next
  case (Suc n)
  then have k: "k < (AllocationSize Dcb + 31) div 32" "32 * k < AllocationSize Dcb" by linarith+
  have IH: "FatLocate_loop calls c (short_query name) False Dcb True (32 * k + 32) s =
     Inr (map_option (\<lambda>a. \<lparr>LocatedOffset = a, LocatedByShortName = True, LocatedLongName = []\<rparr>)
       (List.find (\<lambda>a. in_use (dirent_at (DirectoryFile Dcb) a) \<and> FileName (dirent_at (DirectoryFile Dcb) a) = name)
         (takeWhile (\<lambda>a. FileName (dirent_at (DirectoryFile Dcb) a) ! 0 \<noteq> FAT_DIRENT_NEVER_USED)
           (map ((*) 32) [Suc k..<(AllocationSize Dcb + 31) div 32]))))"
    using Suc.hyps(1)[of "Suc k" True] Suc.hyps(2) by (simp add: add.commute)
  show ?case
    unfolding upt_conv_Cons[OF k(1)]
    by (subst FatLocate_loop.simps) (simp add: FatReadDirent_readable[OF r] k(2) FatLocate_round_short[OF s] IH)
qed

lemma FatLocateSimpleOemDirent_outcome:
  assumes "readable Dcb" "FatStringTo8dot3 Name = Some name"
  shows "FatLocateSimpleOemDirent calls c Dcb Name =
     Some (Inr (map_option (\<lambda>a. \<lparr>LocatedOffset = a, LocatedByShortName = True, LocatedLongName = []\<rparr>)
       (List.find (\<lambda>a. in_use (dirent_at (DirectoryFile Dcb) a) \<and> FileName (dirent_at (DirectoryFile Dcb) a) = name) (entries Dcb))))"
  using FatLocate_loop_short[OF assms(1), of _ calls c name False 0] assms(2)
  by (simp add: FatLocateSimpleOemDirent_def FatLocateDirent_def entries_def offsets_def)

text \<open>
  C4: The search for a short name answers the first entry, before the end mark of the
  directory, that is neither deleted nor a volume label nor a part of a long name and has the
  eleven bytes of the name; and none exactly when no entry has them.
\<close>

theorem FatLocateSimpleOemDirent_correct:
  assumes "readable Dcb" "FatStringTo8dot3 Name = Some name"
  shows "FatLocateSimpleOemDirent calls c Dcb Name =
     Some (Inr (map_option (\<lambda>a. \<lparr>LocatedOffset = a, LocatedByShortName = True, LocatedLongName = []\<rparr>)
       (List.find (\<lambda>a. in_use (dirent_at (DirectoryFile Dcb) a) \<and> FileName (dirent_at (DirectoryFile Dcb) a) = name) (entries Dcb))))"
  using assms by (rule FatLocateSimpleOemDirent_outcome)

section \<open>The choice of a short name\<close>

text \<open>The candidates in their order, the suggested name first when there is one.\<close>

fun candidate :: "('c \<Rightarrow> USHORT list \<times> 'c) \<Rightarrow> USHORT list option \<Rightarrow> 'c \<Rightarrow> nat \<Rightarrow> USHORT list" where
  "candidate generate (Some name) Context 0 = name"
| "candidate generate (Some name) Context (Suc k) = candidate generate None Context k"
| "candidate generate None Context 0 = fst (generate Context)"
| "candidate generate None Context (Suc k) = candidate generate None (snd (generate Context)) k"

definition used :: "DIRECTORY \<Rightarrow> UCHAR list \<Rightarrow> bool" where
  "used Dcb name \<longleftrightarrow> list_ex (\<lambda>a. in_use (dirent_at (DirectoryFile Dcb) a) \<and> FileName (dirent_at (DirectoryFile Dcb) a) = name) (entries Dcb)"

lemma FatLocateSimpleOemDirent_used:
  assumes "readable Dcb" "FatStringTo8dot3 Name = Some name"
  shows "if used Dcb name then \<exists>found. FatLocateSimpleOemDirent calls c Dcb Name = Some (Inr (Some found))
         else FatLocateSimpleOemDirent calls c Dcb Name = Some (Inr None)"
  unfolding FatLocateSimpleOemDirent_outcome[OF assms] used_def
  by (cases "List.find (\<lambda>a. in_use (dirent_at (DirectoryFile Dcb) a) \<and> FileName (dirent_at (DirectoryFile Dcb) a) = name) (entries Dcb)")
    (auto simp: find_None_iff find_Some_iff list_ex_iff)

lemma FatSelect_loop_first:
  assumes r: "readable Dcb"
  shows "(\<forall>j\<le>k. \<exists>f. FatStringTo8dot3 (to_oem (candidate generate Suggested Context j)) = Some f \<and> used Dcb f = (j < k)) \<Longrightarrow>
    FatSelect_loop calls c generate to_oem Dcb Suggested Context = Some (Inr (to_oem (candidate generate Suggested Context k)))"
proof (induction k arbitrary: Suggested Context)
  case 0
  then obtain f where f: "FatStringTo8dot3 (to_oem (candidate generate Suggested Context 0)) = Some f" "\<not> used Dcb f" by auto
  have "FatLocateSimpleOemDirent calls c Dcb (to_oem (candidate generate Suggested Context 0)) = Some (Inr None)"
    using FatLocateSimpleOemDirent_used[OF r f(1), of calls c] f(2) by simp
  then show ?case by (subst FatSelect_loop.simps) (cases Suggested; simp add: prod.case_eq_if)
next
  case (Suc k)
  obtain f where f: "FatStringTo8dot3 (to_oem (candidate generate Suggested Context 0)) = Some f" "used Dcb f"
    using Suc.prems by blast
  obtain found where l: "FatLocateSimpleOemDirent calls c Dcb (to_oem (candidate generate Suggested Context 0)) = Some (Inr (Some found))"
    using FatLocateSimpleOemDirent_used[OF r f(1), of calls c] f(2) by auto
  define C where "C = (if Suggested = None then snd (generate Context) else Context)"
  have c: "candidate generate Suggested Context (Suc j) = candidate generate None C j" for j
    by (cases Suggested) (simp_all add: C_def)
  have "\<exists>f. FatStringTo8dot3 (to_oem (candidate generate None C j)) = Some f \<and> used Dcb f = (j < k)" if "j \<le> k" for j
    using Suc.prems[rule_format, of "Suc j"] that unfolding c by simp
  then have "FatSelect_loop calls c generate to_oem Dcb None C = Some (Inr (to_oem (candidate generate None C k)))"
    using Suc.IH by blast
  then show ?case unfolding c using l
    by (subst FatSelect_loop.simps) (cases Suggested; simp add: C_def prod.case_eq_if)
qed

text \<open>
  C10: When a short name has to be generated, and the candidates fit and differ from one
  another, the search for one ends after at most one candidate more than the directory has
  entries, with the first candidate that no entry of the directory has; and the file gets a
  long name.
\<close>

theorem FatSelectNames_unused:
  assumes r: "readable Dcb" and g: "OemName = [] \<or> \<not> legal OemName \<or> FatSpaceInName UnicodeName"
    and fit: "\<And>k. k \<le> length (entries Dcb) \<Longrightarrow> FatStringTo8dot3 (to_oem (candidate (generate UnicodeName) Suggested Context k)) = Some (form k)"
    and inj: "inj_on form {..length (entries Dcb)}"
  shows "\<exists>k\<le>length (entries Dcb). \<exists>s.
     FatSelectNames calls c cpi legal generate Context to_oem Dcb OemName UnicodeName Suggested =
       Some (Inr (to_oem (candidate (generate UnicodeName) Suggested Context k), s)) \<and>
     \<not> used Dcb (form k) \<and> (\<forall>j<k. used Dcb (form j)) \<and>
     CreateLfn s \<and> \<not> AllLowerComponent s \<and> \<not> AllLowerExtension s"
proof -
  have "\<exists>k\<le>length (entries Dcb). \<not> used Dcb (form k)"
  proof (rule ccontr)
    assume "\<not> ?thesis"
    then have "form ` {..length (entries Dcb)} \<subseteq> (\<lambda>a. FileName (dirent_at (DirectoryFile Dcb) a)) ` set (entries Dcb)"
      by (auto simp: used_def list_ex_iff image_iff) metis
    from card_mono[OF _ this] have "card (form ` {..length (entries Dcb)}) \<le> length (entries Dcb)"
      using card_image_le[of "set (entries Dcb)"] card_length[of "entries Dcb"] by (meson List.finite_set finite_imageI order_trans)
    moreover have "card (form ` {..length (entries Dcb)}) = Suc (length (entries Dcb))"
      using card_image[OF inj] by simp
    ultimately show False by simp
  qed
  then obtain k0 where k0: "k0 \<le> length (entries Dcb)" "\<not> used Dcb (form k0)" by blast
  define k where "k = (LEAST k. \<not> used Dcb (form k))"
  have k: "\<not> used Dcb (form k)" "\<forall>j<k. used Dcb (form j)" "k \<le> length (entries Dcb)"
    unfolding k_def using LeastI[of "\<lambda>k. \<not> used Dcb (form k)", OF k0(2)] k0(1) Least_le[of "\<lambda>k. \<not> used Dcb (form k)", OF k0(2)]
    by (blast dest: not_less_Least, blast dest: not_less_Least, linarith)
  have "FatSelect_loop calls c (generate UnicodeName) to_oem Dcb Suggested Context = Some (Inr (to_oem (candidate (generate UnicodeName) Suggested Context k)))"
  proof (rule FatSelect_loop_first[OF r], intro allI impI)
    fix j assume j: "j \<le> k"
    have "used Dcb (form j) = (j < k)" using k(1,2) j by (cases "j = k") simp_all
    then show "\<exists>f. FatStringTo8dot3 (to_oem (candidate (generate UnicodeName) Suggested Context j)) = Some f \<and> used Dcb f = (j < k)"
      using fit[of j] j k(3) by auto
  qed
  then show ?thesis using k g unfolding FatSelectNames_def by auto
qed

text \<open>A directory of one entry, of the file A, and a generator of one-letter names.\<close>

definition letter_entry :: "UCHAR \<Rightarrow> DIRENT" where
  "letter_entry c = zero_dirent\<lparr>FileName := blanks 8 [c] @ blanks 3 []\<rparr>"

definition one_entry :: DIRECTORY where
  "one_entry = \<lparr>DirectoryFile = put_bytes (\<lambda>_. 0) 0 (dirent_bytes (letter_entry 0x41)), AllocationSize = 32, DirectoryFault = (\<lambda>_. None)\<rparr>"

definition letter_calls :: NAME_CALLS where
  "letter_calls = \<lparr>FsRtlIsLeadDbcsCharacter = (\<lambda>_. False), FsRtlIsDbcsInExpression = (=), FsRtlIsNameInExpression = (=),
     FsRtlAreNamesEqual = (\<lambda>a b i. a = b), RtlUpcaseUnicodeString = id\<rparr>"

lemma one_entry_facts:
  "readable one_entry" "dirent_at (DirectoryFile one_entry) 0 = letter_entry 0x41" "entries one_entry = [0]"
proof -
  show "readable one_entry" by (simp add: readable_def one_entry_def)
  show d: "dirent_at (DirectoryFile one_entry) 0 = letter_entry 0x41"
    unfolding one_entry_def DIRECTORY.select_convs by (rule dirent_at_put) (simp add: letter_entry_def blanks_def)
  have "offsets one_entry = [0]" by (simp add: offsets_def one_entry_def)
  then show "entries one_entry = [0]" by (simp add: entries_def d) (simp add: letter_entry_def blanks_def)
qed

lemma letter_form: "c \<noteq> UCHAR_DOT \<Longrightarrow> c \<noteq> UCHAR_SP \<Longrightarrow> c \<noteq> 0xe5 \<Longrightarrow> FatStringTo8dot3 [c] = Some (FileName (letter_entry c))"
  using short_name_entry[of "[c]" "[]"] by (simp add: short_name_def name_string_def store_e5_def letter_entry_def)

theorem FatLocateSimpleOemDirent_correct_witness:
  "FatLocateSimpleOemDirent letter_calls True one_entry [0x41] =
     Some (Inr (Some \<lparr>LocatedOffset = 0, LocatedByShortName = True, LocatedLongName = []\<rparr>))"
  using FatLocateSimpleOemDirent_correct[OF one_entry_facts(1) letter_form[of "0x41"], where calls = letter_calls and c = True]
  by (simp add: one_entry_facts(2,3)) (simp add: in_use_def letter_entry_def zero_dirent_def blanks_def)

theorem FatSelectNames_unused_witness:
  "\<exists>k\<le>length (entries one_entry). \<exists>s.
     FatSelectNames letter_calls True True (\<lambda>_. False) (\<lambda>U k. ([0x41 + of_nat k], k + 1)) 0 (map ucast) one_entry [0x61] [0x61] None =
       Some (Inr (map ucast (candidate (\<lambda>k. ([0x41 + of_nat k], k + 1)) None 0 k), s)) \<and>
     \<not> used one_entry (FileName (letter_entry (0x41 + of_nat k))) \<and> (\<forall>j<k. used one_entry (FileName (letter_entry (0x41 + of_nat j)))) \<and>
     CreateLfn s \<and> \<not> AllLowerComponent s \<and> \<not> AllLowerExtension s"
proof (rule FatSelectNames_unused[OF one_entry_facts(1)])
  fix k assume "k \<le> length (entries one_entry)"
  then consider "k = 0" | "k = 1" unfolding one_entry_facts(3) by force
  then show "FatStringTo8dot3 (map ucast (candidate (\<lambda>k. ([0x41 + of_nat k], k + 1)) None 0 k)) = Some (FileName (letter_entry (0x41 + of_nat k)))"
    by cases (simp_all add: letter_form)
next
  have "{..Suc 0} = {0, 1}" by auto
  then show "inj_on (\<lambda>k. FileName (letter_entry (0x41 + of_nat k))) {..length (entries one_entry)}"
    unfolding one_entry_facts(3) by (simp add: letter_entry_def blanks_def)
qed simp

end
