(* ===== verification/FatLongName.thy ===== *)
theory FatLongName
  imports FatSearch
begin

unbundle bit_operations_syntax

text \<open>
  Long names: the entries FatConstructDirent stores are those FatLocateDirent puts together
  again, and the name a file is created with is the name FatGetUnicodeNameFromFcb answers.
\<close>

section \<open>The parts of a name\<close>

lemma needed_bounds:
  assumes "lfn \<noteq> []" "n = FAT_LFN_DIRENTS_NEEDED lfn"
  shows "0 < n" "length lfn \<le> 13 * n" "13 * (n - 1) < length lfn" "length lfn mod 13 \<noteq> 0 \<Longrightarrow> length lfn = 13 * (n - 1) + length lfn mod 13"
    "length lfn mod 13 = 0 \<Longrightarrow> length lfn = 13 * n"
proof -
  have l: "0 < length lfn" using assms(1) by simp
  define q r where "q = length lfn div 13" and "r = length lfn mod 13"
  have L: "length lfn = 13 * q + r" "r < 13" by (simp_all add: q_def r_def)
  have n: "n = (if r = 0 then q else Suc q)"
  proof -
    have "(13 * q + (r + 12)) div 13 = q + (r + 12) div 13" by simp
    moreover have "(r + 12) div 13 = (if r = 0 then 0 else 1)" using L(2) by (auto simp: div_if)
    ultimately have "(13 * q + r + 12) div 13 = (if r = 0 then q else Suc q)" by (simp add: add.assoc)
    then show ?thesis using assms(2) L(1) by (simp add: FAT_LFN_DIRENTS_NEEDED_def)
  qed
  show "0 < n" "length lfn \<le> 13 * n" "13 * (n - 1) < length lfn" using l L n by (cases "r = 0"; cases q; simp)+
  show "length lfn mod 13 \<noteq> 0 \<Longrightarrow> length lfn = 13 * (n - 1) + length lfn mod 13" unfolding r_def[symmetric] using L n by simp
  show "length lfn mod 13 = 0 \<Longrightarrow> length lfn = 13 * n" unfolding r_def[symmetric] using L n by simp
qed

text \<open>Part \<open>k\<close> of the name as stored: its characters, the end of the name, and the padding.\<close>

lemma length_FatLfnBuffer:
  assumes "lfn \<noteq> []" "n = FAT_LFN_DIRENTS_NEEDED lfn" "0 < k" "k \<le> n"
  shows "length (FatLfnBuffer lfn n k) = 13"
proof (cases "k = n \<and> length lfn mod 13 \<noteq> 0")
  case True
  then have "min (length lfn - 13 * (n - 1)) (length lfn mod 13) = length lfn mod 13" "length lfn mod 13 < 13"
    using needed_bounds(4)[OF assms(1,2)] by simp_all
  then show ?thesis using True by (simp add: FatLfnBuffer_def Let_def mult.commute)
next
  case False
  have "13 * k \<le> length lfn"
  proof (cases "k = n")
    case True
    then show ?thesis using False needed_bounds(5)[OF assms(1,2)] by simp
  next
    case False
    then have "k \<le> n - 1" using assms(4) by simp
    then show ?thesis using needed_bounds(3)[OF assms(1,2)] by (meson le_trans less_imp_le mult_le_mono2)
  qed
  then show ?thesis using False assms(3) by (auto simp: FatLfnBuffer_def Let_def)
qed

lemma nth_FatLfnBuffer:
  assumes "lfn \<noteq> []" "n = FAT_LFN_DIRENTS_NEEDED lfn" "0 < k" "k \<le> n" "i < 13"
  shows "FatLfnBuffer lfn n k ! i =
    (if (k - 1) * 13 + i < length lfn then lfn ! ((k - 1) * 13 + i) else if (k - 1) * 13 + i = length lfn then 0 else 0xffff)"
proof (cases "k = n \<and> length lfn mod 13 \<noteq> 0")
  case True
  have l: "length lfn = (k - 1) * 13 + length lfn mod 13" using needed_bounds(4)[OF assms(1,2)] True by (simp add: mult.commute)
  have t: "length (take (length lfn mod 13) (drop ((k - 1) * 13) lfn)) = length lfn mod 13" using l by simp
  have r: "length lfn mod 13 < 13" by simp
  consider "i < length lfn mod 13" | "i = length lfn mod 13" | "length lfn mod 13 < i" by linarith
  then show ?thesis
  proof cases
    case 1
    then show ?thesis using True t l by (simp add: FatLfnBuffer_def Let_def nth_append)
  next
    case 2
    then show ?thesis using True t l by (simp add: FatLfnBuffer_def Let_def nth_append)
  next
    case 3
    then have "(0 # replicate (12 - length lfn mod 13) 0xffff) ! (i - length lfn mod 13) = (0xffff :: USHORT)"
      using assms(5) by (cases "i - length lfn mod 13") simp_all
    then show ?thesis using True 3 t l by (simp add: FatLfnBuffer_def Let_def nth_append)
  qed
next
  case False
  have "length (take 13 (drop ((k - 1) * 13) lfn)) = 13"
    using length_FatLfnBuffer[OF assms(1-4)] False by (auto simp: FatLfnBuffer_def Let_def)
  then have "(k - 1) * 13 + i < length lfn" using assms(5) by simp
  then show ?thesis using False assms(5) by (auto simp: FatLfnBuffer_def Let_def)
qed

lemma lfn_name_FatLfnDirent:
  assumes "length (FatLfnBuffer lfn n k) = 13"
  shows "lfn_name (FatLfnDirent lfn c n k) = FatLfnBuffer lfn n k"
    "length (Name1 (FatLfnDirent lfn c n k)) = 5" "length (Name2 (FatLfnDirent lfn c n k)) = 6" "length (Name3 (FatLfnDirent lfn c n k)) = 2"
proof -
  let ?b = "FatLfnBuffer lfn n k"
  have "take 6 (drop 5 ?b) @ take 2 (drop 11 ?b) = drop 5 ?b"
  proof -
    have "take 2 (drop 11 ?b) = drop 6 (drop 5 ?b)" using assms by simp
    then show ?thesis by (simp only: append_take_drop_id)
  qed
  then show "lfn_name (FatLfnDirent lfn c n k) = ?b" by (simp add: lfn_name_def FatLfnDirent_def Let_def)
  show "length (Name1 (FatLfnDirent lfn c n k)) = 5" "length (Name2 (FatLfnDirent lfn c n k)) = 6" "length (Name3 (FatLfnDirent lfn c n k)) = 2"
    using assms by (simp_all add: FatLfnDirent_def Let_def)
qed

section \<open>The stored entries\<close>

lemma dirent_cong: "(\<And>b. a \<le> b \<Longrightarrow> b < a + 32 \<Longrightarrow> D b = D' b) \<Longrightarrow> dirent_at D a = dirent_at D' a"
proof -
  assume h: "\<And>b. a \<le> b \<Longrightarrow> b < a + 32 \<Longrightarrow> D b = D' b"
  have g: "get16 D (a + k) = get16 D' (a + k)" if "k \<le> 30" for k using h[of "a + k"] h[of "a + k + 1"] that by (simp add: get16_def)
  have e: "a + 28 + 2 = a + 30" by simp
  have "get32 D (a + 28) = get32 D' (a + 28)" unfolding get32_def e using g[of 28] g[of 30] by simp
  moreover have "bytes_at D a 11 = bytes_at D' a 11" using h by (simp add: bytes_at_def)
  ultimately show ?thesis using g h[of "a + 11"] h[of "a + 12"] h[of "a + 13"] unfolding dirent_at_def by simp
qed

lemma lfn_dirent_cong: "(\<And>b. a \<le> b \<Longrightarrow> b < a + 32 \<Longrightarrow> D b = D' b) \<Longrightarrow> lfn_dirent_at D a = lfn_dirent_at D' a"
proof -
  assume h: "\<And>b. a \<le> b \<Longrightarrow> b < a + 32 \<Longrightarrow> D b = D' b"
  have g: "get16 D (a + k) = get16 D' (a + k)" if "k \<le> 30" for k using h[of "a + k"] h[of "a + k + 1"] that by (simp add: get16_def)
  have w: "wchars_at D (a + k) n = wchars_at D' (a + k) n" if "k + 2 * n \<le> 32" for k n
  proof -
    have "get16 D (a + k + 2 * i) = get16 D' (a + k + 2 * i)" if "i < n" for i
      using g[of "k + 2 * i"] that \<open>k + 2 * n \<le> 32\<close> by (simp add: add.assoc)
    then show ?thesis by (simp add: wchars_at_def)
  qed
  show ?thesis using g[of 26] w[of 1 5] w[of 14 6] w[of 28 2] h[of a] h[of "a + 11"] h[of "a + 12"] h[of "a + 13"]
    unfolding lfn_dirent_at_def by simp
qed

lemma FatConstructLfn_out:
  assumes "b < a - 32 * m \<or> a \<le> b" "32 * m \<le> a"
    and "\<And>k. 0 < k \<Longrightarrow> k \<le> m \<Longrightarrow> length (lfn_bytes (FatLfnDirent lfn c n k)) = 32"
  shows "FatConstructLfn lfn c n a m D b = D b"
  using assms
proof (induction m arbitrary: D)
  case (Suc m)
  have l: "length (lfn_bytes (FatLfnDirent lfn c n (Suc m))) = 32" using Suc.prems(3) by simp
  have "FatConstructLfn lfn c n a (Suc m) D b = put_bytes D (a - 32 * Suc m) (lfn_bytes (FatLfnDirent lfn c n (Suc m))) b"
    unfolding FatConstructLfn.simps by (rule Suc.IH) (use Suc.prems in \<open>auto simp: less_diff_conv\<close>)
  also have "\<dots> = D b" using Suc.prems(1,2) l by (intro put_bytes_out) auto
  finally show ?case .
qed simp

lemma FatConstructLfn_in:
  assumes "0 < k" "k \<le> m" "32 * m \<le> a"
    and len: "\<And>k. 0 < k \<Longrightarrow> k \<le> m \<Longrightarrow>
      length (Name1 (FatLfnDirent lfn c n k)) = 5 \<and> length (Name2 (FatLfnDirent lfn c n k)) = 6 \<and> length (Name3 (FatLfnDirent lfn c n k)) = 2"
  shows "lfn_dirent_at (FatConstructLfn lfn c n a m D) (a - 32 * k) = FatLfnDirent lfn c n k"
  using assms
proof (induction m arbitrary: D)
  case (Suc m)
  show ?case
  proof (cases "k = Suc m")
    case True
    let ?P = "put_bytes D (a - 32 * Suc m) (lfn_bytes (FatLfnDirent lfn c n (Suc m)))"
    have l: "length (lfn_bytes (FatLfnDirent lfn c n j)) = 32" if "0 < j" "j \<le> m" for j
      using Suc.prems(4)[of j] that by simp
    have "FatConstructLfn lfn c n a m ?P b = ?P b" if "a - 32 * Suc m \<le> b" "b < a - 32 * Suc m + 32" for b
    proof (rule FatConstructLfn_out[OF _ _ l])
      show "b < a - 32 * m \<or> a \<le> b" "32 * m \<le> a" using that Suc.prems(3) by auto
    qed
    then have "lfn_dirent_at (FatConstructLfn lfn c n a m ?P) (a - 32 * k) = lfn_dirent_at ?P (a - 32 * Suc m)"
      unfolding True by (rule lfn_dirent_cong)
    also have "\<dots> = FatLfnDirent lfn c n k" unfolding True using Suc.prems(4)[of "Suc m"] by (intro lfn_dirent_at_put) simp_all
    finally show ?thesis by simp
  next
    case False
    then show ?thesis unfolding FatConstructLfn.simps by (intro Suc.IH) (use Suc.prems in auto)
  qed
qed simp

section \<open>Putting a name together\<close>

lemma FatLfn_tail_rest: "\<forall>j. i \<le> j \<and> j < i + m \<longrightarrow> B j = 0xffff \<Longrightarrow> FatLfn_tail B m i True sz = (i + m, True, sz)"
  by (induction m arbitrary: i) auto

lemma FatLfn_tail_run:
  assumes "i \<le> L" "\<forall>j. i \<le> j \<and> j < i + m \<longrightarrow> (j < L \<longrightarrow> B j \<noteq> 0) \<and> (j = L \<longrightarrow> B j = 0) \<and> (L < j \<longrightarrow> B j = 0xffff)"
  shows "FatLfn_tail B m i False sz = (i + m, L < i + m, if L < i + m then L else sz)"
  using assms
proof (induction m arbitrary: i)
  case (Suc m)
  show ?case
  proof (cases "i = L")
    case True
    have "FatLfn_tail B m (i + 1) True i = (i + 1 + m, True, i)"
      by (rule FatLfn_tail_rest) (use Suc.prems(2) True in auto)
    moreover have "B i = 0" using spec[OF Suc.prems(2), of L] True by simp
    ultimately show ?thesis using True by simp
  next
    case False
    have "FatLfn_tail B m (i + 1) False sz = (i + 1 + m, L < i + 1 + m, if L < i + 1 + m then L else sz)"
      by (rule Suc.IH) (use Suc.prems False in auto)
    then show ?thesis using Suc.prems False by simp
  qed
qed simp

lemma ordinal_facts:
  assumes "0 < k" "k \<le> 20"
  shows "(of_nat k OR FAT_LAST_LONG_ENTRY) AND FAT_LAST_LONG_ENTRY \<noteq> 0" "(of_nat k OR FAT_LAST_LONG_ENTRY) AND NOT FAT_LAST_LONG_ENTRY = of_nat k"
    "of_nat k AND FAT_LAST_LONG_ENTRY = 0" "(of_nat k :: UCHAR) \<noteq> 0" "unat (of_nat k :: UCHAR) = k" "(of_nat k :: UCHAR) \<le> MAX_LFN_DIRENTS"
    "(of_nat k :: UCHAR) \<noteq> FAT_DIRENT_DELETED" "of_nat k OR FAT_LAST_LONG_ENTRY \<noteq> 0" "of_nat k OR FAT_LAST_LONG_ENTRY \<noteq> FAT_DIRENT_DELETED"
proof -
  have "k \<in> {1, 2, 3, 4, 5, 6, 7, 8, 9, 10, 11, 12, 13, 14, 15, 16, 17, 18, 19, 20}" using assms by (auto simp: numeral_eq_Suc less_Suc_eq_le le_Suc_eq)
  then show "(of_nat k OR FAT_LAST_LONG_ENTRY) AND FAT_LAST_LONG_ENTRY \<noteq> 0" "(of_nat k OR FAT_LAST_LONG_ENTRY) AND NOT FAT_LAST_LONG_ENTRY = of_nat k"
    "of_nat k AND FAT_LAST_LONG_ENTRY = 0" "(of_nat k :: UCHAR) \<noteq> 0" "unat (of_nat k :: UCHAR) = k" "(of_nat k :: UCHAR) \<le> MAX_LFN_DIRENTS"
    "(of_nat k :: UCHAR) \<noteq> FAT_DIRENT_DELETED" "of_nat k OR FAT_LAST_LONG_ENTRY \<noteq> 0" "of_nat k OR FAT_LAST_LONG_ENTRY \<noteq> FAT_DIRENT_DELETED"
    by (elim insertE emptyE; simp)+
qed

text \<open>The name is collected from part \<open>k\<close> on.\<close>

definition collected :: "USHORT list \<Rightarrow> UCHAR \<Rightarrow> nat \<Rightarrow> nat \<Rightarrow> LFN_SEARCH \<Rightarrow> bool" where
  "collected lfn c a k s \<longleftrightarrow> LfnInProgress s \<and> SearchChecksum s = c \<and> LfnSize s = length lfn \<and> LfnIndex s = (k - 1) * 13 \<and>
     SearchOrdinal s = of_nat k \<and> LfnByteOffset s = a - 32 * k \<and> (\<forall>j. (k - 1) * 13 \<le> j \<and> j < length lfn \<longrightarrow> LongBuffer s j = lfn ! j)"

lemma put_wchars_simps:
  "i \<le> j \<Longrightarrow> j < i + length ws \<Longrightarrow> put_wchars B i ws j = ws ! (j - i)" "j < i \<or> i + length ws \<le> j \<Longrightarrow> put_wchars B i ws j = B j"
  by (auto simp: put_wchars_def)

text \<open>A name of one to 260 characters, none of them the end of a name.\<close>

definition lfn_ok :: "USHORT list \<Rightarrow> nat \<Rightarrow> bool" where
  "lfn_ok lfn n \<longleftrightarrow> lfn \<noteq> [] \<and> 0 \<notin> set lfn \<and> n \<le> 20 \<and> n = FAT_LFN_DIRENTS_NEEDED lfn"

lemma lfn_part:
  assumes "lfn_ok lfn n" "0 < k" "k \<le> n"
  shows "length (FatLfnBuffer lfn n k) = 13" "lfn_name (FatLfnDirent lfn c n k) = FatLfnBuffer lfn n k"
    "length (Name1 (FatLfnDirent lfn c n k)) = 5 \<and> length (Name2 (FatLfnDirent lfn c n k)) = 6 \<and> length (Name3 (FatLfnDirent lfn c n k)) = 2"
    "LfnChecksum (FatLfnDirent lfn c n k) = c" "MustBeZero (FatLfnDirent lfn c n k) = 0" "LfnAttributes (FatLfnDirent lfn c n k) = FAT_DIRENT_ATTR_LFN"
    "LfnOrdinal (FatLfnDirent lfn c n k) = (if k = n then of_nat k OR FAT_LAST_LONG_ENTRY else of_nat k)"
proof -
  show l: "length (FatLfnBuffer lfn n k) = 13" using length_FatLfnBuffer assms unfolding lfn_ok_def by blast
  show "lfn_name (FatLfnDirent lfn c n k) = FatLfnBuffer lfn n k" by (rule lfn_name_FatLfnDirent(1)[OF l])
  show "length (Name1 (FatLfnDirent lfn c n k)) = 5 \<and> length (Name2 (FatLfnDirent lfn c n k)) = 6 \<and> length (Name3 (FatLfnDirent lfn c n k)) = 2"
    using lfn_name_FatLfnDirent(2-4)[OF l] by blast
  show "LfnChecksum (FatLfnDirent lfn c n k) = c" "MustBeZero (FatLfnDirent lfn c n k) = 0" "LfnAttributes (FatLfnDirent lfn c n k) = FAT_DIRENT_ATTR_LFN"
    "LfnOrdinal (FatLfnDirent lfn c n k) = (if k = n then of_nat k OR FAT_LAST_LONG_ENTRY else of_nat k)"
    by (simp_all add: FatLfnDirent_def Let_def)
qed

lemma FatLfn_last_collected:
  assumes ok: "lfn_ok lfn n" and s: "\<not> LfnInProgress s"
  shows "\<exists>s'. FatLfn_last (FatLfnDirent lfn c n n) (a - 32 * n) (FatLfn_continue (FatLfnDirent lfn c n n) (a - 32 * n) s) = Inr s' \<and> collected lfn c a n s'"
proof -
  let ?L = "FatLfnDirent lfn c n n"
  have o: "lfn \<noteq> []" "0 \<notin> set lfn" "n \<le> 20" "n = FAT_LFN_DIRENTS_NEEDED lfn" using ok unfolding lfn_ok_def by auto
  note b = needed_bounds[OF o(1,4)]
  note p = lfn_part[OF ok b(1) le_refl]
  note f = ordinal_facts[OF b(1) o(3)]
  define i where "i = (n - 1) * 13"
  define B where "B = put_wchars (LongBuffer s) i (FatLfnBuffer lfn n n)"
  have B: "B j = FatLfnBuffer lfn n n ! (j - i)" if "i \<le> j" "j < i + 13" for j
    unfolding B_def using that p(1) by (intro put_wchars_simps) simp_all
  have i: "i + 13 = n * 13" "i \<le> length lfn" "length lfn \<le> n * 13" using b(1-3) by (simp_all add: i_def mult.commute)
  have nb: "FatLfnBuffer lfn n n ! (j - i) = (if j < length lfn then lfn ! j else if j = length lfn then 0 else 0xffff)" if "i \<le> j" "j < i + 13" for j
    using nth_FatLfnBuffer[OF o(1,4) b(1) le_refl, of "j - i"] that unfolding i_def[symmetric] by simp
  have "FatLfn_tail B 13 i False (LfnSize s) = (i + 13, length lfn < i + 13, if length lfn < i + 13 then length lfn else LfnSize s)"
    by (rule FatLfn_tail_run) (use i o(2) in \<open>auto simp: B nb in_set_conv_nth\<close>)
  then have t: "FatLfn_tail B 13 i False (LfnSize s) = (n * 13, length lfn < n * 13, if length lfn < n * 13 then length lfn else LfnSize s)"
    unfolding i(1) .
  have c: "FatLfn_continue ?L (a - 32 * n) s = s" using s by (simp add: FatLfn_continue_def)
  have ord: "LfnOrdinal ?L = of_nat n OR FAT_LAST_LONG_ENTRY" using p(7) by simp
  define s' where "s' = s\<lparr>SearchOrdinal := of_nat n, LongBuffer := B, LfnIndex := n * 13, LfnSize := if length lfn < n * 13 then length lfn else LfnSize s,
            LfnSize := (if \<not> length lfn < n * 13 then n * 13 else if length lfn < n * 13 then length lfn else LfnSize s),
            LfnIndex := n * 13 - 13, LfnInProgress := True, SearchChecksum := c, LfnByteOffset := a - 32 * n\<rparr>"
  have "FatLfn_last ?L (a - 32 * n) s = Inr s'"
    unfolding FatLfn_last_def ord f(2) Let_def f(5) p(2,4,5) i_def[symmetric] B_def[symmetric] t prod.case s'_def
    using s f by simp
  moreover have "collected lfn c a n s'"
    unfolding collected_def s'_def i_def[symmetric] using i(3) B nb by (auto simp: i_def diff_mult_distrib)
  ultimately show ?thesis unfolding c by blast
qed

lemma FatLfn_continue_collected:
  assumes ok: "lfn_ok lfn n" and k: "0 < k" "k < n" and s: "collected lfn c a (Suc k) s"
  shows "\<exists>s'. FatLfn_last (FatLfnDirent lfn c n k) (a - 32 * k) (FatLfn_continue (FatLfnDirent lfn c n k) (a - 32 * k) s) = Inr s' \<and> collected lfn c a k s'"
proof -
  let ?L = "FatLfnDirent lfn c n k"
  have o: "lfn \<noteq> []" "n \<le> 20" "n = FAT_LFN_DIRENTS_NEEDED lfn" using ok unfolding lfn_ok_def by auto
  note p = lfn_part[OF ok k(1) less_imp_le[OF k(2)]]
  have f: "of_nat k AND FAT_LAST_LONG_ENTRY = 0" "(of_nat k :: UCHAR) \<noteq> 0" "unat (of_nat k :: UCHAR) = k" "unat (of_nat (Suc k) :: UCHAR) = Suc k"
    using ordinal_facts[of k] ordinal_facts(5)[of "Suc k"] k o(2) by simp_all
  have ord: "LfnOrdinal ?L = of_nat k" using p(7) k by simp
  have i: "k * 13 - 13 = (k - 1) * 13" "(k - 1) * 13 + 13 = k * 13" using k(1) by (cases k; simp)+
  define s' where "s' = s\<lparr>LfnIndex := (k - 1) * 13, LongBuffer := put_wchars (LongBuffer s) ((k - 1) * 13) (FatLfnBuffer lfn n k),
     SearchOrdinal := of_nat k, LfnByteOffset := a - 32 * k\<rparr>"
  have "FatLfn_continue ?L (a - 32 * k) s = s'"
    using s f unfolding collected_def FatLfn_continue_def ord p(2,4,5) s'_def by (simp add: i)
  moreover have "FatLfn_last ?L (a - 32 * k) s' = Inr s'" using s unfolding FatLfn_last_def collected_def s'_def by simp
  moreover have "collected lfn c a k s'"
  proof -
    have "put_wchars (LongBuffer s) ((k - 1) * 13) (FatLfnBuffer lfn n k) j = lfn ! j" if j: "(k - 1) * 13 \<le> j" "j < length lfn" for j
    proof (cases "j < k * 13")
      case True
      then have "put_wchars (LongBuffer s) ((k - 1) * 13) (FatLfnBuffer lfn n k) j = FatLfnBuffer lfn n k ! (j - (k - 1) * 13)"
        using j p(1) i(2) by (intro put_wchars_simps) simp_all
      also have "\<dots> = lfn ! j"
        using nth_FatLfnBuffer[OF o(1,3) k(1) less_imp_le[OF k(2)], of "j - (k - 1) * 13"] j True i(2) by simp
      finally show ?thesis .
    next
      case False
      then have "put_wchars (LongBuffer s) ((k - 1) * 13) (FatLfnBuffer lfn n k) j = LongBuffer s j"
        using p(1) i(2) by (intro put_wchars_simps) simp
      then show ?thesis using s False j(2) unfolding collected_def by simp
    qed
    then show ?thesis using s unfolding collected_def s'_def by simp
  qed
  ultimately show ?thesis by metis
qed

section \<open>The walk over a stored name\<close>

definition stored :: "USHORT list \<Rightarrow> UCHAR \<Rightarrow> nat \<Rightarrow> nat \<Rightarrow> mem \<Rightarrow> bool" where
  "stored lfn c n a D \<longleftrightarrow> (\<forall>k. 0 < k \<and> k \<le> n \<longrightarrow> lfn_dirent_at D (a - 32 * k) = FatLfnDirent lfn c n k)"

lemma dirent_lfn_view: "FileName (dirent_at D a) ! 0 = LfnOrdinal (lfn_dirent_at D a)" "Attributes (dirent_at D a) = LfnAttributes (lfn_dirent_at D a)"
  by (simp_all add: dirent_at_def lfn_dirent_at_def bytes_at_def upt_conv_Cons)

lemma FatLocate_round_part:
  assumes ok: "lfn_ok lfn n" and k: "0 < k" "k \<le> n" and st: "stored lfn c n a D"
  shows "FatLocate_round calls True ccb True (lfn_dirent_at D (a - 32 * k)) (dirent_at D (a - 32 * k)) (a - 32 * k) s =
    (case FatLfn_last (FatLfnDirent lfn c n k) (a - 32 * k) (FatLfn_continue (FatLfnDirent lfn c n k) (a - 32 * k) s) of
       Inl e \<Rightarrow> Inl (Inl e) | Inr s \<Rightarrow> Inr s)"
proof -
  have e: "lfn_dirent_at D (a - 32 * k) = FatLfnDirent lfn c n k" using st k unfolding stored_def by blast
  note p = lfn_part[OF ok k]
  have "n \<le> 20" using ok unfolding lfn_ok_def by blast
  then have "LfnOrdinal (FatLfnDirent lfn c n k) \<noteq> 0" "LfnOrdinal (FatLfnDirent lfn c n k) \<noteq> FAT_DIRENT_DELETED"
    using p(7) ordinal_facts(4,7,8,9)[of k] k by auto
  then show ?thesis unfolding FatLocate_round_def dirent_lfn_view e by (simp add: p(6))
qed

lemma FatLocate_loop_pinned: "readable Dcb \<Longrightarrow> FatLocate_loop calls ch ccb w Dcb b a s = FatLocate_loop calls ch ccb w Dcb b' a s"
  by (subst (1 2) FatLocate_loop.simps) (simp add: FatReadDirent_readable)

lemma FatLocate_loop_step:
  assumes "readable Dcb" "a < AllocationSize Dcb"
    "FatLocate_round calls ch ccb w (lfn_dirent_at (DirectoryFile Dcb) a) (dirent_at (DirectoryFile Dcb) a) a s = Inr s'"
  shows "FatLocate_loop calls ch ccb w Dcb b a s = FatLocate_loop calls ch ccb w Dcb b' (a + 32) s'"
  using assms(2,3) FatLocate_loop_pinned[OF assms(1), of calls ch ccb w True "a + 32" s' b']
  by (subst FatLocate_loop.simps) (simp add: FatReadDirent_readable[OF assms(1)])

lemma FatLocate_loop_found:
  assumes "readable Dcb" "a < AllocationSize Dcb"
    "FatLocate_round calls ch ccb w (lfn_dirent_at (DirectoryFile Dcb) a) (dirent_at (DirectoryFile Dcb) a) a s = Inl r"
  shows "FatLocate_loop calls ch ccb w Dcb b a s = r"
  using assms(2,3) by (subst FatLocate_loop.simps) (simp add: FatReadDirent_readable[OF assms(1)])

lemma FatLocate_loop_parts:
  assumes r: "readable Dcb" and ok: "lfn_ok lfn n" and st: "stored lfn c n a (DirectoryFile Dcb)" and a: "32 * n \<le> a" "a \<le> AllocationSize Dcb"
  shows "collected lfn c a (Suc k) s \<Longrightarrow> k < n \<Longrightarrow>
    \<exists>s'. collected lfn c a 1 s' \<and> FatLocate_loop calls True ccb True Dcb b (a - 32 * k) s = FatLocate_loop calls True ccb True Dcb b a s'"
proof (induction k arbitrary: s)
  case (Suc k)
  obtain s1 where s1: "FatLfn_last (FatLfnDirent lfn c n (Suc k)) (a - 32 * Suc k) (FatLfn_continue (FatLfnDirent lfn c n (Suc k)) (a - 32 * Suc k) s) = Inr s1"
      "collected lfn c a (Suc k) s1"
    using FatLfn_continue_collected[OF ok _ Suc.prems(2) Suc.prems(1)] by blast
  have "FatLocate_loop calls True ccb True Dcb b (a - 32 * Suc k) s = FatLocate_loop calls True ccb True Dcb b (a - 32 * Suc k + 32) s1"
  proof (rule FatLocate_loop_step[OF r])
    have "a - 32 * Suc k < a" using a(1) Suc.prems(2) by (intro diff_less) auto
    then show "a - 32 * Suc k < AllocationSize Dcb" using a(2) by linarith
    show "FatLocate_round calls True ccb True (lfn_dirent_at (DirectoryFile Dcb) (a - 32 * Suc k)) (dirent_at (DirectoryFile Dcb) (a - 32 * Suc k)) (a - 32 * Suc k) s = Inr s1"
      unfolding FatLocate_round_part[OF ok zero_less_Suc less_imp_le[OF Suc.prems(2)] st] s1(1) by simp
  qed
  moreover have "a - 32 * Suc k + 32 = a - 32 * k"
    using a(1) mult_le_mono2[OF less_imp_le[OF Suc.prems(2)], of 32] unfolding mult_Suc_right by linarith
  moreover obtain s' where "collected lfn c a 1 s'" "FatLocate_loop calls True ccb True Dcb b (a - 32 * k) s1 = FatLocate_loop calls True ccb True Dcb b a s'"
    using Suc.IH[OF s1(2)] Suc.prems(2) by auto
  ultimately show ?case by metis
qed auto

lemma FatLocate_loop_name:
  assumes r: "readable Dcb" and ok: "lfn_ok lfn n" and st: "stored lfn c n a (DirectoryFile Dcb)" and a: "32 * n \<le> a" "a \<le> AllocationSize Dcb"
    and s: "\<not> LfnInProgress s"
  shows "\<exists>s'. collected lfn c a 1 s' \<and> FatLocate_loop calls True ccb True Dcb b (a - 32 * n) s = FatLocate_loop calls True ccb True Dcb b a s'"
proof -
  have n: "0 < n" using ok needed_bounds(1) unfolding lfn_ok_def by blast
  obtain s1 where s1: "FatLfn_last (FatLfnDirent lfn c n n) (a - 32 * n) (FatLfn_continue (FatLfnDirent lfn c n n) (a - 32 * n) s) = Inr s1"
      "collected lfn c a n s1"
    using FatLfn_last_collected[OF ok s] by blast
  have "FatLocate_loop calls True ccb True Dcb b (a - 32 * n) s = FatLocate_loop calls True ccb True Dcb b (a - 32 * n + 32) s1"
  proof (rule FatLocate_loop_step[OF r])
    show "a - 32 * n < AllocationSize Dcb" using a n by linarith
    show "FatLocate_round calls True ccb True (lfn_dirent_at (DirectoryFile Dcb) (a - 32 * n)) (dirent_at (DirectoryFile Dcb) (a - 32 * n)) (a - 32 * n) s = Inr s1"
      unfolding FatLocate_round_part[OF ok n le_refl st] s1(1) by simp
  qed
  moreover have "a - 32 * n + 32 = a - 32 * (n - 1)" using a n by linarith
  moreover have "\<exists>s'. collected lfn c a 1 s' \<and> FatLocate_loop calls True ccb True Dcb b (a - 32 * (n - 1)) s1 = FatLocate_loop calls True ccb True Dcb b a s'"
    by (rule FatLocate_loop_parts[OF r ok st a]) (use s1(2) n in simp_all)
  ultimately show ?thesis by metis
qed

text \<open>The entry behind the parts of its name, looked at with the name collected.\<close>

lemma FatLocate_round_collected:
  assumes s: "collected lfn c a 1 s" and a: "32 \<le> a" and c: "c = FatComputeLfnChecksum d"
    and d: "FileName d ! 0 \<noteq> FAT_DIRENT_NEVER_USED" "in_use d"
  shows "FatLocate_round calls True ccb True l d a s =
    (if CcbFlags ccb AND CCB_FLAG_MATCH_ALL \<noteq> 0 then Inl (Inr (Some \<lparr>LocatedOffset = a, LocatedByShortName = False, LocatedLongName = lfn\<rparr>))
     else if CcbFlags ccb AND CCB_FLAG_SKIP_SHORT_NAME_COMPARE = 0 \<and> FatMatchShort calls True ccb d
     then Inl (Inr (Some \<lparr>LocatedOffset = a, LocatedByShortName = True, LocatedLongName = lfn\<rparr>))
     else if FatMatchLong calls ccb lfn then Inl (Inr (Some \<lparr>LocatedOffset = a, LocatedByShortName = False, LocatedLongName = lfn\<rparr>))
     else Inr s)"
proof -
  have "map (LongBuffer s) [0..<LfnSize s] = lfn"
    using s unfolding collected_def by (intro nth_equalityI) simp_all
  moreover have "Attributes d \<noteq> FAT_DIRENT_ATTR_LFN" using d(2) unfolding in_use_def by auto
  moreover have "LfnInProgress s \<and> a = LfnByteOffset s + 32 \<and> LfnIndex s = 0 \<and> FatComputeLfnChecksum d = SearchChecksum s"
    using s a c unfolding collected_def by simp
  ultimately show ?thesis using d unfolding FatLocate_round_def in_use_def by (simp only: Let_def if_True if_False simp_thms)
qed

section \<open>What construction stores\<close>

lemma FatStringTo8dot3_entry:
  assumes "FatStringTo8dot3 Name = Some f"
  shows "length f = 11" "f ! 0 \<noteq> FAT_DIRENT_DELETED" "0 \<notin> set Name \<Longrightarrow> f ! 0 \<noteq> FAT_DIRENT_NEVER_USED"
proof -
  have e: "length (extension_of Name) \<le> 3" "f = store_e5 (layout Name)"
    using assms unfolding FatStringTo8dot3_layout by (auto split: if_splits)
  have l: "length (layout Name) = 11" by (rule length_layout[OF e(1)])
  then have nn: "layout Name \<noteq> []" by auto
  show "length f = 11" "f ! 0 \<noteq> FAT_DIRENT_DELETED" unfolding e(2) using l by (auto simp: store_e5_def)
  show "f ! 0 \<noteq> FAT_DIRENT_NEVER_USED" if "0 \<notin> set Name"
  proof -
    have "layout Name ! 0 = blanks 11 (base_of Name) ! 0" by (simp add: layout_def nth_append)
    also have "\<dots> \<noteq> 0"
    proof (cases "base_of Name")
      case Nil
      then show ?thesis by (simp add: blanks_def)
    next
      case (Cons x xs)
      then have "x \<in> set Name" using base_of_take(1)[of Name] in_set_takeD by (metis list.set_intros(1))
      then show ?thesis using Cons that by (auto simp: blanks_def)
    qed
    finally show ?thesis unfolding e(2) using nn by (simp add: store_e5_def)
  qed
qed

lemma FatStampDirent_FileName: "FileName (FatStampDirent clock t ch z sct d) = FileName d"
  by (auto simp: FatStampDirent_def Let_def split: option.splits prod.splits)

lemma FatConstructDirent_outcome:
  assumes con: "FatConstructDirent clock t ch D a Name c8 c3 Lfn Attrs z sct = Some D'"
    and lfn: "\<And>lfn. Lfn = Some lfn \<Longrightarrow> lfn_ok lfn n \<and> 32 * n \<le> a"
  shows "FatStringTo8dot3 Name = Some (FileName (dirent_at D' a))" "Attributes (dirent_at D' a) = ucast Attrs"
    "NtByte (dirent_at D' a) = (if c8 then FAT_DIRENT_NT_BYTE_8_LOWER_CASE else 0) OR (if c3 then FAT_DIRENT_NT_BYTE_3_LOWER_CASE else 0)"
    "Lfn = Some lfn \<Longrightarrow> stored lfn (FatComputeLfnChecksum (dirent_at D' a)) n a D'"
proof -
  obtain f where f: "FatStringTo8dot3 Name = Some f" using con unfolding FatConstructDirent_def by (auto split: option.splits)
  define d where "d = FatStampDirent clock t ch z sct ((if z then zero_dirent else dirent_at D a)\<lparr>FileName := f\<rparr>)
     \<lparr>Attributes := ucast Attrs, NtByte := (if c8 then FAT_DIRENT_NT_BYTE_8_LOWER_CASE else 0) OR (if c3 then FAT_DIRENT_NT_BYTE_3_LOWER_CASE else 0)\<rparr>"
  define P where "P = put_bytes D a (dirent_bytes d)"
  have fd: "FileName d = f" by (simp add: d_def FatStampDirent_FileName)
  have dP: "dirent_at P a = d" unfolding P_def by (rule dirent_at_put) (simp add: fd FatStringTo8dot3_entry(1)[OF f])
  have D': "D' = (case Lfn of None \<Rightarrow> P | Some lfn \<Rightarrow> FatConstructLfn lfn (FatComputeLfnChecksum d) (unat (of_nat (FAT_LFN_DIRENTS_NEEDED lfn) :: UCHAR)) a
        (unat (of_nat (FAT_LFN_DIRENTS_NEEDED lfn) :: UCHAR)) P)"
    using con unfolding FatConstructDirent_def f option.case Let_def d_def[symmetric] P_def[symmetric] by (auto split: option.splits)
  have n: "unat (of_nat (FAT_LFN_DIRENTS_NEEDED lfn) :: UCHAR) = n" if "Lfn = Some lfn" for lfn
    using lfn[OF that] unfolding lfn_ok_def by (auto intro: unat_of_nat_small)
  have d': "dirent_at D' a = d"
  proof (cases Lfn)
    case None
    then show ?thesis using dP D' by simp
  next
    case (Some l)
    have "D' = FatConstructLfn l (FatComputeLfnChecksum d) n a n P" using D' n[OF Some] Some by simp
    moreover have "FatConstructLfn l (FatComputeLfnChecksum d) n a n P b = P b" if "a \<le> b" for b
      by (rule FatConstructLfn_out) (use that lfn[OF Some] lfn_part(3) in auto)
    ultimately show ?thesis using dP dirent_cong[of a D' P] by simp
  qed
  show "FatStringTo8dot3 Name = Some (FileName (dirent_at D' a))" unfolding d' fd by (rule f)
  show "Attributes (dirent_at D' a) = ucast Attrs"
    "NtByte (dirent_at D' a) = (if c8 then FAT_DIRENT_NT_BYTE_8_LOWER_CASE else 0) OR (if c3 then FAT_DIRENT_NT_BYTE_3_LOWER_CASE else 0)"
    unfolding d' by (simp_all add: d_def)
  show "stored lfn (FatComputeLfnChecksum (dirent_at D' a)) n a D'" if l: "Lfn = Some lfn"
  proof -
    have "D' = FatConstructLfn lfn (FatComputeLfnChecksum d) n a n P" using D' n[OF l] l by simp
    then show ?thesis unfolding d' stored_def using assms(2)[OF l] lfn_part(3) by (auto intro!: FatConstructLfn_in)
  qed
qed

end
