(* ===== verification/FatCreatedName.thy ===== *)
theory FatCreatedName
  imports FatLongName
begin

unbundle bit_operations_syntax

text \<open>
  The name of a file from its creation to its use: the short name and the case bits or long
  name that are chosen for a Unicode name, the entries constructed with them, and the Unicode
  name that is read back from the directory.
\<close>

section \<open>Names without a long name\<close>

text \<open>What the code relies on in the test of an 8.3 name: the shape of the names it accepts.\<close>

definition legal_ok :: "(UCHAR list \<Rightarrow> bool) \<Rightarrow> bool" where
  "legal_ok legal \<longleftrightarrow>
     (\<forall>s. legal s \<longrightarrow> (\<exists>b e. s = name_string b e \<and> short_name b e \<and> UCHAR_DOT \<notin> set e \<and> 0 \<notin> set s \<and> b ! 0 \<noteq> FAT_DIRENT_REALLY_0E5))"

lemma not_CreateLfn_ascii:
  assumes "\<not> CreateLfn (FatEvaluateNameCase True U)"
  shows "\<forall>c\<in>set U. c < 0x80"
proof (rule ccontr)
  assume "\<not> ?thesis"
  then have "list_ex (stops True) U" by (auto simp: list_ex_iff stops_def not_less)
  from FatEvaluate_loop_stops[OF this, of "[]"] have l: "\<not> snd (FatEvaluate_loop True U s)" for s by simp
  have "CreateLfn (FatEvaluateNameCase True U)"
    unfolding FatEvaluateNameCase_def
    using l[of "\<lparr>Uppers = 0, Lowers = 0, CreateLfn = False, AllLowerComponent = False, AllLowerExtension = False, ExtensionPresent = False\<rparr>"]
    by (simp add: Let_def prod.case_eq_if)
  then show False using assms by simp
qed

lemma oem_upper_dot: "(c::USHORT) < 0x80 \<Longrightarrow> oem_upper c = UCHAR_DOT \<longleftrightarrow> c = 0x2e"
proof -
  assume c: "c < 0x80"
  show ?thesis
  proof (cases "lower c")
    case True
    then have "upper c \<or> c \<noteq> 0x2e" by (auto simp: lower_def word_le_nat_alt)
    have "0x41 \<le> sint (oem_upper c)" using ascii_letters(2)[OF c] True by simp
    then have "oem_upper c \<noteq> UCHAR_DOT" by auto
    moreover have "c \<noteq> 0x2e" using True by (auto simp: lower_def word_le_nat_alt)
    ultimately show ?thesis by simp
  next
    case False
    have "unat (ucast c :: UCHAR) = unat c"
      using c by (simp add: unsigned_ucast_eq take_bit_nat_eq_self word_less_nat_alt)
    then show ?thesis using False by (simp add: oem_upper_def word_unat_eq_iff)
  qed
qed

text \<open>A name that is upcased to an 8.3 name has its two parts itself.\<close>

lemma upcased_parts:
  assumes u: "map oem_upper U = name_string b' e'" and d: "UCHAR_DOT \<notin> set b'" "UCHAR_DOT \<notin> set e'" and ascii: "\<forall>c\<in>set U. c < 0x80"
  obtains b e where "U = unicode_name b e" "b' = map oem_upper b" "e' = map oem_upper e" "0x2e \<notin> set b" "0x2e \<notin> set e"
proof (cases "e' = []")
  case True
  have "0x2e \<notin> set U" using u d True oem_upper_dot ascii by (force simp: name_string_def)
  then show ?thesis using that[of U "[]"] u True by (simp add: unicode_name_def name_string_def)
next
  case False
  then have "map oem_upper U = b' @ UCHAR_DOT # e'" using u by (simp add: name_string_def)
  then obtain b r where br: "U = b @ r" "b' = map oem_upper b" "UCHAR_DOT # e' = map oem_upper r" by (auto simp: map_eq_append_conv)
  obtain x e where xe: "r = x # e" using br(3) by (cases r) auto
  have U: "U = b @ x # e" "b' = map oem_upper b" "oem_upper x = UCHAR_DOT" "e' = map oem_upper e" using br xe by simp_all
  have "x = 0x2e" using U(1,3) oem_upper_dot ascii by simp
  moreover have "0x2e \<notin> set b" "0x2e \<notin> set e" using U d oem_upper_dot ascii by force+
  moreover have "e \<noteq> []" using U(4) False by auto
  ultimately show ?thesis using that[of b e] U by (simp add: unicode_name_def)
qed

lemma map_upper_eq: "code_page_ok upcase lead \<Longrightarrow> \<forall>c\<in>set U. c < 0x80 \<Longrightarrow> map upcase U = map oem_upper U"
proof (rule map_cong[OF refl])
  fix c assume "code_page_ok upcase lead" "\<forall>c\<in>set U. c < 0x80" "c \<in> set U"
  then obtain k where k: "k < 128" "c = of_nat k" using ascii_of_nat[of c] by blast
  from k(1) have "k \<in> set [0..<128]" by simp
  then show "upcase c = oem_upper c" using \<open>code_page_ok upcase lead\<close> k(2) unfolding code_page_ok_def list_all_iff by blast
qed

text \<open>The two bits of the entry bring the case back.\<close>

lemma short_name_case:
  assumes cp: "code_page_ok upcase lead" and lg: "legal_ok legal" "legal (map upcase U)"
    and s: "s = FatEvaluateNameCase True U" "\<not> CreateLfn s"
    and f: "FatStringTo8dot3 (map upcase U) = Some (FileName d)"
    and nt: "NtByte d = (if AllLowerComponent s then FAT_DIRENT_NT_BYTE_8_LOWER_CASE else 0) OR (if AllLowerExtension s then FAT_DIRENT_NT_BYTE_3_LOWER_CASE else 0)"
  shows "Fat8dot3ToString True lead d True = map ucast U" "\<forall>c\<in>set U. c < 0x80" "0 \<notin> set (map upcase U)"
proof -
  show ascii: "\<forall>c\<in>set U. c < 0x80" using not_CreateLfn_ascii s by simp
  note up = map_upper_eq[OF cp ascii]
  obtain b' e' where n: "map upcase U = name_string b' e'" "short_name b' e'" "UCHAR_DOT \<notin> set e'" "0 \<notin> set (map upcase U)" "b' ! 0 \<noteq> FAT_DIRENT_REALLY_0E5"
    using lg unfolding legal_ok_def by blast
  show "0 \<notin> set (map upcase U)" by (rule n(4))
  have "UCHAR_DOT \<notin> set b'" using n(2) by (simp add: short_name_def)
  then obtain b e where U: "U = unicode_name b e" "b' = map oem_upper b" "e' = map oem_upper e" "0x2e \<notin> set b" "0x2e \<notin> set e"
    using upcased_parts[OF n(1)[unfolded up] _ n(3) ascii] by blast
  have l: "length b < 256" "length e < 256" using n(2) U(2,3) by (simp_all add: short_name_def)
  note ev = FatEvaluateNameCase_outcome[OF U(4,5) l, of s True]
  have sn: "s = FatEvaluateNameCase True (unicode_name b e)" using s(1) U(1) by simp
  have nl: "\<not> needs_long True b e" using ev(1)[OF sn] s(2) by simp
  have fl: "AllLowerComponent s = list_ex lower b" "AllLowerExtension s = list_ex lower e" using ev(2,3)[OF sn] nl by simp_all
  have ab: "\<forall>c\<in>set b. c < 0x80" "\<forall>c\<in>set e. c < 0x80" using ascii U(1) by (auto simp: unicode_name_def split: if_splits)
  have ub: "map upcase b = b'" "map upcase e = e'" using map_upper_eq[OF cp ab(1)] map_upper_eq[OF cp ab(2)] U(2,3) by simp_all
  have kb: "(if list_ex lower b then FatLowerCase lead b' else b') = map ucast b" "(if list_ex lower e then FatLowerCase lead e' else e') = map ucast e"
    using case_kept[OF cp ab(1)] case_kept[OF cp ab(2)] nl unfolding ub needs_long_def by blast+
  have bits: "NtByte d AND FAT_DIRENT_NT_BYTE_8_LOWER_CASE \<noteq> 0 \<longleftrightarrow> list_ex lower b" "NtByte d AND FAT_DIRENT_NT_BYTE_3_LOWER_CASE \<noteq> 0 \<longleftrightarrow> list_ex lower e"
    unfolding nt fl by (cases "list_ex lower b"; cases "list_ex lower e"; simp)+
  have "Fat8dot3ToString True lead d True = name_string (map ucast b) (map ucast e)"
    using short_name_read[OF n(2,5) f[unfolded n(1)], of True lead True] unfolding bits using kb by simp
  then show "Fat8dot3ToString True lead d True = map ucast U" unfolding U(1) by (simp add: name_string_def unicode_name_def)
qed

section \<open>From creation to use\<close>

text \<open>The conversion of OEM strings is the identity below 0x80.\<close>

definition to_unicode_ok :: "(UCHAR list \<Rightarrow> USHORT list) \<Rightarrow> bool" where
  "to_unicode_ok f \<longleftrightarrow> (\<forall>U. (\<forall>c\<in>set U. c < 0x80) \<longrightarrow> f (map ucast U) = U)"

lemma FatSelectNames_cases:
  assumes "FatSelectNames calls ch cpi legal generate Context to_oem Parent OemName U Suggested = Some (Inr (ShortName, s))"
  shows "CreateLfn s \<or> (ShortName = OemName \<and> legal OemName \<and> s = FatEvaluateNameCase cpi U)"
  using assms unfolding FatSelectNames_def by (auto split: if_splits option.splits sum.splits)

lemma FatMatchShort_self:
  "Attributes d AND FAT_DIRENT_ATTR_VOLUME_ID = 0 \<Longrightarrow> FatMatchShort calls ch (short_query (FileName d)) d"
  by (simp add: FatMatchShort_def)

text \<open>
  C3: The name a file is created with is the name it has: when the names are chosen by
  FatSelectNames and the entries constructed by FatConstructDirent with the short name, the
  case bits and the long name it asks for, FatGetUnicodeNameFromFcb answers exactly the
  Unicode name given, whether it is kept as a long name over up to twenty entries or in two
  bits of the short entry. ChicagoMode and CodePageInvariant are on, as the driver has
  them by default.
\<close>

theorem FatGetUnicodeNameFromFcb_created:
  assumes sel: "FatSelectNames calls True True legal generate Context to_oem Parent OemName U Suggested = Some (Inr (ShortName, s))"
    and con: "FatConstructDirent clock SystemTime True D a ShortName (AllLowerComponent s) (AllLowerExtension s)
                (if CreateLfn s then Some U else None) Attrs z SetCreationTime = Some D'"
    and U: "lfn_ok U n" "(\<forall>c\<in>set U. c < 0x80) \<Longrightarrow> OemName = map upcase U" and short: "0 \<notin> set ShortName"
    and place: "a mod 32 = 0" "32 * n \<le> a" "a < AllocationSize Dcb" "DirectoryFile Dcb = D'" "readable Dcb"
    and attr: "(ucast Attrs :: UCHAR) AND FAT_DIRENT_ATTR_VOLUME_ID = 0"
    and nls: "code_page_ok upcase (FsRtlIsLeadDbcsCharacter calls)" "legal_ok legal" "to_unicode_ok to_unicode"
  shows "FatGetUnicodeNameFromFcb calls to_unicode True Dcb ShortName (if CreateLfn s then a - 32 * n else a) a = Some (Inr U)"
proof -
  let ?d = "dirent_at D' a"
  have lf: "(if CreateLfn s then Some U else None) = Some lfn \<Longrightarrow> lfn_ok lfn n \<and> 32 * n \<le> a" for lfn using U(1) place(2) by (auto split: if_splits)
  note out = FatConstructDirent_outcome[OF con lf]
  have f: "FatStringTo8dot3 ShortName = Some (FileName ?d)" using out(1) by blast
  have at: "Attributes ?d AND FAT_DIRENT_ATTR_VOLUME_ID = 0" using out(2) attr by simp
  have nt: "NtByte ?d = (if AllLowerComponent s then FAT_DIRENT_NT_BYTE_8_LOWER_CASE else 0) OR (if AllLowerExtension s then FAT_DIRENT_NT_BYTE_3_LOWER_CASE else 0)"
    using out(3) by blast
  have live: "FileName ?d ! 0 \<noteq> FAT_DIRENT_NEVER_USED" "in_use ?d"
    using FatStringTo8dot3_entry[OF f] short at by (simp_all add: in_use_def)
  define s0 where "s0 = \<lparr>LfnInProgress = False, SearchChecksum = 0, LfnSize = 0, LfnIndex = 0, SearchOrdinal = 0, LfnByteOffset = 0, LongBuffer = (\<lambda>_. 0 :: USHORT)\<rparr>"
  have s0: "\<not> LfnInProgress s0" by (simp add: s0_def)
  have off: "(x + 31) div 32 * 32 = x" if "x mod 32 = 0" for x :: nat using that by presburger
  show ?thesis
  proof (cases "CreateLfn s")
    case True
    have ok: "stored U (FatComputeLfnChecksum ?d) n a D'" using out(4) True by simp
    have n: "0 < n" "U \<noteq> []" using U(1) needed_bounds(1) unfolding lfn_ok_def by blast+
    have ok': "stored U (FatComputeLfnChecksum ?d) n a (DirectoryFile Dcb)" using ok place(4) by simp
    obtain s1 where s1: "collected U (FatComputeLfnChecksum ?d) a 1 s1"
      "FatLocate_loop calls True (short_query (FileName ?d)) True Dcb False (a - 32 * n) s0 = FatLocate_loop calls True (short_query (FileName ?d)) True Dcb False a s1"
      using FatLocate_loop_name[OF place(5) U(1) ok' place(2) less_imp_le[OF place(3)] s0] by blast
    have "FatLocate_loop calls True (short_query (FileName ?d)) True Dcb False a s1 = Inr (Some \<lparr>LocatedOffset = a, LocatedByShortName = True, LocatedLongName = U\<rparr>)"
      by (rule FatLocate_loop_found[OF place(5,3)])
        (use FatLocate_round_collected[OF s1(1) _ refl live] n place(2,4) FatMatchShort_self[OF at] in simp)
    moreover have "(a - 32 * n) mod 32 = 0" using place(1,2) by presburger
    ultimately show ?thesis using True s1(2) n f
      by (simp add: FatGetUnicodeNameFromFcb_def FatLocateDirent_def off s0_def[symmetric])
  next
    case False
    then have sn: "ShortName = OemName" "legal OemName" "s = FatEvaluateNameCase True U" using FatSelectNames_cases[OF sel] by blast+
    have o: "OemName = map upcase U" using U(2) not_CreateLfn_ascii False sn(3) by blast
    note c = short_name_case[OF nls(1,2) sn(2)[unfolded o] sn(3) False f[unfolded sn(1) o] nt]
    have "FatLocate_round calls True (short_query (FileName ?d)) True (lfn_dirent_at D' a) ?d a s0 =
        Inl (Inr (Some \<lparr>LocatedOffset = a, LocatedByShortName = True, LocatedLongName = []\<rparr>))"
      using live s0 FatMatchShort_self[OF at] unfolding FatLocate_round_def in_use_def by (auto simp: Let_def)
    then have "FatLocate_loop calls True (short_query (FileName ?d)) True Dcb False a s0 = Inr (Some \<lparr>LocatedOffset = a, LocatedByShortName = True, LocatedLongName = []\<rparr>)"
      by (intro FatLocate_loop_found[OF place(5,3)]) (simp add: place(4))
    then show ?thesis using False f c(1,2) nls(3) place(4)
      by (simp add: FatGetUnicodeNameFromFcb_def FatLocateDirent_def off[OF place(1)] s0_def[symmetric] to_unicode_ok_def)
  qed
qed

text \<open>The name ReadMe.txt, whose short name is README.TXT, created in the third entry of a directory.\<close>

definition readme :: "USHORT list" where
  "readme = [0x52, 0x65, 0x61, 0x64, 0x4d, 0x65, 0x2e, 0x74, 0x78, 0x74]"

definition README :: "UCHAR list" where
  "README = name_string [0x52, 0x45, 0x41, 0x44, 0x4d, 0x45] [0x54, 0x58, 0x54]"

lemma README_short: "short_name [0x52, 0x45, 0x41, 0x44, 0x4d, 0x45] [0x54, 0x58, 0x54]"
  by (simp add: short_name_def)

lemma readme_case: "CreateLfn (FatEvaluateNameCase True readme)"
  by (simp add: FatEvaluateNameCase_def readme_def Let_def)

lemma ucast_ascii: "(c::USHORT) < 0x80 \<Longrightarrow> ucast (ucast c :: UCHAR) = c"
proof -
  assume "c < 0x80"
  then have "unat (ucast c :: UCHAR) = unat c" by (simp add: unsigned_ucast_eq take_bit_nat_eq_self word_less_nat_alt)
  then have "unat (ucast (ucast c :: UCHAR) :: USHORT) = unat c" by (simp only: unat_ucast_up len_num0 len_num1 len_bit0 len_bit1)
  then show ?thesis by (simp only: word_unat_eq_iff)
qed

theorem FatGetUnicodeNameFromFcb_created_witness:
  "\<exists>D'. FatConstructDirent flat_clock 140000000000123456 True (\<lambda>_. 0) 64 README
       (AllLowerComponent (FatEvaluateNameCase True readme)) (AllLowerExtension (FatEvaluateNameCase True readme)) (Some readme) 0x20 True None = Some D' \<and>
     FatGetUnicodeNameFromFcb letter_calls (map ucast) True \<lparr>DirectoryFile = D', AllocationSize = 4096, DirectoryFault = (\<lambda>_. None)\<rparr> README 32 64 = Some (Inr readme)"
proof -
  let ?s = "FatEvaluateNameCase True readme"
  have sel: "FatSelectNames letter_calls True True (\<lambda>s. s = README) (\<lambda>U k. (U, k)) 0 (map ucast) one_entry README readme None = Some (Inr (README, ?s))"
    by (simp add: FatSelectNames_def FatSpaceInName_def readme_def README_def name_string_def)
  have "FatStringTo8dot3 README \<noteq> None" unfolding README_def short_name_entry[OF README_short] by simp
  then obtain D' where D': "FatConstructDirent flat_clock 140000000000123456 True (\<lambda>_. 0) 64 README (AllLowerComponent ?s) (AllLowerExtension ?s)
      (if CreateLfn ?s then Some readme else None) 0x20 True None = Some D'"
    unfolding FatConstructDirent_def using readme_case by (auto simp: Let_def)
  have "FatGetUnicodeNameFromFcb letter_calls (map ucast) True \<lparr>DirectoryFile = D', AllocationSize = 4096, DirectoryFault = (\<lambda>_. None)\<rparr> README
      (if CreateLfn ?s then 64 - 32 * 1 else 64) 64 = Some (Inr readme)"
  proof (rule FatGetUnicodeNameFromFcb_created[OF sel D'])
    show "lfn_ok readme 1" by (simp add: lfn_ok_def readme_def FAT_LFN_DIRENTS_NEEDED_def)
    show "README = map oem_upper readme" by (simp add: README_def readme_def name_string_def oem_upper_def lower_def)
    show "code_page_ok oem_upper (FsRtlIsLeadDbcsCharacter letter_calls)" by (simp add: code_page_ok_def letter_calls_def list_all_iff)
    show "legal_ok (\<lambda>s. s = README)"
      unfolding legal_ok_def
    proof (intro allI impI)
      fix s assume "s = README"
      then have "s = name_string [0x52, 0x45, 0x41, 0x44, 0x4d, 0x45] [0x54, 0x58, 0x54]" by (simp only: README_def)
      then show "\<exists>b e. s = name_string b e \<and> short_name b e \<and> UCHAR_DOT \<notin> set e \<and> 0 \<notin> set s \<and> b ! 0 \<noteq> FAT_DIRENT_REALLY_0E5"
        using README_short by (intro exI conjI) (assumption | simp add: name_string_def)+
    qed
    show "to_unicode_ok (map ucast)" by (auto simp: to_unicode_ok_def ucast_ascii intro: map_idI)
  qed (simp_all add: README_def name_string_def readable_def)
  then show ?thesis using D' readme_case by auto
qed

end
