(* ===== verification/FatNames.thy ===== *)
theory FatNames imports FatPrelude "HOL-Library.Tree" "HOL-Library.List_Lexorder" begin

unbundle bit_operations_syntax

text \<open>
  The trees of names of a directory (splaysup.c): the comparison of names and the order it
  is, the walks of a lookup and of an insertion, and that a tree is a table of names.
\<close>

section \<open>Names\<close>

text \<open>
  An OEM or Unicode name as the trees of names see it: its bytes, of which there is one at
  least. \<open>NameLength\<close> is the Length of the counted string.
\<close>

datatype STRING = STRING (FirstByte: UCHAR) (RestBytes: "UCHAR list")

definition NameBuffer :: "STRING \<Rightarrow> UCHAR list" where
  "NameBuffer N = FirstByte N # RestBytes N"

definition NameLength :: "STRING \<Rightarrow> nat" where
  "NameLength N = length (NameBuffer N)"

datatype COMPARISON = IsLessThan | IsGreaterThan | IsEqual

text \<open>RtlCompareMemory answers how many bytes are equal before the first difference.\<close>

fun RtlCompareMemory :: "UCHAR list \<Rightarrow> UCHAR list \<Rightarrow> nat \<Rightarrow> nat" where
  "RtlCompareMemory (x # xs) (y # ys) (Suc n) = (if x = y then Suc (RtlCompareMemory xs ys n) else 0)"
| "RtlCompareMemory xs ys n = 0"

text \<open>The Buffer of a STRING is an array of \<open>CHAR\<close>, which is signed: so is the comparison here.\<close>

definition FatCompareNames :: "STRING \<Rightarrow> STRING \<Rightarrow> COMPARISON" where
  "FatCompareNames NameA NameB =
     (let MinLength = (if NameLength NameA < NameLength NameB then NameLength NameA else NameLength NameB);
          i = RtlCompareMemory (NameBuffer NameA) (NameBuffer NameB) MinLength
      in if i < MinLength
         then (if sint (NameBuffer NameA ! i) < sint (NameBuffer NameB ! i) then IsLessThan else IsGreaterThan)
         else if NameLength NameA < NameLength NameB then IsLessThan
         else if NameLength NameA > NameLength NameB then IsGreaterThan
         else IsEqual)"

text \<open>The macro looks at the first bytes as unsigned ones before it calls the routine.\<close>

definition CompareNames :: "STRING \<Rightarrow> STRING \<Rightarrow> COMPARISON" where
  "CompareNames NameA NameB =
     (if FirstByte NameA \<noteq> FirstByte NameB
      then if FirstByte NameA < FirstByte NameB then IsLessThan else IsGreaterThan
      else FatCompareNames NameA NameB)"

text \<open>The order of names: lexicographic, by the first byte unsigned and by all others signed.\<close>

definition name_key :: "STRING \<Rightarrow> int list" where
  "name_key N = uint (FirstByte N) # map sint (RestBytes N)"

lemma name_key_inject: "name_key a = name_key b \<longleftrightarrow> a = b"
proof -
  have "inj (sint :: UCHAR \<Rightarrow> int)" by (rule injI) (simp add: signed_word_eqI)
  then show ?thesis using word_uint_eq_iff[of "FirstByte a" "FirstByte b"] by (cases a; cases b) (simp add: name_key_def inj_map_eq_map)
qed

lemma compare_memory:
  "RtlCompareMemory xs ys (min (length xs) (length ys)) = i \<Longrightarrow>
     (if i < min (length xs) (length ys) then (map sint xs < map sint ys) = (sint (xs ! i) < sint (ys ! i)) \<and> map sint xs \<noteq> map sint ys
      else (map sint xs < map sint ys) = (length xs < length ys) \<and> (map sint xs = map sint ys) = (length xs = length ys))"
proof (induction xs arbitrary: ys i)
  case Nil
  then show ?case by (cases ys) auto
next
  case (Cons x xs)
  show ?case
  proof (cases ys)
    case Nil
    then show ?thesis by simp
  next
    case (Cons y zs)
    show ?thesis
    proof (cases "x = y")
      case True
      obtain k where k: "RtlCompareMemory xs zs (min (length xs) (length zs)) = k" by simp
      then have i: "i = Suc k" using Cons.prems True \<open>ys = y # zs\<close> by simp
      show ?thesis using Cons.IH[OF k] i True \<open>ys = y # zs\<close> by (auto split: if_splits)
    next
      case False
      then have "i = 0" using Cons.prems \<open>ys = y # zs\<close> by simp
      moreover have "sint x \<noteq> sint y" using False by (metis signed_word_eqI)
      ultimately show ?thesis using \<open>ys = y # zs\<close> by auto
    qed
  qed
qed

lemma CompareNames_key:
  "CompareNames a b = (if name_key a < name_key b then IsLessThan else if name_key a = name_key b then IsEqual else IsGreaterThan)"
proof (cases "FirstByte a = FirstByte b")
  case False
  then have "uint (FirstByte a) \<noteq> uint (FirstByte b)" by (simp only: word_uint_eq_iff not_False_eq_True)
  then show ?thesis using False by (simp add: CompareNames_def name_key_def word_less_def)
next
  case True
  define i where "i = RtlCompareMemory (NameBuffer a) (NameBuffer b) (min (length (NameBuffer a)) (length (NameBuffer b)))"
  have k: "(name_key a < name_key b) = (map sint (NameBuffer a) < map sint (NameBuffer b))"
    "(name_key a = name_key b) = (map sint (NameBuffer a) = map sint (NameBuffer b))"
    using True by (simp_all add: name_key_def NameBuffer_def)
  have m: "(if x < y then x else y) = min x y" for x y :: nat by simp
  show ?thesis using compare_memory[OF i_def[symmetric]] True
    unfolding k CompareNames_def FatCompareNames_def NameLength_def Let_def m i_def[symmetric]
    by (auto split: if_splits)
qed

instantiation STRING :: linorder
begin

definition less_eq_STRING :: "STRING \<Rightarrow> STRING \<Rightarrow> bool" where
  "a \<le> b \<longleftrightarrow> CompareNames a b \<noteq> IsGreaterThan"

definition less_STRING :: "STRING \<Rightarrow> STRING \<Rightarrow> bool" where
  "a < b \<longleftrightarrow> CompareNames a b = IsLessThan"

instance
proof
  fix a b c :: STRING
  have le: "x \<le> y \<longleftrightarrow> name_key x \<le> name_key y" and lt: "x < y \<longleftrightarrow> name_key x < name_key y" for x y
    by (auto simp: less_eq_STRING_def less_STRING_def CompareNames_key)
  show "(a < b) = (a \<le> b \<and> \<not> b \<le> a)" "a \<le> a" "a \<le> b \<Longrightarrow> b \<le> c \<Longrightarrow> a \<le> c" "a \<le> b \<or> b \<le> a" by (auto simp: le lt)
  show "a \<le> b \<Longrightarrow> b \<le> a \<Longrightarrow> a = b" using name_key_inject by (simp add: le)
qed

end

lemma CompareNames_order:
  "CompareNames a b = (if a < b then IsLessThan else if a = b then IsEqual else IsGreaterThan)"
  using name_key_inject[of a b] by (simp add: less_STRING_def CompareNames_key)

section \<open>The trees\<close>

text \<open>A node of a tree is the name of a file: short, long in the OEM code page, or long in Unicode.\<close>

record FILE_NAME_NODE =
  NodeFcb :: nat
  NodeName :: STRING
  FileNameDos :: bool

type_synonym name_tree = "FILE_NAME_NODE tree"

fun FatFind_walk :: "name_tree \<Rightarrow> STRING \<Rightarrow> FILE_NAME_NODE option" where
  "FatFind_walk Leaf Name = None"
| "FatFind_walk (Node l N r) Name =
     (case CompareNames (NodeName N) Name of
        IsGreaterThan \<Rightarrow> FatFind_walk l Name
      | IsLessThan \<Rightarrow> FatFind_walk r Name
      | IsEqual \<Rightarrow> Some N)"

text \<open>The walk of an insertion: the node that has the name already, or the tree with the new one.\<close>

fun FatInsert_walk :: "name_tree \<Rightarrow> FILE_NAME_NODE \<Rightarrow> FILE_NAME_NODE + name_tree" where
  "FatInsert_walk Leaf Name = Inr (Node Leaf Name Leaf)"
| "FatInsert_walk (Node l N r) Name =
     (case CompareNames (NodeName N) (NodeName Name) of
        IsEqual \<Rightarrow> Inl N
      | IsGreaterThan \<Rightarrow> map_sum id (\<lambda>t. Node t N r) (FatInsert_walk l Name)
      | IsLessThan \<Rightarrow> map_sum id (\<lambda>t. Node l N t) (FatInsert_walk r Name))"

text \<open>
  What a table of names promises its clients: a lookup answers the entry of a name, an
  insertion either adds an entry under a new name or answers the entry that has the name.
\<close>

locale name_table =
  fixes inv :: "'t \<Rightarrow> bool" and lookup :: "'t \<Rightarrow> 'k \<Rightarrow> 'n option" and add :: "'t \<Rightarrow> 'n \<Rightarrow> 'n + 't" and key :: "'n \<Rightarrow> 'k"
  assumes lookup_key: "inv t \<Longrightarrow> lookup t k = Some n \<Longrightarrow> key n = k"
    and add_old: "inv t \<Longrightarrow> lookup t (key n) = Some m \<Longrightarrow> add t n = Inl m"
    and add_new: "inv t \<Longrightarrow> lookup t (key n) = None \<Longrightarrow> \<exists>t'. add t n = Inr t' \<and> inv t' \<and> lookup t' = (lookup t)(key n \<mapsto> n)"
begin

lemma add_cases: "inv t \<Longrightarrow> (\<exists>m. lookup t (key n) = Some m \<and> add t n = Inl m) \<or>
    (lookup t (key n) = None \<and> (\<exists>t'. add t n = Inr t' \<and> inv t' \<and> lookup t' = (lookup t)(key n \<mapsto> n)))"
  using add_old add_new by (cases "lookup t (key n)") auto

lemma add_Inr: "inv t \<Longrightarrow> add t n = Inr t' \<Longrightarrow> inv t' \<and> lookup t' (key n) = Some n \<and> lookup t (key n) = None"
  using add_cases[of t n] by auto

lemma add_Inl: "inv t \<Longrightarrow> add t n = Inl m \<Longrightarrow> lookup t (key n) = Some m \<and> key m = key n"
  using add_cases[of t n] lookup_key by auto

end

definition names_ok :: "name_tree \<Rightarrow> bool" where
  "names_ok t \<longleftrightarrow> bst (map_tree NodeName t)"

definition names :: "name_tree \<Rightarrow> STRING \<Rightarrow> FILE_NAME_NODE option" where
  "names t = map_of (map (\<lambda>n. (NodeName n, n)) (inorder t))"

lemma names_ok_inorder: "names_ok t \<longleftrightarrow> sorted_wrt (<) (map NodeName (inorder t))"
  by (simp add: names_ok_def bst_iff_sorted_wrt_less inorder_map)

lemma names_Node: "names (Node l n r) k = (case names l k of Some m \<Rightarrow> Some m | None \<Rightarrow> if k = NodeName n then Some n else names r k)"
  by (auto simp: names_def map_add_def split: option.splits)

lemma names_None: "\<forall>n\<in>set_tree t. NodeName n \<noteq> k \<Longrightarrow> names t k = None"
  by (auto simp: names_def map_of_eq_None_iff)

lemma names_ok_simps [simp]: "names_ok Leaf"
  "names_ok (Node l n r) \<longleftrightarrow> names_ok l \<and> names_ok r \<and> (\<forall>x\<in>set_tree l. NodeName x < NodeName n) \<and> (\<forall>x\<in>set_tree r. NodeName n < NodeName x)"
  by (auto simp: names_ok_def tree.set_map)

lemma names_Node_cases:
  assumes "names_ok (Node l n r)"
  shows "names (Node l n r) k = (if k < NodeName n then names l k else if k = NodeName n then Some n else names r k)"
proof -
  have l: "names l k = None" if "NodeName n \<le> k" using assms that by (intro names_None) force
  have r: "names r k = None" if "k \<le> NodeName n" using assms that by (intro names_None) force
  show ?thesis using l r by (auto simp: names_Node split: option.splits)
qed

lemma FatFind_walk_names: "names_ok t \<Longrightarrow> FatFind_walk t k = names t k"
proof (induction t)
  case (Node l n r)
  then show ?case by (auto simp: names_Node_cases CompareNames_order)
qed (simp add: names_def)

lemma set_names: "FatInsert_walk t n = Inr t' \<Longrightarrow> set_tree t' = insert n (set_tree t)"
proof (induction t arbitrary: t')
  case (Node l m r)
  show ?case
  proof (cases "CompareNames (NodeName m) (NodeName n)")
    case IsLessThan
    then obtain u where u: "FatInsert_walk r n = Inr u" "t' = Node l m u"
      using Node.prems by (cases "FatInsert_walk r n") simp_all
    show ?thesis using Node.IH(2)[OF u(1)] u(2) by (simp add: insert_commute)
  next
    case IsGreaterThan
    then obtain u where u: "FatInsert_walk l n = Inr u" "t' = Node u m r"
      using Node.prems by (cases "FatInsert_walk l n") simp_all
    show ?thesis using Node.IH(1)[OF u(1)] u(2) by (simp add: insert_commute)
  qed (use Node.prems in simp)
qed simp

lemma FatInsert_walk_new:
  "names_ok t \<Longrightarrow> names t (NodeName n) = None \<Longrightarrow>
   \<exists>t'. FatInsert_walk t n = Inr t' \<and> names_ok t' \<and> names t' = (names t)(NodeName n \<mapsto> n)"
proof (induction t)
  case Leaf
  then show ?case by (auto simp: names_def fun_eq_iff)
next
  case (Node l m r)
  have lr: "names_ok l" "names_ok r" using Node.prems(1) by simp_all
  note nn = names_Node_cases[OF Node.prems(1)]
  consider "NodeName n < NodeName m" | "NodeName m < NodeName n"
    using Node.prems(2) nn[of "NodeName n"] by (cases "NodeName n" "NodeName m" rule: linorder_cases) auto
  then show ?case
  proof cases
    case 1
    then obtain t' where t': "FatInsert_walk l n = Inr t'" "names_ok t'" "names t' = (names l)(NodeName n \<mapsto> n)"
      using Node.IH(1)[OF lr(1)] Node.prems(2)[unfolded nn] 1 by (simp only: if_True) blast
    have ok: "names_ok (Node t' m r)" using t' set_names[OF t'(1)] 1 Node.prems(1) by auto
    have "names (Node t' m r) = (names (Node l m r))(NodeName n \<mapsto> n)"
      using 1 by (auto simp: fun_eq_iff names_Node_cases[OF ok] nn t'(3))
    then show ?thesis using t'(1) ok 1 by (auto simp: CompareNames_order)
  next
    case 2
    then obtain t' where t': "FatInsert_walk r n = Inr t'" "names_ok t'" "names t' = (names r)(NodeName n \<mapsto> n)"
      using Node.IH(2)[OF lr(2)] Node.prems(2)[unfolded nn] less_not_sym[OF 2] less_imp_neq[OF 2, symmetric]
      by (simp only: if_False) blast
    have ok: "names_ok (Node l m t')" using t' set_names[OF t'(1)] 2 Node.prems(1) by auto
    have "names (Node l m t') = (names (Node l m r))(NodeName n \<mapsto> n)"
      using 2 by (auto simp: fun_eq_iff names_Node_cases[OF ok] nn t'(3))
    then show ?thesis using t'(1) ok 2 by (auto simp: CompareNames_order)
  qed
qed

lemma FatInsert_walk_old: "names_ok t \<Longrightarrow> names t (NodeName n) = Some m \<Longrightarrow> FatInsert_walk t n = Inl m"
proof (induction t)
  case (Node l x r)
  then show ?case by (auto simp: names_Node_cases CompareNames_order split: if_splits)
qed (simp add: names_def)

interpretation tree: name_table names_ok FatFind_walk FatInsert_walk NodeName
proof unfold_locales
  fix t :: name_tree and k n
  assume "names_ok t" "FatFind_walk t k = Some n"
  then have "names t k = Some n" by (simp add: FatFind_walk_names)
  from map_of_SomeD[OF this[unfolded names_def]] show "NodeName n = k" by auto
next
  fix t :: name_tree and n m :: FILE_NAME_NODE
  assume "names_ok t" "FatFind_walk t (NodeName n) = Some m"
  then show "FatInsert_walk t n = Inl m" by (simp add: FatFind_walk_names FatInsert_walk_old)
next
  fix t :: name_tree and n :: FILE_NAME_NODE
  assume t: "names_ok t" "FatFind_walk t (NodeName n) = None"
  obtain t' where t': "FatInsert_walk t n = Inr t'" "names_ok t'" "names t' = (names t)(NodeName n \<mapsto> n)"
    using FatInsert_walk_new[OF t(1), of n] t by (auto simp: FatFind_walk_names)
  moreover have "FatFind_walk t' = (FatFind_walk t)(NodeName n \<mapsto> n)"
    using t(1) t'(2,3) by (simp add: fun_eq_iff FatFind_walk_names)
  ultimately show "\<exists>t'. FatInsert_walk t n = Inr t' \<and> names_ok t' \<and> FatFind_walk t' = (FatFind_walk t)(NodeName n \<mapsto> n)" by blast
qed

end
