(* ===== verification/FatSplay.thy ===== *)
theory FatSplay
  imports FatNames FatDirent
begin

unbundle bit_operations_syntax

text \<open>
  The names of the open files of a directory (splaysup.c, and FatConstructNamesInFcb of
  strucsup.c): an OEM and a Unicode tree of names, whose nodes are in the Fcbs of the files,
  and the operations that insert, remove and find names.
\<close>

section \<open>Data\<close>

datatype FCB_CONDITION = FcbGood | FcbBad | FcbNeedsToBeVerified

abbreviation FCB_STATE_PAGING_FILE :: ULONG where "FCB_STATE_PAGING_FILE \<equiv> 0x00000004"
abbreviation FCB_STATE_NAMES_IN_SPLAY_TREE :: ULONG where "FCB_STATE_NAMES_IN_SPLAY_TREE \<equiv> 0x00000100"
abbreviation FCB_STATE_HAS_OEM_LONG_NAME :: ULONG where "FCB_STATE_HAS_OEM_LONG_NAME \<equiv> 0x00000200"
abbreviation FCB_STATE_HAS_UNICODE_LONG_NAME :: ULONG where "FCB_STATE_HAS_UNICODE_LONG_NAME \<equiv> 0x00000400"
abbreviation FCB_STATE_8_LOWER_CASE :: ULONG where "FCB_STATE_8_LOWER_CASE \<equiv> 0x00001000"
abbreviation FCB_STATE_3_LOWER_CASE :: ULONG where "FCB_STATE_3_LOWER_CASE \<equiv> 0x00002000"

text \<open>The part of an Fcb that names a file. The OEM and the Unicode long name share their place.\<close>

record NAME_FCB =
  FcbState :: ULONG
  FcbCondition :: FCB_CONDITION
  IsDirectory :: bool
  FastIoIsNotPossible :: bool
  FcbShortName :: FILE_NAME_NODE
  FcbLongName :: FILE_NAME_NODE
  ExactCaseLongName :: "USHORT list"
  FinalNameLength :: nat

text \<open>A directory: its two trees, and the Fcbs of its open files by their address.\<close>

record NAME_DCB =
  RootOemNode :: name_tree
  RootUnicodeNode :: name_tree
  Fcbs :: "nat \<Rightarrow> NAME_FCB option"

datatype NAME_TREE = OemTree | UnicodeTree

definition RootNode :: "NAME_TREE \<Rightarrow> NAME_DCB \<Rightarrow> name_tree" where
  "RootNode k D = (case k of OemTree \<Rightarrow> RootOemNode D | UnicodeTree \<Rightarrow> RootUnicodeNode D)"

definition set_RootNode :: "NAME_TREE \<Rightarrow> name_tree \<Rightarrow> NAME_DCB \<Rightarrow> NAME_DCB" where
  "set_RootNode k t D = (case k of OemTree \<Rightarrow> D\<lparr>RootOemNode := t\<rparr> | UnicodeTree \<Rightarrow> D\<lparr>RootUnicodeNode := t\<rparr>)"

definition FlagOn :: "ULONG \<Rightarrow> ULONG \<Rightarrow> bool" where
  "FlagOn Flags SingleFlag \<longleftrightarrow> Flags AND SingleFlag \<noteq> 0"

definition SetFlag :: "ULONG \<Rightarrow> ULONG \<Rightarrow> ULONG" where
  "SetFlag Flags SingleFlag = Flags OR SingleFlag"

definition ClearFlag :: "ULONG \<Rightarrow> ULONG \<Rightarrow> ULONG" where
  "ClearFlag Flags SingleFlag = Flags AND NOT SingleFlag"

section \<open>Operations\<close>

text \<open>FatMarkFcbCondition for \<open>FcbBad\<close> and not recursive, which is how the trees call it.\<close>

definition FatMarkFcbBad :: "bool \<Rightarrow> NAME_DCB \<Rightarrow> nat \<Rightarrow> NAME_DCB" where
  "FatMarkFcbBad RemovableMedia D f =
     (case Fcbs D f of
        None \<Rightarrow> D
      | Some Fcb \<Rightarrow>
          if \<not> RemovableMedia \<and> FlagOn (FcbState Fcb) FCB_STATE_PAGING_FILE
          then D\<lparr>Fcbs := (Fcbs D)(f \<mapsto> Fcb\<lparr>FcbCondition := FcbGood\<rparr>)\<rparr>
          else D\<lparr>Fcbs := (Fcbs D)(f \<mapsto> (if IsDirectory Fcb then Fcb\<lparr>FcbCondition := FcbBad\<rparr>
                                       else Fcb\<lparr>FcbCondition := FcbBad, FastIoIsNotPossible := True\<rparr>))\<rparr>)"

text \<open>\<open>RtlDelete t n\<close> is the tree \<open>t\<close> without the node \<open>n\<close>.\<close>

definition FatRemoveNames :: "(name_tree \<Rightarrow> FILE_NAME_NODE \<Rightarrow> name_tree) \<Rightarrow> NAME_DCB \<Rightarrow> nat \<Rightarrow> NAME_DCB" where
  "FatRemoveNames RtlDelete Parent f =
     (case Fcbs Parent f of
        None \<Rightarrow> Parent
      | Some Fcb \<Rightarrow>
          if FlagOn (FcbState Fcb) FCB_STATE_NAMES_IN_SPLAY_TREE
          then
            (let Parent = Parent\<lparr>RootOemNode := RtlDelete (RootOemNode Parent) (FcbShortName Fcb)\<rparr>;
                 (Parent, Fcb) =
                   (if FlagOn (FcbState Fcb) FCB_STATE_HAS_OEM_LONG_NAME
                    then (Parent\<lparr>RootOemNode := RtlDelete (RootOemNode Parent) (FcbLongName Fcb)\<rparr>,
                          Fcb\<lparr>FcbState := ClearFlag (FcbState Fcb) FCB_STATE_HAS_OEM_LONG_NAME\<rparr>)
                    else (Parent, Fcb));
                 (Parent, Fcb) =
                   (if FlagOn (FcbState Fcb) FCB_STATE_HAS_UNICODE_LONG_NAME
                    then (Parent\<lparr>RootUnicodeNode := RtlDelete (RootUnicodeNode Parent) (FcbLongName Fcb)\<rparr>,
                          Fcb\<lparr>FcbState := ClearFlag (FcbState Fcb) FCB_STATE_HAS_UNICODE_LONG_NAME\<rparr>)
                    else (Parent, Fcb));
                 Fcb = Fcb\<lparr>FcbState := ClearFlag (FcbState Fcb) FCB_STATE_NAMES_IN_SPLAY_TREE\<rparr>
             in Parent\<lparr>Fcbs := (Fcbs Parent)(f \<mapsto> Fcb)\<rparr>)
          else Parent)"

text \<open>
  An insertion starts again after it has removed the names of the file that has the name.
  The state of the Fcb is compared with \<open>FcbGood\<close>, which is 1.
\<close>

partial_function (option) FatInsertName ::
    "bool \<Rightarrow> (name_tree \<Rightarrow> FILE_NAME_NODE \<Rightarrow> name_tree) \<Rightarrow> NAME_TREE \<Rightarrow> NAME_DCB \<Rightarrow> FILE_NAME_NODE \<Rightarrow> (ntstatus + NAME_DCB) option" where
  "FatInsertName RemovableMedia RtlDelete k D Name =
     (case FatInsert_walk (RootNode k D) Name of
        Inr t \<Rightarrow> Some (Inr (set_RootNode k t D))
      | Inl N \<Rightarrow>
          (case Fcbs D (NodeFcb N) of
             None \<Rightarrow> None
           | Some Fcb \<Rightarrow>
               if FcbState Fcb = 1 then Some (Inl (FAT_BUG_CHECK 0 0 0))
               else FatInsertName RemovableMedia RtlDelete k
                      (FatRemoveNames RtlDelete (FatMarkFcbBad RemovableMedia D (NodeFcb N)) (NodeFcb N)) Name))"

text \<open>The tree afterwards, and the file found with whether its short name was.\<close>

definition FatFindFcb :: "(name_tree \<Rightarrow> FILE_NAME_NODE \<Rightarrow> name_tree) \<Rightarrow> name_tree \<Rightarrow> STRING \<Rightarrow> name_tree \<times> (nat \<times> bool) option" where
  "FatFindFcb RtlSplay RootNode' Name =
     (case FatFind_walk RootNode' Name of
        None \<Rightarrow> (RootNode', None)
      | Some N \<Rightarrow> (RtlSplay RootNode' N, Some (NodeFcb N, FileNameDos N)))"

section \<open>Names of an Fcb\<close>

text \<open>A counted string has bytes: one that is empty is compared by a byte it does not have.\<close>

definition to_STRING :: "UCHAR list \<Rightarrow> STRING option" where
  "to_STRING bs = (case bs of [] \<Rightarrow> None | b # bs \<Rightarrow> Some (STRING b bs))"

definition FatUpcaseByHand :: "USHORT \<Rightarrow> UCHAR" where
  "FatUpcaseByHand c = (if c < 0x61 then ucast c else if c \<le> 0x7a then ucast (c - (0x61 - 0x41)) else ucast c)"

definition wchar_bytes :: "USHORT list \<Rightarrow> UCHAR list" where
  "wchar_bytes ws = concat (map le16 ws)"

definition FatFlagCase :: "DIRENT \<Rightarrow> ULONG \<Rightarrow> ULONG" where
  "FatFlagCase Dirent s =
     (let s = (if NtByte Dirent AND FAT_DIRENT_NT_BYTE_8_LOWER_CASE \<noteq> 0 then SetFlag s FCB_STATE_8_LOWER_CASE else ClearFlag s FCB_STATE_8_LOWER_CASE)
      in if NtByte Dirent AND FAT_DIRENT_NT_BYTE_3_LOWER_CASE \<noteq> 0 then SetFlag s FCB_STATE_3_LOWER_CASE else ClearFlag s FCB_STATE_3_LOWER_CASE)"

text \<open>
  The names the Fcb gets, and its trees as the search for the long name leaves them.
  \<open>Monocase\<close> takes a Unicode string to small letters and to capitals again; \<open>OemSize\<close>
  is the size of an OEM string as Unicode.
\<close>

definition FatConstructNames ::
    "bool \<Rightarrow> (UCHAR \<Rightarrow> bool) \<Rightarrow> (name_tree \<Rightarrow> FILE_NAME_NODE \<Rightarrow> name_tree) \<Rightarrow> (USHORT list \<Rightarrow> USHORT list) \<Rightarrow> (UCHAR list \<Rightarrow> nat) \<Rightarrow>
     nat \<Rightarrow> DIRENT \<Rightarrow> USHORT list option \<Rightarrow> NAME_DCB \<Rightarrow> NAME_FCB \<Rightarrow> (NAME_DCB \<times> NAME_FCB) option" where
  "FatConstructNames ChicagoMode lead RtlSplay Monocase OemSize g Dirent Lfn D Fcb =
     (let Short = Fat8dot3ToString ChicagoMode lead Dirent False;
          Fcb = Fcb\<lparr>FcbState := FatFlagCase Dirent (FcbState Fcb)\<rparr>
      in Option.bind (to_STRING Short) (\<lambda>ShortString.
        (let Fcb = Fcb\<lparr>FcbShortName := \<lparr>NodeFcb = g, NodeName = ShortString, FileNameDos = True\<rparr>\<rparr>
         in case Lfn of
              None \<Rightarrow> Some (D, Fcb\<lparr>FinalNameLength := OemSize Short, ExactCaseLongName := []\<rparr>)
            | Some lfn \<Rightarrow>
                if lfn = [] then Some (D, Fcb\<lparr>FinalNameLength := OemSize Short, ExactCaseLongName := []\<rparr>)
                else
                  (let Fcb = Fcb\<lparr>FinalNameLength := 2 * length lfn, ExactCaseLongName := lfn\<rparr>
                   in if list_all (\<lambda>c. \<not> 0x80 \<le> c) lfn
                      then Option.bind (to_STRING (map FatUpcaseByHand lfn)) (\<lambda>LongOemName.
                        if NameBuffer LongOemName = Short then Some (D, Fcb)
                        else (case FatFindFcb RtlSplay (RootOemNode D) LongOemName of
                                (t, Some found) \<Rightarrow> Some (D\<lparr>RootOemNode := t\<rparr>, Fcb)
                              | (t, None) \<Rightarrow>
                                  Some (D\<lparr>RootOemNode := t\<rparr>,
                                        Fcb\<lparr>FcbLongName := \<lparr>NodeFcb = g, NodeName = LongOemName, FileNameDos = False\<rparr>,
                                            FcbState := SetFlag (FcbState Fcb) FCB_STATE_HAS_OEM_LONG_NAME\<rparr>)))
                      else Option.bind (to_STRING (wchar_bytes (Monocase lfn))) (\<lambda>LongUniName.
                        Some (D, Fcb\<lparr>FcbLongName := \<lparr>NodeFcb = g, NodeName = LongUniName, FileNameDos = False\<rparr>,
                                     FcbState := SetFlag (FcbState Fcb) FCB_STATE_HAS_UNICODE_LONG_NAME\<rparr>))))))"

definition result_bind :: "(ntstatus + 'a) option \<Rightarrow> ('a \<Rightarrow> (ntstatus + 'b) option) \<Rightarrow> (ntstatus + 'b) option" where
  "result_bind m k = (case m of None \<Rightarrow> None | Some (Inl e) \<Rightarrow> Some (Inl e) | Some (Inr x) \<Rightarrow> k x)"

text \<open>The finally block adds the names to the trees.\<close>

definition FatConstructNamesInFcb ::
    "bool \<Rightarrow> (name_tree \<Rightarrow> FILE_NAME_NODE \<Rightarrow> name_tree) \<Rightarrow> (name_tree \<Rightarrow> FILE_NAME_NODE \<Rightarrow> name_tree) \<Rightarrow> bool \<Rightarrow> (UCHAR \<Rightarrow> bool) \<Rightarrow>
     (USHORT list \<Rightarrow> USHORT list) \<Rightarrow> (UCHAR list \<Rightarrow> nat) \<Rightarrow> nat \<Rightarrow> DIRENT \<Rightarrow> USHORT list option \<Rightarrow> NAME_DCB \<Rightarrow> (ntstatus + NAME_DCB) option" where
  "FatConstructNamesInFcb RemovableMedia RtlDelete RtlSplay ChicagoMode lead Monocase OemSize g Dirent Lfn D =
     Option.bind (Fcbs D g) (\<lambda>Fcb.
     Option.bind (FatConstructNames ChicagoMode lead RtlSplay Monocase OemSize g Dirent Lfn D Fcb) (\<lambda>(D, Fcb).
       result_bind (FatInsertName RemovableMedia RtlDelete OemTree (D\<lparr>Fcbs := (Fcbs D)(g \<mapsto> Fcb)\<rparr>) (FcbShortName Fcb)) (\<lambda>D.
       result_bind (if FlagOn (FcbState Fcb) FCB_STATE_HAS_OEM_LONG_NAME
                    then FatInsertName RemovableMedia RtlDelete OemTree D (FcbLongName Fcb) else Some (Inr D)) (\<lambda>D.
       result_bind (if FlagOn (FcbState Fcb) FCB_STATE_HAS_UNICODE_LONG_NAME
                    then FatInsertName RemovableMedia RtlDelete UnicodeTree D (FcbLongName Fcb) else Some (Inr D)) (\<lambda>D.
       Option.bind (Fcbs D g) (\<lambda>Fcb.
         Some (Inr (D\<lparr>Fcbs := (Fcbs D)(g \<mapsto> Fcb\<lparr>FcbState := SetFlag (FcbState Fcb) FCB_STATE_NAMES_IN_SPLAY_TREE\<rparr>)\<rparr>))))))))"

end
