(* ===== verification/FatNameTable.thy ===== *)
theory FatNameTable
  imports FatSplay
begin

unbundle bit_operations_syntax

text \<open>
  The trees of a directory as two finite maps from names to files: the invariant that ties the
  trees to the flags of the Fcbs, what each operation does to the maps, and that an insertion
  always ends.
\<close>

section \<open>Flags\<close>

lemma FlagOn_SetFlag: "FlagOn (SetFlag s a) b \<longleftrightarrow> FlagOn s b \<or> a AND b \<noteq> 0"
  by (simp add: FlagOn_def SetFlag_def bit.conj_disj_distrib2 or_eq_0_iff)

lemma FlagOn_ClearFlag: "a AND b = 0 \<Longrightarrow> FlagOn (ClearFlag s a) b \<longleftrightarrow> FlagOn s b" "\<not> FlagOn (ClearFlag s a) a"
proof -
  have "(s AND NOT a) AND b = s AND b" if "a AND b = 0"
  proof (rule bit_word_eqI)
    fix n assume "n < LENGTH(32)"
    have "bit (a AND b) n = False" using that by simp
    then show "bit ((s AND NOT a) AND b) n = bit (s AND b) n" using \<open>n < LENGTH(32)\<close> by (auto simp: bit_simps)
  qed
  then show "a AND b = 0 \<Longrightarrow> FlagOn (ClearFlag s a) b \<longleftrightarrow> FlagOn s b" by (simp add: FlagOn_def ClearFlag_def)
  have "(s AND NOT a) AND a = 0" by (rule bit_word_eqI) (simp add: bit_simps)
  then show "\<not> FlagOn (ClearFlag s a) a" by (simp add: FlagOn_def ClearFlag_def)
qed

lemma FlagOn_FatFlagCase:
  "b AND FCB_STATE_8_LOWER_CASE = 0 \<Longrightarrow> b AND FCB_STATE_3_LOWER_CASE = 0 \<Longrightarrow> FlagOn (FatFlagCase d s) b \<longleftrightarrow> FlagOn s b"
  by (simp add: FatFlagCase_def Let_def FlagOn_SetFlag FlagOn_ClearFlag and.commute)

section \<open>Trees and maps\<close>

text \<open>What the calls of the run-time library promise.\<close>

definition delete_ok :: "(name_tree \<Rightarrow> FILE_NAME_NODE \<Rightarrow> name_tree) \<Rightarrow> bool" where
  "delete_ok RtlDelete \<longleftrightarrow> (\<forall>t n. n \<in> set_tree t \<longrightarrow> inorder (RtlDelete t n) = remove1 n (inorder t))"

definition splay_ok :: "(name_tree \<Rightarrow> FILE_NAME_NODE \<Rightarrow> name_tree) \<Rightarrow> bool" where
  "splay_ok RtlSplay \<longleftrightarrow> (\<forall>t n. n \<in> set_tree t \<longrightarrow> inorder (RtlSplay t n) = inorder t)"

lemma distinct_nodes: "sorted_wrt (\<lambda>a b. NodeName a < NodeName b) xs \<Longrightarrow> distinct (map NodeName xs)"
  by (induction xs) (auto simp: image_iff dest: less_imp_neq)

lemma names_ok_nodes: "names_ok t \<longleftrightarrow> sorted_wrt (\<lambda>a b. NodeName a < NodeName b) (inorder t)"
  by (simp add: names_ok_inorder sorted_wrt_map)

lemma names_iff: "names_ok t \<Longrightarrow> names t k = Some n \<longleftrightarrow> n \<in> set_tree t \<and> NodeName n = k"
proof -
  assume "names_ok t"
  then have "distinct (map fst (map (\<lambda>n. (NodeName n, n)) (inorder t)))"
    using distinct_nodes by (simp add: names_ok_nodes comp_def)
  then have "names t k = Some n \<longleftrightarrow> (k, n) \<in> set (map (\<lambda>n. (NodeName n, n)) (inorder t))"
    unfolding names_def by (rule map_of_eq_Some_iff)
  then show ?thesis by (auto simp: set_inorder)
qed

definition without :: "nat set \<Rightarrow> (STRING \<Rightarrow> FILE_NAME_NODE option) \<Rightarrow> STRING \<Rightarrow> FILE_NAME_NODE option" where
  "without F m k = (case m k of None \<Rightarrow> None | Some n \<Rightarrow> if NodeFcb n \<in> F then None else Some n)"

lemma without_empty [simp]: "without {} m = m"
  by (auto simp: without_def fun_eq_iff split: option.splits)

lemma names_without:
  assumes "names_ok t" "names_ok t'" "set_tree t' = {n \<in> set_tree t. NodeFcb n \<noteq> f}"
  shows "names t' = without {f} (names t)"
proof
  fix k
  have 1: "names t' k = Some n \<longleftrightarrow> names t k = Some n \<and> NodeFcb n \<noteq> f" for n
    using assms(3) names_iff[OF assms(1), of k n] names_iff[OF assms(2), of k n] by auto
  show "names t' k = without {f} (names t) k"
  proof (cases "names t' k")
    case None
    then have "NodeFcb n = f" if "names t k = Some n" for n using 1[of n] that by simp
    then show ?thesis using None by (cases "names t k") (simp_all add: without_def)
  next
    case (Some m)
    then show ?thesis using 1[of m] by (simp add: without_def)
  qed
qed

lemma sorted_wrt_remove1: "sorted_wrt P xs \<Longrightarrow> sorted_wrt P (remove1 x xs)"
proof (induction xs)
  case (Cons a xs)
  then show ?case using set_remove1_subset[of x xs] by (simp add: subset_iff)
qed simp

lemma delete_tree:
  assumes d: "delete_ok RtlDelete" and t: "names_ok t" "n \<in> set_tree t"
  shows "names_ok (RtlDelete t n)" "set_tree (RtlDelete t n) = set_tree t - {n}"
proof -
  have i: "inorder (RtlDelete t n) = remove1 n (inorder t)" using d t(2) by (simp add: delete_ok_def)
  show "names_ok (RtlDelete t n)" using t(1) unfolding names_ok_nodes i by (rule sorted_wrt_remove1)
  have "distinct (inorder t)" using t(1) distinct_nodes distinct_map unfolding names_ok_nodes by blast
  then show "set_tree (RtlDelete t n) = set_tree t - {n}" using i by (metis set_inorder set_remove1_eq)
qed

section \<open>The invariant\<close>

text \<open>
  The nodes an Fcb has in each tree. The trees hold the nodes of the Fcbs whose flag says so,
  and the nodes \<open>G\<close> of the Fcb whose names are being put in.
\<close>

definition nodes :: "NAME_TREE \<Rightarrow> NAME_FCB \<Rightarrow> FILE_NAME_NODE set" where
  "nodes k Fcb = (case k of
       OemTree \<Rightarrow> insert (FcbShortName Fcb) (if FlagOn (FcbState Fcb) FCB_STATE_HAS_OEM_LONG_NAME then {FcbLongName Fcb} else {})
     | UnicodeTree \<Rightarrow> if FlagOn (FcbState Fcb) FCB_STATE_HAS_UNICODE_LONG_NAME then {FcbLongName Fcb} else {})"

definition listed :: "NAME_FCB \<Rightarrow> bool" where
  "listed Fcb \<longleftrightarrow> FlagOn (FcbState Fcb) FCB_STATE_NAMES_IN_SPLAY_TREE"

definition fcb_ok :: "nat \<Rightarrow> NAME_FCB \<Rightarrow> bool" where
  "fcb_ok f Fcb \<longleftrightarrow> (\<forall>k. \<forall>n\<in>nodes k Fcb. NodeFcb n = f) \<and>
     (FlagOn (FcbState Fcb) FCB_STATE_HAS_OEM_LONG_NAME \<longrightarrow> FcbShortName Fcb \<noteq> FcbLongName Fcb)"

definition listed_nodes :: "NAME_TREE \<Rightarrow> NAME_DCB \<Rightarrow> FILE_NAME_NODE set" where
  "listed_nodes k D = {n. \<exists>Fcb. Fcbs D (NodeFcb n) = Some Fcb \<and> listed Fcb \<and> n \<in> nodes k Fcb}"

definition table_ok :: "(NAME_TREE \<Rightarrow> FILE_NAME_NODE set) \<Rightarrow> NAME_DCB \<Rightarrow> bool" where
  "table_ok G D \<longleftrightarrow>
     (\<forall>k. names_ok (RootNode k D) \<and> set_tree (RootNode k D) = listed_nodes k D \<union> G k) \<and>
     (\<forall>k. \<forall>n\<in>G k. \<exists>Fcb. Fcbs D (NodeFcb n) = Some Fcb \<and> \<not> listed Fcb) \<and>
     (\<forall>f Fcb. Fcbs D f = Some Fcb \<longrightarrow> listed Fcb \<longrightarrow> fcb_ok f Fcb)"

lemma table_okD:
  assumes "table_ok G D"
  shows "names_ok (RootNode k D)" "set_tree (RootNode k D) = listed_nodes k D \<union> G k"
    "n \<in> G k \<Longrightarrow> \<exists>Fcb. Fcbs D (NodeFcb n) = Some Fcb \<and> \<not> listed Fcb"
    "Fcbs D f = Some Fcb \<Longrightarrow> listed Fcb \<Longrightarrow> fcb_ok f Fcb"
  using assms unfolding table_ok_def by blast+

lemma own_nodes:
  assumes ok: "table_ok G D" and F: "Fcbs D f = Some Fcb" "listed Fcb"
  shows "{n \<in> set_tree (RootNode k D). NodeFcb n = f} = nodes k Fcb"
proof -
  have "n \<notin> G k" if "NodeFcb n = f" for n using table_okD(3)[OF ok, of n k] F that by auto
  moreover have "NodeFcb n = f" if "n \<in> nodes k Fcb" for n using table_okD(4)[OF ok F] that unfolding fcb_ok_def by blast
  ultimately have "n \<in> listed_nodes k D \<union> G k \<and> NodeFcb n = f \<longleftrightarrow> n \<in> nodes k Fcb" for n
    using F by (cases "NodeFcb n = f") (auto simp: listed_nodes_def)
  then show ?thesis unfolding table_okD(2)[OF ok] by blast
qed

text \<open>A change of an Fcb that its names do not see.\<close>

definition name_view :: "NAME_FCB \<Rightarrow> ULONG \<times> FILE_NAME_NODE \<times> FILE_NAME_NODE" where
  "name_view Fcb = (FcbState Fcb, FcbShortName Fcb, FcbLongName Fcb)"

lemma name_view_cong:
  "name_view F = name_view F' \<Longrightarrow> nodes k F = nodes k F' \<and> listed F = listed F' \<and> (fcb_ok f F \<longleftrightarrow> fcb_ok f F')"
proof -
  assume "name_view F = name_view F'"
  then have e: "FcbState F = FcbState F'" "FcbShortName F = FcbShortName F'" "FcbLongName F = FcbLongName F'"
    by (simp_all add: name_view_def)
  show ?thesis unfolding nodes_def listed_def fcb_ok_def e by simp
qed

lemma table_ok_cong:
  assumes ok: "table_ok G D" and t: "\<And>k. RootNode k D' = RootNode k D"
    and v: "\<And>f. map_option name_view (Fcbs D' f) = map_option name_view (Fcbs D f)"
  shows "table_ok G D'"
proof -
  have e: "(\<exists>F. Fcbs D' f = Some F \<and> P F) \<longleftrightarrow> (\<exists>F. Fcbs D f = Some F \<and> P F)"
    if P: "\<And>F F'. name_view F = name_view F' \<Longrightarrow> P F = P F'" for f P
  proof (cases "Fcbs D f")
    case None
    then show ?thesis using v[of f] by simp
  next
    case (Some F)
    then obtain F' where "Fcbs D' f = Some F'" "name_view F' = name_view F" using v[of f] by auto
    then show ?thesis using Some P[of F' F] by simp
  qed
  have l: "listed_nodes k D' = listed_nodes k D" for k
    unfolding listed_nodes_def by (intro Collect_cong e) (use name_view_cong in blast)
  have g: "\<exists>F'. Fcbs D' (NodeFcb n) = Some F' \<and> \<not> listed F'" if "n \<in> G k" for n k
    using table_okD(3)[OF ok that] by (subst e) (use name_view_cong in blast)+
  have o: "fcb_ok f F'" if F': "Fcbs D' f = Some F'" "listed F'" for f F'
  proof -
    obtain F where F: "Fcbs D f = Some F" "name_view F' = name_view F" using v[of f] F'(1) by (cases "Fcbs D f") auto
    then show ?thesis using table_okD(4)[OF ok F(1)] F'(2) name_view_cong[OF F(2)] by blast
  qed
  show ?thesis unfolding table_ok_def t l using table_okD(1,2)[OF ok] g o by blast
qed

section \<open>Removing names\<close>

lemma FatMarkFcbBad_outcome:
  assumes "Fcbs D f = Some Fcb"
  obtains Fcb' where "FatMarkFcbBad RemovableMedia D f = D\<lparr>Fcbs := (Fcbs D)(f \<mapsto> Fcb')\<rparr>" "name_view Fcb' = name_view Fcb"
    "FcbCondition Fcb' = (if \<not> RemovableMedia \<and> FlagOn (FcbState Fcb) FCB_STATE_PAGING_FILE then FcbGood else FcbBad)"
  by (rule that[of "if \<not> RemovableMedia \<and> FlagOn (FcbState Fcb) FCB_STATE_PAGING_FILE then Fcb\<lparr>FcbCondition := FcbGood\<rparr>
      else if IsDirectory Fcb then Fcb\<lparr>FcbCondition := FcbBad\<rparr> else Fcb\<lparr>FcbCondition := FcbBad, FastIoIsNotPossible := True\<rparr>"])
    (simp_all add: FatMarkFcbBad_def assms name_view_def)

lemma RootNode_simps [simp]:
  "RootNode k (D\<lparr>Fcbs := F\<rparr>) = RootNode k D" "RootNode k (set_RootNode k t D) = t"
  "k' \<noteq> k \<Longrightarrow> RootNode k' (set_RootNode k t D) = RootNode k' D" "Fcbs (set_RootNode k t D) = Fcbs D"
  by (cases k; cases k'; simp add: RootNode_def set_RootNode_def)+

text \<open>The node of a tree that goes, and what FatRemoveNames leaves of the trees.\<close>

lemma FatRemoveNames_form:
  assumes f: "Fcbs D f = Some Fcb" and l: "listed Fcb"
  obtains s where "\<not> FlagOn s FCB_STATE_NAMES_IN_SPLAY_TREE" "\<not> FlagOn s FCB_STATE_HAS_OEM_LONG_NAME" "\<not> FlagOn s FCB_STATE_HAS_UNICODE_LONG_NAME"
    "Fcbs (FatRemoveNames RtlDelete D f) = (Fcbs D)(f \<mapsto> Fcb\<lparr>FcbState := s\<rparr>)"
    "RootNode OemTree (FatRemoveNames RtlDelete D f) =
       (let t = RtlDelete (RootNode OemTree D) (FcbShortName Fcb)
        in if FlagOn (FcbState Fcb) FCB_STATE_HAS_OEM_LONG_NAME then RtlDelete t (FcbLongName Fcb) else t)"
    "RootNode UnicodeTree (FatRemoveNames RtlDelete D f) =
       (if FlagOn (FcbState Fcb) FCB_STATE_HAS_UNICODE_LONG_NAME then RtlDelete (RootNode UnicodeTree D) (FcbLongName Fcb)
        else RootNode UnicodeTree D)"
proof -
  let ?o = "FlagOn (FcbState Fcb) FCB_STATE_HAS_OEM_LONG_NAME"
  let ?u = "FlagOn (FcbState Fcb) FCB_STATE_HAS_UNICODE_LONG_NAME"
  define s1 where "s1 = (if ?o then ClearFlag (FcbState Fcb) FCB_STATE_HAS_OEM_LONG_NAME else FcbState Fcb)"
  define s2 where "s2 = (if ?u then ClearFlag s1 FCB_STATE_HAS_UNICODE_LONG_NAME else s1)"
  define s where "s = ClearFlag s2 FCB_STATE_NAMES_IN_SPLAY_TREE"
  have u: "FlagOn s1 FCB_STATE_HAS_UNICODE_LONG_NAME = ?u" by (simp add: s1_def FlagOn_ClearFlag)
  have o: "\<not> FlagOn s1 FCB_STATE_HAS_OEM_LONG_NAME" by (simp add: s1_def FlagOn_ClearFlag)
  have n: "\<not> FlagOn s FCB_STATE_NAMES_IN_SPLAY_TREE" "\<not> FlagOn s FCB_STATE_HAS_OEM_LONG_NAME" "\<not> FlagOn s FCB_STATE_HAS_UNICODE_LONG_NAME"
    using o u by (simp_all add: s_def s2_def FlagOn_ClearFlag)
  have "FatRemoveNames RtlDelete D f =
      D\<lparr>RootOemNode := (let t = RtlDelete (RootOemNode D) (FcbShortName Fcb) in if ?o then RtlDelete t (FcbLongName Fcb) else t),
        RootUnicodeNode := (if ?u then RtlDelete (RootUnicodeNode D) (FcbLongName Fcb) else RootUnicodeNode D),
        Fcbs := (Fcbs D)(f \<mapsto> Fcb\<lparr>FcbState := s\<rparr>)\<rparr>"
    using f l[unfolded listed_def]
    by (cases ?o; cases ?u) (simp_all add: FatRemoveNames_def Let_def s_def s2_def s1_def FlagOn_ClearFlag)
  then show ?thesis using that n by (simp add: RootNode_def)
qed

lemma FatRemoveNames_trees:
  assumes ok: "table_ok G D" and d: "delete_ok RtlDelete" and f: "Fcbs D f = Some Fcb" and l: "listed Fcb"
  shows "names_ok (RootNode k (FatRemoveNames RtlDelete D f)) \<and>
    set_tree (RootNode k (FatRemoveNames RtlDelete D f)) = {n \<in> set_tree (RootNode k D). NodeFcb n \<noteq> f}"
proof -
  let ?t = "RootNode k D"
  note own = own_nodes[OF ok f l, of k]
  obtain s where t1: "RootNode OemTree (FatRemoveNames RtlDelete D f) =
       (let t = RtlDelete (RootNode OemTree D) (FcbShortName Fcb)
        in if FlagOn (FcbState Fcb) FCB_STATE_HAS_OEM_LONG_NAME then RtlDelete t (FcbLongName Fcb) else t)"
    and t2: "RootNode UnicodeTree (FatRemoveNames RtlDelete D f) =
       (if FlagOn (FcbState Fcb) FCB_STATE_HAS_UNICODE_LONG_NAME then RtlDelete (RootNode UnicodeTree D) (FcbLongName Fcb)
        else RootNode UnicodeTree D)"
    by (rule FatRemoveNames_form[OF f l])
  have nok: "names_ok ?t" by (rule table_okD(1)[OF ok])
  have rest: "{n \<in> set_tree ?t. NodeFcb n \<noteq> f} = set_tree ?t - nodes k Fcb" using own by blast
  have sub: "nodes k Fcb \<subseteq> set_tree ?t" using own by blast
  show ?thesis
  proof (cases k)
    case OemTree
    have "FcbShortName Fcb \<in> set_tree ?t" using sub OemTree by (simp add: nodes_def)
    note del = delete_tree[OF d nok this]
    show ?thesis
    proof (cases "FlagOn (FcbState Fcb) FCB_STATE_HAS_OEM_LONG_NAME")
      case True
      have "FcbLongName Fcb \<in> set_tree (RtlDelete ?t (FcbShortName Fcb))"
        using del(2) sub OemTree True table_okD(4)[OF ok f l] by (auto simp: nodes_def fcb_ok_def)
      from delete_tree[OF d del(1) this] show ?thesis
        unfolding rest using OemTree True t1 del(2) by (auto simp: nodes_def Let_def)
    next
      case False
      then show ?thesis unfolding rest using OemTree t1 del by (simp add: nodes_def)
    qed
  next
    case UnicodeTree
    show ?thesis
    proof (cases "FlagOn (FcbState Fcb) FCB_STATE_HAS_UNICODE_LONG_NAME")
      case True
      have "FcbLongName Fcb \<in> set_tree ?t" using sub UnicodeTree True by (simp add: nodes_def)
      from delete_tree[OF d nok this] show ?thesis unfolding rest using UnicodeTree True t2 by (simp add: nodes_def)
    next
      case False
      then show ?thesis unfolding rest using UnicodeTree t2 nok by (simp add: nodes_def)
    qed
  qed
qed

lemma FatRemoveNames_outcome:
  assumes ok: "table_ok G D" and d: "delete_ok RtlDelete" and f: "Fcbs D f = Some Fcb" and l: "listed Fcb"
  defines "D' \<equiv> FatRemoveNames RtlDelete D f"
  shows "table_ok G D'" "names (RootNode k D') = without {f} (names (RootNode k D))"
    "\<exists>Fcb'. Fcbs D' = (Fcbs D)(f \<mapsto> Fcb') \<and> \<not> listed Fcb' \<and> FcbCondition Fcb' = FcbCondition Fcb"
proof -
  note tr = FatRemoveNames_trees[OF ok d f l, folded D'_def]
  obtain s where s: "\<not> FlagOn s FCB_STATE_NAMES_IN_SPLAY_TREE" "Fcbs D' = (Fcbs D)(f \<mapsto> Fcb\<lparr>FcbState := s\<rparr>)"
    unfolding D'_def by (rule FatRemoveNames_form[OF f l])
  have nl: "\<not> listed (Fcb\<lparr>FcbState := s\<rparr>)" using s(1) by (simp add: listed_def)
  show "\<exists>Fcb'. Fcbs D' = (Fcbs D)(f \<mapsto> Fcb') \<and> \<not> listed Fcb' \<and> FcbCondition Fcb' = FcbCondition Fcb"
    using s(2) nl by (intro exI[of _ "Fcb\<lparr>FcbState := s\<rparr>"]) simp
  have t: "names_ok (RootNode k D')" "set_tree (RootNode k D') = {n \<in> set_tree (RootNode k D). NodeFcb n \<noteq> f}" for k
    using tr[of k] by blast+
  show "names (RootNode k D') = without {f} (names (RootNode k D))"
    by (rule names_without[OF table_okD(1)[OF ok] t])
  have ln: "listed_nodes k D' = {n \<in> listed_nodes k D. NodeFcb n \<noteq> f}" for k
    using nl by (auto simp: listed_nodes_def s(2))
  have g: "NodeFcb n \<noteq> f" if "n \<in> G k" for n k using table_okD(3)[OF ok that] f l by auto
  have "set_tree (RootNode k D') = listed_nodes k D' \<union> G k" for k
    unfolding t(2) ln table_okD(2)[OF ok] using g by blast
  moreover have "\<exists>F. Fcbs D' (NodeFcb n) = Some F \<and> \<not> listed F" if "n \<in> G k" for n k
    using table_okD(3)[OF ok that] g[OF that] by (simp add: s(2))
  moreover have "fcb_ok f' F" if "Fcbs D' f' = Some F" "listed F" for f' F
    using table_okD(4)[OF ok, of f' F] that nl by (simp add: s(2) split: if_splits)
  ultimately show "table_ok G D'" unfolding table_ok_def using t(1) by blast
qed

section \<open>Inserting a name\<close>

text \<open>A name that is new is added to the nodes of the Fcb under construction.\<close>

lemma insert_new:
  assumes ok: "table_ok G D" and N: "Fcbs D (NodeFcb N) = Some Fcb" "\<not> listed Fcb"
    and new: "names (RootNode k D) (NodeName N) = None"
  obtains t where "FatInsert_walk (RootNode k D) N = Inr t" "table_ok (G(k := insert N (G k))) (set_RootNode k t D)"
    "names t = (names (RootNode k D))(NodeName N \<mapsto> N)"
proof -
  obtain t where t: "FatInsert_walk (RootNode k D) N = Inr t" "names_ok t" "names t = (names (RootNode k D))(NodeName N \<mapsto> N)"
    using FatInsert_walk_new[OF table_okD(1)[OF ok] new] by blast
  have s: "set_tree t = insert N (set_tree (RootNode k D))" by (rule set_names[OF t(1)])
  let ?D = "set_RootNode k t D" and ?G = "G(k := insert N (G k))"
  have l: "listed_nodes k' ?D = listed_nodes k' D" for k' by (simp add: listed_nodes_def)
  have "names_ok (RootNode k' ?D) \<and> set_tree (RootNode k' ?D) = listed_nodes k' ?D \<union> ?G k'" for k'
    unfolding l using table_okD(1,2)[OF ok, of k'] t(2) s by (cases "k' = k") auto
  moreover have "\<exists>F. Fcbs ?D (NodeFcb n) = Some F \<and> \<not> listed F" if "n \<in> ?G k'" for n k'
    using table_okD(3)[OF ok, of n k'] that N by (auto split: if_splits)
  moreover have "\<forall>f F. Fcbs ?D f = Some F \<longrightarrow> listed F \<longrightarrow> fcb_ok f F" using table_okD(4)[OF ok] by simp
  ultimately have "table_ok ?G ?D" unfolding table_ok_def by blast
  then show ?thesis using that t(1,3) by blast
qed

text \<open>
  The abstract table: a map for each tree. An insertion takes the file that has the name out
  of both maps, and then enters the name.
\<close>

definition owner :: "NAME_TREE \<Rightarrow> FILE_NAME_NODE \<Rightarrow> (NAME_TREE \<Rightarrow> STRING \<Rightarrow> FILE_NAME_NODE option) \<Rightarrow> nat set" where
  "owner k N m = (case m k (NodeName N) of None \<Rightarrow> {} | Some n \<Rightarrow> {NodeFcb n})"

definition name_maps :: "NAME_DCB \<Rightarrow> NAME_TREE \<Rightarrow> STRING \<Rightarrow> FILE_NAME_NODE option" where
  "name_maps D = (\<lambda>k. names (RootNode k D))"

definition insert_name :: "NAME_TREE \<Rightarrow> FILE_NAME_NODE \<Rightarrow> (NAME_TREE \<Rightarrow> STRING \<Rightarrow> FILE_NAME_NODE option) \<Rightarrow>
    NAME_TREE \<Rightarrow> STRING \<Rightarrow> FILE_NAME_NODE option" where
  "insert_name k N m = (\<lambda>k'. if k' = k then (without (owner k N m) (m k))(NodeName N \<mapsto> N) else without (owner k N m) (m k'))"

lemma owner_listed:
  assumes ok: "table_ok G D" and G: "\<And>n. n \<in> G k \<Longrightarrow> NodeName n \<noteq> NodeName N"
    and m: "names (RootNode k D) (NodeName N) = Some m"
  obtains Fcb where "Fcbs D (NodeFcb m) = Some Fcb" "listed Fcb" "FcbState Fcb \<noteq> 1"
proof -
  have "m \<in> set_tree (RootNode k D)" "NodeName m = NodeName N" using m names_iff[OF table_okD(1)[OF ok]] by blast+
  then have "m \<in> listed_nodes k D" using G[of m] table_okD(2)[OF ok] by auto
  then obtain Fcb where F: "Fcbs D (NodeFcb m) = Some Fcb" "listed Fcb" by (auto simp: listed_nodes_def)
  then have "FcbState Fcb \<noteq> 1" by (auto simp: listed_def FlagOn_def)
  then show ?thesis using that F by blast
qed

lemma table_ok_mark:
  assumes ok: "table_ok G D" and f: "Fcbs D f = Some Fcb" and v: "name_view Fcb' = name_view Fcb"
  shows "table_ok G (D\<lparr>Fcbs := (Fcbs D)(f \<mapsto> Fcb')\<rparr>)"
  by (rule table_ok_cong[OF ok]) (simp_all add: f v)

definition released :: "bool \<Rightarrow> NAME_DCB \<Rightarrow> NAME_DCB \<Rightarrow> nat \<Rightarrow> bool" where
  "released RemovableMedia D D' f \<longleftrightarrow> (\<exists>F F'. Fcbs D f = Some F \<and> listed F \<and> Fcbs D' f = Some F' \<and> \<not> listed F' \<and>
     FcbCondition F' = (if \<not> RemovableMedia \<and> FlagOn (FcbState F) FCB_STATE_PAGING_FILE then FcbGood else FcbBad))"

lemma FatInsertName_outcome:
  assumes ok: "table_ok G D" and d: "delete_ok RtlDelete" and N: "Fcbs D (NodeFcb N) = Some Fg" "\<not> listed Fg"
    and G: "\<And>n. n \<in> G k \<Longrightarrow> NodeName n \<noteq> NodeName N"
  obtains D' where "FatInsertName RemovableMedia RtlDelete k D N = Some (Inr D')" "table_ok (G(k := insert N (G k))) D'"
    "name_maps D' = insert_name k N (name_maps D)"
    "\<And>f. f \<notin> owner k N (name_maps D) \<Longrightarrow> Fcbs D' f = Fcbs D f"
    "\<And>f. f \<in> owner k N (name_maps D) \<Longrightarrow> released RemovableMedia D D' f"
proof (cases "names (RootNode k D) (NodeName N)")
  case None
  obtain t where t: "FatInsert_walk (RootNode k D) N = Inr t" "table_ok (G(k := insert N (G k))) (set_RootNode k t D)"
      "names t = (names (RootNode k D))(NodeName N \<mapsto> N)"
    by (rule insert_new[OF ok N None])
  have o: "owner k N (name_maps D) = {}" using None by (simp add: owner_def name_maps_def)
  have "FatInsertName RemovableMedia RtlDelete k D N = Some (Inr (set_RootNode k t D))"
    by (subst FatInsertName.simps) (simp add: t(1))
  moreover have "name_maps (set_RootNode k t D) = insert_name k N (name_maps D)"
    using t(3) unfolding insert_name_def o by (auto simp: name_maps_def fun_eq_iff)
  ultimately show ?thesis using that t(2) o by simp
next
  case (Some m)
  define f where "f = NodeFcb m"
  obtain F where F: "Fcbs D f = Some F" "listed F" "FcbState F \<noteq> 1"
    using owner_listed[OF ok G Some] unfolding f_def by blast
  obtain F1 where F1: "FatMarkFcbBad RemovableMedia D f = D\<lparr>Fcbs := (Fcbs D)(f \<mapsto> F1)\<rparr>" "name_view F1 = name_view F"
    "FcbCondition F1 = (if \<not> RemovableMedia \<and> FlagOn (FcbState F) FCB_STATE_PAGING_FILE then FcbGood else FcbBad)"
    by (rule FatMarkFcbBad_outcome[where Fcb = F, OF F(1)])
  define D1 where "D1 = D\<lparr>Fcbs := (Fcbs D)(f \<mapsto> F1)\<rparr>"
  have ok1: "table_ok G D1" unfolding D1_def by (rule table_ok_mark[OF ok F(1) F1(2)])
  have f1: "Fcbs D1 f = Some F1" "listed F1" using F(2) name_view_cong[OF F1(2)] by (simp_all add: D1_def)
  define D2 where "D2 = FatRemoveNames RtlDelete D1 f"
  note rem = FatRemoveNames_outcome[OF ok1 d f1, folded D2_def]
  obtain F2 where F2: "Fcbs D2 = (Fcbs D1)(f \<mapsto> F2)" "\<not> listed F2" "FcbCondition F2 = FcbCondition F1" using rem(3) by blast
  have n2: "names (RootNode k' D2) = without {f} (names (RootNode k' D))" for k' using rem(2) by (simp add: D1_def)
  have "NodeFcb N \<noteq> f" using N F by auto
  then have N2: "Fcbs D2 (NodeFcb N) = Some Fg" by (simp add: F2(1) D1_def N(1))
  have "names (RootNode k D2) (NodeName N) = None" by (simp add: n2 without_def Some f_def)
  from insert_new[OF rem(1) N2 N(2) this] obtain t where
    t: "FatInsert_walk (RootNode k D2) N = Inr t" "table_ok (G(k := insert N (G k))) (set_RootNode k t D2)"
      "names t = (names (RootNode k D2))(NodeName N \<mapsto> N)" .
  have o: "owner k N (name_maps D) = {f}" using Some by (simp add: owner_def name_maps_def f_def)
  have "FatInsert_walk (RootNode k D) N = Inl m" by (rule FatInsert_walk_old[OF table_okD(1)[OF ok] Some])
  then have "FatInsertName RemovableMedia RtlDelete k D N = FatInsertName RemovableMedia RtlDelete k D2 N"
    by (subst FatInsertName.simps) (simp add: F f_def[symmetric] F1(1) D2_def D1_def)
  also have "\<dots> = Some (Inr (set_RootNode k t D2))" by (subst FatInsertName.simps) (simp add: t(1))
  finally have r: "FatInsertName RemovableMedia RtlDelete k D N = Some (Inr (set_RootNode k t D2))" .
  have nm: "name_maps (set_RootNode k t D2) = insert_name k N (name_maps D)"
    using t(3) unfolding insert_name_def o by (auto simp: name_maps_def fun_eq_iff n2)
  show ?thesis
  proof (rule that[OF r t(2) nm])
    show "Fcbs (set_RootNode k t D2) f' = Fcbs D f'" if "f' \<notin> owner k N (name_maps D)" for f'
      using that by (simp add: o F2(1) D1_def)
    show "released RemovableMedia D (set_RootNode k t D2) f'" if "f' \<in> owner k N (name_maps D)" for f'
      using that F F2 F1(3) by (simp add: o released_def)
  qed
qed

section \<open>Searching\<close>

lemma splay_tree:
  assumes s: "splay_ok RtlSplay" and t: "names_ok t"
  shows "names_ok (fst (FatFindFcb RtlSplay t x))" "set_tree (fst (FatFindFcb RtlSplay t x)) = set_tree t"
    "names (fst (FatFindFcb RtlSplay t x)) = names t"
    "snd (FatFindFcb RtlSplay t x) = map_option (\<lambda>n. (NodeFcb n, FileNameDos n)) (names t x)"
proof -
  have i: "inorder (fst (FatFindFcb RtlSplay t x)) = inorder t"
  proof (cases "names t x")
    case None
    then show ?thesis by (simp add: FatFindFcb_def FatFind_walk_names[OF t])
  next
    case (Some n)
    then have "n \<in> set_tree t" using names_iff[OF t] by blast
    then show ?thesis using s Some by (simp add: FatFindFcb_def FatFind_walk_names[OF t] splay_ok_def)
  qed
  show "names_ok (fst (FatFindFcb RtlSplay t x))" using t by (simp add: names_ok_nodes i)
  show "set_tree (fst (FatFindFcb RtlSplay t x)) = set_tree t" using i by (metis set_inorder)
  show "names (fst (FatFindFcb RtlSplay t x)) = names t" by (simp add: names_def i)
  show "snd (FatFindFcb RtlSplay t x) = map_option (\<lambda>n. (NodeFcb n, FileNameDos n)) (names t x)"
    by (simp add: FatFindFcb_def FatFind_walk_names[OF t] split: option.splits)
qed

section \<open>The refinement\<close>

text \<open>
  C5: The two trees of a directory implement two finite maps from names to files. While the
  names of a file are being entered, and provided that they differ from one another,
  inserting a name returns whatever names are there: it neither stops the machine nor loops,
  it takes the file that had the name out of both maps, marks it bad, and enters the name,
  and no other file changes; a search answers what the map says and leaves the maps as they
  are, and removing a file takes its names out of both.
\<close>

theorem FatInsertName_refines:
  assumes "table_ok G D" "delete_ok RtlDelete" "splay_ok RtlSplay"
    and "Fcbs D (NodeFcb N) = Some Fg" "\<not> listed Fg" "NodeName N \<notin> NodeName ` G k"
  shows "(\<exists>D'. FatInsertName RemovableMedia RtlDelete k D N = Some (Inr D') \<and> table_ok (G(k := insert N (G k))) D' \<and>
            name_maps D' = insert_name k N (name_maps D) \<and>
            (\<forall>f. if f \<in> owner k N (name_maps D) then released RemovableMedia D D' f else Fcbs D' f = Fcbs D f)) \<and>
    (\<forall>k' x. snd (FatFindFcb RtlSplay (RootNode k' D) x) = map_option (\<lambda>n. (NodeFcb n, FileNameDos n)) (name_maps D k' x) \<and>
            names (fst (FatFindFcb RtlSplay (RootNode k' D) x)) = name_maps D k') \<and>
    (\<forall>f Fcb. Fcbs D f = Some Fcb \<and> listed Fcb \<longrightarrow> table_ok G (FatRemoveNames RtlDelete D f) \<and>
            name_maps (FatRemoveNames RtlDelete D f) = (\<lambda>k'. without {f} (name_maps D k')))"
proof (intro conjI)
  have G: "\<And>n. n \<in> G k \<Longrightarrow> NodeName n \<noteq> NodeName N" using assms(6) by (metis image_eqI)
  show "\<exists>D'. FatInsertName RemovableMedia RtlDelete k D N = Some (Inr D') \<and> table_ok (G(k := insert N (G k))) D' \<and>
      name_maps D' = insert_name k N (name_maps D) \<and>
      (\<forall>f. if f \<in> owner k N (name_maps D) then released RemovableMedia D D' f else Fcbs D' f = Fcbs D f)"
    by (rule FatInsertName_outcome[OF assms(1,2,4,5) G, where RemovableMedia = RemovableMedia]) auto
  show "\<forall>k' x. snd (FatFindFcb RtlSplay (RootNode k' D) x) = map_option (\<lambda>n. (NodeFcb n, FileNameDos n)) (name_maps D k' x) \<and>
      names (fst (FatFindFcb RtlSplay (RootNode k' D) x)) = name_maps D k'"
    using splay_tree(3,4)[OF assms(3) table_okD(1)[OF assms(1)]] by (simp add: name_maps_def)
  show "\<forall>f Fcb. Fcbs D f = Some Fcb \<and> listed Fcb \<longrightarrow> table_ok G (FatRemoveNames RtlDelete D f) \<and>
      name_maps (FatRemoveNames RtlDelete D f) = (\<lambda>k'. without {f} (name_maps D k'))"
    using FatRemoveNames_outcome(1,2)[OF assms(1,2)] by (simp add: name_maps_def)
qed

section \<open>Entering the names of a file\<close>

definition kept :: "bool \<Rightarrow> NAME_DCB \<Rightarrow> NAME_DCB \<Rightarrow> nat \<Rightarrow> bool" where
  "kept RemovableMedia D D' f \<longleftrightarrow> Fcbs D' f = Fcbs D f \<or> released RemovableMedia D D' f"

lemma kept_trans: "kept r D D1 f \<Longrightarrow> kept r D1 D2 f \<Longrightarrow> kept r D D2 f"
proof -
  assume "kept r D D1 f" "kept r D1 D2 f"
  moreover have "\<not> (released r D D1 f \<and> released r D1 D2 f)" by (auto simp: released_def)
  moreover have "released r D1 D2 f = released r D D2 f" if "Fcbs D1 f = Fcbs D f" using that by (simp add: released_def)
  moreover have "released r D D1 f = released r D D2 f" if "Fcbs D2 f = Fcbs D1 f" using that by (simp add: released_def)
  ultimately show ?thesis unfolding kept_def by metis
qed

lemma FatInsertName_if:
  assumes ok: "table_ok G D" and d: "delete_ok RtlDelete" and g: "Fcbs D g = Some Fg" "\<not> listed Fg"
    and N: "b \<longrightarrow> NodeFcb N = g \<and> NodeName N \<notin> NodeName ` G k"
  shows "\<exists>D'. (if b then FatInsertName r RtlDelete k D N else Some (Inr D)) = Some (Inr D') \<and>
    table_ok (if b then G(k := insert N (G k)) else G) D' \<and> (\<forall>f. kept r D D' f) \<and> Fcbs D' g = Some Fg"
proof (cases b)
  case True
  then have N': "NodeFcb N = g" "NodeName N \<notin> NodeName ` G k" using N by blast+
  have gN: "Fcbs D (NodeFcb N) = Some Fg" using g(1) N'(1) by simp
  have G': "\<And>n. n \<in> G k \<Longrightarrow> NodeName n \<noteq> NodeName N" using N'(2) by (metis image_eqI)
  have "\<exists>D'. FatInsertName r RtlDelete k D N = Some (Inr D') \<and> table_ok (G(k := insert N (G k))) D' \<and>
      (\<forall>f. if f \<in> owner k N (name_maps D) then released r D D' f else Fcbs D' f = Fcbs D f)"
    by (rule FatInsertName_outcome[OF ok d gN g(2) G', where RemovableMedia = r]) auto
  then obtain D' where D': "FatInsertName r RtlDelete k D N = Some (Inr D')" "table_ok (G(k := insert N (G k))) D'"
      "\<And>f. if f \<in> owner k N (name_maps D) then released r D D' f else Fcbs D' f = Fcbs D f" by blast
  have "\<forall>f. kept r D D' f"
  proof
    show "kept r D D' f" for f using D'(3)[of f] by (auto simp: kept_def split: if_splits)
  qed
  moreover have "Fcbs D' g = Some Fg" using D'(3)[of g] g by (auto simp: released_def split: if_splits)
  ultimately show ?thesis using D'(1,2) True by simp
next
  case False
  then show ?thesis using ok g(1) by (simp add: kept_def)
qed

text \<open>When the names are in, the flag is set and they are those of the Fcb.\<close>

lemma table_ok_listed:
  assumes ok: "table_ok G D" and g: "Fcbs D g = Some F" "\<not> listed F" and G: "\<And>k. G k = nodes k F" and F: "fcb_ok g F"
  defines "F' \<equiv> F\<lparr>FcbState := SetFlag (FcbState F) FCB_STATE_NAMES_IN_SPLAY_TREE\<rparr>"
  shows "table_ok (\<lambda>_. {}) (D\<lparr>Fcbs := (Fcbs D)(g \<mapsto> F')\<rparr>)" "listed F'" "nodes k F' = nodes k F"
proof -
  have n: "nodes k F' = nodes k F" for k by (cases k) (simp_all add: nodes_def F'_def FlagOn_SetFlag)
  then show "nodes k F' = nodes k F" .
  show l: "listed F'" by (simp add: listed_def F'_def FlagOn_SetFlag)
  have o: "fcb_ok g F'" using F unfolding fcb_ok_def n by (simp add: F'_def FlagOn_SetFlag)
  let ?D = "D\<lparr>Fcbs := (Fcbs D)(g \<mapsto> F')\<rparr>"
  have own: "n \<in> nodes k F \<Longrightarrow> NodeFcb n = g" for n k using F by (auto simp: fcb_ok_def)
  have "n \<in> listed_nodes k ?D \<longleftrightarrow> n \<in> listed_nodes k D \<or> n \<in> nodes k F" for k n
  proof (cases "NodeFcb n = g")
    case True
    then show ?thesis using l n g by (simp add: listed_nodes_def)
  next
    case False
    then show ?thesis using own by (auto simp: listed_nodes_def)
  qed
  then have "listed_nodes k ?D = listed_nodes k D \<union> nodes k F" for k by blast
  then have "set_tree (RootNode k ?D) = listed_nodes k ?D" for k using table_okD(2)[OF ok] G by simp
  moreover have "fcb_ok f Fcb" if "Fcbs ?D f = Some Fcb" "listed Fcb" for f Fcb
    using that table_okD(4)[OF ok, of f Fcb] o by (simp split: if_splits)
  ultimately show "table_ok (\<lambda>_. {}) ?D" unfolding table_ok_def using table_okD(1)[OF ok] by simp
qed

lemma table_ok_tree:
  assumes "table_ok G D" "names_ok t" "set_tree t = set_tree (RootNode k D)"
  shows "table_ok G (set_RootNode k t D)"
proof -
  have "listed_nodes k' (set_RootNode k t D) = listed_nodes k' D" for k' by (simp add: listed_nodes_def)
  moreover have "names_ok (RootNode k' (set_RootNode k t D)) \<and> set_tree (RootNode k' (set_RootNode k t D)) = set_tree (RootNode k' D)" for k'
    using assms table_okD(1)[OF assms(1)] by (cases "k' = k") simp_all
  ultimately show ?thesis using assms(1) by (simp add: table_ok_def)
qed

text \<open>The names FatConstructNames gives an Fcb that has none.\<close>

definition unnamed :: "NAME_FCB \<Rightarrow> bool" where
  "unnamed Fcb \<longleftrightarrow> \<not> listed Fcb \<and> \<not> FlagOn (FcbState Fcb) FCB_STATE_HAS_OEM_LONG_NAME \<and> \<not> FlagOn (FcbState Fcb) FCB_STATE_HAS_UNICODE_LONG_NAME"

definition has_long_name :: "nat \<Rightarrow> STRING \<Rightarrow> NAME_FCB \<Rightarrow> bool" where
  "has_long_name g x Fcb \<longleftrightarrow> FcbLongName Fcb = \<lparr>NodeFcb = g, NodeName = x, FileNameDos = False\<rparr>"

lemma FatFlagCase_flags [simp]:
  "FlagOn (FatFlagCase d s) FCB_STATE_NAMES_IN_SPLAY_TREE = FlagOn s FCB_STATE_NAMES_IN_SPLAY_TREE"
  "FlagOn (FatFlagCase d s) FCB_STATE_HAS_OEM_LONG_NAME = FlagOn s FCB_STATE_HAS_OEM_LONG_NAME"
  "FlagOn (FatFlagCase d s) FCB_STATE_HAS_UNICODE_LONG_NAME = FlagOn s FCB_STATE_HAS_UNICODE_LONG_NAME"
  by (rule FlagOn_FatFlagCase; simp)+

lemma SetFlag_flags [simp]:
  "FlagOn (SetFlag s FCB_STATE_HAS_OEM_LONG_NAME) FCB_STATE_NAMES_IN_SPLAY_TREE = FlagOn s FCB_STATE_NAMES_IN_SPLAY_TREE"
  "FlagOn (SetFlag s FCB_STATE_HAS_UNICODE_LONG_NAME) FCB_STATE_NAMES_IN_SPLAY_TREE = FlagOn s FCB_STATE_NAMES_IN_SPLAY_TREE"
  "FlagOn (SetFlag s FCB_STATE_HAS_OEM_LONG_NAME) FCB_STATE_HAS_UNICODE_LONG_NAME = FlagOn s FCB_STATE_HAS_UNICODE_LONG_NAME"
  "FlagOn (SetFlag s FCB_STATE_HAS_UNICODE_LONG_NAME) FCB_STATE_HAS_OEM_LONG_NAME = FlagOn s FCB_STATE_HAS_OEM_LONG_NAME"
  "FlagOn (SetFlag s FCB_STATE_HAS_OEM_LONG_NAME) FCB_STATE_HAS_OEM_LONG_NAME"
  "FlagOn (SetFlag s FCB_STATE_HAS_UNICODE_LONG_NAME) FCB_STATE_HAS_UNICODE_LONG_NAME"
  by (simp_all add: FlagOn_SetFlag)

lemma to_STRING_Some: "to_STRING bs = Some x \<longleftrightarrow> bs \<noteq> [] \<and> NameBuffer x = bs"
  by (cases bs; cases x) (auto simp: to_STRING_def NameBuffer_def)

lemma to_STRING_ne: "bs \<noteq> [] \<Longrightarrow> \<exists>x. to_STRING bs = Some x"
  by (cases bs) (simp_all add: to_STRING_def)

text \<open>What becomes of the long name: none, in the OEM tree, or in the Unicode tree.\<close>

definition named :: "nat \<Rightarrow> STRING \<Rightarrow> (USHORT list \<Rightarrow> USHORT list) \<Rightarrow> USHORT list option \<Rightarrow> NAME_DCB \<Rightarrow> NAME_FCB \<Rightarrow> bool" where
  "named g S Monocase Lfn D F \<longleftrightarrow> \<not> listed F \<and> FcbShortName F = \<lparr>NodeFcb = g, NodeName = S, FileNameDos = True\<rparr> \<and>
     (case Lfn of
        None \<Rightarrow> unnamed F
      | Some lfn \<Rightarrow>
          if lfn = [] then unnamed F
          else if list_all (\<lambda>c. c < 0x80) lfn
          then (\<exists>x. to_STRING (map FatUpcaseByHand lfn) = Some x \<and>
                 (if x = S \<or> names (RootOemNode D) x \<noteq> None then unnamed F
                  else has_long_name g x F \<and> FlagOn (FcbState F) FCB_STATE_HAS_OEM_LONG_NAME \<and> \<not> FlagOn (FcbState F) FCB_STATE_HAS_UNICODE_LONG_NAME))
          else (\<exists>x. to_STRING (wchar_bytes (Monocase lfn)) = Some x \<and> has_long_name g x F \<and>
                 FlagOn (FcbState F) FCB_STATE_HAS_UNICODE_LONG_NAME \<and> \<not> FlagOn (FcbState F) FCB_STATE_HAS_OEM_LONG_NAME))"

lemma wchar_bytes_ne: "ws \<noteq> [] \<Longrightarrow> wchar_bytes ws \<noteq> []"
  by (cases ws) (simp_all add: wchar_bytes_def le16_def)

lemma FatConstructNames_outcome:
  assumes ok: "table_ok G D" and s: "splay_ok RtlSplay" and u: "unnamed Fcb"
    and S: "to_STRING (Fat8dot3ToString ChicagoMode lead Dirent False) = Some S"
    and m: "case Lfn of None \<Rightarrow> True | Some lfn \<Rightarrow> lfn \<noteq> [] \<longrightarrow> Monocase lfn \<noteq> []"
  shows "\<exists>D1 F1. FatConstructNames ChicagoMode lead RtlSplay Monocase OemSize g Dirent Lfn D Fcb = Some (D1, F1) \<and>
    table_ok G D1 \<and> Fcbs D1 = Fcbs D \<and> named g S Monocase Lfn D F1"
proof -
  note flags = u[unfolded unnamed_def listed_def]
  have Sb: "NameBuffer S = Fat8dot3ToString ChicagoMode lead Dirent False" using S unfolding to_STRING_Some by simp
  consider "Lfn = None \<or> Lfn = Some []"
    | lfn where "Lfn = Some lfn" "lfn \<noteq> []" "list_all (\<lambda>c. c < 0x80) lfn"
    | lfn where "Lfn = Some lfn" "lfn \<noteq> []" "\<not> list_all (\<lambda>c. c < 0x80) lfn" by (cases Lfn) auto
  then show ?thesis
  proof cases
    case 1
    then show ?thesis using S flags ok by (auto simp: FatConstructNames_def Let_def named_def unnamed_def listed_def)
  next
    case (2 lfn)
    obtain x where x: "to_STRING (map FatUpcaseByHand lfn) = Some x" using to_STRING_ne 2(2) by (metis map_is_Nil_conv)
    have same: "NameBuffer x = NameBuffer S \<longleftrightarrow> x = S" by (cases x; cases S) (simp add: NameBuffer_def)
    have ascii: "list_all (\<lambda>c. \<not> 0x80 \<le> c) lfn" using 2(3) by (simp add: not_le)
    note sp = splay_tree[OF s table_okD(1)[OF ok, of OemTree], of x, folded RootNode_def]
    have okt: "table_ok G (set_RootNode OemTree (fst (FatFindFcb RtlSplay (RootOemNode D) x)) D)"
      using table_ok_tree[OF ok sp(1,2)] by (simp add: RootNode_def)
    have r: "snd (FatFindFcb RtlSplay (RootOemNode D) x) = None \<longleftrightarrow> names (RootOemNode D) x = None"
      using sp(4) by (simp add: RootNode_def)
    show ?thesis
    proof (cases "x = S")
      case True
      then show ?thesis using 2 x S same Sb ascii flags ok
        by (auto simp: FatConstructNames_def Let_def named_def unnamed_def listed_def)
    next
      case False
      obtain t q where tq: "FatFindFcb RtlSplay (RootOemNode D) x = (t, q)" by fastforce
      then show ?thesis using 2 x S same Sb ascii flags okt r False
        by (cases q) (auto simp: FatConstructNames_def Let_def named_def unnamed_def listed_def has_long_name_def set_RootNode_def)
    qed
  next
    case (3 lfn)
    obtain x where x: "to_STRING (wchar_bytes (Monocase lfn)) = Some x" using to_STRING_ne[OF wchar_bytes_ne] m 3(1,2) by auto
    have "\<not> list_all (\<lambda>c. \<not> 0x80 \<le> c) lfn" using 3(3) by (simp add: not_le)
    then show ?thesis using 3 x S flags ok
      by (auto simp: FatConstructNames_def Let_def named_def unnamed_def listed_def has_long_name_def)
  qed
qed

lemma table_ok_unlisted:
  assumes ok: "table_ok (\<lambda>_. {}) D" and g: "Fcbs D g = Some F" "\<not> listed F" "\<not> listed F1"
  shows "table_ok (\<lambda>_. {}) (D\<lparr>Fcbs := (Fcbs D)(g \<mapsto> F1)\<rparr>)"
proof -
  let ?D = "D\<lparr>Fcbs := (Fcbs D)(g \<mapsto> F1)\<rparr>"
  have "listed_nodes k ?D = listed_nodes k D" for k
    unfolding listed_nodes_def by (intro Collect_cong) (use g in auto)
  moreover have "fcb_ok f Fcb" if "Fcbs ?D f = Some Fcb" "listed Fcb" for f Fcb
    using that table_okD(4)[OF ok, of f Fcb] g by (simp split: if_splits)
  ultimately show ?thesis unfolding table_ok_def using table_okD(1,2)[OF ok] by simp
qed

lemma named_facts:
  assumes "named g S Monocase Lfn D F"
  shows "\<not> listed F" "fcb_ok g F" "FcbShortName F = \<lparr>NodeFcb = g, NodeName = S, FileNameDos = True\<rparr>"
    "FlagOn (FcbState F) FCB_STATE_HAS_OEM_LONG_NAME \<Longrightarrow> NodeFcb (FcbLongName F) = g \<and> NodeName (FcbLongName F) \<noteq> S"
    "FlagOn (FcbState F) FCB_STATE_HAS_UNICODE_LONG_NAME \<Longrightarrow> NodeFcb (FcbLongName F) = g"
proof -
  show s: "FcbShortName F = \<lparr>NodeFcb = g, NodeName = S, FileNameDos = True\<rparr>" and "\<not> listed F"
    using assms by (simp_all add: named_def)
  show o: "FlagOn (FcbState F) FCB_STATE_HAS_OEM_LONG_NAME \<Longrightarrow> NodeFcb (FcbLongName F) = g \<and> NodeName (FcbLongName F) \<noteq> S"
    and u: "FlagOn (FcbState F) FCB_STATE_HAS_UNICODE_LONG_NAME \<Longrightarrow> NodeFcb (FcbLongName F) = g"
    using assms by (auto simp: named_def unnamed_def has_long_name_def split: option.splits if_splits)
  have "NodeFcb n = g" if "n \<in> nodes k F" for k n
    using that s o u by (cases k) (auto simp: nodes_def split: if_splits)
  moreover have "FcbShortName F \<noteq> FcbLongName F" if "FlagOn (FcbState F) FCB_STATE_HAS_OEM_LONG_NAME"
    using o[OF that] s by (metis FILE_NAME_NODE.select_convs(2))
  ultimately show "fcb_ok g F" by (simp add: fcb_ok_def)
qed

text \<open>The names of an Fcb whose flag is set can be found.\<close>

lemma found_names:
  assumes "table_ok G D" "Fcbs D g = Some F" "listed F" "n \<in> nodes k F"
  shows "name_maps D k (NodeName n) = Some n"
proof -
  have "NodeFcb n = g" using table_okD(4)[OF assms(1,2,3)] assms(4) by (auto simp: fcb_ok_def)
  then have "n \<in> set_tree (RootNode k D)" using table_okD(2)[OF assms(1)] assms(2,3,4) by (auto simp: listed_nodes_def)
  then show ?thesis using names_iff[OF table_okD(1)[OF assms(1)]] by (simp add: name_maps_def)
qed

lemma FatConstructNamesInFcb_outcome:
  assumes ok: "table_ok (\<lambda>_. {}) D" and d: "delete_ok RtlDelete" and s: "splay_ok RtlSplay"
    and g: "Fcbs D g = Some Fcb" "unnamed Fcb"
    and S: "to_STRING (Fat8dot3ToString ChicagoMode lead Dirent False) = Some S"
    and m: "case Lfn of None \<Rightarrow> True | Some lfn \<Rightarrow> lfn \<noteq> [] \<longrightarrow> Monocase lfn \<noteq> []"
  shows "\<exists>D' F F'. FatConstructNamesInFcb RemovableMedia RtlDelete RtlSplay ChicagoMode lead Monocase OemSize g Dirent Lfn D = Some (Inr D') \<and>
    table_ok (\<lambda>_. {}) D' \<and> named g S Monocase Lfn D F \<and> Fcbs D' g = Some F' \<and> listed F' \<and> (\<forall>k. nodes k F' = nodes k F) \<and>
    (\<forall>f. f \<noteq> g \<longrightarrow> kept RemovableMedia D D' f)"
proof -
  obtain D1 F where c: "FatConstructNames ChicagoMode lead RtlSplay Monocase OemSize g Dirent Lfn D Fcb = Some (D1, F)"
    and ok1: "table_ok (\<lambda>_. {}) D1" and f1: "Fcbs D1 = Fcbs D" and nm: "named g S Monocase Lfn D F"
    using FatConstructNames_outcome[OF ok s g(2) S m, where OemSize = OemSize and g = g] by (elim exE conjE)
  note nf = named_facts[OF nm]
  define D2 where "D2 = D1\<lparr>Fcbs := (Fcbs D1)(g \<mapsto> F)\<rparr>"
  have ok2: "table_ok (\<lambda>_. {}) D2" unfolding D2_def
    by (rule table_ok_unlisted[OF ok1, of g Fcb]) (use g nf(1) f1 in \<open>simp_all add: unnamed_def\<close>)
  have g2: "Fcbs D2 g = Some F" by (simp add: D2_def)
  let ?o = "FlagOn (FcbState F) FCB_STATE_HAS_OEM_LONG_NAME" and ?u = "FlagOn (FcbState F) FCB_STATE_HAS_UNICODE_LONG_NAME"
  have "True \<longrightarrow> NodeFcb (FcbShortName F) = g \<and> NodeName (FcbShortName F) \<notin> NodeName ` {}" by (simp add: nf(3))
  from FatInsertName_if[OF ok2 d g2 nf(1) this, where r = RemovableMedia, unfolded if_True] obtain D3 where
    i3: "FatInsertName RemovableMedia RtlDelete OemTree D2 (FcbShortName F) = Some (Inr D3)"
    and ok3: "table_ok ((\<lambda>_. {})(OemTree := {FcbShortName F})) D3" and k3: "\<And>f. kept RemovableMedia D2 D3 f" and g3: "Fcbs D3 g = Some F"
    by blast
  let ?G = "(\<lambda>_. {})(OemTree := {FcbShortName F})"
  have "?o \<longrightarrow> NodeFcb (FcbLongName F) = g \<and> NodeName (FcbLongName F) \<notin> NodeName ` ?G OemTree" using nf(3,4) by auto
  from FatInsertName_if[OF ok3 d g3 nf(1) this, where r = RemovableMedia] obtain D4 where
    i4: "(if ?o then FatInsertName RemovableMedia RtlDelete OemTree D3 (FcbLongName F) else Some (Inr D3)) = Some (Inr D4)"
    and ok4: "table_ok (if ?o then ?G(OemTree := insert (FcbLongName F) (?G OemTree)) else ?G) D4"
    and k4: "\<And>f. kept RemovableMedia D3 D4 f" and g4: "Fcbs D4 g = Some F" by blast
  let ?H = "if ?o then ?G(OemTree := insert (FcbLongName F) (?G OemTree)) else ?G"
  have "?u \<longrightarrow> NodeFcb (FcbLongName F) = g \<and> NodeName (FcbLongName F) \<notin> NodeName ` ?H UnicodeTree" using nf(5) by auto
  from FatInsertName_if[OF ok4 d g4 nf(1) this, where r = RemovableMedia] obtain D5 where
    i5: "(if ?u then FatInsertName RemovableMedia RtlDelete UnicodeTree D4 (FcbLongName F) else Some (Inr D4)) = Some (Inr D5)"
    and ok5: "table_ok (if ?u then ?H(UnicodeTree := insert (FcbLongName F) (?H UnicodeTree)) else ?H) D5"
    and k5: "\<And>f. kept RemovableMedia D4 D5 f" and g5: "Fcbs D5 g = Some F" by blast
  have G: "(if ?u then ?H(UnicodeTree := insert (FcbLongName F) (?H UnicodeTree)) else ?H) k = nodes k F" for k
    by (cases k) (simp_all add: nodes_def insert_commute)
  let ?F = "F\<lparr>FcbState := SetFlag (FcbState F) FCB_STATE_NAMES_IN_SPLAY_TREE\<rparr>"
  let ?D = "D5\<lparr>Fcbs := (Fcbs D5)(g \<mapsto> ?F)\<rparr>"
  note fin = table_ok_listed[OF ok5 g5 nf(1) G nf(2)]
  have r: "FatConstructNamesInFcb RemovableMedia RtlDelete RtlSplay ChicagoMode lead Monocase OemSize g Dirent Lfn D = Some (Inr ?D)"
    unfolding FatConstructNamesInFcb_def g(1) Option.bind.bind_lunit c prod.case D2_def[symmetric] i3 result_bind_def option.case sum.case i4 i5 g5 ..
  have "kept RemovableMedia D ?D f" if "f \<noteq> g" for f
  proof -
    have "kept RemovableMedia D D2 f" using that by (simp add: kept_def D2_def f1)
    from kept_trans[OF kept_trans[OF kept_trans[OF this k3] k4] k5] show ?thesis using that by (simp add: kept_def released_def)
  qed
  then show ?thesis using r fin nm by (intro exI[of _ ?D] exI[of _ F] exI[of _ ?F]) simp
qed

text \<open>
  C9: Entering the names of a file that has none keeps the invariant of the directory: the
  routine returns, the trees hold exactly the names of the files whose flag says so, the file
  is found by its short name and, unless the tree had the name before, by its long name -
  upcased, in the OEM tree when it has no extended characters and in the Unicode tree
  otherwise -, and every other file is as it was or, where its name was taken, is marked bad
  and has its names out of the trees.
\<close>

theorem FatConstructNamesInFcb_correct:
  assumes "table_ok (\<lambda>_. {}) D" "delete_ok RtlDelete" "splay_ok RtlSplay" "Fcbs D g = Some Fcb" "unnamed Fcb"
    and "to_STRING (Fat8dot3ToString ChicagoMode lead Dirent False) = Some S"
    and "case Lfn of None \<Rightarrow> True | Some lfn \<Rightarrow> lfn \<noteq> [] \<longrightarrow> Monocase lfn \<noteq> []"
  shows "\<exists>D' F. FatConstructNamesInFcb RemovableMedia RtlDelete RtlSplay ChicagoMode lead Monocase OemSize g Dirent Lfn D = Some (Inr D') \<and>
    table_ok (\<lambda>_. {}) D' \<and> Fcbs D' g = Some F \<and> listed F \<and>
    name_maps D' OemTree S = Some \<lparr>NodeFcb = g, NodeName = S, FileNameDos = True\<rparr> \<and>
    (\<forall>lfn x. Lfn = Some lfn \<and> lfn \<noteq> [] \<longrightarrow>
       (if list_all (\<lambda>c. c < 0x80) lfn
        then to_STRING (map FatUpcaseByHand lfn) = Some x \<and> x \<noteq> S \<and> name_maps D OemTree x = None \<longrightarrow>
             name_maps D' OemTree x = Some \<lparr>NodeFcb = g, NodeName = x, FileNameDos = False\<rparr>
        else to_STRING (wchar_bytes (Monocase lfn)) = Some x \<longrightarrow>
             name_maps D' UnicodeTree x = Some \<lparr>NodeFcb = g, NodeName = x, FileNameDos = False\<rparr>)) \<and>
    (\<forall>f. f \<noteq> g \<longrightarrow> kept RemovableMedia D D' f)"
proof -
  obtain D' F F' where r: "FatConstructNamesInFcb RemovableMedia RtlDelete RtlSplay ChicagoMode lead Monocase OemSize g Dirent Lfn D = Some (Inr D')"
    and ok: "table_ok (\<lambda>_. {}) D'" and nm: "named g S Monocase Lfn D F" and F': "Fcbs D' g = Some F'" "listed F'"
    and n: "\<forall>k. nodes k F' = nodes k F" and o: "\<forall>f. f \<noteq> g \<longrightarrow> kept RemovableMedia D D' f"
    using FatConstructNamesInFcb_outcome[OF assms, where RemovableMedia = RemovableMedia and OemSize = OemSize] by (elim exE conjE)
  have found: "name_maps D' k (NodeName m) = Some m" if "m \<in> nodes k F" for k m
    using found_names[OF ok F'] n that by simp
  have sh: "name_maps D' OemTree S = Some \<lparr>NodeFcb = g, NodeName = S, FileNameDos = True\<rparr>"
    using found[of "FcbShortName F" OemTree] named_facts(3)[OF nm] by (simp add: nodes_def)
  have "if list_all (\<lambda>c. c < 0x80) lfn
        then to_STRING (map FatUpcaseByHand lfn) = Some x \<and> x \<noteq> S \<and> name_maps D OemTree x = None \<longrightarrow>
             name_maps D' OemTree x = Some \<lparr>NodeFcb = g, NodeName = x, FileNameDos = False\<rparr>
        else to_STRING (wchar_bytes (Monocase lfn)) = Some x \<longrightarrow>
             name_maps D' UnicodeTree x = Some \<lparr>NodeFcb = g, NodeName = x, FileNameDos = False\<rparr>"
    if l: "Lfn = Some lfn \<and> lfn \<noteq> []" for lfn x
    using nm[unfolded named_def] l found[of "FcbLongName F" OemTree] found[of "FcbLongName F" UnicodeTree]
    by (auto simp: nodes_def has_long_name_def name_maps_def RootNode_def)
  then show ?thesis using r ok F' sh o by (intro exI[of _ D'] exI[of _ F']) blast
qed

section \<open>A directory of two files\<close>

definition list_tree :: "FILE_NAME_NODE list \<Rightarrow> name_tree" where
  "list_tree xs = foldr (\<lambda>n t. Node Leaf n t) xs Leaf"

definition list_delete :: "name_tree \<Rightarrow> FILE_NAME_NODE \<Rightarrow> name_tree" where
  "list_delete t n = list_tree (remove1 n (inorder t))"

lemma list_calls: "delete_ok list_delete" "splay_ok (\<lambda>t n. t)"
proof -
  have "inorder (list_tree xs) = xs" for xs by (induction xs) (simp_all add: list_tree_def)
  then show "delete_ok list_delete" "splay_ok (\<lambda>t n. t)" by (simp_all add: delete_ok_def splay_ok_def list_delete_def)
qed

definition short_5 :: FILE_NAME_NODE where "short_5 = \<lparr>NodeFcb = 5, NodeName = STRING 0x41 [], FileNameDos = True\<rparr>"
definition long_5 :: FILE_NAME_NODE where "long_5 = \<lparr>NodeFcb = 5, NodeName = STRING 0x41 [0x42], FileNameDos = False\<rparr>"
definition short_6 :: FILE_NAME_NODE where "short_6 = \<lparr>NodeFcb = 6, NodeName = STRING 0x41 [], FileNameDos = True\<rparr>"

definition fcb_5 :: NAME_FCB where
  "fcb_5 = \<lparr>FcbState = 0x300, FcbCondition = FcbGood, IsDirectory = False, FastIoIsNotPossible = False, FcbShortName = short_5,
     FcbLongName = long_5, ExactCaseLongName = [0x61, 0x62], FinalNameLength = 4\<rparr>"

definition fcb_6 :: NAME_FCB where
  "fcb_6 = \<lparr>FcbState = 0, FcbCondition = FcbGood, IsDirectory = False, FastIoIsNotPossible = False, FcbShortName = short_6,
     FcbLongName = short_6, ExactCaseLongName = [], FinalNameLength = 0\<rparr>"

definition two_files :: NAME_DCB where
  "two_files = \<lparr>RootOemNode = Node Leaf short_5 (Node Leaf long_5 Leaf), RootUnicodeNode = Leaf,
     Fcbs = (\<lambda>f. if f = 5 then Some fcb_5 else if f = 6 then Some fcb_6 else None)\<rparr>"

lemma two_files_ok: "table_ok (\<lambda>_. {}) two_files" "\<not> listed fcb_6" "unnamed fcb_6" "Fcbs two_files 6 = Some fcb_6"
proof -
  have n: "nodes k fcb_5 = (case k of OemTree \<Rightarrow> {short_5, long_5} | UnicodeTree \<Rightarrow> {})" for k
    by (cases k) (simp_all add: nodes_def fcb_5_def FlagOn_def)
  have l: "listed fcb_5" by (simp add: listed_def fcb_5_def FlagOn_def)
  show nl: "\<not> listed fcb_6" and "unnamed fcb_6" "Fcbs two_files 6 = Some fcb_6"
    by (simp_all add: unnamed_def listed_def fcb_6_def FlagOn_def two_files_def)
  have "n \<in> listed_nodes k two_files \<longleftrightarrow> n \<in> nodes k fcb_5" for k m n
    using l nl by (cases k) (auto simp: listed_nodes_def two_files_def n short_5_def long_5_def)
  then have ln: "listed_nodes k two_files = nodes k fcb_5" for k by blast
  have "STRING 0x41 [] < STRING 0x41 [0x42]" by (simp add: less_STRING_def CompareNames_key name_key_def)
  then have "names_ok (RootNode k two_files)" for k
    by (cases k) (simp_all add: two_files_def RootNode_def short_5_def long_5_def)
  moreover have "set_tree (RootNode k two_files) = nodes k fcb_5" for k
    by (cases k) (auto simp: two_files_def RootNode_def n)
  moreover have "fcb_ok 5 fcb_5"
    unfolding fcb_ok_def n by (auto simp: short_5_def long_5_def fcb_5_def split: NAME_TREE.splits)
  ultimately show "table_ok (\<lambda>_. {}) two_files"
    unfolding table_ok_def ln using nl by (simp add: two_files_def)
qed

lemma two_files_names: "name_maps two_files OemTree (STRING 0x41 []) = Some short_5" "name_maps two_files OemTree (STRING 0x41 [0x42, 0x43]) = None"
  by (simp_all add: name_maps_def names_def two_files_def RootNode_def short_5_def long_5_def)

theorem FatInsertName_refines_witness:
  "\<exists>D'. FatInsertName False list_delete OemTree two_files short_6 = Some (Inr D') \<and>
     name_maps D' OemTree (STRING 0x41 []) = Some short_6 \<and> released False two_files D' 5"
proof -
  have o: "owner OemTree short_6 (name_maps two_files) = {5}"
    by (simp add: owner_def short_6_def two_files_names) (simp add: short_5_def)
  have g: "Fcbs two_files (NodeFcb short_6) = Some fcb_6" by (simp add: short_6_def two_files_ok(4))
  have "NodeName short_6 \<notin> NodeName ` {}" by simp
  from FatInsertName_refines[OF two_files_ok(1) list_calls g two_files_ok(2) this, of False, THEN conjunct1] obtain D' where
    D': "FatInsertName False list_delete OemTree two_files short_6 = Some (Inr D')" "name_maps D' = insert_name OemTree short_6 (name_maps two_files)"
      "\<forall>f. if f \<in> owner OemTree short_6 (name_maps two_files) then released False two_files D' f else Fcbs D' f = Fcbs two_files f" by blast
  have "name_maps D' OemTree (STRING 0x41 []) = Some short_6" by (simp add: D'(2) insert_name_def short_6_def)
  moreover have "released False two_files D' 5" using D'(3) o by (auto dest: spec[of _ 5])
  ultimately show ?thesis using D'(1) by blast
qed

definition dirent_A :: DIRENT where
  "dirent_A = zero_dirent\<lparr>FileName := [0x41, 0x20, 0x20, 0x20, 0x20, 0x20, 0x20, 0x20, 0x20, 0x20, 0x20]\<rparr>"

lemma dirent_A_name: "to_STRING (Fat8dot3ToString True (\<lambda>_. False) dirent_A False) = Some (STRING 0x41 [])"
  by code_simp

theorem FatConstructNamesInFcb_correct_witness:
  "\<exists>D'. FatConstructNamesInFcb False list_delete (\<lambda>t n. t) True (\<lambda>_. False) id length 6 dirent_A (Some [0x61, 0x62, 0x63]) two_files = Some (Inr D') \<and>
     table_ok (\<lambda>_. {}) D' \<and> name_maps D' OemTree (STRING 0x41 []) = Some short_6 \<and>
     name_maps D' OemTree (STRING 0x41 [0x42, 0x43]) = Some \<lparr>NodeFcb = 6, NodeName = STRING 0x41 [0x42, 0x43], FileNameDos = False\<rparr>"
proof -
  have m: "case Some [0x61, 0x62, 0x63] of None \<Rightarrow> True | Some lfn \<Rightarrow> lfn \<noteq> [] \<longrightarrow> id lfn \<noteq> ([] :: USHORT list)" by simp
  obtain D' where D': "FatConstructNamesInFcb False list_delete (\<lambda>t n. t) True (\<lambda>_. False) id length 6 dirent_A (Some [0x61, 0x62, 0x63]) two_files = Some (Inr D')"
      "table_ok (\<lambda>_. {}) D'" "name_maps D' OemTree (STRING 0x41 []) = Some \<lparr>NodeFcb = 6, NodeName = STRING 0x41 [], FileNameDos = True\<rparr>"
    and l: "\<forall>lfn x. Some [0x61, 0x62, 0x63] = Some lfn \<and> lfn \<noteq> [] \<longrightarrow>
       (if list_all (\<lambda>c. c < 0x80) lfn
        then to_STRING (map FatUpcaseByHand lfn) = Some x \<and> x \<noteq> STRING 0x41 [] \<and> name_maps two_files OemTree x = None \<longrightarrow>
             name_maps D' OemTree x = Some \<lparr>NodeFcb = 6, NodeName = x, FileNameDos = False\<rparr>
        else to_STRING (wchar_bytes (id lfn)) = Some x \<longrightarrow>
             name_maps D' UnicodeTree x = Some \<lparr>NodeFcb = 6, NodeName = x, FileNameDos = False\<rparr>)"
    using FatConstructNamesInFcb_correct[OF two_files_ok(1) list_calls two_files_ok(4,3) dirent_A_name m, of False length] by (elim exE conjE)
  have "to_STRING (map FatUpcaseByHand [0x61, 0x62, 0x63]) = Some (STRING 0x41 [0x42, 0x43])"
    by (simp add: to_STRING_def FatUpcaseByHand_def)
  moreover have "list_all (\<lambda>c. c < 0x80) [0x61, 0x62, 0x63 :: USHORT]" by simp
  ultimately have "name_maps D' OemTree (STRING 0x41 [0x42, 0x43]) = Some \<lparr>NodeFcb = 6, NodeName = STRING 0x41 [0x42, 0x43], FileNameDos = False\<rparr>"
    using l[rule_format, of "[0x61, 0x62, 0x63]" "STRING 0x41 [0x42, 0x43]"] two_files_names(2) by simp
  then show ?thesis using D' by (auto simp: short_6_def)
qed

end
