(* ===== verification/FatDirAlloc.thy ===== *)
theory FatDirAlloc
  imports FatScan FatSearch
begin

unbundle bit_operations_syntax

text \<open>
  Room for entries in a directory (dirsup.c): the scan that finds the free entries, the
  choice of entries for a new file, with the extension of the directory (cachesup.c,
  strucsup.c), and the deletion of the entries of a file. A Dcb keeps a bitmap of the entries
  in use, the offset of the first entry that was never used and a hint where the first
  deleted one is.
\<close>

section \<open>Data\<close>

text \<open>
  An offset of 0xffffffff stands for one not known yet. A directory is smaller than four
  gigabytes, so that offsets do not wrap.
\<close>

record OPEN_FCB =
  OpenShortName :: "UCHAR list"
  DirentOffsetWithinDirectory :: nat
  LfnOffsetWithinDirectory :: nat
  OpenIsDeleted :: bool
  OpenMarkedBad :: bool

record DCB =
  DcbDirectory :: DIRECTORY
  IsRootDcb :: bool
  UnusedDirentVbo :: nat
  DeletedDirentHint :: nat
  FreeDirentBitmap :: "bool list"
  OpenFcbs :: "OPEN_FCB list"

abbreviation VBO_UNKNOWN :: nat where "VBO_UNKNOWN \<equiv> 0xffffffff"

abbreviation DcbFile :: "DCB \<Rightarrow> mem" where "DcbFile D \<equiv> DirectoryFile (DcbDirectory D)"
abbreviation DcbSize :: "DCB \<Rightarrow> nat" where "DcbSize D \<equiv> AllocationSize (DcbDirectory D)"

definition set_DcbFile :: "mem \<Rightarrow> DCB \<Rightarrow> DCB" where
  "set_DcbFile F D = D\<lparr>DcbDirectory := DcbDirectory D\<lparr>DirectoryFile := F\<rparr>\<rparr>"

section \<open>Scanning a directory\<close>

datatype DIRENT_RUN = InitialRun | FreeDirents | AllocatedDirents

record RESCAN =
  RescanVbo :: nat
  RescanHint :: nat
  DirentIndex :: nat
  StartIndexOfRun :: nat
  RescanRun :: DIRENT_RUN
  RescanBits :: "bool list"

text \<open>One entry that is not the end mark: the run goes on, or is recorded and another begins.\<close>

definition FatRescan_step :: "bool \<Rightarrow> RESCAN \<Rightarrow> RESCAN" where
  "FatRescan_step DirentDeleted L =
     (let L = (if DirentDeleted \<and> RescanHint L = VBO_UNKNOWN then L\<lparr>RescanHint := RescanVbo L\<rparr> else L);
          n = of_nat (DirentIndex L - StartIndexOfRun L);
          L = (if RescanRun L = InitialRun then L\<lparr>RescanRun := (if DirentDeleted then FreeDirents else AllocatedDirents)\<rparr>
               else if RescanRun L = FreeDirents \<and> \<not> DirentDeleted
               then L\<lparr>RescanBits := RtlClearBits (RescanBits L) (of_nat (StartIndexOfRun L)) n,
                      RescanRun := AllocatedDirents, StartIndexOfRun := DirentIndex L\<rparr>
               else if RescanRun L = AllocatedDirents \<and> DirentDeleted
               then L\<lparr>RescanBits := RtlSetBits (RescanBits L) (of_nat (StartIndexOfRun L)) n,
                      RescanRun := FreeDirents, StartIndexOfRun := DirentIndex L\<rparr>
               else L)
      in L\<lparr>RescanVbo := RescanVbo L + 32, DirentIndex := DirentIndex L + 1\<rparr>)"

function FatRescan_loop :: "DIRECTORY \<Rightarrow> bool \<Rightarrow> RESCAN \<Rightarrow> ntstatus option \<times> RESCAN" where
  "FatRescan_loop Dcb Bcb L =
     (case FatReadDirent Dcb (RescanVbo L) Bcb of
        Inl e \<Rightarrow> (Some e, L)
      | Inr None \<Rightarrow> (None, L)
      | Inr (Some Dirent) \<Rightarrow>
          if FileName Dirent ! 0 = FAT_DIRENT_NEVER_USED then (None, L)
          else FatRescan_loop Dcb True (FatRescan_step (FileName Dirent ! 0 = FAT_DIRENT_DELETED) L))"
  by auto
termination
proof (relation "measure (\<lambda>(Dcb, b, L). AllocationSize Dcb - RescanVbo L)")
  have v: "RescanVbo (FatRescan_step d L) = RescanVbo L + 32" for d L by (simp add: FatRescan_step_def Let_def)
  show "FatReadDirent Dcb (RescanVbo L) Bcb = Inr x \<Longrightarrow> x = Some Dirent \<Longrightarrow> FileName Dirent ! 0 \<noteq> FAT_DIRENT_NEVER_USED \<Longrightarrow>
      ((Dcb, True, FatRescan_step (FileName Dirent ! 0 = FAT_DIRENT_DELETED) L), Dcb, Bcb, L)
        \<in> measure (\<lambda>(Dcb, b, L). AllocationSize Dcb - RescanVbo L)" for Dcb Bcb L x Dirent
    by (auto simp: v FatReadDirent_def split: if_splits)
qed simp

declare FatRescan_loop.simps [simp del]

text \<open>The last run is recorded, and what lies behind the end mark is free. A raise leaves the hints.\<close>

definition FatRescanDirectory :: "(DCB, unit) fat_op" where
  "FatRescanDirectory D =
     (case FatRescan_loop (DcbDirectory D) False
             \<lparr>RescanVbo = 0, RescanHint = VBO_UNKNOWN, DirentIndex = 0, StartIndexOfRun = 0, RescanRun = InitialRun,
              RescanBits = FreeDirentBitmap D\<rparr> of
        (Some e, L) \<Rightarrow> (Inl e, D\<lparr>FreeDirentBitmap := RescanBits L\<rparr>)
      | (None, L) \<Rightarrow>
          (let n = of_nat (DirentIndex L - StartIndexOfRun L);
               Bits = (if RescanRun L = FreeDirents \<or> RescanRun L = InitialRun
                       then RtlClearBits (RescanBits L) (of_nat (StartIndexOfRun L)) n
                       else RtlSetBits (RescanBits L) (of_nat (StartIndexOfRun L)) n);
               Bits = (if RescanVbo L < DcbSize D
                       then RtlClearBits Bits (of_nat (RescanVbo L div 32)) (of_nat ((DcbSize D - RescanVbo L) div 32))
                       else Bits)
           in (Inr (), D\<lparr>FreeDirentBitmap := Bits,
                         UnusedDirentVbo := RescanVbo L,
                         DeletedDirentHint := (if RescanHint L = VBO_UNKNOWN then RescanVbo L else RescanHint L)\<rparr>)))"

section \<open>Growing a directory\<close>

text \<open>
  The bitmap grows with the directory. Its bytes are copied and zeroed, so that it keeps whole
  bytes; a directory has a multiple of eight entries when its clusters have 256 bytes or more.
\<close>

definition FatCheckFreeDirentBitmap :: "DCB \<Rightarrow> DCB" where
  "FatCheckFreeDirentBitmap D =
     (let OldNumberOfDirents = length (FreeDirentBitmap D); NewNumberOfDirents = DcbSize D div 32
      in if NewNumberOfDirents > OldNumberOfDirents
         then D\<lparr>FreeDirentBitmap := take (8 * (OldNumberOfDirents div 8)) (FreeDirentBitmap D) @
                  replicate (NewNumberOfDirents - 8 * (OldNumberOfDirents div 8)) False\<rparr>
         else D)"

definition zero_bytes :: "nat \<Rightarrow> nat \<Rightarrow> mem \<Rightarrow> mem" where
  "zero_bytes a n F = (\<lambda>b. if a \<le> b \<and> b < a + n then 0 else F b)"

text \<open>The range is pinned by pages, and behind the request by 256 kilobytes.\<close>

definition BytesToPin :: "nat \<Rightarrow> nat \<Rightarrow> nat \<Rightarrow> nat" where
  "BytesToPin Request Vbo ByteCount =
     (let MappingGranularity = (if Vbo > Request then 0x40000 else 4096)
      in if Vbo div MappingGranularity = (Vbo + ByteCount - 1) div MappingGranularity then ByteCount
         else MappingGranularity - Vbo mod MappingGranularity)"

lemma BytesToPin_pos: "0 < ByteCount \<Longrightarrow> 0 < BytesToPin Request Vbo ByteCount"
  by (simp add: BytesToPin_def Let_def)

function FatPin_loop :: "(nat \<Rightarrow> ntstatus option) \<Rightarrow> nat \<Rightarrow> bool \<Rightarrow> nat \<Rightarrow> nat \<Rightarrow> mem \<Rightarrow> ntstatus option \<times> mem" where
  "FatPin_loop Fault Request Zero Vbo ByteCount F =
     (if ByteCount = 0 then (None, F)
      else case Fault (Vbo - Vbo mod 4096) of
             Some e \<Rightarrow> (Some e, F)
           | None \<Rightarrow>
               FatPin_loop Fault Request Zero (Vbo + BytesToPin Request Vbo ByteCount) (ByteCount - BytesToPin Request Vbo ByteCount)
                 (if Zero then zero_bytes Vbo (BytesToPin Request Vbo ByteCount) F else F))"
  by auto
termination
  by (relation "measure (\<lambda>(f, r, z, v, n, F). n)") (auto simp: BytesToPin_pos)

declare FatPin_loop.simps [simp del]

text \<open>
  FatAddFileAllocation answers the new size of the directory, or raises. When pinning raises
  after it, FatTruncateFileAllocation cuts the directory back, but the bitmap keeps its size.
\<close>

definition FatPrepareWriteDirectoryFile :: "(DCB \<Rightarrow> nat \<Rightarrow> ntstatus + nat) \<Rightarrow> bool \<Rightarrow> nat \<Rightarrow> nat \<Rightarrow> bool \<Rightarrow> (DCB, unit) fat_op" where
  "FatPrepareWriteDirectoryFile FatAddFileAllocation IsFat32 StartingVbo ByteCount Zero D =
     (if StartingVbo + ByteCount > DcbSize D
      then if IsRootDcb D \<and> \<not> IsFat32 then (Inl STATUS_DISK_FULL, D)
           else
             (case FatAddFileAllocation D (StartingVbo + ByteCount) of
                Inl e \<Rightarrow> (Inl e, D)
              | Inr Size \<Rightarrow>
                  (let D1 = FatCheckFreeDirentBitmap (D\<lparr>DcbDirectory := DcbDirectory D\<lparr>AllocationSize := Size\<rparr>\<rparr>)
                   in case FatPin_loop (DirectoryFault (DcbDirectory D)) (StartingVbo + ByteCount) True (DcbSize D) (Size - DcbSize D) (DcbFile D) of
                        (None, F) \<Rightarrow> (Inr (), set_DcbFile F D1)
                      | (Some e, F) \<Rightarrow> (Inl e, D1\<lparr>DcbDirectory := DcbDirectory D\<lparr>DirectoryFile := F\<rparr>\<rparr>)))
      else
        (case FatPin_loop (DirectoryFault (DcbDirectory D)) (StartingVbo + ByteCount) Zero StartingVbo ByteCount (DcbFile D) of
           (None, F) \<Rightarrow> (Inr (), set_DcbFile F D)
         | (Some e, F) \<Rightarrow> (Inl e, set_DcbFile F D)))"

section \<open>Defragmenting a directory\<close>

text \<open>A search answers an entry at or behind the offset it starts from.\<close>

lemma FatLocate_loop_offset:
  "FatLocate_loop calls c Ccb w Dcb b off s = Inr (Some r) \<Longrightarrow> off \<le> LocatedOffset r \<and> LocatedOffset r < AllocationSize Dcb"
proof (induction calls c Ccb w Dcb b off s rule: FatLocate_loop.induct)
  case (1 calls c Ccb w Dcb b off s)
  obtain d where d: "FatReadDirent Dcb off b = Inr (Some d)"
    using 1(2) by (subst (asm) FatLocate_loop.simps) (auto split: sum.splits option.splits)
  then have lt: "off < AllocationSize Dcb" by (auto simp: FatReadDirent_def split: if_splits)
  show ?case
  proof (cases "FatLocate_round calls c Ccb w (lfn_dirent_at (DirectoryFile Dcb) off) d off s")
    case (Inl x)
    then have "FatLocate_round calls c Ccb w (lfn_dirent_at (DirectoryFile Dcb) off) d off s = Inl (Inr (Some r))"
      using 1(2) d by (subst (asm) FatLocate_loop.simps) simp
    then have "LocatedOffset r = off" by (auto simp: FatLocate_round_def Let_def split: if_splits sum.splits)
    then show ?thesis using lt by simp
  next
    case (Inr s')
    have "FatLocate_loop calls c Ccb w Dcb True (off + 32) s' = Inr (Some r)"
      using 1(2) d Inr by (subst (asm) FatLocate_loop.simps) simp
    from 1(1)[OF d _ Inr this] show ?thesis by simp
  qed
qed

lemma FatLocateDirent_offset:
  "FatLocateDirent calls c Ccb w Dcb b off = Inr (Some r) \<Longrightarrow> off \<le> LocatedOffset r \<and> LocatedOffset r < AllocationSize Dcb"
  unfolding FatLocateDirent_def by (drule FatLocate_loop_offset) linarith

abbreviation match_all :: CCB where
  "match_all \<equiv> \<lparr>CcbFlags = CCB_FLAG_MATCH_ALL OR CCB_FLAG_MATCH_VOLUME_ID, ContainsWildCards = False, OemQueryConstant = [],
     OemQueryWild = [], UnicodeQueryTemplate = []\<rparr>"

text \<open>The entries that files and labels use, as ranges: the offset of the first and the bytes.\<close>

function FatDefrag_find :: "NAME_CALLS \<Rightarrow> bool \<Rightarrow> DIRECTORY \<Rightarrow> nat option \<Rightarrow> nat \<Rightarrow> (nat \<times> nat) list \<Rightarrow> ntstatus + (nat \<times> nat) list" where
  "FatDefrag_find calls ChicagoMode Dcb Bcb QueryOffset Runs =
     (case FatLocateDirent calls ChicagoMode match_all True Dcb Bcb QueryOffset of
        Inl e \<Rightarrow> Inl e
      | Inr None \<Rightarrow> Inr Runs
      | Inr (Some found) \<Rightarrow>
          (let FoundOffset = LocatedOffset found;
               LfnByteOffset = FoundOffset - FAT_LFN_DIRENTS_NEEDED (LocatedLongName found) * 32;
               Runs = Runs @ [(LfnByteOffset, FoundOffset - LfnByteOffset + 32)]
           in if FoundOffset + 32 < AllocationSize Dcb
              then FatDefrag_find calls ChicagoMode Dcb (Some FoundOffset) (FoundOffset + 32) Runs
              else Inr Runs))"
  by auto
termination
  by (relation "measure (\<lambda>(calls, c, Dcb, b, q, rs). AllocationSize Dcb - q)") (auto dest: FatLocateDirent_offset)

declare FatDefrag_find.simps [simp del]

text \<open>
  The used entries come first and the unused ones behind them, marked deleted. The Mcb has no
  run for what lies behind the last used entry, which stays as it is.
\<close>

definition used_entries :: "(nat \<times> nat) list \<Rightarrow> nat list" where
  "used_entries Runs = concat (map (\<lambda>(Vbo, BytesUsed). map (\<lambda>k. Vbo + 32 * k) [0..<BytesUsed div 32]) Runs)"

definition unused_entries :: "(nat \<times> nat) list \<Rightarrow> nat list" where
  "unused_entries Runs =
     (if Runs = [] then []
      else filter (\<lambda>a. a \<notin> set (used_entries Runs)) (map (\<lambda>k. 32 * k) [0..<(fst (last Runs) + snd (last Runs)) div 32]))"

definition FatDefrag_copy :: "(nat \<times> nat) list \<Rightarrow> mem \<Rightarrow> mem" where
  "FatDefrag_copy Runs Directory =
     (let Used = used_entries Runs; Unused = unused_entries Runs
      in (\<lambda>b. if b div 32 < length Used then Directory (Used ! (b div 32) + b mod 32)
               else if b div 32 < length Used + length Unused
               then if b mod 32 = 0 then FAT_DIRENT_DELETED else Directory (Unused ! (b div 32 - length Used) + b mod 32)
               else Directory b))"

text \<open>The open files find their entries again, or are marked bad: all of them after a raise.\<close>

fun FatDefrag_fcbs :: "NAME_CALLS \<Rightarrow> bool \<Rightarrow> DIRECTORY \<Rightarrow> bool \<Rightarrow> OPEN_FCB list \<Rightarrow> OPEN_FCB list" where
  "FatDefrag_fcbs calls ChicagoMode Dcb InvalidateFcbs [] = []"
| "FatDefrag_fcbs calls ChicagoMode Dcb InvalidateFcbs (Fcb # Fcbs) =
     (if OpenIsDeleted Fcb then Fcb # FatDefrag_fcbs calls ChicagoMode Dcb InvalidateFcbs Fcbs
      else if InvalidateFcbs then Fcb\<lparr>OpenMarkedBad := True\<rparr> # FatDefrag_fcbs calls ChicagoMode Dcb True Fcbs
      else
        (case FatLocateSimpleOemDirent calls ChicagoMode Dcb (OpenShortName Fcb) of
           Some (Inr (Some found)) \<Rightarrow>
             Fcb\<lparr>DirentOffsetWithinDirectory := LocatedOffset found,
                 LfnOffsetWithinDirectory :=
                   LocatedOffset found - (DirentOffsetWithinDirectory Fcb - LfnOffsetWithinDirectory Fcb)\<rparr>
             # FatDefrag_fcbs calls ChicagoMode Dcb False Fcbs
         | Some (Inr None) \<Rightarrow> Fcb\<lparr>OpenMarkedBad := True\<rparr> # FatDefrag_fcbs calls ChicagoMode Dcb False Fcbs
         | _ \<Rightarrow> Fcb\<lparr>OpenMarkedBad := True\<rparr> # FatDefrag_fcbs calls ChicagoMode Dcb True Fcbs))"

text \<open>
  The result is the index of the first free entry, or None when there are too few. \<open>FlushFails\<close>
  says that writing the directory to the disk raised an expected status. The pages are pinned
  first; a directory of this size is contiguous in its view.
\<close>

definition FatDefragDirectory :: "NAME_CALLS \<Rightarrow> bool \<Rightarrow> (DCB \<Rightarrow> nat \<Rightarrow> ntstatus + nat) \<Rightarrow> bool \<Rightarrow> bool \<Rightarrow> nat \<Rightarrow> (DCB, nat option) fat_op" where
  "FatDefragDirectory calls ChicagoMode FatAddFileAllocation IsFat32 FlushFails DirentsNeeded D =
     (if DcbSize D > 0x40000 then (Inr None, D)
      else
        (case FatDefrag_find calls ChicagoMode (DcbDirectory D) None 0 [] of
           Inl e \<Rightarrow> (Inl e, D)
         | Inr Runs \<Rightarrow>
             (let TotalBytesAllocated = sum_list (map snd Runs)
              in if DirentsNeeded > (DcbSize D - TotalBytesAllocated) div 32 then (Inr None, D)
                 else
                   seq (for_op ((DcbSize D + 4095) div 4096)
                          (\<lambda>Page _ D. FatPrepareWriteDirectoryFile FatAddFileAllocation IsFat32 (unat Page * 4096)
                             (if (unat Page + 1) * 4096 > DcbSize D then DcbSize D - unat Page * 4096 else 4096) False D) 0 ())
                     (\<lambda>_ D.
                        (let n = TotalBytesAllocated div 32;
                             D = set_DcbFile (FatDefrag_copy Runs (DcbFile D)) D;
                             Bits = RtlClearBits (RtlSetBits (FreeDirentBitmap D) 0 (of_nat n)) (of_nat n)
                                      (of_nat ((DcbSize D - TotalBytesAllocated) div 32));
                             D = D\<lparr>FreeDirentBitmap := Bits\<rparr>
                         in (Inr (Some n),
                             D\<lparr>OpenFcbs := FatDefrag_fcbs calls ChicagoMode (DcbDirectory D) FlushFails (OpenFcbs D)\<rparr>))) D)))"

section \<open>Entries for a new file\<close>

text \<open>
  The choice, where a root directory that is full but for fragments is defragmented: the
  offset of the entries, and the first unused entry and the hint afterwards.
\<close>

definition FatPickDirents :: "find_clear_bits \<Rightarrow> (DCB \<Rightarrow> nat \<Rightarrow> ntstatus + nat) \<Rightarrow> (nat \<Rightarrow> (DCB, nat option) fat_op) \<Rightarrow> bool \<Rightarrow> nat \<Rightarrow> bool \<Rightarrow>
    (DCB, nat \<times> nat \<times> nat) fat_op" where
  "FatPickDirents RtlFindClearBits FatAddFileAllocation Defrag IsFat32 DirentsNeeded RescanDir D =
     (let UnusedVbo = UnusedDirentVbo D; DeletedHint = DeletedDirentHint D; Bytes = DirentsNeeded * 32
      in if \<not> RescanDir \<and> UnusedVbo + Bytes \<le> DcbSize D then (Inr (UnusedVbo, UnusedVbo + Bytes, DeletedHint), D)
         else
           (let r = RtlFindClearBits (FreeDirentBitmap D) (of_nat DirentsNeeded) (of_nat (DeletedHint div 32));
                Index = (if r = BITMAP_NOT_FOUND then None else Some (unat r))
            in seq (if \<not> IsFat32 \<and> Index = None \<and> IsRootDcb D \<and> DcbSize D \<le> 0x40000 then Defrag DirentsNeeded else ret Index)
                 (\<lambda>Index D.
                    case Index of
                      Some i \<Rightarrow>
                        (Inr (i * 32,
                              (if i * 32 + Bytes > UnusedVbo then i * 32 + Bytes else UnusedVbo),
                              (if i * 32 = DeletedHint then DeletedHint + Bytes else DeletedHint)), D)
                    | None \<Rightarrow>
                        if DcbSize D \<ge> 64 * 1024 * 32 \<or> \<not> IsFat32 \<and> IsRootDcb D then (Inl STATUS_CANNOT_MAKE, D)
                        else seq (FatPrepareWriteDirectoryFile FatAddFileAllocation IsFat32 (UnusedVbo + Bytes) 1 False)
                               (\<lambda>_. ret (UnusedVbo, UnusedVbo + Bytes, DeletedHint)) D) D))"

text \<open>
  The entry in front of a single new one must not be the orphaned part of a long name. Pinning
  what has just been read does not fail.
\<close>

definition FatDeleteOrphan :: "bool \<Rightarrow> nat \<Rightarrow> nat \<Rightarrow> (DCB, unit) fat_op" where
  "FatDeleteOrphan ChicagoMode DirentsNeeded ByteOffset D =
     (if ChicagoMode \<and> DirentsNeeded = 1 \<and> ByteOffset > (if IsRootDcb D then 0 else 2 * 32)
      then
        (case FatReadDirent (DcbDirectory D) (ByteOffset - 32) False of
           Inl e \<Rightarrow> (Inl e, D)
         | Inr None \<Rightarrow> (Inl STATUS_FILE_CORRUPT_ERROR, D)
         | Inr (Some Dirent) \<Rightarrow>
             if FileName Dirent ! 0 = FAT_DIRENT_NEVER_USED then (Inl STATUS_FILE_CORRUPT_ERROR, D)
             else if Attributes Dirent = FAT_DIRENT_ATTR_LFN \<and> FileName Dirent ! 0 \<noteq> FAT_DIRENT_DELETED
             then (Inr (), (set_DcbFile ((DcbFile D)(ByteOffset - 32 := FAT_DIRENT_DELETED)) D)
                     \<lparr>FreeDirentBitmap := RtlClearBits (FreeDirentBitmap D) (of_nat ((ByteOffset - 32) div 32)) (of_nat DirentsNeeded)\<rparr>)
             else (Inr (), D))
      else (Inr (), D))"

text \<open>The entries must be free.\<close>

fun FatCheckFree :: "DIRECTORY \<Rightarrow> bool \<Rightarrow> nat \<Rightarrow> nat \<Rightarrow> ntstatus option" where
  "FatCheckFree Dcb Bcb ByteOffset 0 = None"
| "FatCheckFree Dcb Bcb ByteOffset (Suc n) =
     (case FatReadDirent Dcb ByteOffset Bcb of
        Inl e \<Rightarrow> Some e
      | Inr None \<Rightarrow> Some STATUS_FILE_CORRUPT_ERROR
      | Inr (Some Dirent) \<Rightarrow>
          if FileName Dirent ! 0 \<noteq> FAT_DIRENT_NEVER_USED \<and> FileName Dirent ! 0 \<noteq> FAT_DIRENT_DELETED
          then Some STATUS_FILE_CORRUPT_ERROR
          else FatCheckFree Dcb True (ByteOffset + 32) n)"

definition FatCreateNewDirent :: "find_clear_bits \<Rightarrow> (DCB \<Rightarrow> nat \<Rightarrow> ntstatus + nat) \<Rightarrow> NAME_CALLS \<Rightarrow> bool \<Rightarrow> bool \<Rightarrow> bool \<Rightarrow> nat \<Rightarrow> bool \<Rightarrow>
    (DCB, nat) fat_op" where
  "FatCreateNewDirent RtlFindClearBits FatAddFileAllocation calls FlushFails IsFat32 ChicagoMode DirentsNeeded RescanDir =
     seq (\<lambda>D. if UnusedDirentVbo D = VBO_UNKNOWN \<or> RescanDir then FatRescanDirectory D else ret () D) (\<lambda>_.
     seq (FatPickDirents RtlFindClearBits FatAddFileAllocation (FatDefragDirectory calls ChicagoMode FatAddFileAllocation IsFat32 FlushFails)
           IsFat32 DirentsNeeded RescanDir) (\<lambda>(ByteOffset, UnusedVbo, DeletedHint).
     seq (FatDeleteOrphan ChicagoMode DirentsNeeded ByteOffset) (\<lambda>_ D.
       (case FatCheckFree (DcbDirectory D) False ByteOffset DirentsNeeded of
          Some e \<Rightarrow> (Inl e, D)
        | None \<Rightarrow>
            (Inr ByteOffset,
             D\<lparr>FreeDirentBitmap := RtlSetBits (FreeDirentBitmap D) (of_nat (ByteOffset div 32)) (of_nat DirentsNeeded),
               UnusedDirentVbo := UnusedVbo,
               DeletedDirentHint := DeletedHint\<rparr>)))))"

section \<open>Deleting the entries of a file\<close>

fun FatDelete_loop :: "(nat \<Rightarrow> (DCB, unit) fat_op) \<Rightarrow> bool \<Rightarrow> nat list \<Rightarrow> (DCB, unit) fat_op" where
  "FatDelete_loop PrepareWrite First [] D = (Inr (), D)"
| "FatDelete_loop PrepareWrite First (Offset # Offsets) D =
     seq (if First \<or> Offset mod 4096 = 0 then PrepareWrite Offset else ret ())
       (\<lambda>_ D. FatDelete_loop PrepareWrite False Offsets (set_DcbFile ((DcbFile D)(Offset := FAT_DIRENT_DELETED)) D)) D"

text \<open>
  The file is given by the offsets of its entries and by whether it has an allocation or a
  size still. The result is the handle of the extended attributes that FatDeleteEa is called
  with, whose errors are ignored. A context of a deletion keeps size and cluster in the entry.
\<close>

definition FatDeleteDirent :: "(DCB \<Rightarrow> nat \<Rightarrow> ntstatus + nat) \<Rightarrow> bool \<Rightarrow> nat \<Rightarrow> nat \<Rightarrow> bool \<Rightarrow> (ULONG \<times> ULONG) option \<Rightarrow> bool \<Rightarrow>
    (DCB, USHORT option) fat_op" where
  "FatDeleteDirent FatAddFileAllocation IsFat32 LfnOffset DirentOffset HasSpace DeleteContext DeleteEa D =
     (if DeleteEa \<and> HasSpace then (Inl (FAT_BUG_CHECK 0 0 0), D)
      else
        seq (FatDelete_loop (\<lambda>Offset. FatPrepareWriteDirectoryFile FatAddFileAllocation IsFat32 Offset 32 False) True
               (map (\<lambda>k. LfnOffset + 32 * k) [0..<(DirentOffset - LfnOffset) div 32 + 1]))
          (\<lambda>_ D.
             (let a = DirentOffset;
                  Ea = get16 (DcbFile D) (a + 20);
                  DirentsToDelete = (DirentOffset - LfnOffset) div 32 + 1;
                  D = D\<lparr>FreeDirentBitmap := RtlClearBits (FreeDirentBitmap D) (of_nat (LfnOffset div 32)) (of_nat DirentsToDelete)\<rparr>;
                  D = (case DeleteContext of
                         None \<Rightarrow> D
                       | Some (Size, Cluster) \<Rightarrow> set_DcbFile (put16 (put32 (DcbFile D) (a + 28) Size) (a + 26) (ucast Cluster)) D);
                  D = (if a < DeletedDirentHint D then D\<lparr>DeletedDirentHint := LfnOffset\<rparr> else D)
              in (Inr (if \<not> IsFat32 \<and> DeleteEa \<and> Ea \<noteq> 0 then Some Ea else None), D))) D)"

end
