(* ===== verification/FatDirAllocated.thy ===== *)
theory FatDirAllocated
  imports FatDirAlloc
begin

unbundle bit_operations_syntax

text \<open>
  The bitmap of a directory against its entries: the scan establishes that they agree, new
  entries are free ones and are reserved, and deleting a file frees its entries.
\<close>

section \<open>The invariant\<close>

definition entry_free :: "mem \<Rightarrow> nat \<Rightarrow> bool" where
  "entry_free F i \<longleftrightarrow> F (32 * i) = FAT_DIRENT_NEVER_USED \<or> F (32 * i) = FAT_DIRENT_DELETED"

text \<open>
  \<open>R\<close> are the entries that are reserved but not written yet. Below the first unused entry none
  was never used, and from there on all are free; the hint is not behind it.
\<close>

definition dir_ok :: "nat set \<Rightarrow> DCB \<Rightarrow> bool" where
  "dir_ok R D \<longleftrightarrow>
     256 dvd DcbSize D \<and> DcbSize D < 2 ^ 31 \<and> length (FreeDirentBitmap D) = DcbSize D div 32 \<and>
     32 dvd UnusedDirentVbo D \<and> UnusedDirentVbo D \<le> DcbSize D \<and>
     32 dvd DeletedDirentHint D \<and> DeletedDirentHint D \<le> UnusedDirentVbo D \<and>
     (\<forall>i. 32 * i < UnusedDirentVbo D \<longrightarrow> DcbFile D (32 * i) \<noteq> FAT_DIRENT_NEVER_USED \<or> i \<in> R) \<and>
     (\<forall>i. UnusedDirentVbo D \<le> 32 * i \<and> 32 * i < DcbSize D \<longrightarrow> entry_free (DcbFile D) i \<and> i \<notin> R) \<and>
     (\<forall>i. 32 * i < DcbSize D \<longrightarrow> FreeDirentBitmap D ! i = (\<not> entry_free (DcbFile D) i \<or> i \<in> R))"

lemma dir_okD:
  assumes "dir_ok R D"
  shows "256 dvd DcbSize D" "DcbSize D < 2 ^ 31" "length (FreeDirentBitmap D) = DcbSize D div 32"
    "32 dvd UnusedDirentVbo D" "UnusedDirentVbo D \<le> DcbSize D" "32 dvd DeletedDirentHint D" "DeletedDirentHint D \<le> UnusedDirentVbo D"
    "32 * i < UnusedDirentVbo D \<Longrightarrow> DcbFile D (32 * i) \<noteq> FAT_DIRENT_NEVER_USED \<or> i \<in> R"
    "UnusedDirentVbo D \<le> 32 * i \<Longrightarrow> 32 * i < DcbSize D \<Longrightarrow> entry_free (DcbFile D) i \<and> i \<notin> R"
    "32 * i < DcbSize D \<Longrightarrow> FreeDirentBitmap D ! i = (\<not> entry_free (DcbFile D) i \<or> i \<in> R)"
  using assms unfolding dir_ok_def by blast+

text \<open>A directory before its first scan: behind the end mark nothing is in use.\<close>

definition dir_new :: "DCB \<Rightarrow> bool" where
  "dir_new D \<longleftrightarrow>
     256 dvd DcbSize D \<and> DcbSize D < 2 ^ 31 \<and> length (FreeDirentBitmap D) = DcbSize D div 32 \<and>
     (\<forall>i j. DcbFile D (32 * i) = FAT_DIRENT_NEVER_USED \<and> i \<le> j \<and> 32 * j < DcbSize D \<longrightarrow> entry_free (DcbFile D) j)"

lemma first_byte: "FileName (dirent_at F a) ! 0 = F a"
  by (simp add: dirent_at_def bytes_at_def)

lemma fill_nth: "StartingIndex < 2 ^ 32 \<Longrightarrow> n < 2 ^ 32 \<Longrightarrow> i < length bm \<Longrightarrow>
    RtlFillBits b bm (of_nat StartingIndex) (of_nat n) ! i = (if StartingIndex \<le> i \<and> i < StartingIndex + n then b else bm ! i)"
  by (simp add: nth_RtlFillBits unat_of_nat_small)

section \<open>The scan\<close>

definition rescan_ok :: "DCB \<Rightarrow> RESCAN \<Rightarrow> bool" where
  "rescan_ok D L \<longleftrightarrow>
     RescanVbo L = 32 * DirentIndex L \<and> 32 * DirentIndex L \<le> DcbSize D \<and> StartIndexOfRun L \<le> DirentIndex L \<and>
     length (RescanBits L) = DcbSize D div 32 \<and>
     (\<forall>i<DirentIndex L. DcbFile D (32 * i) \<noteq> FAT_DIRENT_NEVER_USED) \<and>
     (\<forall>i<StartIndexOfRun L. RescanBits L ! i = (\<not> entry_free (DcbFile D) i)) \<and>
     (\<forall>i. StartIndexOfRun L \<le> i \<and> i < DirentIndex L \<longrightarrow> entry_free (DcbFile D) i = (RescanRun L \<noteq> AllocatedDirents)) \<and>
     (RescanRun L = InitialRun \<longrightarrow> DirentIndex L = 0) \<and>
     (RescanHint L \<noteq> VBO_UNKNOWN \<longrightarrow> 32 dvd RescanHint L \<and> RescanHint L < 32 * DirentIndex L) \<and>
     (\<forall>i<DirentIndex L. entry_free (DcbFile D) i \<longrightarrow> RescanHint L \<noteq> VBO_UNKNOWN \<and> RescanHint L \<le> 32 * i)"

lemma FatRescan_step_fields:
  fixes L d
  defines "r \<equiv> (if d then FreeDirents else AllocatedDirents)"
  defines "switch \<equiv> RescanRun L \<noteq> InitialRun \<and> RescanRun L \<noteq> r"
  shows "RescanVbo (FatRescan_step d L) = RescanVbo L + 32" "DirentIndex (FatRescan_step d L) = DirentIndex L + 1"
    "RescanHint (FatRescan_step d L) = (if d \<and> RescanHint L = VBO_UNKNOWN then RescanVbo L else RescanHint L)"
    "RescanRun (FatRescan_step d L) = r"
    "StartIndexOfRun (FatRescan_step d L) = (if switch then DirentIndex L else StartIndexOfRun L)"
    "RescanBits (FatRescan_step d L) =
       (if switch then RtlFillBits (RescanRun L = AllocatedDirents) (RescanBits L) (of_nat (StartIndexOfRun L)) (of_nat (DirentIndex L - StartIndexOfRun L))
        else RescanBits L)"
  unfolding switch_def r_def by (cases "RescanRun L"; cases d; simp add: FatRescan_step_def Let_def)+

text \<open>Recording a run puts its bits in order.\<close>

lemma rescan_record:
  assumes D: "DcbSize D < 2 ^ 31" and L: "rescan_ok D L" "RescanRun L \<noteq> InitialRun"
  defines "Bits \<equiv> RtlFillBits (RescanRun L = AllocatedDirents) (RescanBits L) (of_nat (StartIndexOfRun L)) (of_nat (DirentIndex L - StartIndexOfRun L))"
  shows "length Bits = DcbSize D div 32" "i < DirentIndex L \<Longrightarrow> Bits ! i = (\<not> entry_free (DcbFile D) i)"
proof -
  have l: "length (RescanBits L) = DcbSize D div 32" and x: "32 * DirentIndex L \<le> DcbSize D" and st: "StartIndexOfRun L \<le> DirentIndex L"
    using L(1) by (simp_all add: rescan_ok_def)
  show "length Bits = DcbSize D div 32" by (simp add: Bits_def l)
  assume i: "i < DirentIndex L"
  have "StartIndexOfRun L < 2 ^ 32" "DirentIndex L - StartIndexOfRun L < 2 ^ 32" "i < length (RescanBits L)"
    using x st D i by (simp_all add: l)
  from fill_nth[OF this] have n: "Bits ! i = (if StartIndexOfRun L \<le> i \<and> i < DirentIndex L then RescanRun L = AllocatedDirents else RescanBits L ! i)"
    using st by (simp add: Bits_def)
  have a: "\<forall>i<StartIndexOfRun L. RescanBits L ! i = (\<not> entry_free (DcbFile D) i)"
    and b: "\<forall>i. StartIndexOfRun L \<le> i \<and> i < DirentIndex L \<longrightarrow> entry_free (DcbFile D) i = (RescanRun L \<noteq> AllocatedDirents)"
    using L(1) unfolding rescan_ok_def by blast+
  show "Bits ! i = (\<not> entry_free (DcbFile D) i)"
  proof (cases "StartIndexOfRun L \<le> i")
    case True
    then show ?thesis using n b i by simp
  next
    case False
    then show ?thesis using n a by simp
  qed
qed

lemma rescan_step:
  assumes D: "256 dvd DcbSize D" "DcbSize D < 2 ^ 31" and L: "rescan_ok D L" "RescanVbo L < DcbSize D"
    and nu: "DcbFile D (RescanVbo L) \<noteq> FAT_DIRENT_NEVER_USED"
  shows "rescan_ok D (FatRescan_step (DcbFile D (RescanVbo L) = FAT_DIRENT_DELETED) L)"
proof -
  define x where "x = DirentIndex L"
  define d where "d \<longleftrightarrow> DcbFile D (32 * x) = FAT_DIRENT_DELETED"
  have v: "RescanVbo L = 32 * x" and st: "StartIndexOfRun L \<le> x" using L(1) by (simp_all add: rescan_ok_def x_def)
  have fx: "entry_free (DcbFile D) x = d" using nu v by (simp add: entry_free_def d_def)
  obtain q where "DcbSize D = 256 * q" using D(1) by blast
  then have up: "32 * (x + 1) \<le> DcbSize D" using L(2) v by simp
  let ?r = "if d then FreeDirents else AllocatedDirents"
  define L1 where "L1 = FatRescan_step d L"
  note fields = FatRescan_step_fields[of d L, folded L1_def x_def]
  have nz: "\<forall>i<x. DcbFile D (32 * i) \<noteq> FAT_DIRENT_NEVER_USED" and l: "length (RescanBits L) = DcbSize D div 32"
    and a: "\<forall>i<StartIndexOfRun L. RescanBits L ! i = (\<not> entry_free (DcbFile D) i)"
    and b: "\<forall>i. StartIndexOfRun L \<le> i \<and> i < x \<longrightarrow> entry_free (DcbFile D) i = (RescanRun L \<noteq> AllocatedDirents)"
    and ini: "RescanRun L = InitialRun \<longrightarrow> x = 0" and h: "RescanHint L \<noteq> VBO_UNKNOWN \<longrightarrow> 32 dvd RescanHint L \<and> RescanHint L < 32 * x"
    and hf: "\<forall>i<x. entry_free (DcbFile D) i \<longrightarrow> RescanHint L \<noteq> VBO_UNKNOWN \<and> RescanHint L \<le> 32 * i"
    using L(1) unfolding rescan_ok_def x_def by blast+
  have nz1: "\<forall>i<x + 1. DcbFile D (32 * i) \<noteq> FAT_DIRENT_NEVER_USED" using nz nu v by (auto simp: less_Suc_eq)
  have h1: "RescanHint L1 \<noteq> VBO_UNKNOWN \<longrightarrow> 32 dvd RescanHint L1 \<and> RescanHint L1 < 32 * (x + 1)"
    using h v by (auto simp: fields(3))
  have hf1: "\<forall>i<x + 1. entry_free (DcbFile D) i \<longrightarrow> RescanHint L1 \<noteq> VBO_UNKNOWN \<and> RescanHint L1 \<le> 32 * i"
  proof (intro allI impI)
    fix i assume i: "i < x + 1" "entry_free (DcbFile D) i"
    have nk: "32 * x \<noteq> VBO_UNKNOWN" by presburger
    show "RescanHint L1 \<noteq> VBO_UNKNOWN \<and> RescanHint L1 \<le> 32 * i"
    proof (cases "i = x")
      case True
      then have d using fx i(2) by simp
      then show ?thesis using True v nk h by (auto simp: fields(3))
    next
      case False
      then show ?thesis using hf i by (auto simp: fields(3))
    qed
  qed
  have rest: "length (RescanBits L1) = DcbSize D div 32 \<and> StartIndexOfRun L1 \<le> x + 1 \<and>
      (\<forall>i<StartIndexOfRun L1. RescanBits L1 ! i = (\<not> entry_free (DcbFile D) i)) \<and>
      (\<forall>i. StartIndexOfRun L1 \<le> i \<and> i < x + 1 \<longrightarrow> entry_free (DcbFile D) i = d)"
  proof (cases "RescanRun L \<noteq> InitialRun \<and> RescanRun L \<noteq> ?r")
    case True
    note rec = rescan_record[OF D(2) L(1), folded x_def]
    have "entry_free (DcbFile D) i = d" if "x \<le> i" "i < x + 1" for i using that fx by (cases "i = x") simp_all
    then show ?thesis using rec True by (simp add: fields(5,6))
  next
    case False
    have "entry_free (DcbFile D) i = d" if "StartIndexOfRun L \<le> i" "i < x + 1" for i
    proof (cases "i = x")
      case False
      then have "i < x" using that(2) by simp
      then have "RescanRun L = ?r" using \<open>\<not> (RescanRun L \<noteq> InitialRun \<and> RescanRun L \<noteq> ?r)\<close> ini by auto
      then show ?thesis using b that(1) \<open>i < x\<close> by (auto split: if_splits)
    qed (simp add: fx)
    then show ?thesis unfolding fields(5,6) if_not_P[OF False] using st l a by simp
  qed
  have "rescan_ok D L1"
    unfolding rescan_ok_def fields(1,2,4)
    using v up nz1 h1 hf1 rest by (auto split: if_splits)
  then show ?thesis unfolding L1_def d_def v .
qed

lemma FatRescan_loop_outcome:
  assumes D: "256 dvd DcbSize D" "DcbSize D < 2 ^ 31" and r: "readable (DcbDirectory D)" and L: "rescan_ok D L"
  shows "\<exists>L'. FatRescan_loop (DcbDirectory D) b L = (None, L') \<and> rescan_ok D L' \<and>
    (RescanVbo L' = DcbSize D \<or> RescanVbo L' < DcbSize D \<and> DcbFile D (RescanVbo L') = FAT_DIRENT_NEVER_USED)"
  using L
proof (induction "DcbDirectory D" b L rule: FatRescan_loop.induct)
  case (1 b L)
  have le: "RescanVbo L \<le> DcbSize D" using 1(2) by (simp add: rescan_ok_def)
  note rd = FatReadDirent_readable[OF r, of "RescanVbo L" b]
  show ?case
  proof (cases "RescanVbo L < DcbSize D")
    case False
    then have "FatReadDirent (DcbDirectory D) (RescanVbo L) b = Inr None" using rd by simp
    then have "FatRescan_loop (DcbDirectory D) b L = (None, L)" by (subst FatRescan_loop.simps) simp
    then show ?thesis using 1(2) le False by simp
  next
    case True
    show ?thesis
    proof (cases "DcbFile D (RescanVbo L) = FAT_DIRENT_NEVER_USED")
      case True
      then show ?thesis using 1(2) \<open>RescanVbo L < DcbSize D\<close> by (subst FatRescan_loop.simps) (simp add: rd first_byte)
    next
      case False
      let ?L = "FatRescan_step (DcbFile D (RescanVbo L) = FAT_DIRENT_DELETED) L"
      have "FatRescan_loop (DcbDirectory D) b L = FatRescan_loop (DcbDirectory D) True ?L"
        using False True by (subst FatRescan_loop.simps) (simp add: rd first_byte)
      moreover have "rescan_ok D ?L" by (rule rescan_step[OF D 1(2) True False])
      ultimately show ?thesis using 1(1)[of "Some (dirent_at (DcbFile D) (RescanVbo L))"] False True by (simp add: rd first_byte)
    qed
  qed
qed

lemma dir_ok_new: "dir_ok {} D \<Longrightarrow> dir_new D"
  unfolding dir_ok_def dir_new_def
  by (metis (no_types, lifting) emptyE le_trans linorder_not_less mult_le_mono2)

lemma FatRescanDirectory_outcome:
  assumes new: "dir_new D" and r: "readable (DcbDirectory D)"
  shows "\<exists>D'. FatRescanDirectory D = (Inr (), D') \<and> dir_ok {} D' \<and>
    (\<forall>i. 32 * i < DeletedDirentHint D' \<longrightarrow> \<not> entry_free (DcbFile D') i) \<and>
    (UnusedDirentVbo D' < DcbSize D' \<longrightarrow> DcbFile D' (UnusedDirentVbo D') = FAT_DIRENT_NEVER_USED) \<and>
    DcbDirectory D' = DcbDirectory D \<and> IsRootDcb D' = IsRootDcb D \<and> OpenFcbs D' = OpenFcbs D"
proof -
  have D: "256 dvd DcbSize D" "DcbSize D < 2 ^ 31" and l: "length (FreeDirentBitmap D) = DcbSize D div 32"
    and clean: "\<And>i j. DcbFile D (32 * i) = FAT_DIRENT_NEVER_USED \<Longrightarrow> i \<le> j \<Longrightarrow> 32 * j < DcbSize D \<Longrightarrow> entry_free (DcbFile D) j"
    using new unfolding dir_new_def by blast+
  let ?L0 = "\<lparr>RescanVbo = 0, RescanHint = VBO_UNKNOWN, DirentIndex = 0, StartIndexOfRun = 0, RescanRun = InitialRun,
              RescanBits = FreeDirentBitmap D\<rparr>"
  have "rescan_ok D ?L0" by (simp add: rescan_ok_def l)
  from FatRescan_loop_outcome[OF D r this, of False] obtain L where
    loop: "FatRescan_loop (DcbDirectory D) False ?L0 = (None, L)" and L: "rescan_ok D L"
    and e: "RescanVbo L = DcbSize D \<or> RescanVbo L < DcbSize D \<and> DcbFile D (RescanVbo L) = FAT_DIRENT_NEVER_USED" by blast
  define x where "x = DirentIndex L"
  have v: "RescanVbo L = 32 * x" and xle: "32 * x \<le> DcbSize D" and st: "StartIndexOfRun L \<le> x" and lb: "length (RescanBits L) = DcbSize D div 32"
    and nz: "\<forall>i<x. DcbFile D (32 * i) \<noteq> FAT_DIRENT_NEVER_USED"
    and ini: "RescanRun L = InitialRun \<longrightarrow> x = 0" and h: "RescanHint L \<noteq> VBO_UNKNOWN \<longrightarrow> 32 dvd RescanHint L \<and> RescanHint L < 32 * x"
    and hf: "\<forall>i<x. entry_free (DcbFile D) i \<longrightarrow> RescanHint L \<noteq> VBO_UNKNOWN \<and> RescanHint L \<le> 32 * i"
    using L unfolding rescan_ok_def x_def by blast+
  obtain q where q: "DcbSize D = 256 * q" using D(1) by blast
  define B1 where "B1 = RtlFillBits (RescanRun L = AllocatedDirents) (RescanBits L) (of_nat (StartIndexOfRun L)) (of_nat (x - StartIndexOfRun L))"
  have B1: "length B1 = DcbSize D div 32" "\<And>i. i < x \<Longrightarrow> B1 ! i = (\<not> entry_free (DcbFile D) i)"
  proof -
    show "length B1 = DcbSize D div 32" by (simp add: B1_def lb)
    show "B1 ! i = (\<not> entry_free (DcbFile D) i)" if i: "i < x" for i
    proof -
      have "RescanRun L \<noteq> InitialRun" using ini i by auto
      then show ?thesis using rescan_record(2)[OF D(2) L, of i] i unfolding B1_def x_def by blast
    qed
  qed
  have run: "(if RescanRun L = FreeDirents \<or> RescanRun L = InitialRun
              then RtlClearBits (RescanBits L) (of_nat (StartIndexOfRun L)) (of_nat (x - StartIndexOfRun L))
              else RtlSetBits (RescanBits L) (of_nat (StartIndexOfRun L)) (of_nat (x - StartIndexOfRun L))) = B1"
    by (cases "RescanRun L") (simp_all add: B1_def)
  define B2 where "B2 = (if 32 * x < DcbSize D then RtlClearBits B1 (of_nat x) (of_nat ((DcbSize D - 32 * x) div 32)) else B1)"
  define D' where "D' = D\<lparr>FreeDirentBitmap := B2, UnusedDirentVbo := 32 * x,
     DeletedDirentHint := (if RescanHint L = VBO_UNKNOWN then 32 * x else RescanHint L)\<rparr>"
  have res: "FatRescanDirectory D = (Inr (), D')"
    unfolding FatRescanDirectory_def loop prod.case option.case Let_def v x_def[symmetric] run D'_def B2_def by simp
  have free: "entry_free (DcbFile D) i" if "32 * x \<le> 32 * i" "32 * i < DcbSize D" for i
    using e clean[of x i] that v by auto
  have B2: "length B2 = DcbSize D div 32" by (simp add: B2_def B1)
  have bits: "B2 ! i = (\<not> entry_free (DcbFile D) i)" if i: "32 * i < DcbSize D" for i
  proof (cases "i < x")
    case True
    have "x < 2 ^ 32" "(DcbSize D - 32 * x) div 32 < 2 ^ 32" "i < length B1" using xle D(2) i q by (simp_all add: B1)
    from fill_nth[OF this] show ?thesis using True B1(2)[OF True] by (simp add: B2_def)
  next
    case False
    then have lt: "32 * x < DcbSize D" using i by simp
    have "x < 2 ^ 32" "(DcbSize D - 32 * x) div 32 < 2 ^ 32" "i < length B1" using xle D(2) i q by (simp_all add: B1)
    moreover have "(DcbSize D - 32 * x) div 32 = 8 * q - x"
    proof -
      have "DcbSize D - 32 * x = 32 * (8 * q - x)" using q by (simp add: right_diff_distrib')
      then show ?thesis by simp
    qed
    ultimately have "\<not> B2 ! i" using fill_nth[of x "8 * q - x" i B1 False] False lt i q by (simp add: B2_def)
    then show ?thesis using free[of i] False i by simp
  qed
  have "dir_ok {} D'"
    unfolding dir_ok_def D'_def using D B2 bits xle nz h free by auto
  moreover have "\<not> entry_free (DcbFile D) i" if "32 * i < (if RescanHint L = VBO_UNKNOWN then 32 * x else RescanHint L)" for i
  proof (cases "RescanHint L = VBO_UNKNOWN")
    case True
    then show ?thesis using that hf by auto
  next
    case False
    then have "32 * i < RescanHint L" "RescanHint L < 32 * x" using that h by simp_all
    then show ?thesis using hf[rule_format, of i] by auto
  qed
  ultimately show ?thesis using res e v by (intro exI[of _ D']) (auto simp: D'_def)
qed

section \<open>Growing\<close>

lemma zero_bytes_append: "zero_bytes (a + n) m (zero_bytes a n F) = zero_bytes a (n + m) F"
  by (auto simp: zero_bytes_def fun_eq_iff)

lemma zero_bytes_0 [simp]: "zero_bytes a 0 F = F"
  by (auto simp: zero_bytes_def fun_eq_iff)

lemma BytesToPin_le: "0 < n \<Longrightarrow> BytesToPin Request Vbo n \<le> n"
proof -
  assume n0: "0 < n"
  have "g - Vbo mod g \<le> n" if "0 < g" "Vbo div g \<noteq> (Vbo + n - 1) div g" for g
  proof (rule ccontr)
    assume "\<not> ?thesis"
    then have n: "Vbo mod g + n < g" by simp
    have e: "Vbo + n - 1 = (Vbo mod g + (n - 1)) + g * (Vbo div g)" using n0 mult_div_mod_eq[of g Vbo] by linarith
    have "((Vbo mod g + (n - 1)) + g * (Vbo div g)) div g = Vbo div g + (Vbo mod g + (n - 1)) div g"
      using that(1) by (intro div_mult_self2) simp
    also have "\<dots> = Vbo div g" using n n0 by simp
    finally have "(Vbo + n - 1) div g = Vbo div g" by (simp only: e)
    then show False using that(2) by simp
  qed
  then show ?thesis by (simp add: BytesToPin_def Let_def)
qed

lemma FatPin_loop_readable:
  "Fault = (\<lambda>_. None) \<Longrightarrow> FatPin_loop Fault Request Zero Vbo n F = (None, if Zero then zero_bytes Vbo n F else F)"
proof (induction Fault Request Zero Vbo n F rule: FatPin_loop.induct)
  case (1 Fault Request Zero Vbo n F)
  show ?case
  proof (cases "n = 0")
    case True
    then show ?thesis by (subst FatPin_loop.simps) simp
  next
    case False
    define k where "k = BytesToPin Request Vbo n"
    have k: "n = k + (n - k)" using BytesToPin_le[of n Request Vbo] False by (simp add: k_def)
    have "FatPin_loop Fault Request Zero Vbo n F = FatPin_loop Fault Request Zero (Vbo + k) (n - k) (if Zero then zero_bytes Vbo k F else F)"
      using False 1(2) by (subst FatPin_loop.simps) (simp add: k_def)
    also have "\<dots> = (None, if Zero then zero_bytes Vbo n F else F)"
      using 1(1)[OF False _ 1(2), folded k_def] 1(2) k zero_bytes_append[of Vbo k "n - k" F] by simp
    finally show ?thesis .
  qed
qed

text \<open>A directory that has been extended is in order: the new entries were never used.\<close>

lemma dir_ok_grow:
  assumes ok: "dir_ok {} D" and s: "DcbSize D \<le> s" "256 dvd s" "s < 2 ^ 31"
  defines "D' \<equiv> set_DcbFile (zero_bytes (DcbSize D) (s - DcbSize D) (DcbFile D))
     (FatCheckFreeDirentBitmap (D\<lparr>DcbDirectory := DcbDirectory D\<lparr>AllocationSize := s\<rparr>\<rparr>))"
  shows "dir_ok {} D'" "DcbSize D' = s" "IsRootDcb D' = IsRootDcb D" "readable (DcbDirectory D') = readable (DcbDirectory D)"
    "UnusedDirentVbo D' = UnusedDirentVbo D" "DeletedDirentHint D' = DeletedDirentHint D"
    "b < DcbSize D \<Longrightarrow> DcbFile D' b = DcbFile D b"
proof -
  obtain p where p: "DcbSize D = 256 * p" using ok unfolding dir_ok_def by blast
  obtain q where q: "s = 256 * q" using s(2) by blast
  have pq: "p \<le> q" using s(1) p q by simp
  have l: "length (FreeDirentBitmap D) = 8 * p" using ok p by (simp add: dir_ok_def)
  have len: "DcbSize D div 32 = 8 * p" "s div 32 = 8 * q" using p q by simp_all
  have bm: "FreeDirentBitmap D' = FreeDirentBitmap D @ replicate (8 * q - 8 * p) False"
    using pq by (simp add: D'_def FatCheckFreeDirentBitmap_def set_DcbFile_def l len Let_def)
  show size: "DcbSize D' = s" and "IsRootDcb D' = IsRootDcb D" and "readable (DcbDirectory D') = readable (DcbDirectory D)"
    and u: "UnusedDirentVbo D' = UnusedDirentVbo D" and h: "DeletedDirentHint D' = DeletedDirentHint D"
    by (simp_all add: D'_def FatCheckFreeDirentBitmap_def set_DcbFile_def Let_def readable_def)
  have f: "DcbFile D' = zero_bytes (DcbSize D) (s - DcbSize D) (DcbFile D)"
    by (simp add: D'_def set_DcbFile_def)
  show "b < DcbSize D \<Longrightarrow> DcbFile D' b = DcbFile D b" by (simp add: f zero_bytes_def)
  have old: "DcbFile D' (32 * i) = DcbFile D (32 * i)" if "32 * i < DcbSize D" for i using that by (simp add: f zero_bytes_def)
  have new: "DcbFile D' (32 * i) = FAT_DIRENT_NEVER_USED" if "DcbSize D \<le> 32 * i" "32 * i < s" for i
    using that by (simp add: f zero_bytes_def)
  have free: "entry_free (DcbFile D') i = (if 32 * i < DcbSize D then entry_free (DcbFile D) i else True)" if "32 * i < s" for i
    using old[of i] new[of i] that by (auto simp: entry_free_def)
  have bits: "FreeDirentBitmap D' ! i = (\<not> entry_free (DcbFile D') i)" if "32 * i < s" for i
  proof (cases "32 * i < DcbSize D")
    case True
    then show ?thesis using ok free[OF that] unfolding bm dir_ok_def by (simp add: nth_append l p)
  next
    case False
    then show ?thesis using free[OF that] that unfolding bm by (simp add: nth_append l p q)
  qed
  have lt: "DcbFile D' (32 * i) \<noteq> FAT_DIRENT_NEVER_USED" if "32 * i < UnusedDirentVbo D" for i
    using that ok old[of i] by (auto simp: dir_ok_def)
  have ge: "entry_free (DcbFile D') i" if "UnusedDirentVbo D \<le> 32 * i" "32 * i < s" for i
    using that ok free[of i] by (auto simp: dir_ok_def)
  have "length (FreeDirentBitmap D') = s div 32" unfolding bm using pq by (simp add: l q)
  then show "dir_ok {} D'"
    unfolding dir_ok_def size u h using ok s bits lt ge by (auto simp: dir_ok_def)
qed

section \<open>Choosing entries\<close>

text \<open>RtlFindClearBits looks from the hint on first, and answers the first run it finds.\<close>

definition find_first_ok :: "find_clear_bits \<Rightarrow> bool" where
  "find_first_ok F \<longleftrightarrow> find_clear_ok F \<and>
     (\<forall>bm n hint i. 0 < n \<and> length bm < 2 ^ 32 - 1 \<and> clear_run bm i (unat n) \<and> unat hint \<le> i \<longrightarrow> unat (F bm n hint) \<le> i)"

text \<open>Entries chosen for a new file: free ones, with none that was never used in front of them.\<close>

definition chosen :: "DCB \<Rightarrow> nat \<Rightarrow> nat \<Rightarrow> bool" where
  "chosen D n off \<longleftrightarrow> 32 dvd off \<and> off + 32 * n \<le> DcbSize D \<and> off \<le> UnusedDirentVbo D \<and>
     (\<forall>i. off div 32 \<le> i \<and> i < off div 32 + n \<longrightarrow> entry_free (DcbFile D) i)"

lemma unused_free:
  assumes "dir_ok R D" "UnusedDirentVbo D + 32 * n \<le> DcbSize D"
  shows "chosen D n (UnusedDirentVbo D)"
proof -
  obtain u where u: "UnusedDirentVbo D = 32 * u" using assms(1) unfolding dir_ok_def by blast
  have "entry_free (DcbFile D) i" if "u \<le> i" "i < u + n" for i
  proof -
    have "32 * u \<le> 32 * i \<and> 32 * i < DcbSize D" using that assms(2) u by simp
    then show ?thesis using assms(1) u unfolding dir_ok_def by auto
  qed
  then show ?thesis using assms u by (simp add: chosen_def)
qed

lemma unused_clear:
  assumes ok: "dir_ok {} D" and f: "UnusedDirentVbo D + 32 * n \<le> DcbSize D" and u: "UnusedDirentVbo D = 32 * u"
  shows "clear_run (FreeDirentBitmap D) u n"
  unfolding clear_run_def
proof (intro conjI allI impI)
  note d = dir_okD[OF ok]
  show "u + n \<le> length (FreeDirentBitmap D)" using f u d(3) by simp
  show "\<not> FreeDirentBitmap D ! (u + j)" if "j < n" for j
  proof -
    have "32 * (u + j) < DcbSize D" using that f u by simp
    then show ?thesis using d(10)[of "u + j"] d(9)[of "u + j"] u by simp
  qed
qed

lemma unat_dirents: "0 < n \<Longrightarrow> n < 2 ^ 32 \<Longrightarrow> unat (of_nat n :: ULONG) = n \<and> 0 < (of_nat n :: ULONG)"
proof -
  assume n: "0 < n" "n < 2 ^ 32"
  have u: "unat (of_nat n :: ULONG) = n" using n(2) by (simp add: unat_of_nat_small)
  then have "(of_nat n :: ULONG) \<noteq> 0" using n(1) by (metis neq0_conv unat_0)
  then show ?thesis using u by (simp add: word_neq_0_conv)
qed

lemma set_DcbFile_same [simp]: "set_DcbFile (DcbFile D) D = D"
  by (simp add: set_DcbFile_def)

lemma FatPrepareWriteDirectoryFile_readable:
  assumes r: "readable (DcbDirectory D)"
  shows "FatPrepareWriteDirectoryFile A f v n False D =
    (if v + n \<le> DcbSize D then (Inr (), D)
     else if IsRootDcb D \<and> \<not> f then (Inl STATUS_DISK_FULL, D)
     else case A D (v + n) of
            Inl e \<Rightarrow> (Inl e, D)
          | Inr s \<Rightarrow> (Inr (), set_DcbFile (zero_bytes (DcbSize D) (s - DcbSize D) (DcbFile D))
                             (FatCheckFreeDirentBitmap (D\<lparr>DcbDirectory := DcbDirectory D\<lparr>AllocationSize := s\<rparr>\<rparr>))))"
  using r by (simp add: FatPrepareWriteDirectoryFile_def FatPin_loop_readable readable_def Let_def split: sum.splits)

lemma find_run:
  assumes ok: "dir_ok {} D" and F: "find_first_ok F" and n: "0 < n" "n < 2 ^ 32"
    and r: "F (FreeDirentBitmap D) (of_nat n) (of_nat (DeletedDirentHint D div 32)) = r" "r \<noteq> BITMAP_NOT_FOUND"
  shows "chosen D n (unat r * 32)"
proof -
  let ?bm = "FreeDirentBitmap D"
  have l: "length ?bm = DcbSize D div 32" and s: "DcbSize D < 2 ^ 31" and "256 dvd DcbSize D" using ok by (simp_all add: dir_ok_def)
  then obtain q where q: "DcbSize D = 256 * q" by blast
  have un: "unat (of_nat n :: ULONG) = n" and pos: "0 < (of_nat n :: ULONG)" using unat_dirents[OF n] by blast+
  have lb: "length ?bm < 2 ^ 32 - 1" using l s by simp
  have c: "clear_run ?bm (unat r) n"
    using F[unfolded find_first_ok_def, THEN conjunct1, unfolded find_clear_ok_def, rule_format, of "of_nat n" ?bm "of_nat (DeletedDirentHint D div 32)"]
      pos lb r un by (simp add: Let_def)
  have bit: "?bm ! i = (\<not> entry_free (DcbFile D) i)" if "i < length ?bm" for i
    using ok that l q by (simp add: dir_ok_def)
  have free: "entry_free (DcbFile D) i" if "unat r \<le> i" "i < unat r + n" for i
  proof -
    obtain j where j: "i = unat r + j" "j < n" using \<open>unat r \<le> i\<close> \<open>i < unat r + n\<close> by (metis le_Suc_ex nat_add_left_cancel_less)
    then have "\<not> ?bm ! i" "i < length ?bm" using c unfolding clear_run_def by auto
    then show ?thesis using bit[of i] by simp
  qed
  have fit: "unat r + n \<le> length ?bm" using c by (simp add: clear_run_def)
  have le: "unat r * 32 \<le> UnusedDirentVbo D"
  proof (cases "UnusedDirentVbo D + 32 * n \<le> DcbSize D")
    case False
    then show ?thesis using fit l q by simp
  next
    case True
    obtain u where u: "UnusedDirentVbo D = 32 * u" using ok unfolding dir_ok_def by blast
    have "DeletedDirentHint D div 32 \<le> 32 * u div 32" using dir_okD(7)[OF ok] u by (intro div_le_mono) simp
    then have h: "DeletedDirentHint D div 32 \<le> u" by simp
    have "u < 2 ^ 32" using True u s by simp
    then have uh: "unat (of_nat (DeletedDirentHint D div 32) :: ULONG) \<le> u" using h by (simp add: unat_of_nat_small)
    have "clear_run ?bm u n" by (rule unused_clear[OF ok True u])
    then have "unat r \<le> u"
      using F[unfolded find_first_ok_def, THEN conjunct2, rule_format, of "of_nat n" ?bm u "of_nat (DeletedDirentHint D div 32)"]
        pos lb un uh r(1) by simp
    then show ?thesis using u by simp
  qed
  show ?thesis unfolding chosen_def using free fit l q le by simp
qed

text \<open>Room for \<open>n\<close> new entries: as many free ones in a row.\<close>

definition dir_room :: "DCB \<Rightarrow> nat \<Rightarrow> bool" where
  "dir_room D n \<longleftrightarrow> (\<exists>k\<le>DcbSize D div 32. 32 * (k + n) \<le> DcbSize D \<and> (\<forall>i<n. entry_free (DcbFile D) (k + i)))"

lemma chosen_room:
  assumes "chosen D n off"
  shows "dir_room D n"
proof -
  obtain k where k: "off = 32 * k" using assms unfolding chosen_def by blast
  have "32 * (k + n) \<le> DcbSize D" "\<forall>i<n. entry_free (DcbFile D) (k + i)" using assms by (simp_all add: chosen_def k)
  moreover have "k \<le> DcbSize D div 32" using calculation(1) by simp
  ultimately show ?thesis unfolding dir_room_def by blast
qed

lemma room_clear:
  assumes ok: "dir_ok {} D" and room: "dir_room D n"
  shows "\<exists>k. clear_run (FreeDirentBitmap D) k n"
proof -
  obtain k where k: "32 * (k + n) \<le> DcbSize D" "\<And>i. i < n \<Longrightarrow> entry_free (DcbFile D) (k + i)"
    using room unfolding dir_room_def by blast
  note d = dir_okD[OF ok]
  have "k + n \<le> length (FreeDirentBitmap D)" using k(1) d(3) by simp
  moreover have "\<not> FreeDirentBitmap D ! (k + j)" if "j < n" for j
    using d(10)[of "k + j"] k that by simp
  ultimately show ?thesis unfolding clear_run_def by blast
qed

text \<open>Where there is room, entries are chosen without growing or defragmenting the directory.\<close>

lemma FatPickDirents_room:
  assumes ok: "dir_ok {} D" and F: "find_first_ok F" and n: "0 < n" "n < 2 ^ 31" and room: "dir_room D n"
  shows "\<exists>off U H. FatPickDirents F A Defrag f n rescan D = (Inr (off, U, H), D) \<and> chosen D n off \<and>
    U = max (UnusedDirentVbo D) (off + 32 * n) \<and> 32 dvd H \<and> H \<le> U"
proof -
  note d = dir_okD[OF ok]
  define U0 where "U0 = UnusedDirentVbo D"
  define H0 where "H0 = DeletedDirentHint D"
  define res where "res = F (FreeDirentBitmap D) (of_nat n) (of_nat (H0 div 32))"
  have H: "32 dvd H0" "H0 \<le> U0" using d(6,7) by (simp_all add: H0_def U0_def)
  show ?thesis
  proof (cases "\<not> rescan \<and> U0 + n * 32 \<le> DcbSize D")
    case True
    then have e: "FatPickDirents F A Defrag f n rescan D = (Inr (U0, U0 + n * 32, H0), D)"
      by (simp add: FatPickDirents_def U0_def H0_def Let_def)
    show ?thesis unfolding e using unused_free[OF ok, of n] True H by (simp add: U0_def mult.commute)
  next
    case slow: False
    have found: "res \<noteq> BITMAP_NOT_FOUND"
      using F[unfolded find_first_ok_def, THEN conjunct1, unfolded find_clear_ok_def, rule_format, of "of_nat n" "FreeDirentBitmap D" "of_nat (H0 div 32)"]
        unat_dirents[of n] n d(2,3) room_clear[OF ok room] by (auto simp: Let_def res_def)
    have c: "chosen D n (unat res * 32)"
      by (rule find_run[OF ok F n(1)]) (use n(2) found in \<open>simp_all add: res_def H0_def\<close>)
    let ?H = "if unat res * 32 = H0 then H0 + n * 32 else H0" and ?U = "if unat res * 32 + n * 32 > U0 then unat res * 32 + n * 32 else U0"
    have e: "FatPickDirents F A Defrag f n rescan D = (Inr (unat res * 32, ?U, ?H), D)"
      unfolding FatPickDirents_def Let_def U0_def[symmetric] H0_def[symmetric] res_def[symmetric] if_not_P[OF slow] if_not_P[OF found]
      by (simp add: seq_def ret_def)
    have U: "?U = max U0 (unat res * 32 + 32 * n)" by (simp add: max_def)
    have H': "32 dvd ?H \<and> ?H \<le> ?U" using H by auto
    show ?thesis unfolding e using c U H' by (simp add: U0_def)
  qed
qed

text \<open>Without room the request fails in a directory that may neither grow nor be defragmented.\<close>

lemma FatPickDirents_full:
  assumes ok: "dir_ok {} D" and F: "find_first_ok F" and n: "0 < n" "n < 2 ^ 31" and room: "\<not> dir_room D n"
    and full: "64 * 1024 * 32 \<le> DcbSize D \<or>
      \<not> f \<and> IsRootDcb D \<and> (0x40000 < DcbSize D \<or> Defrag n D = (Inr None, D))"
  shows "FatPickDirents F A Defrag f n rescan D = (Inl STATUS_CANNOT_MAKE, D)"
proof -
  define res where "res = F (FreeDirentBitmap D) (of_nat n) (of_nat (DeletedDirentHint D div 32))"
  have slow: "\<not> (\<not> rescan \<and> UnusedDirentVbo D + n * 32 \<le> DcbSize D)"
    using chosen_room[OF unused_free[OF ok, of n]] room by (auto simp: mult.commute)
  have nf: "res = BITMAP_NOT_FOUND"
  proof (rule ccontr)
    assume "res \<noteq> BITMAP_NOT_FOUND"
    then have "chosen D n (unat res * 32)" by (intro find_run[OF ok F n(1)]) (use n(2) in \<open>simp_all add: res_def\<close>)
    then show False using chosen_room room by blast
  qed
  let ?D = "\<not> f \<and> (None :: nat option) = None \<and> IsRootDcb D \<and> DcbSize D \<le> 0x40000"
  have defrag: "(if ?D then Defrag n else ret None) D = (Inr None, D)" using full by (auto simp: ret_def)
  show ?thesis
    unfolding FatPickDirents_def Let_def res_def[symmetric] if_not_P[OF slow] if_P[OF nf]
    unfolding seq_Inr[of "if ?D then Defrag n else ret None", OF defrag] using full by auto
qed

section \<open>Reserving entries\<close>

definition run_of :: "nat \<Rightarrow> nat \<Rightarrow> nat set" where
  "run_of off n = {off div 32..<off div 32 + n}"

lemma FatDeleteOrphan_outcome:
  assumes ok: "dir_ok {} D" and r: "readable (DcbDirectory D)" and c: "chosen D n off"
  shows "\<exists>D'. FatDeleteOrphan ChicagoMode n off D = (Inr (), D') \<and> dir_ok {} D' \<and> chosen D' n off \<and> readable (DcbDirectory D') \<and>
    DcbSize D' = DcbSize D \<and> UnusedDirentVbo D' = UnusedDirentVbo D \<and> IsRootDcb D' = IsRootDcb D \<and>
    (\<forall>b. DcbFile D' b = DcbFile D b \<or>
       ChicagoMode \<and> n = 1 \<and> b + 32 = off \<and> DcbFile D (b + 11) = FAT_DIRENT_ATTR_LFN \<and> DcbFile D' b = FAT_DIRENT_DELETED)"
proof (cases "ChicagoMode \<and> n = 1 \<and> off > (if IsRootDcb D then 0 else 2 * 32)")
  case False
  then have "FatDeleteOrphan ChicagoMode n off D = (Inr (), D)" unfolding FatDeleteOrphan_def by (rule if_not_P)
  then show ?thesis using ok r c by auto
next
  case True
  note d = dir_okD[OF ok]
  obtain k where k: "off = 32 * k" using c unfolding chosen_def by blast
  have k0: "0 < k" using True k by (cases "IsRootDcb D") simp_all
  define j where "j = k - 1"
  have j: "off - 32 = 32 * j" "off = 32 * (j + 1)" using k k0 by (simp_all add: j_def)
  have U: "off \<le> UnusedDirentVbo D" using c by (simp add: chosen_def)
  have nz: "DcbFile D (32 * j) \<noteq> FAT_DIRENT_NEVER_USED" using d(8)[of j] U j by simp
  have lt: "32 * j < DcbSize D" using U d(5) j by simp
  have rd: "FatReadDirent (DcbDirectory D) (32 * j) False = Inr (Some (dirent_at (DcbFile D) (32 * j)))"
    using FatReadDirent_readable[OF r, of "32 * j" False] lt by simp
  have jj: "32 * j div 32 = j" by simp
  have at: "Attributes (dirent_at (DcbFile D) (32 * j)) = DcbFile D (32 * j + 11)" by (simp add: dirent_at_def)
  let ?orphan = "DcbFile D (32 * j + 11) = FAT_DIRENT_ATTR_LFN \<and> DcbFile D (32 * j) \<noteq> FAT_DIRENT_DELETED"
  let ?D = "(set_DcbFile ((DcbFile D)(32 * j := FAT_DIRENT_DELETED)) D)\<lparr>FreeDirentBitmap := RtlClearBits (FreeDirentBitmap D) (of_nat j) (of_nat n)\<rparr>"
  have e: "FatDeleteOrphan ChicagoMode n off D = (if ?orphan then (Inr (), ?D) else (Inr (), D))"
    unfolding FatDeleteOrphan_def if_P[OF True] j(1) rd sum.case option.case first_byte at jj using nz by simp
  show ?thesis
  proof (cases ?orphan)
    case False
    then show ?thesis using e ok r c by auto
  next
    case orphan: True
    obtain q where q: "DcbSize D = 256 * q" using d(1) by blast
    have j32: "j < 2 ^ 32" using lt d(2) by simp
    define N where "N = ?D"
    have fl: "DcbFile N = (DcbFile D)(32 * j := FAT_DIRENT_DELETED)" and sz: "DcbSize N = DcbSize D"
      and ro: "readable (DcbDirectory N) = readable (DcbDirectory D)" by (simp_all add: N_def set_DcbFile_def readable_def)
    have ot: "UnusedDirentVbo N = UnusedDirentVbo D" "DeletedDirentHint N = DeletedDirentHint D" "IsRootDcb N = IsRootDcb D"
      by (simp_all add: N_def set_DcbFile_def)
    have fr: "entry_free (DcbFile N) i = (i = j \<or> entry_free (DcbFile D) i)" for i by (simp add: fl entry_free_def)
    have len: "length (FreeDirentBitmap N) = DcbSize D div 32" using d(3) by (simp add: N_def)
    have bits: "FreeDirentBitmap N ! i = (\<not> entry_free (DcbFile N) i)" if "32 * i < DcbSize D" for i
    proof -
      have "n < 2 ^ 32" "i < length (FreeDirentBitmap D)" using True that d(3) q by simp_all
      then have "FreeDirentBitmap N ! i = (if j \<le> i \<and> i < j + n then False else FreeDirentBitmap D ! i)"
        using fill_nth[OF j32, of n i "FreeDirentBitmap D" False] by (simp add: N_def)
      then show ?thesis using True d(10)[OF that] by (auto simp: fr)
    qed
    have "dir_ok {} N"
      unfolding dir_ok_def sz ot len using d bits by (auto simp: fl entry_free_def)
    moreover have "chosen N n off" using c unfolding chosen_def sz ot fr by blast
    moreover have "FatDeleteOrphan ChicagoMode n off D = (Inr (), N)" unfolding e if_P[OF orphan] N_def ..
    ultimately show ?thesis using orphan r ro sz ot True j
      by (intro exI[of _ N]) (simp add: fl)
  qed
qed

lemma FatCheckFree_chosen:
  "readable Dcb \<Longrightarrow> \<forall>i. k \<le> i \<and> i < k + n \<longrightarrow> entry_free (DirectoryFile Dcb) i \<Longrightarrow> 32 * (k + n) \<le> AllocationSize Dcb \<Longrightarrow>
   FatCheckFree Dcb b (32 * k) n = None"
proof (induction n arbitrary: k b)
  case (Suc n)
  have "FatCheckFree Dcb True (32 * Suc k) n = None" by (rule Suc.IH) (use Suc.prems in auto)
  moreover have "entry_free (DirectoryFile Dcb) k" using Suc.prems(2) by simp
  ultimately show ?case using Suc.prems(1,3) by (simp add: FatReadDirent_readable first_byte entry_free_def add.commute)
qed simp

lemma dir_ok_reserve:
  assumes ok: "dir_ok {} D" and c: "chosen D n off" and U: "U = max (UnusedDirentVbo D) (off + 32 * n)" and H: "32 dvd H" "H \<le> U"
  shows "dir_ok (run_of off n) (D\<lparr>FreeDirentBitmap := RtlSetBits (FreeDirentBitmap D) (of_nat (off div 32)) (of_nat n),
      UnusedDirentVbo := U, DeletedDirentHint := H\<rparr>)"
proof -
  note d = dir_okD[OF ok]
  obtain k where k: "off = 32 * k" using c unfolding chosen_def by blast
  obtain q where q: "DcbSize D = 256 * q" using d(1) by blast
  have c': "off + 32 * n \<le> DcbSize D" "off \<le> UnusedDirentVbo D" and fr: "\<And>i. k \<le> i \<Longrightarrow> i < k + n \<Longrightarrow> entry_free (DcbFile D) i"
    using c k by (simp_all add: chosen_def)
  have R: "i \<in> run_of off n \<longleftrightarrow> k \<le> i \<and> i < k + n" for i by (simp add: run_of_def k)
  have kn: "k < 2 ^ 32" "n < 2 ^ 32" using c'(1) d(2) k by simp_all
  have bits: "RtlSetBits (FreeDirentBitmap D) (of_nat (off div 32)) (of_nat n) ! i = (\<not> entry_free (DcbFile D) i \<or> i \<in> run_of off n)"
    if "32 * i < DcbSize D" for i
  proof -
    have "i < length (FreeDirentBitmap D)" using that d(3) q by simp
    from fill_nth[OF kn this, of True] show ?thesis using d(10)[OF that] unfolding R by (auto simp: k)
  qed
  have lt: "DcbFile D (32 * i) \<noteq> FAT_DIRENT_NEVER_USED \<or> i \<in> run_of off n" if "32 * i < U" for i
  proof (cases "32 * i < UnusedDirentVbo D")
    case False
    then have "k \<le> i \<and> i < k + n" using that c'(2) k unfolding U by auto
    then show ?thesis unfolding R by blast
  qed (use d(8)[of i] in simp)
  have ge: "entry_free (DcbFile D) i \<and> i \<notin> run_of off n" if "U \<le> 32 * i" "32 * i < DcbSize D" for i
  proof -
    have "\<not> i < k + n" using that(1) k unfolding U by simp
    then show ?thesis using that d(9)[of i] unfolding R U by simp
  qed
  have "32 dvd U" using d(4) k unfolding U by (simp add: max_def)
  moreover have "U \<le> DcbSize D" using d(5) c'(1) unfolding U by simp
  ultimately show ?thesis
    unfolding dir_ok_def using d(1-3) bits lt ge H by simp
qed

text \<open>When the reserved entries are written, the directory is in order again.\<close>

lemma dir_ok_write:
  assumes ok: "dir_ok R D" and o: "\<And>i. i \<notin> R \<Longrightarrow> F (32 * i) = DcbFile D (32 * i)" and w: "\<And>i. i \<in> R \<Longrightarrow> \<not> entry_free F i"
  shows "dir_ok {} (set_DcbFile F D)"
proof -
  note d = dir_okD[OF ok]
  have sz: "DcbSize (set_DcbFile F D) = DcbSize D" "DcbFile (set_DcbFile F D) = F" "UnusedDirentVbo (set_DcbFile F D) = UnusedDirentVbo D"
    "DeletedDirentHint (set_DcbFile F D) = DeletedDirentHint D" "FreeDirentBitmap (set_DcbFile F D) = FreeDirentBitmap D"
    by (simp_all add: set_DcbFile_def)
  have fr: "i \<notin> R \<Longrightarrow> entry_free F i = entry_free (DcbFile D) i" for i using o[of i] by (simp add: entry_free_def)
  have lt: "F (32 * i) \<noteq> FAT_DIRENT_NEVER_USED" if "32 * i < UnusedDirentVbo D" for i
    using d(8)[OF that] o[of i] w[of i] by (cases "i \<in> R") (auto simp: entry_free_def)
  have ge: "entry_free F i" if "UnusedDirentVbo D \<le> 32 * i" "32 * i < DcbSize D" for i
    using d(9)[OF that] fr[of i] by blast
  have bits: "FreeDirentBitmap D ! i = (\<not> entry_free F i)" if "32 * i < DcbSize D" for i
    using d(10)[OF that] fr[of i] w[of i] by (cases "i \<in> R") auto
  show ?thesis unfolding dir_ok_def sz using d(1-7) lt ge bits by simp
qed

end
