(* ===== verification/FatDirReserved.thy ===== *)
theory FatDirReserved
  imports FatDirAllocated
begin

unbundle bit_operations_syntax

text \<open>
  The three operations on the entries of a directory: what the scan, the choice of entries
  for a new file and the deletion of the entries of a file leave in the directory.
\<close>

section \<open>New entries\<close>

definition orphan_of :: "bool \<Rightarrow> nat \<Rightarrow> nat \<Rightarrow> mem \<Rightarrow> nat \<Rightarrow> bool" where
  "orphan_of ChicagoMode n off F b \<longleftrightarrow> ChicagoMode \<and> n = 1 \<and> b + 32 = off \<and> F (b + 11) = FAT_DIRENT_ATTR_LFN"

lemma FatReserve_room:
  assumes ok: "dir_ok {} D" and r: "readable (DcbDirectory D)" and F: "find_first_ok F"
    and n: "0 < n" "n < 2 ^ 31" and room: "dir_room D n"
  shows "\<exists>off D'. seq (FatPickDirents F A Defrag f n rescan) (\<lambda>(ByteOffset, UnusedVbo, DeletedHint).
            seq (FatDeleteOrphan c n ByteOffset) (\<lambda>_ D.
              (case FatCheckFree (DcbDirectory D) False ByteOffset n of
                 Some e \<Rightarrow> (Inl e, D)
               | None \<Rightarrow>
                   (Inr ByteOffset,
                    D\<lparr>FreeDirentBitmap := RtlSetBits (FreeDirentBitmap D) (of_nat (ByteOffset div 32)) (of_nat n),
                      UnusedDirentVbo := UnusedVbo,
                      DeletedDirentHint := DeletedHint\<rparr>)))) D = (Inr off, D') \<and>
        32 dvd off \<and> off + 32 * n \<le> DcbSize D \<and> DcbSize D' = DcbSize D \<and>
        dir_ok (run_of off n) D' \<and> (\<forall>i\<in>run_of off n. entry_free (DcbFile D) i) \<and>
        (\<forall>b. DcbFile D' b = DcbFile D b \<or> orphan_of c n off (DcbFile D) b \<and> DcbFile D' b = FAT_DIRENT_DELETED)"
proof -
  obtain off U H where p: "FatPickDirents F A Defrag f n rescan D = (Inr (off, U, H), D)" and ch: "chosen D n off"
    and U: "U = max (UnusedDirentVbo D) (off + 32 * n)" and H: "32 dvd H" "H \<le> U"
    using FatPickDirents_room[OF ok F n room, of A Defrag f rescan] by blast
  obtain D2 where d: "FatDeleteOrphan c n off D = (Inr (), D2)" "dir_ok {} D2" "chosen D2 n off" "readable (DcbDirectory D2)"
    "DcbSize D2 = DcbSize D" "UnusedDirentVbo D2 = UnusedDirentVbo D"
    and orphan: "\<forall>b. DcbFile D2 b = DcbFile D b \<or>
      c \<and> n = 1 \<and> b + 32 = off \<and> DcbFile D (b + 11) = FAT_DIRENT_ATTR_LFN \<and> DcbFile D2 b = FAT_DIRENT_DELETED"
    using FatDeleteOrphan_outcome[OF ok r ch, of c] by blast
  obtain k where k: "off = 32 * k" using ch unfolding chosen_def by blast
  have fr: "\<forall>i. k \<le> i \<and> i < k + n \<longrightarrow> entry_free (DcbFile D2) i" and le: "32 * (k + n) \<le> DcbSize D2"
    using d(3) by (simp_all add: chosen_def k)
  have chk: "FatCheckFree (DcbDirectory D2) False off n = None" unfolding k by (rule FatCheckFree_chosen[OF d(4) fr le])
  let ?D = "D2\<lparr>FreeDirentBitmap := RtlSetBits (FreeDirentBitmap D2) (of_nat (off div 32)) (of_nat n), UnusedDirentVbo := U, DeletedDirentHint := H\<rparr>"
  have ok': "dir_ok (run_of off n) ?D" by (rule dir_ok_reserve[OF d(2,3)]) (use U H d(6) in simp_all)
  have free: "\<forall>i\<in>run_of off n. entry_free (DcbFile D) i" using ch by (simp add: chosen_def run_of_def k)
  have same: "\<forall>b. DcbFile D2 b = DcbFile D b \<or> orphan_of c n off (DcbFile D) b \<and> DcbFile D2 b = FAT_DIRENT_DELETED"
    using orphan unfolding orphan_of_def by blast
  show ?thesis unfolding seq_Inr[of "FatPickDirents F A Defrag f n rescan", OF p] prod.case
      seq_Inr[of "FatDeleteOrphan c n off", OF d(1)] chk option.case
    using k le ok' free same d(5) by simp
qed

text \<open>
  C8: FatRescanDirectory, on a readable directory in which nothing is in use behind the end
  mark, brings the bitmap in agreement with the entries; the first unused entry is the end mark
  or the end of the directory, and nothing is free in front of the hint.
\<close>

theorem FatRescanDirectory_correct:
  assumes "dir_new D" and "readable (DcbDirectory D)"
  shows "\<exists>D'. FatRescanDirectory D = (Inr (), D') \<and> dir_ok {} D' \<and>
    (\<forall>i. 32 * i < DeletedDirentHint D' \<longrightarrow> \<not> entry_free (DcbFile D') i) \<and>
    (UnusedDirentVbo D' < DcbSize D' \<longrightarrow> DcbFile D' (UnusedDirentVbo D') = FAT_DIRENT_NEVER_USED) \<and>
    DcbDirectory D' = DcbDirectory D \<and> IsRootDcb D' = IsRootDcb D \<and> OpenFcbs D' = OpenFcbs D"
  by (rule FatRescanDirectory_outcome[OF assms])

text \<open>
  Directories that can neither grow nor be made room in by defragmenting them: those of two
  megabytes, and root directories of FAT12 and FAT16 that are too large to be defragmented or
  have too few entries that no file uses.
\<close>

definition dir_full :: "NAME_CALLS \<Rightarrow> bool \<Rightarrow> bool \<Rightarrow> nat \<Rightarrow> DCB \<Rightarrow> bool" where
  "dir_full calls ChicagoMode IsFat32 n D \<longleftrightarrow> 64 * 1024 * 32 \<le> DcbSize D \<or>
     \<not> IsFat32 \<and> IsRootDcb D \<and>
       (0x40000 < DcbSize D \<or>
        (case FatDefrag_find calls ChicagoMode (DcbDirectory D) None 0 [] of
           Inl e \<Rightarrow> False | Inr Runs \<Rightarrow> (DcbSize D - sum_list (map snd Runs)) div 32 < n))"

lemma FatDefragDirectory_full:
  assumes "DcbSize D \<le> 0x40000" "FatDefrag_find calls c (DcbDirectory D) None 0 [] = Inr Runs"
    and "(DcbSize D - sum_list (map snd Runs)) div 32 < n"
  shows "FatDefragDirectory calls c A f fl n D = (Inr None, D)"
  using assms by (simp add: FatDefragDirectory_def Let_def)

text \<open>
  C6: FatCreateNewDirent, on a directory whose pages can be read and whose bitmap and hints are in
  order, or that was not scanned yet and has nothing in use behind its end mark, be it a root or
  not and with any width of the FAT; its size is a multiple of 256 bytes, as with clusters of at
  least that size, and RtlFindClearBits answers the first run from its hint on. When the directory has room - as many free entries in a row - it succeeds:
  it answers such a run, reserves it in the bitmap, and changes no byte of the directory but the
  first one of an orphaned long-name entry in front of a single new entry. When there is no room
  and the directory is full, it raises STATUS_CANNOT_MAKE and leaves the directory in order. The
  requests for which it grows the directory, or defragments a root directory, are not part of this.
\<close>

theorem FatCreateNewDirent_correct:
  assumes "dir_ok {} D \<or> UnusedDirentVbo D = VBO_UNKNOWN \<and> dir_new D" and "readable (DcbDirectory D)"
    and "find_first_ok RtlFindClearBits" and "0 < DirentsNeeded" and "DirentsNeeded < 2 ^ 31"
  shows "(dir_room D DirentsNeeded \<longrightarrow>
       (\<exists>off D'. FatCreateNewDirent RtlFindClearBits FatAddFileAllocation calls FlushFails IsFat32 ChicagoMode DirentsNeeded RescanDir D
            = (Inr off, D') \<and>
          32 dvd off \<and> off + 32 * DirentsNeeded \<le> DcbSize D \<and> DcbSize D' = DcbSize D \<and>
          dir_ok (run_of off DirentsNeeded) D' \<and> (\<forall>i\<in>run_of off DirentsNeeded. entry_free (DcbFile D) i) \<and>
          (\<forall>b. DcbFile D' b = DcbFile D b \<or>
             orphan_of ChicagoMode DirentsNeeded off (DcbFile D) b \<and> DcbFile D' b = FAT_DIRENT_DELETED)))
    \<and> (\<not> dir_room D DirentsNeeded \<and> dir_full calls ChicagoMode IsFat32 DirentsNeeded D \<longrightarrow>
       (\<exists>D'. FatCreateNewDirent RtlFindClearBits FatAddFileAllocation calls FlushFails IsFat32 ChicagoMode DirentsNeeded RescanDir D
            = (Inl STATUS_CANNOT_MAKE, D') \<and> dir_ok {} D' \<and> DcbDirectory D' = DcbDirectory D))"
proof -
  let ?scan = "\<lambda>D. if UnusedDirentVbo D = VBO_UNKNOWN \<or> RescanDir then FatRescanDirectory D else ret () D"
  have "\<exists>D1. ?scan D = (Inr (), D1) \<and> dir_ok {} D1 \<and> DcbDirectory D1 = DcbDirectory D \<and> IsRootDcb D1 = IsRootDcb D"
  proof (cases "UnusedDirentVbo D = VBO_UNKNOWN \<or> RescanDir")
    case True
    then show ?thesis using FatRescanDirectory_outcome[of D] assms(1,2) dir_ok_new[of D] by auto
  next
    case False
    then show ?thesis using assms(1) by (simp add: ret_def)
  qed
  then obtain D1 where D1: "?scan D = (Inr (), D1)" "dir_ok {} D1" "DcbDirectory D1 = DcbDirectory D" "IsRootDcb D1 = IsRootDcb D" by blast
  let ?defrag = "FatDefragDirectory calls ChicagoMode FatAddFileAllocation IsFat32 FlushFails"
  have r: "readable (DcbDirectory D1)" using assms(2) D1(3) by simp
  have room: "dir_room D1 DirentsNeeded = dir_room D DirentsNeeded" by (simp add: dir_room_def D1(3))
  have full: "FatPickDirents RtlFindClearBits FatAddFileAllocation ?defrag IsFat32 DirentsNeeded RescanDir D1 = (Inl STATUS_CANNOT_MAKE, D1)"
    if "\<not> dir_room D DirentsNeeded" "dir_full calls ChicagoMode IsFat32 DirentsNeeded D"
  proof (rule FatPickDirents_full[OF D1(2) assms(3-5)])
    show "\<not> dir_room D1 DirentsNeeded" using that(1) room by simp
    show "64 * 1024 * 32 \<le> DcbSize D1 \<or> \<not> IsFat32 \<and> IsRootDcb D1 \<and> (0x40000 < DcbSize D1 \<or> ?defrag DirentsNeeded D1 = (Inr None, D1))"
      using that(2) FatDefragDirectory_full[of D1 calls ChicagoMode _ DirentsNeeded FatAddFileAllocation IsFat32 FlushFails]
      unfolding dir_full_def D1(3,4)
      by (cases "0x40000 < DcbSize D") (auto split: sum.splits simp: not_less)
  qed
  show ?thesis
    unfolding FatCreateNewDirent_def seq_Inr[of ?scan, OF D1(1)]
  proof (intro conjI impI, goal_cases)
    case 1
    then show ?case using FatReserve_room[OF D1(2) r assms(3-5)] room unfolding D1(3) by blast
  next
    case 2
    then show ?case using full D1(2,3)
      seq_Inl[of "FatPickDirents RtlFindClearBits FatAddFileAllocation ?defrag IsFat32 DirentsNeeded RescanDir"] by blast
  qed
qed

section \<open>Deleting\<close>

lemma FatDelete_loop_readable:
  "readable (DcbDirectory D) \<Longrightarrow> \<forall>a\<in>set Offsets. a + 32 \<le> DcbSize D \<Longrightarrow>
   FatDelete_loop (\<lambda>Offset. FatPrepareWriteDirectoryFile A f Offset 32 False) b Offsets D =
     (Inr (), set_DcbFile (\<lambda>a. if a \<in> set Offsets then FAT_DIRENT_DELETED else DcbFile D a) D)"
proof (induction Offsets arbitrary: b D)
  case (Cons a as)
  let ?D = "set_DcbFile ((DcbFile D)(a := FAT_DIRENT_DELETED)) D"
  have p: "(if b \<or> a mod 4096 = 0 then FatPrepareWriteDirectoryFile A f a 32 False else ret ()) D = (Inr (), D)"
    using FatPrepareWriteDirectoryFile_readable[OF Cons.prems(1), of A f a 32] Cons.prems(2) by (simp add: ret_def)
  have "readable (DcbDirectory ?D)" "\<forall>a\<in>set as. a + 32 \<le> DcbSize ?D" using Cons.prems by (simp_all add: set_DcbFile_def readable_def)
  note ih = Cons.IH[OF this, of False]
  have f: "(\<lambda>x. if x \<in> set as then FAT_DIRENT_DELETED else DcbFile ?D x) = (\<lambda>x. if x \<in> set (a # as) then FAT_DIRENT_DELETED else DcbFile D x)"
    by (auto simp: set_DcbFile_def fun_eq_iff)
  have s: "set_DcbFile G ?D = set_DcbFile G D" for G by (simp add: set_DcbFile_def)
  show ?case unfolding FatDelete_loop.simps seq_Inr[of "if b \<or> a mod 4096 = 0 then FatPrepareWriteDirectoryFile A f a 32 False else ret ()", OF p]
    unfolding ih f s ..
qed (simp add: set_DcbFile_def)

lemma get32_put16_below: "get32 (put16 m (a + 26) v) (a + 28) = get32 m (a + 28)"
  unfolding get32_def by (simp add: get16_put16_other)

lemma dir_ok_delete:
  assumes ok: "dir_ok {} D" and k: "32 * (k + n) \<le> DcbSize D"
    and F: "\<And>i. F (32 * i) = (if k \<le> i \<and> i < k + n then FAT_DIRENT_DELETED else DcbFile D (32 * i))"
    and H: "32 dvd H" "H \<le> UnusedDirentVbo D"
  shows "dir_ok {} (set_DcbFile F (D\<lparr>FreeDirentBitmap := RtlClearBits (FreeDirentBitmap D) (of_nat k) (of_nat n), DeletedDirentHint := H\<rparr>))"
proof -
  define N where "N = set_DcbFile F (D\<lparr>FreeDirentBitmap := RtlClearBits (FreeDirentBitmap D) (of_nat k) (of_nat n), DeletedDirentHint := H\<rparr>)"
  note d = dir_okD[OF ok]
  have N: "DcbFile N = F" "DcbSize N = DcbSize D" "UnusedDirentVbo N = UnusedDirentVbo D" "DeletedDirentHint N = H"
    "FreeDirentBitmap N = RtlClearBits (FreeDirentBitmap D) (of_nat k) (of_nat n)" by (simp_all add: N_def set_DcbFile_def)
  have fr: "entry_free F i = (k \<le> i \<and> i < k + n \<or> entry_free (DcbFile D) i)" for i by (auto simp: entry_free_def F)
  have kn: "k < 2 ^ 32" "n < 2 ^ 32" using k d(2) by simp_all
  obtain q where q: "DcbSize D = 256 * q" using d(1) by blast
  have bits: "RtlClearBits (FreeDirentBitmap D) (of_nat k) (of_nat n) ! i = (\<not> entry_free F i)" if "32 * i < DcbSize D" for i
  proof -
    have "i < length (FreeDirentBitmap D)" using that d(3) q by simp
    from fill_nth[OF kn this, of False] show ?thesis using d(10)[OF that] by (auto simp: fr)
  qed
  have lt: "F (32 * i) \<noteq> FAT_DIRENT_NEVER_USED" if "32 * i < UnusedDirentVbo D" for i using d(8)[OF that] by (simp add: F)
  have ge: "entry_free F i" if "UnusedDirentVbo D \<le> 32 * i" "32 * i < DcbSize D" for i using d(9)[OF that] by (simp add: fr)
  have "dir_ok {} N" unfolding dir_ok_def N using d(1-5) bits lt ge H by simp
  then show ?thesis unfolding N_def .
qed

text \<open>
  C7: FatDeleteDirent marks the entries of the file deleted, frees them in the bitmap, keeps
  every other entry and the invariant, moves the hint back to the entries where they are before
  it, stores size and cluster of the deletion context, and asks for the extended attributes to
  be deleted when the entry has some.
\<close>

theorem FatDeleteDirent_correct:
  fixes LfnOffset DirentOffset
  defines "n \<equiv> (DirentOffset - LfnOffset) div 32 + 1"
  assumes "dir_ok {} D" and "readable (DcbDirectory D)" and "\<not> (DeleteEa \<and> HasSpace)"
    and "32 dvd LfnOffset" and "32 dvd DirentOffset" and "LfnOffset \<le> DirentOffset" and "DirentOffset < DcbSize D"
  shows "case FatDeleteDirent FatAddFileAllocation IsFat32 LfnOffset DirentOffset HasSpace DeleteContext DeleteEa D of
      (Inr Ea, D') \<Rightarrow> dir_ok {} D' \<and> DcbSize D' = DcbSize D \<and> UnusedDirentVbo D' = UnusedDirentVbo D \<and>
        (\<forall>i\<in>run_of LfnOffset n. DcbFile D' (32 * i) = FAT_DIRENT_DELETED) \<and>
        (\<forall>b. b div 32 \<notin> run_of LfnOffset n \<or> DeleteContext = None \<and> b mod 32 \<noteq> 0 \<longrightarrow> DcbFile D' b = DcbFile D b) \<and>
        (\<forall>Size Cluster. DeleteContext = Some (Size, Cluster) \<longrightarrow>
           get32 (DcbFile D') (DirentOffset + 28) = Size \<and> get16 (DcbFile D') (DirentOffset + 26) = ucast Cluster) \<and>
        (DirentOffset < DeletedDirentHint D \<longrightarrow> DeletedDirentHint D' = LfnOffset) \<and>
        Ea = (if \<not> IsFat32 \<and> DeleteEa \<and> get16 (DcbFile D) (DirentOffset + 20) \<noteq> 0 then Some (get16 (DcbFile D) (DirentOffset + 20)) else None)
    | (Inl e, D') \<Rightarrow> False"
proof -
  note d = dir_okD[OF assms(2)]
  obtain k where k: "LfnOffset = 32 * k" using assms(5) by blast
  obtain m where m: "DirentOffset = 32 * m" using assms(6) by blast
  have km: "k \<le> m" and n: "n = m - k + 1" using assms(7) by (simp_all add: n_def k m right_diff_distrib'[symmetric])
  have mn: "k + n = m + 1" using km n by simp
  obtain q where q: "DcbSize D = 256 * q" using d(1) by blast
  have le: "32 * (k + n) \<le> DcbSize D" using assms(8) mn q by (simp add: m)
  define Os where "Os = map (\<lambda>j. LfnOffset + 32 * j) [0..<n]"
  have Os: "a \<in> set Os \<longleftrightarrow> 32 dvd a \<and> k \<le> a div 32 \<and> a div 32 < k + n" for a
  proof
    assume "a \<in> set Os"
    then obtain j where "j < n" "a = 32 * (k + j)" by (auto simp: Os_def k)
    then show "32 dvd a \<and> k \<le> a div 32 \<and> a div 32 < k + n" by simp
  next
    assume h: "32 dvd a \<and> k \<le> a div 32 \<and> a div 32 < k + n"
    then obtain i where "a = 32 * i" by blast
    then have "a = 32 * k + 32 * (i - k)" "i - k < n" using h by auto
    then show "a \<in> set Os" by (auto simp: Os_def k)
  qed
  have rng: "\<forall>a\<in>set Os. a + 32 \<le> DcbSize D"
  proof
    fix a assume "a \<in> set Os"
    then obtain i where "a = 32 * i" "i < k + n" using Os[of a] by auto
    then show "a + 32 \<le> DcbSize D" using le by simp
  qed
  define F where "F = (\<lambda>a. if a \<in> set Os then FAT_DIRENT_DELETED else DcbFile D a)"
  have R: "i \<in> run_of LfnOffset n \<longleftrightarrow> k \<le> i \<and> i < k + n" for i by (simp add: run_of_def k)
  have off: "F (32 * m + j) = DcbFile D (32 * m + j)" if "0 < j" "j < 32" for j
  proof -
    have "\<not> 32 dvd 32 * m + j" using that by presburger
    then show ?thesis unfolding F_def Os by simp
  qed
  define G where "G = (case DeleteContext of None \<Rightarrow> F | Some (Size, Cluster) \<Rightarrow> put16 (put32 F (DirentOffset + 28) Size) (DirentOffset + 26) (ucast Cluster))"
  have G: "G b = F b" if "b < DirentOffset + 26 \<or> DirentOffset + 32 \<le> b" for b
    using that by (auto simp: G_def put16_other put32_other split: option.split)
  have G32: "G (32 * i) = (if k \<le> i \<and> i < k + n then FAT_DIRENT_DELETED else DcbFile D (32 * i))" for i
  proof -
    have "32 * i < 32 * m + 26 \<or> 32 * m + 32 \<le> 32 * i" by presburger
    then show ?thesis using G[of "32 * i"] unfolding F_def Os by (simp add: m)
  qed
  define H where "H = (if DirentOffset < DeletedDirentHint D then LfnOffset else DeletedDirentHint D)"
  have H: "32 dvd H" "H \<le> UnusedDirentVbo D" using d(6,7) assms(5,7) by (auto simp: H_def)
  define N where "N = set_DcbFile G (D\<lparr>FreeDirentBitmap := RtlClearBits (FreeDirentBitmap D) (of_nat k) (of_nat n), DeletedDirentHint := H\<rparr>)"
  have ok: "dir_ok {} N" unfolding N_def by (rule dir_ok_delete[OF assms(2) le G32 H])
  have loop: "FatDelete_loop (\<lambda>Offset. FatPrepareWriteDirectoryFile FatAddFileAllocation IsFat32 Offset 32 False) True Os D = (Inr (), set_DcbFile F D)"
    unfolding F_def by (rule FatDelete_loop_readable[OF assms(3) rng])
  have ea: "get16 F (DirentOffset + 20) = get16 (DcbFile D) (DirentOffset + 20)"
  proof (rule get16_cong)
    have e: "DirentOffset + 20 + 1 = 32 * m + 21" by (simp add: m)
    show "F (DirentOffset + 20) = DcbFile D (DirentOffset + 20)" using off[of 20] by (simp add: m)
    show "F (DirentOffset + 20 + 1) = DcbFile D (DirentOffset + 20 + 1)" unfolding e using off[of 21] by simp
  qed
  let ?Ea = "get16 (DcbFile D) (DirentOffset + 20)"
  have res: "FatDeleteDirent FatAddFileAllocation IsFat32 LfnOffset DirentOffset HasSpace DeleteContext DeleteEa D =
      (Inr (if \<not> IsFat32 \<and> DeleteEa \<and> ?Ea \<noteq> 0 then Some ?Ea else None), N)"
  proof -
    have k': "LfnOffset div 32 = k" by (simp add: k)
    have f: "DcbFile (set_DcbFile F D) = F" by (simp add: set_DcbFile_def)
    show ?thesis
      unfolding FatDeleteDirent_def if_not_P[OF assms(4)] n_def[symmetric] Os_def[symmetric] 
        seq_Inr[of "FatDelete_loop (\<lambda>Offset. FatPrepareWriteDirectoryFile FatAddFileAllocation IsFat32 Offset 32 False) True Os", OF loop] Let_def k' f ea
      by (auto simp: N_def G_def H_def set_DcbFile_def split: option.split)
  qed
  have N: "DcbFile N = G" "DcbSize N = DcbSize D" "UnusedDirentVbo N = UnusedDirentVbo D" "DeletedDirentHint N = H"
    by (simp_all add: N_def set_DcbFile_def)
  have keep: "G b = DcbFile D b" if "b div 32 \<notin> run_of LfnOffset n \<or> DeleteContext = None \<and> b mod 32 \<noteq> 0" for b
  proof (cases "b div 32 \<in> run_of LfnOffset n")
    case True
    then have "DeleteContext = None \<and> b mod 32 \<noteq> 0" using that by blast
    then show ?thesis by (simp add: G_def F_def Os dvd_eq_mod_eq_0)
  next
    case False
    then have "b div 32 \<noteq> m" using mn km unfolding R by auto
    moreover have "b div 32 = m" if "32 * m \<le> b" "b < 32 * Suc m" using that by (intro div_nat_eqI) simp_all
    ultimately have "b < 32 * m \<or> 32 * m + 32 \<le> b" by fastforce
    then show ?thesis using False G[of b] unfolding R F_def Os m by auto
  qed
  have ctx: "get32 G (DirentOffset + 28) = Size \<and> get16 G (DirentOffset + 26) = ucast Cluster"
    if "DeleteContext = Some (Size, Cluster)" for Size Cluster
    by (simp add: G_def that get32_put16_below)
  have del: "\<forall>i\<in>run_of LfnOffset n. G (32 * i) = FAT_DIRENT_DELETED" unfolding Ball_def R G32 by simp
  have hint: "DirentOffset < DeletedDirentHint D \<longrightarrow> H = LfnOffset" by (simp add: H_def)
  show ?thesis unfolding res prod.case sum.case N by (intro conjI allI impI ok refl del hint) (use keep ctx hint in blast)+
qed

section \<open>A small directory\<close>

text \<open>Eight entries of a subdirectory: one in use, one deleted, one in use.\<close>

definition small_dcb :: DCB where
  "small_dcb = \<lparr>DcbDirectory = \<lparr>DirectoryFile = (\<lambda>_. 0)(0 := 65, 32 := FAT_DIRENT_DELETED, 64 := 66), AllocationSize = 256,
      DirectoryFault = \<lambda>_. None\<rparr>,
     IsRootDcb = False, UnusedDirentVbo = VBO_UNKNOWN, DeletedDirentHint = VBO_UNKNOWN, FreeDirentBitmap = replicate 8 False, OpenFcbs = []\<rparr>"

definition small_add :: "DCB \<Rightarrow> nat \<Rightarrow> ntstatus + nat" where
  "small_add D n = (if n \<le> 0x10000 then Inr ((n + 511) div 512 * 512) else Inl STATUS_DISK_FULL)"

lemma first_fit_first: "find_first_ok first_fit"
  unfolding find_first_ok_def
proof (intro conjI allI impI)
  show "find_clear_ok first_fit" by (rule first_fit_ok)
  fix bm :: "bool list" and n hint :: ULONG and i
  assume h: "0 < n \<and> length bm < 2 ^ 32 - 1 \<and> clear_run bm i (unat n) \<and> unat hint \<le> i"
  then have i: "i < length bm" by (simp add: clear_run_def word_less_nat)
  show "unat (first_fit bm n hint) \<le> i"
  proof (cases "first_index (\<lambda>i. clear_run bm i (unat n)) [0..<length bm]")
    case None
    then show ?thesis using h i by (auto simp: first_index_None)
  next
    case (Some j)
    note j = first_index_Some[OF Some]
    have "j \<le> i" using j h i by (metis (no_types, lifting) add_0 length_upt linorder_not_less minus_nat.diff_0 nth_upt)
    moreover have "unat (of_nat j :: ULONG) = j" using \<open>j \<le> i\<close> i h by (intro unat_of_nat_small) simp
    ultimately show ?thesis using Some by (simp add: first_fit_def)
  qed
qed

lemma small_file: "DcbFile small_dcb (32 * i) = (if i = 0 then 65 else if i = 1 then FAT_DIRENT_DELETED else if i = 2 then 66 else 0)"
proof -
  have "32 * i = 32 \<longleftrightarrow> i = 1" "32 * i = 64 \<longleftrightarrow> i = 2" by presburger+
  then show ?thesis by (simp add: small_dcb_def)
qed

lemma small_free: "entry_free (DcbFile small_dcb) i \<longleftrightarrow> i \<noteq> 0 \<and> i \<noteq> 2"
  by (simp add: entry_free_def small_file)

lemma small_new: "dir_new small_dcb" "readable (DcbDirectory small_dcb)"
proof -
  have "2 < i" if "DcbFile small_dcb (32 * i) = FAT_DIRENT_NEVER_USED" for i
    using that unfolding small_file by (auto split: if_splits)
  then have "\<forall>i j. DcbFile small_dcb (32 * i) = FAT_DIRENT_NEVER_USED \<and> i \<le> j \<and> 32 * j < DcbSize small_dcb \<longrightarrow> entry_free (DcbFile small_dcb) j"
    unfolding small_free by fastforce
  moreover have "256 dvd DcbSize small_dcb \<and> DcbSize small_dcb < 2 ^ 31 \<and> length (FreeDirentBitmap small_dcb) = DcbSize small_dcb div 32"
    by (simp add: small_dcb_def)
  ultimately show "dir_new small_dcb" unfolding dir_new_def by blast
  show "readable (DcbDirectory small_dcb)" by (simp add: small_dcb_def readable_def)
qed

theorem FatRescanDirectory_correct_witness:
  "\<exists>D'. FatRescanDirectory small_dcb = (Inr (), D') \<and> dir_ok {} D' \<and> \<not> FreeDirentBitmap D' ! 1 \<and> FreeDirentBitmap D' ! 2"
proof -
  obtain D' where D': "FatRescanDirectory small_dcb = (Inr (), D')" "dir_ok {} D'" "DcbDirectory D' = DcbDirectory small_dcb"
    using FatRescanDirectory_correct[OF small_new] by blast
  have s: "DcbSize D' = 256" using D'(3) by (simp add: small_dcb_def)
  have "FreeDirentBitmap D' ! i = (i = 0 \<or> i = 2)" if "i < 8" for i
    using dir_okD(10)[OF D'(2), of i] that s unfolding D'(3) small_free by auto
  from this[of 1] this[of 2] show ?thesis using D'(1,2) by auto
qed

text \<open>The same directory after a scan.\<close>

definition scanned_dcb :: DCB where
  "scanned_dcb = small_dcb\<lparr>UnusedDirentVbo := 96, DeletedDirentHint := 32,
     FreeDirentBitmap := [True, False, True, False, False, False, False, False]\<rparr>"

lemma scanned_ok: "dir_ok {} scanned_dcb" "readable (DcbDirectory scanned_dcb)"
proof -
  have f: "DcbDirectory scanned_dcb = DcbDirectory small_dcb" "DcbSize small_dcb = 256" by (simp_all add: scanned_dcb_def small_dcb_def)
  show "readable (DcbDirectory scanned_dcb)" unfolding f by (rule small_new(2))
  have "FreeDirentBitmap scanned_dcb ! i = (i = 0 \<or> i = 2)" if "i < 8" for i
    using that by (simp add: scanned_dcb_def less_Suc_eq numeral_eq_Suc) auto
  then have "\<forall>i. 32 * i < 256 \<longrightarrow> FreeDirentBitmap scanned_dcb ! i = (\<not> entry_free (DcbFile small_dcb) i \<or> i \<in> {})"
    unfolding small_free by auto
  moreover have "\<forall>i. 32 * i < 96 \<longrightarrow> DcbFile small_dcb (32 * i) \<noteq> FAT_DIRENT_NEVER_USED \<or> i \<in> {}"
    unfolding small_file by auto
  moreover have "\<forall>i. 96 \<le> 32 * i \<and> 32 * i < 256 \<longrightarrow> entry_free (DcbFile small_dcb) i \<and> i \<notin> {}"
    unfolding small_free by auto
  moreover have "UnusedDirentVbo scanned_dcb = 96" "DeletedDirentHint scanned_dcb = 32" "length (FreeDirentBitmap scanned_dcb) = 8"
    by (simp_all add: scanned_dcb_def)
  ultimately show "dir_ok {} scanned_dcb" unfolding dir_ok_def f by simp
qed

text \<open>As the root directory of a FAT12 or FAT16 volume.\<close>

theorem FatCreateNewDirent_correct_witness:
  "\<exists>off D'. FatCreateNewDirent first_fit small_add letter_calls False False True 2 False (scanned_dcb\<lparr>IsRootDcb := True\<rparr>) = (Inr off, D') \<and>
     32 dvd off \<and> off + 64 \<le> 256 \<and> dir_ok (run_of off 2) D'"
proof -
  let ?D = "scanned_dcb\<lparr>IsRootDcb := True\<rparr>"
  have ok: "dir_ok {} ?D" "readable (DcbDirectory ?D)" using scanned_ok by (simp_all add: dir_ok_def)
  have sz: "DcbSize ?D = 256" "DcbFile ?D = DcbFile small_dcb" by (simp_all add: scanned_dcb_def small_dcb_def)
  have "dir_room ?D 2" unfolding dir_room_def sz small_free by (rule exI[of _ 3]) auto
  then show ?thesis
    using FatCreateNewDirent_correct[OF disjI1[OF ok(1)] ok(2) first_fit_first, of 2 small_add letter_calls False False True False] sz(1) by auto
qed

theorem FatDeleteDirent_correct_witness:
  "case FatDeleteDirent small_add False 64 64 False None True scanned_dcb of
     (Inr Ea, D') \<Rightarrow> dir_ok {} D' \<and> DcbFile D' 64 = FAT_DIRENT_DELETED \<and> DcbFile D' 0 = 65 | (Inl e, D') \<Rightarrow> False"
proof -
  have h: "\<not> (True \<and> False)" "32 dvd (64::nat)" "(64::nat) \<le> 64" "64 < DcbSize scanned_dcb"
    by (simp_all add: scanned_dcb_def small_dcb_def)
  have r: "2 \<in> run_of 64 ((64 - 64) div 32 + 1)" "0 div 32 \<notin> run_of 64 ((64 - 64) div 32 + 1)" by (simp_all add: run_of_def)
  have f: "DcbFile scanned_dcb 0 = 65" by (simp add: scanned_dcb_def small_dcb_def)
  note c = FatDeleteDirent_correct[OF scanned_ok h(1,2,2,3,4), where FatAddFileAllocation = small_add and ?IsFat32.0 = False and DeleteContext = None]
  show ?thesis
  proof (cases "FatDeleteDirent small_add False 64 64 False None True scanned_dcb")
    case (Pair x D')
    then obtain Ea where x: "x = Inr Ea" using c by (cases x) simp_all
    have "dir_ok {} D'" "\<forall>i\<in>run_of 64 ((64 - 64) div 32 + 1). DcbFile D' (32 * i) = FAT_DIRENT_DELETED"
      "\<forall>b. b div 32 \<notin> run_of 64 ((64 - 64) div 32 + 1) \<or> None = None \<and> b mod 32 \<noteq> 0 \<longrightarrow> DcbFile D' b = DcbFile scanned_dcb b"
      using c unfolding Pair x prod.case sum.case by blast+
    then show ?thesis using r f unfolding Pair x prod.case sum.case by fastforce
  qed
qed

end
