(* ===== verification/Spec2Isabelle.thy ===== *)
theory Spec2Isabelle
  imports FatAllocated FatCreatedName FatNameTable FatDirReserved
begin

text \<open>
  A model of the allocation layer and of the names and directory entries of the FAT file
  system driver (src/filesys/fastfat), and the theorems that make them correct.

  \<^bold>\<open>The program.\<close> A volume is described by its volume control block (Vcb): the BIOS
  parameter block read from the boot sector, sizes derived from it, a bitmap of free
  clusters over one window of the FAT, and the cached \<open>volume file\<close>, which holds the
  reserved sectors and the file allocation table. allocsup.c reads and writes the table one
  entry or one run of entries at a time, marks the sectors it changed in the dirty FAT Mcb,
  and allocates, frees, splits and merges the runs of files.

  A directory is a file of 32-byte entries. A file has an entry with its name in 8.3 form
  (namesup.c) and its times (timesup.c), and in front of it, when the name does not fit that
  form, entries with the parts of its long name (dirsup.c). dirsup.c searches a directory by
  walking over its entries, and finds room for new ones with a bitmap of the entries in use in
  the directory's Dcb; the names of the files that are open are in two trees of the Dcb as well
  (splaysup.c), which FatConstructNamesInFcb (strucsup.c) fills.

  \<^bold>\<open>The theories.\<close>
  \<^item> FatPrelude: the Windows integer types, byte memory, operations that thread a state and
    may raise with try/finally, counted loops, word lemmas.
  \<^item> FatVcb: the parameter block and its macros (fat.h), the boot sector check (fsctrl.c),
    FatLogOf and the geometry part of FatSetupAllocationSupport (allocsup.c), the VCB record.
  \<^item> FatGeometry: which volumes a boot sector check admits (\<open>fat_fits\<close>), cluster numbers and
    device offsets.
  \<^item> FatMcb: the shims over the large Mcb package (fsctrl.c).
  \<^item> FatTable: FatInterpretClusterType, the packed 12-bit macros, FatLookupFatEntry,
    FatSetFatEntry (allocsup.c).
  \<^item> FatCodec: the locale \<open>fat_codec\<close>, an array of packed entries, with its laws of reading
    after writing, interpreted for the 12-, 16- and 32-bit layouts of the code.
  \<^item> FatEntry: lookup and store against that array; dirty marks, raises, the dirty-bit entry.
  \<^item> FatRun: FatSetFatRun, FatFreeClusters and FatAllocateClusters; the walking page pointer
    against one store per entry, chains, the bounds of the array of pinned buffers, the
    FAT32 unwind.
  \<^item> FatWindow: the free cluster bitmap, reservation of clusters and FatSelectBestWindow
    against a reference choice.
  \<^item> FatScan: FatExamineFatEntries in its three uses, FatSetupAllocationSupport,
    FatTearDownAllocationSupport.
  \<^item> FatStable: the locale \<open>fat_stable\<close> of predicates every operation on the FAT keeps, with
    two interpretations (the fields apart from the volume file, the kernel outcomes).
  \<^item> FatDealloc, FatFree, FatInvariant, FatZero: FatDeallocateDiskSpace; the invariant
    \<open>alloc_ok\<close> of the allocation layer (windows tile the clusters, bitmap and free counts agree
    with the FAT), that the setup establishes it and freeing keeps it; zeroing of freed space.
  \<^item> FatAllocate, FatChain, FatRounds, FatAllocated: FatAllocateDiskSpace; that it takes a chain
    of free clusters of the right length and keeps the invariant, that it ends and succeeds
    while enough clusters are free, and where it fails.
  \<^item> FatTime: the conversions of timesup.c and that they are inverse on times FAT can hold.
  \<^item> FatShortName, FatNameCase: 8.3 forms of names, the case bits, what FatEvaluateNameCase
    answers.
  \<^item> FatDirent: entries and long-name entries as bytes, FatConstructDirent.
  \<^item> FatLocate, FatSearch: the searches of a directory; the search for a short name against a
    search of the list of entries, and the choice of a short name that is not in use.
  \<^item> FatDirAlloc, FatDirAllocated, FatDirReserved: room for entries in a directory: the scan, the
    choice of entries with growth (cachesup.c, strucsup.c) and defragmentation, deletion; the
    invariant \<open>dir_ok\<close> that ties the bitmap and the hints of a Dcb to the entries on the disk.
  \<^item> FatLongName, FatCreatedName: that the walk collects the long name that construction
    stored, and the round trip from the name a file is created with to the name it has.
  \<^item> FatNames: the comparison of names as a linear order, and search and insertion of a tree
    against the locale \<open>name_table\<close>, a table of names, which the trees of the code interpret.
  \<^item> FatSplay, FatNameTable: the trees of the open files of a directory; the invariant that
    ties them to the flags of the Fcbs, and that they implement two finite maps from names to
    files, also where a file takes the name of another.

  \<^bold>\<open>How the model stands to the code.\<close> A routine is a function from the VCB to a raised
  status or a result and the VCB afterwards; a FatRaiseStatus or a raise of a kernel call is
  the left side of the sum. Kernel calls that may raise consult \<open>KernelResults\<close>, a list of
  outcomes that the theorems leave arbitrary. Words have the width of the C types and wrap.
  A pointer into pinned data is the offset in the volume file it addresses. Fuel is not
  used: loops are counted by \<open>for_loop\<close> with the number of rounds the C condition gives, or
  are functions with a termination proof; those that need not end for every input are
  partial functions into an option, and the properties about them state that they answer
  Some. An entry of a directory is its offset in the directory's file, and a conversion of a
  name that would run over its buffer answers None.

  \<^bold>\<open>Not modelled.\<close> Locks and other threads, pin counts and the lifetime of Bcbs, FatSetDirtyBcb
  and the volume dirty timer, debug output and assertions. Calls of the run-time library are
  recorded in the Mcb (additions, removals) or are parameters (lookups); the kernel's string,
  calendar and splay routines are parameters, and pool allocations do not fail; whether an Mdl
  can be allocated and mapped depends on its length only. Of allocsup.c, the routines that tie
  the chain of a file to the runs of its Mcb (FatLookupFileAllocation, FatAddFileAllocation,
  FatTruncateFileAllocation, and the split and merge they use) are left out: where a directory
  grows, FatAddFileAllocation is a parameter that answers the new size or raises and then leaves
  the directory as it was, and cutting it back restores the size. No property rests on what it
  answers: the results on new entries are for requests that fit into the directory and for
  directories that are full, and for pages that can be read. Defragmentation of a root directory
  is modelled, but only its refusal is covered by a property. Of dirsup.c, the routines that write the
  first two entries of a directory and that update entries through an Fcb are left out. The
  rest of the repository - other drivers, request handling - is listed with its reason in the
  manifest.
\<close>

end
